(* ===== verification/Prelude.thy ===== *)
theory Prelude
  imports Main "HOL-Library.Word"
begin

unbundle bit_operations_syntax

text \<open>
  Shared vocabulary of the development: bytes and little-endian words as the x86-64 build
  of the server lays them out, the outcomes a C++ call can have besides returning a value,
  the error monad that sequences calls, and the lemmas on them that every component uses.
\<close>

section \<open>Bytes\<close>

type_synonym byte = "8 word"
type_synonym bytes = "8 word list"
type_synonym int8 = "8 word"
type_synonym int16 = "16 word"
type_synonym int32 = "32 word"
type_synonym int64 = "64 word"

named_theorems reader_simps \<open>unfolding rules of the positional readers\<close>
named_theorems wire_simps \<open>facts on the encodings of single values\<close>

text \<open>The \<open>std::string\<close> contents of a C++ literal, and the C string view of it.\<close>

definition str :: "string \<Rightarrow> bytes" where
  "str s = map of_char s"

definition c_str :: "bytes \<Rightarrow> bytes" where
  "c_str s = takeWhile (\<lambda>c. c \<noteq> 0) s"

lemma str_Nil [simp]: "str [] = []"
  by (simp add: str_def)

lemma str_Cons [simp]: "str (c # cs) = of_char c # str cs"
  by (simp add: str_def)

lemma length_str [simp]: "length (str s) = length s"
  by (simp add: str_def)

section \<open>Little-endian words\<close>

text \<open>\<open>memcpy\<close> of the object representation of an integer: the low byte first.\<close>

primrec le_bytes :: "nat \<Rightarrow> 'a::len word \<Rightarrow> bytes" where
  "le_bytes 0 w = []"
| "le_bytes (Suc n) w = ucast w # le_bytes n (drop_bit 8 w)"

primrec le_word :: "bytes \<Rightarrow> 'a::len word" where
  "le_word [] = 0"
| "le_word (b # bs) = ucast b OR push_bit 8 (le_word bs)"

lemma length_le_bytes [simp]: "length (le_bytes n w) = n"
  by (induction n arbitrary: w) auto

lemma bit_le_word:
  "bit (le_word bs :: 'a::len word) i \<longleftrightarrow>
     i < LENGTH('a) \<and> i < 8 * length bs \<and> bit (bs ! (i div 8)) (i mod 8)"
proof (induction bs arbitrary: i)
  case Nil
  then show ?case by simp
next
  case (Cons b bs)
  show ?case
  proof (cases "i < 8")
    case True
    then show ?thesis
      by (auto simp: bit_or_iff bit_push_bit_iff bit_ucast_iff)
  next
    case False
    then have "i div 8 = Suc ((i - 8) div 8)" and "i mod 8 = (i - 8) mod 8"
      by (simp_all add: le_div_geq le_mod_geq)
    moreover have "\<not> bit b i"
      using False bit_imp_le_length by fastforce
    ultimately show ?thesis
      using False Cons [of "i - 8"]
      by (auto simp: bit_or_iff bit_push_bit_iff bit_ucast_iff)
  qed
qed

lemma nth_le_bytes:
  "i < n \<Longrightarrow> le_bytes n w ! i = ucast (drop_bit (8 * i) w)"
proof (induction n arbitrary: w i)
  case 0
  then show ?case by simp
next
  case (Suc n)
  then show ?case
    by (cases i) (auto simp: drop_bit_drop_bit add.commute)
qed

lemma le_word_le_bytes:
  assumes "LENGTH('a::len) \<le> 8 * n"
  shows "le_word (le_bytes n (w :: 'a word)) = w"
proof (rule bit_word_eqI)
  fix i
  assume i: "i < LENGTH('a)"
  then have "i div 8 < n"
    using assms by linarith
  moreover have "8 * (i div 8) + i mod 8 = i" by simp
  ultimately show "bit (le_word (le_bytes n w) :: 'a word) i = bit w i"
    using i assms by (simp add: bit_le_word nth_le_bytes bit_ucast_iff bit_drop_bit_eq)
qed

lemma le_word_8 [simp]: "le_word (le_bytes (Suc 0) w) = (w :: 8 word)"
  by (rule le_word_le_bytes) simp

lemma le_word_16 [simp]: "le_word (le_bytes 2 w) = (w :: 16 word)"
  by (rule le_word_le_bytes) simp

lemma le_word_32 [simp]: "le_word (le_bytes 4 w) = (w :: 32 word)"
  by (rule le_word_le_bytes) simp

lemma le_word_64 [simp]: "le_word (le_bytes 8 w) = (w :: 64 word)"
  by (rule le_word_le_bytes) simp

section \<open>Outcomes of a call\<close>

text \<open>
  A call returns a value, or ends in one of the following ways. \<open>Ret_null\<close> is the
  regular error path of the code (a null pointer or \<open>false\<close> is returned); the others
  end the server: an \<open>assert\<close> that fires (the image is built with the build type
  Debug, so assertions are compiled in), a null pointer that is dereferenced, a
  \<open>std::vector::at\<close> out of range, an object used at a class it does not have,
  an exception of a library that nothing catches, a use outside its contract (a copy of a
  negative length, an iterator before the start of its vector, a pointer to a deleted object).
  \<open>Diverge\<close> marks exhausted fuel in the model.
\<close>

datatype fault =
    Ret_null
  | Assert_fail
  | Null_deref
  | Out_of_range
  | Bad_cast
  | Lib_throw
  | Undefined_behaviour
  | Diverge

type_synonym 'a result = "fault + 'a"

definition ebind :: "'e + 'a \<Rightarrow> ('a \<Rightarrow> 'e + 'b) \<Rightarrow> 'e + 'b" where
  "ebind m f = (case m of Inl e \<Rightarrow> Inl e | Inr x \<Rightarrow> f x)"

lemma ebind_simps [simp]:
  "ebind (Inl e) f = Inl e"
  "ebind (Inr x) f = f x"
  by (simp_all add: ebind_def)

lemma ebind_cong [fundef_cong]:
  assumes "m = m'" and "\<And>x. m' = Inr x \<Longrightarrow> f x = f' x"
  shows "ebind m f = ebind m' f'"
  using assms by (cases m') auto

lemma ebind_Inr_conv:
  "ebind m f = Inr y \<longleftrightarrow> (\<exists>x. m = Inr x \<and> f x = Inr y)"
  by (cases m) auto

lemma ebind_Inl_conv:
  "ebind m f = Inl e \<longleftrightarrow> m = Inl e \<or> (\<exists>x. m = Inr x \<and> f x = Inl e)"
  by (cases m) auto

lemma ebind_assoc: "ebind (ebind m f) g = ebind m (\<lambda>x. ebind (f x) g)"
  by (cases m) auto

definition assert_that :: "bool \<Rightarrow> unit result" where
  "assert_that b = (if b then Inr () else Inl Assert_fail)"

lemma assert_that_simps [simp]:
  "assert_that True = Inr ()"
  "assert_that False = Inl Assert_fail"
  by (simp_all add: assert_that_def)

text \<open>\<open>std::vector::at\<close>.\<close>

definition vec_at :: "'a list \<Rightarrow> nat \<Rightarrow> 'a result" where
  "vec_at xs i = (if i < length xs then Inr (xs ! i) else Inl Out_of_range)"

definition vec_set :: "'a list \<Rightarrow> nat \<Rightarrow> 'a \<Rightarrow> 'a list result" where
  "vec_set xs i x = (if i < length xs then Inr (xs[i := x]) else Inl Out_of_range)"

text \<open>Run a call on each element in turn, stopping at the first that fails.\<close>

primrec emap :: "('a \<Rightarrow> 'e + 'b) \<Rightarrow> 'a list \<Rightarrow> 'e + 'b list" where
  "emap f [] = Inr []"
| "emap f (x # xs) = ebind (f x) (\<lambda>y. ebind (emap f xs) (\<lambda>ys. Inr (y # ys)))"

lemma emap_cong [fundef_cong]:
  "xs = ys \<Longrightarrow> (\<And>x. x \<in> set ys \<Longrightarrow> f x = g x) \<Longrightarrow> emap f xs = emap g ys"
  by (induction ys arbitrary: xs) auto

lemma length_emap: "emap f xs = Inr ys \<Longrightarrow> length ys = length xs"
  by (induction xs arbitrary: ys) (auto simp: ebind_Inr_conv)

lemma emap_Inr_list_all2:
  "emap f xs = Inr ys \<longleftrightarrow> list_all2 (\<lambda>x y. f x = Inr y) xs ys"
proof (induction xs arbitrary: ys)
  case Nil
  then show ?case by auto
next
  case (Cons x xs)
  then show ?case by (auto simp: ebind_Inr_conv list_all2_Cons1)
qed

section \<open>Invariants of step relations\<close>

text \<open>
  The interface of the components that are state machines: a step relation, a resource that steps
  only consume, and an invariant that every step keeps as long as the resource lasts. Where
  nothing is consumed the resource is constant.
\<close>

locale bounded_system =
  fixes step :: "'s \<Rightarrow> 's \<Rightarrow> bool"
    and used :: "'s \<Rightarrow> nat"
    and limit :: nat
    and inv :: "'s \<Rightarrow> bool"
  assumes used_mono: "step s t \<Longrightarrow> used s \<le> used t"
    and inv_step: "inv s \<Longrightarrow> step s t \<Longrightarrow> used t < limit \<Longrightarrow> inv t"
begin

lemma used_steps: "step\<^sup>*\<^sup>* s t \<Longrightarrow> used s \<le> used t"
  by (induction rule: rtranclp_induct) (auto dest: used_mono)

lemma inv_steps:
  assumes "step\<^sup>*\<^sup>* s t" "inv s" "used t < limit"
  shows "inv t"
  using assms
proof (induction rule: rtranclp_induct)
  case base
  then show ?case by simp
next
  case (step t u)
  then show ?case
    using used_mono [OF step.hyps(2)] inv_step by (metis le_less_trans)
qed

end

end
