(* ===== verification/PyRep.thy ===== *)
theory PyRep
  imports Prelude "HOL-Library.Signed_Division"
begin

text \<open>
  The Python object model of \<open>eve-common/python/PyRep.h\<close> and \<open>PyRep.cpp\<close>: one constructor
  per class, \<open>PyNull\<close> for a null pointer, the accessors, the hash of every class and the
  containers. Objects are values, so \<open>Clone\<close> is the identity and reference counts are not
  modelled. A real is the 64-bit pattern of its \<open>double\<close>. A \<open>PyDict\<close> lists its entries in
  iteration order, which \<open>std::unordered_map\<close> leaves unspecified: a new entry is put last
  here, and no lemma depends on where it is.
\<close>

section \<open>Objects\<close>

datatype pyrep =
    PyNull
  | PyInt int32
  | PyLong int64
  | PyFloat "64 word"
  | PyBool bool
  | PyNone
  | PyBuffer bytes
  | PyString bytes
  | PyWString bytes
  | PyToken bytes
  | PyTuple "pyrep list"
  | PyList "pyrep list"
  | PyDict "(pyrep \<times> pyrep) list"
  | PyObject bytes pyrep
  | PyObjectEx bool pyrep "pyrep list" "(pyrep \<times> pyrep) list"
  | PyPackedRow pyrep "pyrep list"
  | PySubStruct pyrep
  | PySubStream "bytes option" "pyrep option"
  | PyChecksumedStream pyrep int32

type_synonym entries = "(pyrep \<times> pyrep) list"

lemma size_entry [termination_simp]:
  assumes "(k, v) \<in> set es"
  shows "size k < Suc (size_list (size_prod size size) es)"
    and "size v < Suc (size_list (size_prod size size) es)"
  using assms by (induction es) auto

fun items_of :: "pyrep \<Rightarrow> pyrep list" where
  "items_of (PyTuple xs) = xs"
| "items_of (PyList xs) = xs"
| "items_of _ = []"

text \<open>
  The \<open>As...\<close> accessors assert the class of the object; on a null pointer the type tag
  is read through it.
\<close>

definition AsTuple :: "pyrep \<Rightarrow> pyrep list result" where
  "AsTuple r = (case r of PyTuple xs \<Rightarrow> Inr xs | PyNull \<Rightarrow> Inl Null_deref | _ \<Rightarrow> Inl Assert_fail)"

definition AsList :: "pyrep \<Rightarrow> pyrep list result" where
  "AsList r = (case r of PyList xs \<Rightarrow> Inr xs | PyNull \<Rightarrow> Inl Null_deref | _ \<Rightarrow> Inl Assert_fail)"

definition AsDict :: "pyrep \<Rightarrow> entries result" where
  "AsDict r = (case r of PyDict es \<Rightarrow> Inr es | PyNull \<Rightarrow> Inl Null_deref | _ \<Rightarrow> Inl Assert_fail)"

definition AsToken :: "pyrep \<Rightarrow> bytes result" where
  "AsToken r = (case r of PyToken s \<Rightarrow> Inr s | PyNull \<Rightarrow> Inl Null_deref | _ \<Rightarrow> Inl Assert_fail)"

definition StringContent :: "pyrep \<Rightarrow> bytes" where
  "StringContent r = (case r of PyString s \<Rightarrow> s | PyWString s \<Rightarrow> s | _ \<Rightarrow> [])"

section \<open>Doubles\<close>

text \<open>
  The value of a finite IEEE 754 double is \<open>(-1) ^ sign * mantissa * 2 ^ exponent\<close> with
  a mantissa below \<open>2 ^ 53\<close> and an exponent of at least \<open>-1074\<close>.
\<close>

definition dbl_negative :: "64 word \<Rightarrow> bool" where
  "dbl_negative d \<longleftrightarrow> bit d 63"

definition dbl_field :: "64 word \<Rightarrow> nat" where
  "dbl_field d = unat (take_bit 11 (drop_bit 52 d))"

definition dbl_fraction :: "64 word \<Rightarrow> nat" where
  "dbl_fraction d = unat (take_bit 52 d)"

definition dbl_nan :: "64 word \<Rightarrow> bool" where
  "dbl_nan d \<longleftrightarrow> dbl_field d = 2047 \<and> dbl_fraction d \<noteq> 0"

definition dbl_infinite :: "64 word \<Rightarrow> bool" where
  "dbl_infinite d \<longleftrightarrow> dbl_field d = 2047 \<and> dbl_fraction d = 0"

definition dbl_mantissa :: "64 word \<Rightarrow> nat" where
  "dbl_mantissa d = dbl_fraction d + (if dbl_field d = 0 then 0 else 2 ^ 52)"

definition dbl_exponent :: "64 word \<Rightarrow> int" where
  "dbl_exponent d = int (max (dbl_field d) 1) - 1075"

definition dbl_is_zero :: "64 word \<Rightarrow> bool" where
  "dbl_is_zero d \<longleftrightarrow> take_bit 63 d = 0"

text \<open>The integral part of a finite double (\<open>modf\<close>), and whether anything is left.\<close>

definition dbl_trunc :: "64 word \<Rightarrow> int" where
  "dbl_trunc d =
     (let m = dbl_mantissa d; e = dbl_exponent d;
          a = (if 0 \<le> e then m * 2 ^ nat e else m div 2 ^ nat (- e))
      in if dbl_negative d then - int a else int a)"

definition dbl_integral :: "64 word \<Rightarrow> bool" where
  "dbl_integral d \<longleftrightarrow> 0 \<le> dbl_exponent d \<or> dbl_mantissa d mod 2 ^ nat (- dbl_exponent d) = 0"

fun bit_length :: "nat \<Rightarrow> nat" where
  "bit_length n = (if n = 0 then 0 else Suc (bit_length (n div 2)))"

declare bit_length.simps [simp del]

text \<open>The double nearest to an integer, ties to even.\<close>

definition dbl_of_int :: "int \<Rightarrow> 64 word" where
  "dbl_of_int i =
     (if i = 0 then 0 else
      let m = nat \<bar>i\<bar>; len = bit_length m; s = len - 53;
          q = m div 2 ^ s; r = m mod 2 ^ s;
          up = (0 < s \<and> (2 ^ (s - 1) < r \<or> (r = 2 ^ (s - 1) \<and> odd q)));
          q' = (if up then q + 1 else q);
          (sig, ex) = (if q' = 2 ^ 53 then (2 ^ 52, len + 1) else (q' * 2 ^ (53 - len), len))
      in (if i < 0 then push_bit 63 1 else 0) OR
         push_bit 52 (word_of_nat (ex + 1022)) OR word_of_nat (sig - 2 ^ 52))"

text \<open>
  What the language or the platform leaves open: \<open>std::hash<std::string>\<close>, the address
  of a \<open>PyNone\<close>, the conversions of a NaN or of a double past the range of
  \<open>int64\<close>, whose behaviour is undefined, and \<open>utf8::utf16to8\<close> of the utf8cpp library,
  which throws on unpaired surrogates (\<open>None\<close>).
\<close>

record env =
  str_hash :: "bytes \<Rightarrow> 64 word"
  none_address :: int64
  nan_hash :: int32
  wide_real :: "64 word \<Rightarrow> int64"
  utf16to8 :: "int16 list \<Rightarrow> bytes option"

definition dbl_to_int64 :: "env \<Rightarrow> 64 word \<Rightarrow> int64" where
  "dbl_to_int64 env d =
     (if dbl_field d < 2047 \<and> - (2 ^ 63) \<le> dbl_trunc d \<and> dbl_trunc d < 2 ^ 63
      then word_of_int (dbl_trunc d) else wide_real env d)"

definition IntegerValue :: "env \<Rightarrow> pyrep \<Rightarrow> int64" where
  "IntegerValue env r =
     (case r of
        PyInt i \<Rightarrow> scast i
      | PyLong l \<Rightarrow> l
      | PyFloat d \<Rightarrow> dbl_to_int64 env d
      | PyBool b \<Rightarrow> (if b then 1 else 0)
      | _ \<Rightarrow> 0)"

definition FloatValue :: "pyrep \<Rightarrow> 64 word" where
  "FloatValue r =
     (case r of
        PyInt i \<Rightarrow> dbl_of_int (sint i)
      | PyLong l \<Rightarrow> dbl_of_int (sint l)
      | PyFloat d \<Rightarrow> d
      | PyBool b \<Rightarrow> dbl_of_int (if b then 1 else 0)
      | _ \<Rightarrow> 0)"

section \<open>Hashes\<close>

definition no_minus_one :: "'a::len word \<Rightarrow> 'a word" where
  "no_minus_one x = (if x = - 1 then - 2 else x)"

definition int_hash :: "int32 \<Rightarrow> int32" where
  "int_hash i = no_minus_one i"

text \<open>One round per byte, the most significant first, with the carry added back.\<close>

definition long_hash_round :: "byte \<Rightarrow> 64 word \<Rightarrow> 64 word" where
  "long_hash_round b x =
     (let x1 = (push_bit 15 x AND NOT 0x7FFF) OR (drop_bit 49 x AND 0x7FFF);
          x2 = x1 + ucast b
      in if x2 < ucast b then x2 + 1 else x2)"

definition long_hash :: "int64 \<Rightarrow> int32" where
  "long_hash v = ucast (no_minus_one (fold long_hash_round (rev (le_bytes 8 v)) 0))"

definition frac_hash :: "64 word \<Rightarrow> int32" where
  "frac_hash d =
     (let m = dbl_mantissa d; len = bit_length m;
          t = m * 2 ^ (62 - len);
          parts = int (t div 2 ^ 31) + int (t mod 2 ^ 31);
          expo = dbl_exponent d + int len;
          x = word_of_int (if dbl_negative d then - parts else parts)
              + push_bit 15 (word_of_int expo) :: int64
      in ucast (no_minus_one x))"

definition real_hash :: "env \<Rightarrow> 64 word \<Rightarrow> int32" where
  "real_hash env d =
     (if dbl_nan d then nan_hash env
      else if dbl_infinite d then long_hash (if dbl_negative d then - 271828 else 314159)
      else if dbl_integral d then
        (if 2147483647 < \<bar>dbl_trunc d\<bar> then long_hash (dbl_to_int64 env d)
         else no_minus_one (word_of_int (dbl_trunc d)))
      else frac_hash d)"

definition buffer_hash :: "bytes \<Rightarrow> int32 result" where
  "buffer_hash bs =
     (case bs of
        [] \<Rightarrow> Inl Assert_fail
      | b # _ \<Rightarrow>
          (let len = word_of_nat (length bs) :: int32;
               n = (if sint len < 0 then 0 else unat len);
               x = fold (\<lambda>c x. (1000003 * x) XOR ucast c) (take n bs) (push_bit 7 (ucast b))
           in Inr (no_minus_one (x XOR word_of_nat (length bs)))))"

definition string_hash :: "env \<Rightarrow> bytes \<Rightarrow> int32" where
  "string_hash env s = (if s = [] then 0 else ucast (str_hash env s))"

primrec hash_items ::
    "('a \<Rightarrow> int32 result) \<Rightarrow> int64 \<Rightarrow> int64 \<Rightarrow> 'a list \<Rightarrow> int32 result" where
  "hash_items h x mult [] = Inr (ucast (no_minus_one (x + 97531)))"
| "hash_items h x mult (i # is) =
     ebind (h i) (\<lambda>y.
       if y = - 1 then Inr (- 1)
       else hash_items h ((x XOR scast y) * mult)
              (mult + 82520 + word_of_nat (length is) + word_of_nat (length is)) is)"

lemma hash_items_cong [fundef_cong]:
  "xs = ys \<Longrightarrow> (\<And>i. i \<in> set ys \<Longrightarrow> h i = g i) \<Longrightarrow> x = x' \<Longrightarrow> mult = mult' \<Longrightarrow>
   hash_items h x mult xs = hash_items g x' mult' ys"
  by (induction ys arbitrary: xs x mult x' mult') (auto intro!: ebind_cong)

fun py_hash :: "env \<Rightarrow> pyrep \<Rightarrow> int32 result" where
  "py_hash env (PyInt i) = Inr (int_hash i)"
| "py_hash env (PyLong l) = Inr (long_hash l)"
| "py_hash env (PyFloat d) = Inr (real_hash env d)"
| "py_hash env PyNone = Inr (ucast (none_address env))"
| "py_hash env (PyBuffer bs) = buffer_hash bs"
| "py_hash env (PyString s) = Inr (string_hash env s)"
| "py_hash env (PyWString s) = Inr (string_hash env s)"
| "py_hash env (PyTuple xs) = hash_items (\<lambda>x. py_hash env x) 0x345678 1000003 xs"
| "py_hash env (PyPackedRow h fs) = Inl Assert_fail"
| "py_hash env PyNull = Inl Null_deref"
| "py_hash env _ = Inr (- 1)"

section \<open>Containers\<close>

definition Tuple_SetItem :: "pyrep list \<Rightarrow> nat \<Rightarrow> pyrep \<Rightarrow> pyrep list result" where
  "Tuple_SetItem xs i r = vec_set xs i (if r = PyNull then PyNone else r)"

definition List_SetItem :: "pyrep list \<Rightarrow> nat \<Rightarrow> pyrep \<Rightarrow> pyrep list result" where
  "List_SetItem xs i r = vec_set xs i (if r = PyNull then PyNone else r)"

definition List_AddItem :: "pyrep list \<Rightarrow> pyrep \<Rightarrow> pyrep list" where
  "List_AddItem xs r = xs @ [r]"

text \<open>
  \<open>std::unordered_map\<close> finds an entry by the hash of its key alone, since the key
  comparison of \<open>PyDict\<close> compares hashes.
\<close>

fun find_hash :: "env \<Rightarrow> int32 \<Rightarrow> entries \<Rightarrow> nat option" where
  "find_hash env h [] = None"
| "find_hash env h ((k, v) # es) =
     (if py_hash env k = Inr h then Some 0 else map_option Suc (find_hash env h es))"

definition Dict_GetItem :: "env \<Rightarrow> entries \<Rightarrow> pyrep \<Rightarrow> pyrep result" where
  "Dict_GetItem env es key =
     ebind (assert_that (key \<noteq> PyNull)) (\<lambda>_.
     ebind (py_hash env key) (\<lambda>h.
       Inr (case find_hash env h es of None \<Rightarrow> PyNull | Some n \<Rightarrow> snd (es ! n))))"

definition Dict_GetItemString :: "env \<Rightarrow> entries \<Rightarrow> bytes \<Rightarrow> pyrep result" where
  "Dict_GetItemString env es key = Dict_GetItem env es (PyString (c_str key))"

definition Dict_SetItem :: "env \<Rightarrow> entries \<Rightarrow> pyrep \<Rightarrow> pyrep \<Rightarrow> entries result" where
  "Dict_SetItem env es key v =
     (if key = PyNull then Inr es else
      ebind (py_hash env key) (\<lambda>h.
        if h = - 1 then Inr es else
        case find_hash env h es of
          None \<Rightarrow> Inr (es @ [(key, v)])
        | Some n \<Rightarrow> Inr (es[n := (fst (es ! n), if v = PyNull then PyNone else v)])))"

primrec Dict_copy :: "env \<Rightarrow> entries \<Rightarrow> entries \<Rightarrow> entries result" where
  "Dict_copy env es [] = Inr es"
| "Dict_copy env es (kv # kvs) =
     ebind (Dict_SetItem env es (fst kv) (snd kv)) (\<lambda>es'. Dict_copy env es' kvs)"

definition Dict_assign :: "env \<Rightarrow> entries \<Rightarrow> entries result" where
  "Dict_assign env oth = Dict_copy env [] oth"

section \<open>Conversions between integers and doubles\<close>

lemma bit_length_bounds:
  "0 < m \<Longrightarrow> 0 < bit_length m \<and> 2 ^ (bit_length m - 1) \<le> m \<and> m < 2 ^ bit_length m"
proof (induction m rule: bit_length.induct)
  case (1 n)
  show ?case
  proof (cases "n div 2 = 0")
    case True
    then have "n = 1" using 1 by auto
    then show ?thesis by (simp add: bit_length.simps)
  next
    case False
    with 1 have IH: "0 < bit_length (n div 2)" "2 ^ (bit_length (n div 2) - 1) \<le> n div 2"
      "n div 2 < 2 ^ bit_length (n div 2)"
      by auto
    obtain k where k: "bit_length (n div 2) = Suc k"
      using IH(1) gr0_conv_Suc by blast
    have "bit_length n = Suc (Suc k)"
      using 1 k by (subst bit_length.simps) simp
    moreover have "2 ^ k \<le> n div 2" "n div 2 < 2 * 2 ^ k"
      using IH(2,3) k by simp_all
    then have "2 * 2 ^ k \<le> n" "n < 2 * (2 * 2 ^ k)"
      by linarith+
    ultimately show ?thesis by (simp only: power_Suc diff_Suc_1 zero_less_Suc simp_thms)
  qed
qed

lemma bit_length_le: "m < 2 ^ n \<Longrightarrow> bit_length m \<le> n"
proof (cases "m = 0")
  case False
  assume "m < 2 ^ n"
  moreover have "2 ^ (bit_length m - 1) \<le> m"
    using bit_length_bounds [of m] False by simp
  ultimately have "(2 :: nat) ^ (bit_length m - 1) < 2 ^ n" by linarith
  then have "bit_length m - 1 < n" by simp
  then show ?thesis by linarith
qed (simp add: bit_length.simps)

text \<open>The fields of a double assembled from a sign, an exponent field and a fraction.\<close>

lemma dbl_fields:
  fixes sg :: bool
  assumes e: "e < 2 ^ 11" and f: "f < 2 ^ 52"
  defines "d \<equiv> (if sg then push_bit 63 1 else 0) OR push_bit 52 (word_of_nat e) OR word_of_nat f :: 64 word"
  shows "dbl_negative d = sg" "dbl_field d = e" "dbl_fraction d = f"
proof -
  have fbit: "\<not> bit f i" if "52 \<le> i" for i
  proof -
    have "f < 2 ^ i" using f that by (meson less_le_trans one_le_numeral power_increasing)
    then show ?thesis by (simp add: bit_iff_odd)
  qed
  have ebit: "\<not> bit e i" if "11 \<le> i" for i
  proof -
    have "e < 2 ^ i" using e that by (meson less_le_trans one_le_numeral power_increasing)
    then show ?thesis by (simp add: bit_iff_odd)
  qed
  have sgn: "bit (if sg then push_bit 63 1 else 0 :: 64 word) i \<longleftrightarrow> sg \<and> i = 63" for i
    unfolding bit_push_bit_iff if_split [of "\<lambda>w. bit w i"] by (auto simp: bit_1_iff)
  have d: "bit d i \<longleftrightarrow> (sg \<and> i = 63) \<or> (52 \<le> i \<and> i < 64 \<and> bit e (i - 52)) \<or> (i < 64 \<and> bit f i)" for i
    unfolding d_def bit_or_iff sgn by (auto simp: bit_push_bit_iff bit_of_nat_iff)
  show "dbl_negative d = sg"
    using fbit [of 63] ebit [of 11] by (simp add: dbl_negative_def d)
  have "take_bit 11 (drop_bit 52 d) = word_of_nat e"
  proof (rule bit_word_eqI)
    fix i assume "i < LENGTH(64)"
    then show "bit (take_bit 11 (drop_bit 52 d)) i = bit (word_of_nat e :: 64 word) i"
      using fbit [of "52 + i"] ebit [of i] by (cases "11 \<le> i") (auto simp: bit_take_bit_iff bit_drop_bit_eq d bit_of_nat_iff)
  qed
  then show "dbl_field d = e"
    using e by (simp add: dbl_field_def unsigned_of_nat take_bit_nat_eq_self)
  have "take_bit 52 d = word_of_nat f"
  proof (rule bit_word_eqI)
    fix i assume "i < LENGTH(64)"
    then show "bit (take_bit 52 d) i = bit (word_of_nat f :: 64 word) i"
      using fbit [of i] by (cases "52 \<le> i") (auto simp: bit_take_bit_iff d bit_of_nat_iff)
  qed
  then show "dbl_fraction d = f"
    using f by (simp add: dbl_fraction_def unsigned_of_nat take_bit_nat_eq_self)
qed

lemma dbl_of_int_exact:
  assumes i: "\<bar>i\<bar> < 2 ^ 53"
  shows "dbl_trunc (dbl_of_int i) = i" "dbl_integral (dbl_of_int i)" "dbl_field (dbl_of_int i) < 2047"
proof -
  have "dbl_trunc (dbl_of_int i) = i \<and> dbl_integral (dbl_of_int i) \<and> dbl_field (dbl_of_int i) < 2047"
  proof (cases "i = 0")
    case True
    then show ?thesis
      by (simp add: dbl_of_int_def dbl_trunc_def dbl_integral_def dbl_mantissa_def dbl_fraction_def
          dbl_field_def dbl_exponent_def Let_def)
  next
    case False
    define m len where "m = nat \<bar>i\<bar>" and "len = bit_length m"
    have m: "0 < m" "m < 2 ^ 53" using i False by (simp_all add: m_def nat_less_iff)
    have len: "0 < len" "2 ^ (len - 1) \<le> m" "m < 2 ^ len" "len \<le> 53"
      using bit_length_bounds [OF m(1)] bit_length_le [OF m(2)] by (simp_all add: len_def)
    define sig where "sig = m * 2 ^ (53 - len)"
    have sig: "2 ^ 52 \<le> sig" "sig < 2 ^ 53"
    proof -
      have "2 ^ 52 = 2 ^ (len - 1) * (2 :: nat) ^ (53 - len)"
        using len by (simp flip: power_add)
      also have "\<dots> \<le> sig" using len by (simp add: sig_def)
      finally show "2 ^ 52 \<le> sig" .
      have "sig < 2 ^ len * 2 ^ (53 - len)" using len by (simp add: sig_def)
      also have "\<dots> = 2 ^ 53" using len by (simp flip: power_add)
      finally show "sig < 2 ^ 53" .
    qed
    have d: "dbl_of_int i = (if i < 0 then push_bit 63 1 else 0) OR
        push_bit 52 (word_of_nat (len + 1022)) OR word_of_nat (sig - 2 ^ 52)"
      using False len m by (simp add: dbl_of_int_def m_def [symmetric] len_def [symmetric] sig_def Let_def)
    have lim: "len + 1022 < 2 ^ 11" "sig - 2 ^ 52 < 2 ^ 52" using len sig by simp_all
    note f = dbl_fields [OF lim, of "i < 0", folded d]
    have mant: "dbl_mantissa (dbl_of_int i) = sig" and ex: "dbl_exponent (dbl_of_int i) = int len - 53"
      using f(2,3) sig by (simp_all add: dbl_mantissa_def dbl_exponent_def)
    have "dbl_trunc (dbl_of_int i) = (if i < 0 then - int m else int m) \<and> dbl_integral (dbl_of_int i)"
    proof (cases "len = 53")
      case True
      then show ?thesis
        using f(1) mant ex by (simp add: dbl_trunc_def dbl_integral_def sig_def)
    next
      case False
      then have "nat (53 - int len) = 53 - len" "\<not> 0 \<le> int len - 53" using len by simp_all
      then show ?thesis
        using f(1) mant ex by (simp add: dbl_trunc_def dbl_integral_def sig_def)
    qed
    moreover have "(if i < 0 then - int m else int m) = i" by (simp add: m_def)
    ultimately show ?thesis using f(2) len by simp
  qed
  then show "dbl_trunc (dbl_of_int i) = i" "dbl_integral (dbl_of_int i)" "dbl_field (dbl_of_int i) < 2047"
    by simp_all
qed

section \<open>Properties of the hashes\<close>

lemma no_minus_one_neq [simp]:
  assumes "2 \<le> LENGTH('a)"
  shows "no_minus_one (x :: 'a::len word) \<noteq> - 1"
proof -
  have "(- 2 :: 'a word) \<noteq> - 1"
  proof
    assume "(- 2 :: 'a word) = - 1"
    then have "1 + 1 = (1 :: 'a word) + 0"
      by (simp only: neg_equal_iff_equal one_add_one add_0_right)
    then have "(1 :: 'a word) = 0" by (simp only: add_left_cancel)
    then show False using assms by simp
  qed
  then show ?thesis by (simp add: no_minus_one_def)
qed

text \<open>A real with an integral value of at most 31 bits hashes as the \<open>PyInt\<close> of that value.\<close>

lemma real_hash_of_int:
  assumes "\<bar>i\<bar> \<le> 2147483647"
  shows "real_hash env (dbl_of_int i) = int_hash (word_of_int i)"
proof -
  have "\<bar>i\<bar> < 2 ^ 53" using assms by simp
  note ex = dbl_of_int_exact [OF this]
  have "\<not> dbl_nan (dbl_of_int i)" "\<not> dbl_infinite (dbl_of_int i)" "\<not> 2147483647 < \<bar>i\<bar>"
    using ex(3) assms unfolding dbl_nan_def dbl_infinite_def by linarith+
  then show ?thesis
    unfolding real_hash_def ex(1) int_hash_def using ex(2) by (simp only: if_True if_False)
qed

section \<open>The dictionary as a map\<close>

definition dict_map :: "env \<Rightarrow> entries \<Rightarrow> int32 \<Rightarrow> pyrep option" where
  "dict_map env es h = map_option (\<lambda>n. snd (es ! n)) (find_hash env h es)"

definition dict_ok :: "env \<Rightarrow> entries \<Rightarrow> bool" where
  "dict_ok env es \<longleftrightarrow>
     (\<forall>(k, v)\<in>set es. k \<noteq> PyNull \<and> (\<exists>h. py_hash env k = Inr h \<and> h \<noteq> - 1)) \<and>
     distinct (map (\<lambda>e. py_hash env (fst e)) es)"

lemma find_hash_None:
  "find_hash env h es = None \<longleftrightarrow> (\<forall>e\<in>set es. py_hash env (fst e) \<noteq> Inr h)"
proof (induction es)
  case (Cons e es)
  then show ?case by (cases e) auto
qed simp

lemma find_hash_Some:
  "find_hash env h es = Some n \<Longrightarrow> n < length es \<and> py_hash env (fst (es ! n)) = Inr h"
  by (induction es arbitrary: n) (auto split: if_splits)

lemma find_hash_append:
  "find_hash env h (es @ fs) =
     (case find_hash env h es of Some n \<Rightarrow> Some n
      | None \<Rightarrow> map_option (\<lambda>n. n + length es) (find_hash env h fs))"
  by (induction es) (auto split: option.splits simp: option.map_comp comp_def option.map_ident)

lemma find_hash_update:
  "n < length es \<Longrightarrow> py_hash env k = py_hash env (fst (es ! n)) \<Longrightarrow>
   find_hash env h (es[n := (k, v)]) = find_hash env h es"
  by (induction es arbitrary: n) (auto split: nat.splits)

lemma dict_map_Nil [simp]: "dict_map env [] = (\<lambda>_. None)"
  by (simp add: dict_map_def fun_eq_iff)

lemma Dict_SetItem_fresh:
  assumes ok: "dict_ok env es" and k: "k \<noteq> PyNull" "py_hash env k = Inr h" "h \<noteq> - 1"
    and new: "dict_map env es h = None"
  shows "Dict_SetItem env es k v = Inr (es @ [(k, v)])"
    "dict_ok env (es @ [(k, v)])"
    "dict_map env (es @ [(k, v)]) = (dict_map env es)(h \<mapsto> v)"
proof -
  have none: "find_hash env h es = None" using new by (simp add: dict_map_def)
  then show "Dict_SetItem env es k v = Inr (es @ [(k, v)])"
    using k by (simp add: Dict_SetItem_def)
  have "\<forall>e\<in>set es. py_hash env (fst e) \<noteq> Inr h" using none find_hash_None by blast
  then show "dict_ok env (es @ [(k, v)])"
    using ok k by (auto simp: dict_ok_def)
  show "dict_map env (es @ [(k, v)]) = (dict_map env es)(h \<mapsto> v)"
  proof
    fix g
    show "dict_map env (es @ [(k, v)]) g = ((dict_map env es)(h \<mapsto> v)) g"
    proof (cases "find_hash env g es")
      case None
      then show ?thesis
        using k by (auto simp: dict_map_def find_hash_append)
    next
      case (Some n)
      then show ?thesis
        using none find_hash_Some [OF Some] by (auto simp: dict_map_def find_hash_append nth_append)
    qed
  qed
qed

lemma Dict_SetItem_present:
  fixes v :: pyrep
  assumes ok: "dict_ok env es" and k: "k \<noteq> PyNull" "py_hash env k = Inr h" "h \<noteq> - 1"
    and old: "dict_map env es h = Some w"
  defines "v' \<equiv> if v = PyNull then PyNone else v"
  shows "\<exists>es'. Dict_SetItem env es k v = Inr es' \<and> dict_ok env es' \<and>
    map fst es' = map fst es \<and> dict_map env es' = (dict_map env es)(h \<mapsto> v')"
proof -
  obtain n where n: "find_hash env h es = Some n" using old by (auto simp: dict_map_def)
  note nb = find_hash_Some [OF n]
  define es' where "es' = es[n := (fst (es ! n), v')]"
  have hashes: "map (\<lambda>e. py_hash env (fst e)) es' = map (\<lambda>e. py_hash env (fst e)) es"
    using nb by (simp add: es'_def map_update list_update_same_conv)
  have keys: "map fst es' = map fst es"
    using nb by (simp add: es'_def map_update list_update_same_conv)
  have good: "(\<forall>(k, v)\<in>set fs. P k) \<longleftrightarrow> (\<forall>k\<in>set (map fst fs). P k)" for fs :: entries and P
    by auto
  have "dict_ok env es'"
    using ok unfolding dict_ok_def hashes good keys .
  moreover have "dict_map env es' = (dict_map env es)(h \<mapsto> v')"
  proof
    fix g
    have fg: "find_hash env g es' = find_hash env g es"
      unfolding es'_def using nb by (intro find_hash_update) simp_all
    show "dict_map env es' g = ((dict_map env es)(h \<mapsto> v')) g"
    proof (cases "find_hash env g es")
      case None
      then show ?thesis using n fg by (auto simp: dict_map_def)
    next
      case (Some m)
      then have "m = n \<longleftrightarrow> g = h"
        using find_hash_Some [OF Some] nb n by auto
      then show ?thesis
        using Some nb n fg by (auto simp: dict_map_def es'_def nth_list_update)
    qed
  qed
  ultimately show ?thesis
    using n k keys by (auto simp: Dict_SetItem_def es'_def v'_def)
qed

lemma Dict_GetItem_map:
  assumes "k \<noteq> PyNull" "py_hash env k = Inr h"
  shows "Dict_GetItem env es k =
    Inr (case dict_map env es h of None \<Rightarrow> PyNull | Some v \<Rightarrow> v)"
  using assms by (simp add: Dict_GetItem_def dict_map_def split: option.split)

text \<open>
  The interface of a keyed store, as the callers of \<open>SetItem\<close> and \<open>GetItem\<close> use it:
  \<open>look\<close> is the map a store stands for and \<open>key k h\<close> holds when \<open>k\<close> is a usable key with
  hash \<open>h\<close>. Replacing a value may normalise it (\<open>norm\<close>).
\<close>

locale keyed_store =
  fixes ok :: "'s \<Rightarrow> bool"
    and look :: "'s \<Rightarrow> 'h \<Rightarrow> 'v option"
    and key :: "'k \<Rightarrow> 'h \<Rightarrow> bool"
    and ins :: "'s \<Rightarrow> 'k \<Rightarrow> 'v \<Rightarrow> 's result"
    and norm :: "'v \<Rightarrow> 'v"
  assumes ins_fresh: "ok s \<Longrightarrow> key k h \<Longrightarrow> look s h = None \<Longrightarrow>
      \<exists>s'. ins s k v = Inr s' \<and> ok s' \<and> look s' = (look s)(h \<mapsto> v)"
    and ins_present: "ok s \<Longrightarrow> key k h \<Longrightarrow> look s h = Some w \<Longrightarrow>
      \<exists>s'. ins s k v = Inr s' \<and> ok s' \<and> look s' = (look s)(h \<mapsto> norm v)"
begin

definition ins_all :: "('k \<times> 'v) list \<Rightarrow> 's \<Rightarrow> 's result" where
  "ins_all kvs s = fold (\<lambda>kv m. ebind m (\<lambda>t. ins t (fst kv) (snd kv))) kvs (Inr s)"

lemma ins_any:
  assumes "ok s" "key k h"
  shows "\<exists>s' v'. ins s k v = Inr s' \<and> ok s' \<and> look s' = (look s)(h \<mapsto> v') \<and> v' \<in> {v, norm v}"
  using ins_fresh [OF assms] ins_present [OF assms] by (cases "look s h") blast+

lemma ins_all_ok:
  "ok s \<Longrightarrow> list_all2 (\<lambda>kv h. key (fst kv) h) kvs hs \<Longrightarrow>
   \<exists>s'. ins_all kvs s = Inr s' \<and> ok s' \<and> dom (look s') = dom (look s) \<union> set hs \<and>
     (\<forall>h. h \<notin> set hs \<longrightarrow> look s' h = look s h)"
proof (induction kvs arbitrary: s hs)
  case Nil
  then show ?case by (simp add: ins_all_def)
next
  case (Cons kv kvs)
  then obtain h hs' where hs: "hs = h # hs'" "key (fst kv) h"
    "list_all2 (\<lambda>kv h. key (fst kv) h) kvs hs'"
    by (auto simp: list_all2_Cons1)
  obtain t v' where t: "ins s (fst kv) (snd kv) = Inr t" "ok t" "look t = (look s)(h \<mapsto> v')"
    using ins_any [OF Cons.prems(1) hs(2)] by blast
  obtain s' where s': "ins_all kvs t = Inr s'" "ok s'" "dom (look s') = dom (look t) \<union> set hs'"
    "\<forall>g. g \<notin> set hs' \<longrightarrow> look s' g = look t g"
    using Cons.IH [OF t(2) hs(3)] by blast
  then show ?case
    using t hs by (auto simp: ins_all_def)
qed

lemma ins_all_fresh:
  "ok s \<Longrightarrow> list_all2 (\<lambda>kv h. key (fst kv) h) kvs hs \<Longrightarrow> distinct hs \<Longrightarrow>
   set hs \<inter> dom (look s) = {} \<Longrightarrow>
   \<exists>s'. ins_all kvs s = Inr s' \<and> ok s' \<and> look s' = look s ++ map_of (zip hs (map snd kvs))"
proof (induction kvs arbitrary: s hs)
  case Nil
  then show ?case by (simp add: ins_all_def)
next
  case (Cons kv kvs)
  then obtain h hs' where hs: "hs = h # hs'" "key (fst kv) h"
    "list_all2 (\<lambda>kv h. key (fst kv) h) kvs hs'"
    by (auto simp: list_all2_Cons1)
  have "look s h = None" using Cons.prems(4) hs(1) by auto
  then obtain t where t: "ins s (fst kv) (snd kv) = Inr t" "ok t" "look t = (look s)(h \<mapsto> snd kv)"
    using ins_fresh [OF Cons.prems(1) hs(2)] by blast
  have "set hs' \<inter> dom (look t) = {}" "distinct hs'" "h \<notin> set hs'"
    using Cons.prems(3,4) hs(1) t(3) by auto
  then obtain s' where s': "ins_all kvs t = Inr s'" "ok s'"
    "look s' = look t ++ map_of (zip hs' (map snd kvs))"
    using Cons.IH [OF t(2) hs(3)] by blast
  have "length hs' = length kvs" using hs(3) list_all2_lengthD by fastforce
  then have "map_of (zip hs' (map snd kvs)) h = None"
    using \<open>h \<notin> set hs'\<close> by (auto simp: map_of_eq_None_iff dest: set_zip_leftD)
  then have "look t ++ map_of (zip hs' (map snd kvs)) = look s ++ map_of (zip hs (map snd (kv # kvs)))"
    using t(3) hs(1) by (auto simp: fun_eq_iff map_add_def split: option.splits)
  then show ?case
    using t s' by (auto simp: ins_all_def)
qed

end

interpretation dict: keyed_store "dict_ok env" "dict_map env"
  "\<lambda>k h. k \<noteq> PyNull \<and> py_hash env k = Inr h \<and> h \<noteq> - 1"
  "Dict_SetItem env" "\<lambda>v. if v = PyNull then PyNone else v" for env
proof (unfold_locales, goal_cases)
  case (1 s k h v)
  then show ?case using Dict_SetItem_fresh [of env s k h v] by auto
next
  case (2 s k h w v)
  then show ?case using Dict_SetItem_present [of env s k h w v] by auto
qed

section \<open>Main results\<close>

text \<open>A dictionary is a map on the hashes of its keys: storing a value under a usable key succeeds,
  keeps the dictionary well formed, makes the value the one found under the hash of the key and
  changes nothing under other hashes; a null stored over an old value becomes None.\<close>

theorem dict_set_item:
  assumes "dict_ok env es" "k \<noteq> PyNull" "py_hash env k = Inr h" "h \<noteq> - 1"
  shows "\<exists>es' v'. Dict_SetItem env es k v = Inr es' \<and> dict_ok env es' \<and> v' \<in> {v, if v = PyNull then PyNone else v} \<and>
    (\<forall>g. dict_map env es' g = (if g = h then Some v' else dict_map env es g)) \<and>
    Dict_GetItem env es' k = Inr v'"
proof -
  obtain es' v' where d: "Dict_SetItem env es k v = Inr es'" "dict_ok env es'"
      "dict_map env es' = (dict_map env es)(h \<mapsto> v')" "v' \<in> {v, if v = PyNull then PyNone else v}"
    using dict.ins_any [of env es k h v] assms by blast
  moreover from d(3) have "Dict_GetItem env es' k = Inr v'"
    using Dict_GetItem_map [OF assms(2,3), of es'] by simp
  moreover have "\<forall>g. dict_map env es' g = (if g = h then Some v' else dict_map env es g)"
    by (simp add: d(3))
  ultimately show ?thesis by blast
qed

theorem dict_set_item_witness:
  "\<forall>env. \<exists>es'. Dict_SetItem env [] (PyInt 5) (PyInt 6) = Inr es' \<and> Dict_GetItem env es' (PyInt 5) = Inr (PyInt 6)"
proof (intro allI)
  fix env
  show "\<exists>es'. Dict_SetItem env [] (PyInt 5) (PyInt 6) = Inr es' \<and> Dict_GetItem env es' (PyInt 5) = Inr (PyInt 6)"
  proof -
    have "dict_ok env []" "py_hash env (PyInt 5) = Inr 5"
      by (simp_all add: dict_ok_def int_hash_def no_minus_one_def)
    then show ?thesis using dict_set_item [of env "[]" "PyInt 5" 5 "PyInt 6"] by auto
  qed
qed

text \<open>The keys -1 and -2 are one key to a dictionary: both hash to -2 and the comparison of keys
  looks at the hashes only, so storing under -1 replaces the value under -2.\<close>

theorem dict_key_collision:
  "Dict_SetItem env [(PyInt (- 2), v)] (PyInt (- 1)) (PyInt w) = Inr [(PyInt (- 2), PyInt w)]"
  by (simp add: Dict_SetItem_def int_hash_def no_minus_one_def)

text \<open>Equal numbers of different types hash equal where the code relies on it: a float with an
  integral value of at most 31 bits has the hash of the integer, so the two are the same
  dictionary key.\<close>

theorem float_hashes_as_int:
  assumes "\<bar>i\<bar> \<le> 2147483647"
  shows "py_hash env (PyFloat (dbl_of_int i)) = py_hash env (PyInt (word_of_int i))"
  using real_hash_of_int [OF assms] by simp

theorem float_hashes_as_int_witness:
  "\<forall>env. py_hash env (PyFloat (dbl_of_int 42)) = py_hash env (PyInt 42)"
proof (intro allI)
  fix env
  show "py_hash env (PyFloat (dbl_of_int 42)) = py_hash env (PyInt 42)"
    using float_hashes_as_int [of 42 env] by simp
qed

lemma le_bytes_256: "le_bytes 8 (256 :: int64) = [0, 1, 0, 0, 0, 0, 0, 0]"
proof -
  have "le_bytes (Suc (Suc (Suc (Suc (Suc (Suc (Suc (Suc 0)))))))) (256 :: int64) =
      [0, 1, 0, 0, 0, 0, 0, 0]" by simp
  then show ?thesis by (simp add: eval_nat_numeral)
qed

text \<open>An integer and a long of the same value are different keys: 256 as a long hashes to 32768,
  as an integer to 256.\<close>

theorem long_hash_differs:
  "py_hash env (PyLong 256) = Inr 32768 \<and> py_hash env (PyInt 256) = Inr 256"
  by (simp add: long_hash_def le_bytes_256 long_hash_round_def int_hash_def no_minus_one_def)

end
