(* ===== verification/ClientSession.thy ===== *)
theory ClientSession
  imports PyRep
begin

text \<open>
  The session variables of a client, \<open>eve-server/ClientSession.cpp\<close>: a dictionary from names
  to tuples of the last value, the current value and a flag that marks the value as new. The
  server changes variables one at a time and from time to time sends what is new; the client
  applies it to the copy it got when the session began. Assigning a value compares hashes.
  The dictionary iterates in the order of its hash table, the model in the order of its list;
  results are stated as maps.
\<close>

section \<open>State\<close>

record client_session =
  mSession :: entries
  mDirty :: bool
  m_sessionID :: int64

definition NONPERSISTVARS :: "bytes set" where
  "NONPERSISTVARS = {str ''clientID'', str ''sessionID'', str ''sid''}"

definition Role_PLAYER :: int64 where "Role_PLAYER = 2305843009213693952"

definition Role_NEWBIE :: int64 where "Role_NEWBIE = 576460752303423488"

text \<open>\<open>new_tuple(None, v, False)\<close>; \<open>usec\<close> is the clock in microseconds.\<close>

definition fresh_entry :: "pyrep \<Rightarrow> pyrep" where
  "fresh_entry v = PyTuple [PyNone, v, PyBool False]"

definition ClientSession_new :: "env \<Rightarrow> int64 \<Rightarrow> client_session result" where
  "ClientSession_new env usec =
     ebind (Dict_SetItem env [] (PyString (str ''role'')) (fresh_entry (PyLong (Role_PLAYER OR Role_NEWBIE)))) (\<lambda>d.
     ebind (Dict_SetItem env d (PyString (str ''userid'')) (fresh_entry (PyInt 0))) (\<lambda>d.
     ebind (Dict_SetItem env d (PyString (str ''address'')) (fresh_entry (PyString (str ''0.0.0.0'')))) (\<lambda>d.
     Inr \<lparr>mSession = d, mDirty = False, m_sessionID = usec * 15\<rparr>)))"

section \<open>Operations\<close>

definition AsBool :: "pyrep \<Rightarrow> bool result" where
  "AsBool r = (case r of PyBool b \<Rightarrow> Inr b | PyNull \<Rightarrow> Inl Null_deref | _ \<Rightarrow> Inl Assert_fail)"

definition AsString :: "pyrep \<Rightarrow> bytes result" where
  "AsString r = (case r of PyString s \<Rightarrow> Inr s | PyNull \<Rightarrow> Inl Null_deref | _ \<Rightarrow> Inl Assert_fail)"

definition GetValueTuple :: "env \<Rightarrow> client_session \<Rightarrow> bytes \<Rightarrow> pyrep list option result" where
  "GetValueTuple env s name =
     ebind (Dict_GetItemString env (mSession s) name) (\<lambda>value.
       if value = PyNull then Inr None
       else ebind (AsTuple value) (\<lambda>t. Inr (Some t)))"

text \<open>
  The tuple is shared with the dictionary, so assigning its items changes the dictionary at
  the entry of the name, when there is one.
\<close>

definition write_tuple :: "env \<Rightarrow> entries \<Rightarrow> bytes \<Rightarrow> pyrep list \<Rightarrow> entries" where
  "write_tuple env es name t =
     (case py_hash env (PyString (c_str name)) of
        Inl _ \<Rightarrow> es
      | Inr h \<Rightarrow> (case find_hash env h es of
                    None \<Rightarrow> es
                  | Some n \<Rightarrow> es[n := (fst (es ! n), PyTuple t)]))"

definition Session_Set :: "env \<Rightarrow> bytes \<Rightarrow> pyrep \<Rightarrow> client_session \<Rightarrow> client_session result" where
  "Session_Set env name value s =
     ebind (GetValueTuple env s name) (\<lambda>found.
     ebind (case found of
              Some t \<Rightarrow> Inr (t, mSession s)
            | None \<Rightarrow>
                ebind (Dict_SetItem env (mSession s) (PyString (c_str name)) (fresh_entry PyNone))
                  (\<lambda>es. Inr ([PyNone, PyNone, PyBool False], es))) (\<lambda>(tuple, es).
     ebind (vec_at tuple 1) (\<lambda>current.
     ebind (py_hash env value) (\<lambda>hv.
     ebind (py_hash env current) (\<lambda>hc.
       if hv \<noteq> hc then
         ebind (Tuple_SetItem tuple 0 current) (\<lambda>tuple.
         ebind (Tuple_SetItem tuple 1 value) (\<lambda>tuple.
         ebind (Tuple_SetItem tuple 2 (PyBool True)) (\<lambda>tuple.
           Inr (s\<lparr>mSession := write_tuple env es name tuple, mDirty := True\<rparr>))))
       else Inr (s\<lparr>mSession := es\<rparr>))))))"

definition Session_Clear :: "env \<Rightarrow> bytes \<Rightarrow> client_session \<Rightarrow> client_session result" where
  "Session_Clear env name s = Session_Set env name PyNone s"

definition SetInt :: "env \<Rightarrow> bytes \<Rightarrow> int32 \<Rightarrow> client_session \<Rightarrow> client_session result" where
  "SetInt env name value s = Session_Set env name (PyInt value) s"

definition SetLong :: "env \<Rightarrow> bytes \<Rightarrow> int64 \<Rightarrow> client_session \<Rightarrow> client_session result" where
  "SetLong env name value s = Session_Set env name (PyLong value) s"

definition SetString :: "env \<Rightarrow> bytes \<Rightarrow> bytes \<Rightarrow> client_session \<Rightarrow> client_session result" where
  "SetString env name value s = Session_Set env name (PyString (c_str value)) s"

definition SetFloat :: "env \<Rightarrow> bytes \<Rightarrow> 64 word \<Rightarrow> client_session \<Rightarrow> client_session result" where
  "SetFloat env name value s = Session_Set env name (PyFloat value) s"

definition GetLast :: "env \<Rightarrow> client_session \<Rightarrow> bytes \<Rightarrow> pyrep result" where
  "GetLast env s name =
     ebind (GetValueTuple env s name) (\<lambda>found.
       case found of None \<Rightarrow> Inr PyNull | Some t \<Rightarrow> vec_at t 0)"

definition GetCurrent :: "env \<Rightarrow> client_session \<Rightarrow> bytes \<Rightarrow> pyrep result" where
  "GetCurrent env s name =
     ebind (GetValueTuple env s name) (\<lambda>found.
       case found of None \<Rightarrow> Inr PyNull | Some t \<Rightarrow> vec_at t 1)"

definition GetLastLong :: "env \<Rightarrow> client_session \<Rightarrow> bytes \<Rightarrow> int64 result" where
  "GetLastLong env s name = ebind (GetLast env s name) (\<lambda>r. Inr (IntegerValue env r))"

definition GetCurrentLong :: "env \<Rightarrow> client_session \<Rightarrow> bytes \<Rightarrow> int64 result" where
  "GetCurrentLong env s name = ebind (GetCurrent env s name) (\<lambda>r. Inr (IntegerValue env r))"

definition GetLastInt :: "env \<Rightarrow> client_session \<Rightarrow> bytes \<Rightarrow> int32 result" where
  "GetLastInt env s name = ebind (GetLast env s name) (\<lambda>r. Inr (ucast (IntegerValue env r)))"

definition GetCurrentInt :: "env \<Rightarrow> client_session \<Rightarrow> bytes \<Rightarrow> int32 result" where
  "GetCurrentInt env s name = ebind (GetCurrent env s name) (\<lambda>r. Inr (ucast (IntegerValue env r)))"

definition GetLastString :: "env \<Rightarrow> client_session \<Rightarrow> bytes \<Rightarrow> bytes result" where
  "GetLastString env s name = ebind (GetLast env s name) (\<lambda>r. Inr (StringContent r))"

definition GetCurrentString :: "env \<Rightarrow> client_session \<Rightarrow> bytes \<Rightarrow> bytes result" where
  "GetCurrentString env s name = ebind (GetCurrent env s name) (\<lambda>r. Inr (StringContent r))"

definition GetLastFloat :: "env \<Rightarrow> client_session \<Rightarrow> bytes \<Rightarrow> 64 word result" where
  "GetLastFloat env s name = ebind (GetLast env s name) (\<lambda>r. Inr (FloatValue r))"

definition GetCurrentFloat :: "env \<Rightarrow> client_session \<Rightarrow> bytes \<Rightarrow> 64 word result" where
  "GetCurrentFloat env s name = ebind (GetCurrent env s name) (\<lambda>r. Inr (FloatValue r))"

definition HasValue :: "env \<Rightarrow> client_session \<Rightarrow> bytes \<Rightarrow> bool result" where
  "HasValue env s name =
     ebind (GetValueTuple env s name) (\<lambda>found.
       case found of
         None \<Rightarrow> Inr False
       | Some t \<Rightarrow> ebind (vec_at t 1) (\<lambda>v. Inr (v \<noteq> PyNull \<and> v \<noteq> PyNone)))"

text \<open>The loop of \<open>EncodeChanges\<close>: the entries as they are left, and the dictionary it fills.\<close>

fun changes_loop :: "env \<Rightarrow> entries \<Rightarrow> entries \<Rightarrow> (entries \<times> entries) result" where
  "changes_loop env [] into = Inr ([], into)"
| "changes_loop env ((k, v) # es) into =
     ebind (AsTuple v) (\<lambda>t.
     ebind (ebind (vec_at t 2) AsBool) (\<lambda>new.
     if \<not> new then
       ebind (changes_loop env es into) (\<lambda>(es', into'). Inr ((k, v) # es', into'))
     else
       ebind (Tuple_SetItem t 2 (PyBool False)) (\<lambda>t.
       ebind (AsString k) (\<lambda>name.
       ebind (if name \<in> NONPERSISTVARS then Inr into
              else ebind (vec_at t 0) (\<lambda>old. ebind (vec_at t 1) (\<lambda>cur.
                   Dict_SetItem env into k (PyTuple [old, cur])))) (\<lambda>into.
       ebind (changes_loop env es into) (\<lambda>(es', into'). Inr ((k, PyTuple t) # es', into')))))))"

definition EncodeChanges :: "env \<Rightarrow> client_session \<Rightarrow> entries \<Rightarrow> (client_session \<times> entries) result" where
  "EncodeChanges env s into =
     (if \<not> mDirty s then Inr (s, into)
      else ebind (changes_loop env (mSession s) into) (\<lambda>(es, into).
             Inr (s\<lparr>mSession := es, mDirty := False\<rparr>, into)))"

fun initial_loop :: "env \<Rightarrow> entries \<Rightarrow> entries \<Rightarrow> (entries \<times> entries) result" where
  "initial_loop env [] into = Inr ([], into)"
| "initial_loop env ((k, v) # es) into =
     ebind (AsTuple v) (\<lambda>t.
     ebind (Tuple_SetItem t 2 (PyBool False)) (\<lambda>t.
     ebind (AsString k) (\<lambda>name.
     ebind (if name \<in> NONPERSISTVARS then Inr into
            else ebind (vec_at t 1) (\<lambda>cur. Dict_SetItem env into k cur)) (\<lambda>into.
     ebind (initial_loop env es into) (\<lambda>(es', into'). Inr ((k, PyTuple t) # es', into'))))))"

definition EncodeInitialState :: "env \<Rightarrow> client_session \<Rightarrow> entries \<Rightarrow> (client_session \<times> entries) result" where
  "EncodeInitialState env s into =
     ebind (initial_loop env (mSession s) into) (\<lambda>(es, into).
       Inr (s\<lparr>mSession := es, mDirty := False\<rparr>, into))"

section \<open>The invariant\<close>

definition session_value :: "env \<Rightarrow> pyrep \<Rightarrow> bool" where
  "session_value env v \<longleftrightarrow> v \<noteq> PyNull \<and> (\<exists>h. py_hash env v = Inr h)"

definition entry_ok :: "env \<Rightarrow> pyrep \<times> pyrep \<Rightarrow> bool" where
  "entry_ok env e \<longleftrightarrow>
     (\<exists>name old cur b. e = (PyString name, PyTuple [old, cur, PyBool b]) \<and>
        session_value env old \<and> session_value env cur)"

definition is_new :: "pyrep \<times> pyrep \<Rightarrow> bool" where
  "is_new e = (case snd e of PyTuple [_, _, PyBool b] \<Rightarrow> b | _ \<Rightarrow> False)"

definition session_ok :: "env \<Rightarrow> client_session \<Rightarrow> bool" where
  "session_ok env s \<longleftrightarrow>
     dict_ok env (mSession s) \<and> list_all (entry_ok env) (mSession s) \<and>
     (mDirty s \<longleftrightarrow> list_ex is_new (mSession s))"

text \<open>A name whose hash the dictionary accepts.\<close>

definition usable :: "env \<Rightarrow> bytes \<Rightarrow> bool" where
  "usable env name \<longleftrightarrow> string_hash env (c_str name) \<noteq> - 1"

lemma session_valueI [simp]:
  "session_value env (PyInt i)" "session_value env (PyLong l)" "session_value env (PyString x)"
  "session_value env (PyFloat d)" "session_value env PyNone"
  by (simp_all add: session_value_def)

text \<open>The entry of a name, with its key.\<close>

definition entry :: "env \<Rightarrow> entries \<Rightarrow> int32 \<Rightarrow> (pyrep \<times> pyrep) option" where
  "entry env es h = map_option (\<lambda>n. es ! n) (find_hash env h es)"

lemma entry_Nil [simp]: "entry env [] h = None"
  by (simp add: entry_def)

lemma entry_Cons:
  "entry env (e # es) h = (if py_hash env (fst e) = Inr h then Some e else entry env es h)"
  by (cases e) (auto simp: entry_def option.map_comp comp_def)

lemma entry_Some: "entry env es h = Some e \<Longrightarrow> e \<in> set es \<and> py_hash env (fst e) = Inr h"
  using find_hash_Some by (fastforce simp: entry_def)

lemma entry_member:
  "dict_ok env es \<Longrightarrow> e \<in> set es \<Longrightarrow> py_hash env (fst e) = Inr h \<Longrightarrow> entry env es h = Some e"
proof (induction es)
  case (Cons f es)
  have "dict_ok env es" and "py_hash env (fst f) \<notin> (\<lambda>e. py_hash env (fst e)) ` set es"
    using Cons.prems(1) by (auto simp: dict_ok_def)
  then show ?case
    using Cons by (force simp: entry_Cons image_iff)
qed simp

lemma dict_map_entry: "dict_map env es h = map_option snd (entry env es h)"
  by (simp add: dict_map_def entry_def option.map_comp comp_def)

text \<open>Setting a variable: the entry of its name becomes one with the value, the others stay.\<close>

definition set_entry :: "env \<Rightarrow> bytes \<Rightarrow> pyrep \<Rightarrow> (pyrep \<times> pyrep) option \<Rightarrow> pyrep \<times> pyrep" where
  "set_entry env name v e =
     (let (k, t) = (case e of Some e \<Rightarrow> e | None \<Rightarrow> (PyString (c_str name), fresh_entry PyNone))
      in case t of PyTuple [old, cur, b] \<Rightarrow>
           (k, if py_hash env v \<noteq> py_hash env cur then PyTuple [cur, v, PyBool True] else t)
         | _ \<Rightarrow> (k, t))"

lemma entry_update:
  assumes "find_hash env h es = Some n"
  shows "entry env (es[n := (fst (es ! n), v)]) g =
    (if g = h then Some (fst (es ! n), v) else entry env es g)"
proof -
  have n: "n < length es" "py_hash env (fst (es ! n)) = Inr h"
    using find_hash_Some [OF assms] by auto
  have "find_hash env g (es[n := (fst (es ! n), v)]) = find_hash env g es"
    using n by (intro find_hash_update) auto
  moreover have "find_hash env g es = Some m \<Longrightarrow> m = n \<longleftrightarrow> g = h" for m
    using find_hash_Some [of env g es m] assms n by auto
  ultimately show ?thesis
    using assms n by (cases "find_hash env g es") (auto simp: entry_def nth_list_update)
qed

lemma dict_ok_keys:
  "dict_ok env fs \<longleftrightarrow>
     (\<forall>k \<in> set (map fst fs). k \<noteq> PyNull \<and> (\<exists>h. py_hash env k = Inr h \<and> h \<noteq> - 1)) \<and>
     distinct (map (py_hash env) (map fst fs))"
  by (auto simp: dict_ok_def comp_def)

lemma dict_ok_update:
  assumes "dict_ok env es" and "n < length es"
  shows "dict_ok env (es[n := (fst (es ! n), v)])"
proof -
  have k: "map fst (es[n := (fst (es ! n), v)]) = map fst es"
    using assms(2) by (simp add: map_update list_update_same_conv)
  show ?thesis
    using assms(1) unfolding dict_ok_keys k .
qed

lemma entry_append:
  "entry env (es @ fs) h = (case entry env es h of Some e \<Rightarrow> Some e | None \<Rightarrow> entry env fs h)"
  by (induction es) (simp_all add: entry_Cons)

text \<open>Both ways of \<open>_Set\<close> end with the tuple in the dictionary at \<open>n\<close>.\<close>

definition set_tail :: "env \<Rightarrow> bytes \<Rightarrow> pyrep \<Rightarrow> client_session \<Rightarrow> pyrep list \<Rightarrow> entries \<Rightarrow> client_session result" where
  "set_tail env name value s tuple es =
     ebind (vec_at tuple 1) (\<lambda>current.
     ebind (py_hash env value) (\<lambda>hv.
     ebind (py_hash env current) (\<lambda>hc.
       if hv \<noteq> hc then
         ebind (Tuple_SetItem tuple 0 current) (\<lambda>tuple.
         ebind (Tuple_SetItem tuple 1 value) (\<lambda>tuple.
         ebind (Tuple_SetItem tuple 2 (PyBool True)) (\<lambda>tuple.
           Inr (s\<lparr>mSession := write_tuple env es name tuple, mDirty := True\<rparr>))))
       else Inr (s\<lparr>mSession := es\<rparr>))))"

lemma set_tail_entry:
  assumes es: "dict_ok env es" "list_all (entry_ok env) es" "mDirty s \<longleftrightarrow> list_ex is_new es"
    and n: "find_hash env h es = Some n" "es ! n = (k, PyTuple t)"
    and h: "h = string_hash env (c_str name)" and v: "session_value env v"
  shows "\<exists>s'. set_tail env name v s t es = Inr s' \<and> session_ok env s' \<and> m_sessionID s' = m_sessionID s \<and>
    (\<forall>g. entry env (mSession s') g =
       (if g = h then Some (set_entry env name v (Some (k, PyTuple t))) else entry env es g))"
proof -
  have nb: "n < length es" and e: "entry env es h = Some (k, PyTuple t)"
    using find_hash_Some [OF n(1)] n by (auto simp: entry_def)
  have "entry_ok env (k, PyTuple t)"
    using es(2) nb n(2) unfolding list_all_length by metis
  then obtain nm old cur b where t: "k = PyString nm" "t = [old, cur, PyBool b]"
    "session_value env old" "session_value env cur"
    by (auto simp: entry_ok_def)
  obtain hv hc where hs: "py_hash env v = Inr hv" "py_hash env cur = Inr hc"
    using v t by (auto simp: session_value_def)
  show ?thesis
  proof (cases "hv = hc")
    case True
    then have "set_tail env name v s t es = Inr (s\<lparr>mSession := es\<rparr>)"
      by (simp add: set_tail_def t vec_at_def hs)
    then show ?thesis
      using es e hs True by (auto simp: session_ok_def set_entry_def t)
  next
    case False
    let ?t = "[cur, v, PyBool True]" and ?es = "es[n := (fst (es ! n), PyTuple [cur, v, PyBool True])]"
    have r: "set_tail env name v s t es = Inr (s\<lparr>mSession := ?es, mDirty := True\<rparr>)"
      using False v t n h
      by (auto simp: set_tail_def vec_at_def vec_set_def hs Tuple_SetItem_def session_value_def write_tuple_def)
    have "list_all (entry_ok env) ?es"
      using es(2) v t n(2) unfolding list_all_iff
      by (auto simp: entry_ok_def dest!: set_update_subset_insert [THEN subsetD])
    moreover have "list_ex is_new ?es"
      using nb by (auto simp: list_ex_length is_new_def intro!: exI [of _ n])
    ultimately show ?thesis
      using r dict_ok_update [OF es(1) nb] entry_update [OF n(1)] n(2) hs False
      by (auto simp: session_ok_def set_entry_def t)
  qed
qed

lemma Session_Set_entry:
  assumes "session_ok env s" and "usable env name" and "session_value env v"
  shows "\<exists>s'. Session_Set env name v s = Inr s' \<and> session_ok env s' \<and> m_sessionID s' = m_sessionID s \<and>
    (\<forall>g. entry env (mSession s') g =
       (if g = string_hash env (c_str name) then Some (set_entry env name v (entry env (mSession s) g))
        else entry env (mSession s) g))"
proof -
  define h where "h = string_hash env (c_str name)"
  have S: "dict_ok env (mSession s)" "list_all (entry_ok env) (mSession s)" "mDirty s \<longleftrightarrow> list_ex is_new (mSession s)"
    using assms(1) by (simp_all add: session_ok_def)
  have k: "PyString (c_str name) \<noteq> PyNull" "py_hash env (PyString (c_str name)) = Inr h" "h \<noteq> - 1"
    using assms(2) by (simp_all add: h_def usable_def)
  show ?thesis
  proof (cases "find_hash env h (mSession s)")
    case None
    let ?es = "mSession s @ [(PyString (c_str name), fresh_entry PyNone)]"
    note f = Dict_SetItem_fresh [OF S(1) k, of "fresh_entry PyNone"]
    have d: "dict_map env (mSession s) h = None"
      using None by (simp add: dict_map_def)
    have "Session_Set env name v s = set_tail env name v s [PyNone, PyNone, PyBool False] ?es"
      using k None f(1) [OF d]
      by (simp add: Session_Set_def GetValueTuple_def Dict_GetItemString_def Dict_GetItem_def set_tail_def)
    moreover have "find_hash env h ?es = Some (length (mSession s))"
      using None k by (simp add: find_hash_append)
    moreover have "list_all (entry_ok env) ?es" "mDirty s \<longleftrightarrow> list_ex is_new ?es"
      using S(2,3) by (auto simp: entry_ok_def is_new_def fresh_entry_def)
    ultimately show ?thesis
      using set_tail_entry [OF f(2) [OF d] _ _ _ _ h_def assms(3), of s "length (mSession s)" "PyString (c_str name)"]
        None k
      by (auto simp: entry_append entry_Cons entry_def [of env "mSession s"] set_entry_def fresh_entry_def h_def [symmetric]
          split: option.splits)
  next
    case (Some n)
    then obtain nm t where e: "mSession s ! n = (PyString nm, PyTuple t)"
      using find_hash_Some [OF Some] S(2) by (auto simp: list_all_length entry_ok_def)
    then have "Session_Set env name v s = set_tail env name v s t (mSession s)"
      using k Some
      by (simp add: Session_Set_def GetValueTuple_def Dict_GetItemString_def Dict_GetItem_def set_tail_def AsTuple_def)
    moreover have "entry env (mSession s) h = Some (PyString nm, PyTuple t)"
      using Some e by (simp add: entry_def)
    ultimately show ?thesis
      using set_tail_entry [OF S Some e h_def assms(3)]
      by (auto simp: h_def [symmetric])
  qed
qed

section \<open>Encoding\<close>

definition persistent :: "pyrep \<times> pyrep \<Rightarrow> bool" where
  "persistent e \<longleftrightarrow> (case fst e of PyString name \<Rightarrow> name \<notin> NONPERSISTVARS | _ \<Rightarrow> False)"

definition current :: "pyrep \<times> pyrep \<Rightarrow> pyrep" where
  "current e = (case snd e of PyTuple [_, cur, _] \<Rightarrow> cur | _ \<Rightarrow> PyNone)"

definition previous :: "pyrep \<times> pyrep \<Rightarrow> pyrep" where
  "previous e = (case snd e of PyTuple [old, _, _] \<Rightarrow> old | _ \<Rightarrow> PyNone)"

definition sent :: "pyrep \<times> pyrep \<Rightarrow> pyrep \<times> pyrep" where
  "sent e = (fst e, case snd e of PyTuple [old, cur, _] \<Rightarrow> PyTuple [old, cur, PyBool False] | v \<Rightarrow> v)"

lemma sent_simps [simp]:
  "fst (sent e) = fst e" "current (sent e) = current e" "previous (sent e) = previous e"
  "persistent (sent e) = persistent e"
  by (auto simp: sent_def current_def previous_def persistent_def split: pyrep.split list.split)

lemma persistent_simp [simp]: "persistent (PyString nm, v) \<longleftrightarrow> nm \<notin> NONPERSISTVARS"
  and current_simp [simp]: "current (k, PyTuple [old, cur, b]) = cur"
  and previous_simp [simp]: "previous (k, PyTuple [old, cur, b]) = old"
  and is_new_simp [simp]: "is_new (k, PyTuple [old, cur, PyBool n]) \<longleftrightarrow> n"
  and sent_simp [simp]: "sent (k, PyTuple [old, cur, b]) = (k, PyTuple [old, cur, PyBool False])"
  by (simp_all add: persistent_def current_def previous_def is_new_def sent_def)

lemma sent_old: "entry_ok env e \<Longrightarrow> \<not> is_new (sent e)" and sent_ok: "entry_ok env e \<Longrightarrow> entry_ok env (sent e)"
  and sent_idle: "entry_ok env e \<Longrightarrow> \<not> is_new e \<Longrightarrow> sent e = e"
  by (auto simp: entry_ok_def sent_def is_new_def)

lemma entry_map_sent: "entry env (map sent es) h = map_option sent (entry env es h)"
  by (induction es) (auto simp: entry_Cons)

text \<open>What a loop adds to \<open>into\<close>: \<open>val\<close> of the entries that satisfy \<open>P\<close>.\<close>

definition added :: "env \<Rightarrow> entries \<Rightarrow> (pyrep \<times> pyrep \<Rightarrow> bool) \<Rightarrow> (pyrep \<times> pyrep \<Rightarrow> pyrep) \<Rightarrow> entries \<Rightarrow> entries \<Rightarrow> bool" where
  "added env es P val into into' \<longleftrightarrow>
     dict_ok env into' \<and>
     (\<forall>h. dict_map env into' h =
        (case entry env es h of
           Some e \<Rightarrow> if P e then Some (val e) else dict_map env into h
         | None \<Rightarrow> dict_map env into h))"

lemma added_Nil: "dict_ok env into \<Longrightarrow> added env [] P val into into"
  by (simp add: added_def)

lemma entry_None: "entry env es h = None \<longleftrightarrow> (\<forall>e \<in> set es. py_hash env (fst e) \<noteq> Inr h)"
  by (simp add: entry_def find_hash_None)

lemma added_Cons:
  assumes "dict_ok env (e # es)" and "dict_ok env into" and "\<forall>f \<in> set (e # es). \<forall>h. py_hash env (fst f) = Inr h \<longrightarrow> dict_map env into h = None"
  obtains h into1 where "py_hash env (fst e) = Inr h"
    "Dict_SetItem env into (fst e) v = Inr into1" "dict_ok env into1"
    "\<forall>f \<in> set es. \<forall>h. py_hash env (fst f) = Inr h \<longrightarrow> dict_map env into1 h = None"
    "\<And>into'. P e \<Longrightarrow> val e = v \<Longrightarrow> added env es P val into1 into' \<Longrightarrow> added env (e # es) P val into into'"
    "\<And>into'. \<not> P e \<Longrightarrow> added env es P val into into' \<Longrightarrow> added env (e # es) P val into into'"
proof -
  obtain h where h: "fst e \<noteq> PyNull" "py_hash env (fst e) = Inr h" "h \<noteq> - 1"
    and d: "Inr h \<notin> (\<lambda>e. py_hash env (fst e)) ` set es"
    using assms(1) by (cases e) (auto simp: dict_ok_def)
  have new: "dict_map env into h = None"
    using assms(3) h by simp
  note f = Dict_SetItem_fresh [OF assms(2) h new, of v]
  have no: "entry env es h = None"
    using d by (fastforce simp: entry_None image_iff)
  show thesis
  proof (rule that [OF h(2) f(1,2)])
    show "\<forall>f \<in> set es. \<forall>g. py_hash env (fst f) = Inr g \<longrightarrow> dict_map env (into @ [(fst e, v)]) g = None"
      using assms(3) d unfolding f(3) by (auto simp: image_iff)
    show "added env (e # es) P val into into'"
      if "P e" "val e = v" "added env es P val (into @ [(fst e, v)]) into'" for into'
      using that no h unfolding added_def f(3) by (auto simp: entry_Cons split: option.split)
    show "added env (e # es) P val into into'" if "\<not> P e" "added env es P val into into'" for into'
      using that no h unfolding added_def by (auto simp: entry_Cons split: option.split)
  qed
qed

abbreviation "changed e \<equiv> is_new e \<and> persistent e"

abbreviation "change e \<equiv> PyTuple [previous e, current e]"

lemma changes_loop_added:
  assumes "dict_ok env es" "list_all (entry_ok env) es" "dict_ok env into"
    and "\<forall>f \<in> set es. \<forall>h. py_hash env (fst f) = Inr h \<longrightarrow> dict_map env into h = None"
  shows "\<exists>into'. changes_loop env es into = Inr (map sent es, into') \<and> added env es (\<lambda>e. changed e) (\<lambda>e. change e) into into'"
  using assms
proof (induction es arbitrary: into)
  case (Cons e es)
  have ok: "dict_ok env es" "list_all (entry_ok env) es" "entry_ok env e"
    using Cons.prems(1,2) by (auto simp: dict_ok_def)
  obtain nm old cur b where e: "e = (PyString nm, PyTuple [old, cur, PyBool b])"
    using ok(3) by (auto simp: entry_ok_def)
  obtain h into1 where i: "py_hash env (fst e) = Inr h"
    "Dict_SetItem env into (fst e) (change e) = Inr into1" "dict_ok env into1"
    "\<forall>f \<in> set es. \<forall>h. py_hash env (fst f) = Inr h \<longrightarrow> dict_map env into1 h = None"
    "\<And>into'. changed e \<Longrightarrow> change e = change e \<Longrightarrow> added env es (\<lambda>e. changed e) (\<lambda>e. change e) into1 into' \<Longrightarrow> added env (e # es) (\<lambda>e. changed e) (\<lambda>e. change e) into into'"
    "\<And>into'. \<not> changed e \<Longrightarrow> added env es (\<lambda>e. changed e) (\<lambda>e. change e) into into' \<Longrightarrow> added env (e # es) (\<lambda>e. changed e) (\<lambda>e. change e) into into'"
    using added_Cons [OF Cons.prems(1,3,4), of "change e" "\<lambda>e. changed e" "\<lambda>e. change e" thesis] by blast
  show ?case
  proof (cases "changed e")
    case True
    obtain into' where "changes_loop env es into1 = Inr (map sent es, into')" "added env es (\<lambda>e. changed e) (\<lambda>e. change e) into1 into'"
      using Cons.IH [OF ok(1,2) i(3,4)] by blast
    then show ?thesis
      using True i(2) i(5) [OF True refl, of into']
      by (auto simp: e AsTuple_def vec_at_def vec_set_def AsBool_def AsString_def Tuple_SetItem_def)
  next
    case False
    obtain into' where "changes_loop env es into = Inr (map sent es, into')" "added env es (\<lambda>e. changed e) (\<lambda>e. change e) into into'"
      using Cons.IH [OF ok(1,2) Cons.prems(3)] Cons.prems(4) by auto
    then show ?thesis
      using False i(6) [OF False, of into']
      by (auto simp: e AsTuple_def vec_at_def vec_set_def AsBool_def AsString_def Tuple_SetItem_def)
  qed
qed (auto intro: added_Nil)

lemma initial_loop_added:
  assumes "dict_ok env es" "list_all (entry_ok env) es" "dict_ok env into"
    and "\<forall>f \<in> set es. \<forall>h. py_hash env (fst f) = Inr h \<longrightarrow> dict_map env into h = None"
  shows "\<exists>into'. initial_loop env es into = Inr (map sent es, into') \<and> added env es persistent current into into'"
  using assms
proof (induction es arbitrary: into)
  case (Cons e es)
  have ok: "dict_ok env es" "list_all (entry_ok env) es" "entry_ok env e"
    using Cons.prems(1,2) by (auto simp: dict_ok_def)
  obtain nm old cur b where e: "e = (PyString nm, PyTuple [old, cur, PyBool b])"
    using ok(3) by (auto simp: entry_ok_def)
  obtain h into1 where i: "py_hash env (fst e) = Inr h"
    "Dict_SetItem env into (fst e) (current e) = Inr into1" "dict_ok env into1"
    "\<forall>f \<in> set es. \<forall>h. py_hash env (fst f) = Inr h \<longrightarrow> dict_map env into1 h = None"
    "\<And>into'. persistent e \<Longrightarrow> current e = current e \<Longrightarrow> added env es persistent current into1 into' \<Longrightarrow> added env (e # es) persistent current into into'"
    "\<And>into'. \<not> persistent e \<Longrightarrow> added env es persistent current into into' \<Longrightarrow> added env (e # es) persistent current into into'"
    using added_Cons [OF Cons.prems(1,3,4), of "current e" persistent current thesis] by blast
  show ?case
  proof (cases "persistent e")
    case True
    obtain into' where "initial_loop env es into1 = Inr (map sent es, into')" "added env es persistent current into1 into'"
      using Cons.IH [OF ok(1,2) i(3,4)] by blast
    then show ?thesis
      using True i(2) i(5) [OF True refl, of into']
      by (auto simp: e AsTuple_def vec_at_def vec_set_def AsString_def Tuple_SetItem_def)
  next
    case False
    obtain into' where "initial_loop env es into = Inr (map sent es, into')" "added env es persistent current into into'"
      using Cons.IH [OF ok(1,2) Cons.prems(3)] Cons.prems(4) by auto
    then show ?thesis
      using False i(6) [OF False, of into']
      by (auto simp: e AsTuple_def vec_at_def vec_set_def AsString_def Tuple_SetItem_def)
  qed
qed (auto intro: added_Nil)

text \<open>Both encoders into an empty dictionary.\<close>

lemma sent_all:
  assumes "session_ok env s"
  shows "session_ok env (s\<lparr>mSession := map sent (mSession s), mDirty := False\<rparr>)"
proof -
  have k: "map fst (map sent (mSession s)) = map fst (mSession s)"
    by simp
  have "dict_ok env (map sent (mSession s)) = dict_ok env (mSession s)"
    unfolding dict_ok_keys k ..
  then show ?thesis
    using assms sent_old sent_ok unfolding session_ok_def by (auto simp: list_all_iff list_ex_iff)
qed

lemma EncodeChanges_entry:
  assumes "session_ok env s"
  shows "\<exists>into s'. EncodeChanges env s [] = Inr (s', into) \<and> session_ok env s' \<and> \<not> mDirty s' \<and>
    m_sessionID s' = m_sessionID s \<and>
    (\<forall>h. entry env (mSession s') h = map_option sent (entry env (mSession s) h)) \<and>
    added env (mSession s) (\<lambda>e. changed e) (\<lambda>e. change e) [] into"
proof -
  have S: "dict_ok env (mSession s)" "list_all (entry_ok env) (mSession s)" "mDirty s \<longleftrightarrow> list_ex is_new (mSession s)"
    using assms by (simp_all add: session_ok_def)
  have N: "dict_ok env []"
    by (simp add: dict_ok_def)
  obtain into where i: "changes_loop env (mSession s) [] = Inr (map sent (mSession s), into)"
    "added env (mSession s) (\<lambda>e. changed e) (\<lambda>e. change e) [] into"
    using changes_loop_added [OF S(1,2) N] by auto
  show ?thesis
  proof (cases "mDirty s")
    case True
    then show ?thesis
      using i sent_all [OF assms] by (auto simp: EncodeChanges_def entry_map_sent)
  next
    case False
    have "sent e = e" "\<not> is_new e" if "e \<in> set (mSession s)" for e
      using that S False by (auto simp: list_all_iff list_ex_iff intro: sent_idle)
    then have "map_option sent (entry env (mSession s) h) = entry env (mSession s) h"
      and "\<forall>e. entry env (mSession s) h = Some e \<longrightarrow> \<not> is_new e" for h
      using entry_Some by (fastforce simp: map_option_case split: option.split)+
    then show ?thesis
      using False assms N by (force simp: EncodeChanges_def added_def split: option.split)
  qed
qed

lemma EncodeInitialState_entry:
  assumes "session_ok env s"
  shows "\<exists>into s'. EncodeInitialState env s [] = Inr (s', into) \<and> session_ok env s' \<and> \<not> mDirty s' \<and>
    m_sessionID s' = m_sessionID s \<and>
    (\<forall>h. entry env (mSession s') h = map_option sent (entry env (mSession s) h)) \<and>
    added env (mSession s) persistent current [] into"
proof -
  have S: "dict_ok env (mSession s)" "list_all (entry_ok env) (mSession s)"
    using assms by (simp_all add: session_ok_def)
  have N: "dict_ok env []"
    by (simp add: dict_ok_def)
  obtain into where "initial_loop env (mSession s) [] = Inr (map sent (mSession s), into)"
    "added env (mSession s) persistent current [] into"
    using initial_loop_added [OF S N] by auto
  then show ?thesis
    using sent_all [OF assms] by (auto simp: EncodeInitialState_def entry_map_sent)
qed

section \<open>The copy of the client\<close>

text \<open>
  The client keeps a map from the hashes of names to values, None where it has heard nothing.
  It takes the initial state as it is, and of each change the new value.
\<close>

type_synonym copy = "int32 \<Rightarrow> pyrep"

definition take_initial :: "env \<Rightarrow> entries \<Rightarrow> copy" where
  "take_initial env into h = (case dict_map env into h of Some v \<Rightarrow> v | None \<Rightarrow> PyNone)"

definition apply_changes :: "env \<Rightarrow> entries \<Rightarrow> copy \<Rightarrow> copy" where
  "apply_changes env into c h =
     (case dict_map env into h of Some (PyTuple [old, new]) \<Rightarrow> new | _ \<Rightarrow> c h)"

text \<open>What the client may know of the session.\<close>

definition public_value :: "env \<Rightarrow> client_session \<Rightarrow> copy" where
  "public_value env s h =
     (case entry env (mSession s) h of
        Some e \<Rightarrow> if persistent e then current e else PyNone
      | None \<Rightarrow> PyNone)"

datatype session_op =
    Op_SetInt bytes int32
  | Op_SetLong bytes int64
  | Op_SetString bytes bytes
  | Op_SetFloat bytes "64 word"
  | Op_Clear bytes
  | Op_EncodeChanges

fun run_op :: "env \<Rightarrow> session_op \<Rightarrow> client_session \<times> copy \<Rightarrow> (client_session \<times> copy) result" where
  "run_op env (Op_SetInt n v) (s, c) = ebind (SetInt env n v s) (\<lambda>s. Inr (s, c))"
| "run_op env (Op_SetLong n v) (s, c) = ebind (SetLong env n v s) (\<lambda>s. Inr (s, c))"
| "run_op env (Op_SetString n v) (s, c) = ebind (SetString env n v s) (\<lambda>s. Inr (s, c))"
| "run_op env (Op_SetFloat n v) (s, c) = ebind (SetFloat env n v s) (\<lambda>s. Inr (s, c))"
| "run_op env (Op_Clear n) (s, c) = ebind (Session_Clear env n s) (\<lambda>s. Inr (s, c))"
| "run_op env Op_EncodeChanges (s, c) =
     ebind (EncodeChanges env s []) (\<lambda>(s, into). Inr (s, apply_changes env into c))"

primrec run_ops :: "env \<Rightarrow> session_op list \<Rightarrow> client_session \<times> copy \<Rightarrow> (client_session \<times> copy) result" where
  "run_ops env [] sc = Inr sc"
| "run_ops env (x # xs) sc = ebind (run_op env x sc) (run_ops env xs)"

lemma run_ops_append:
  "run_ops env (ys @ zs) = (\<lambda>sc. ebind (run_ops env ys sc) (run_ops env zs))"
  by (induction ys) (rule ext; simp add: ebind_assoc)+

fun op_usable :: "env \<Rightarrow> session_op \<Rightarrow> bool" where
  "op_usable env (Op_SetInt n v) = usable env n"
| "op_usable env (Op_SetLong n v) = usable env n"
| "op_usable env (Op_SetString n v) = usable env n"
| "op_usable env (Op_SetFloat n v) = usable env n"
| "op_usable env (Op_Clear n) = usable env n"
| "op_usable env Op_EncodeChanges = True"

text \<open>The copy may lag behind only at variables that are marked as new.\<close>

definition in_step :: "env \<Rightarrow> client_session \<times> copy \<Rightarrow> bool" where
  "in_step env sc \<longleftrightarrow>
     session_ok env (fst sc) \<and>
     (\<forall>h. snd sc h = public_value env (fst sc) h \<or>
        (\<exists>e. entry env (mSession (fst sc)) h = Some e \<and> is_new e \<and> persistent e))"

lemma entry_entry_ok: "session_ok env s \<Longrightarrow> entry env (mSession s) h = Some e \<Longrightarrow> entry_ok env e"
  using entry_Some by (fastforce simp: session_ok_def list_all_iff)

lemma set_entry_Some:
  assumes "entry_ok env e"
  shows "persistent (set_entry env name v (Some e)) = persistent e"
    and "set_entry env name v (Some e) = e \<or> is_new (set_entry env name v (Some e))"
  using assms by (auto simp: entry_ok_def set_entry_def)

lemma set_entry_None:
  "set_entry env name v None = (PyString (c_str name), fresh_entry PyNone) \<or> is_new (set_entry env name v None)"
  by (auto simp: set_entry_def fresh_entry_def)

lemma in_step_Set:
  assumes "in_step env (s, c)" "usable env name" "session_value env v"
  shows "\<exists>s'. Session_Set env name v s = Inr s' \<and> in_step env (s', c)"
proof -
  let ?h = "string_hash env (c_str name)"
  have ok: "session_ok env s"
    using assms(1) by (simp add: in_step_def)
  obtain s' where s': "Session_Set env name v s = Inr s'" "session_ok env s'"
    "\<And>g. entry env (mSession s') g = (if g = ?h then Some (set_entry env name v (entry env (mSession s) g))
        else entry env (mSession s) g)"
    using Session_Set_entry [OF ok assms(2,3)] by blast
  have "c g = public_value env s' g \<or> (\<exists>e. entry env (mSession s') g = Some e \<and> is_new e \<and> persistent e)" for g
  proof (cases "g = ?h")
    case False
    then show ?thesis
      using assms(1) s'(3) by (auto simp: in_step_def public_value_def)
  next
    case True
    have *: "c ?h = public_value env s ?h \<or> (\<exists>e. entry env (mSession s) ?h = Some e \<and> is_new e \<and> persistent e)"
      using assms(1) by (simp add: in_step_def)
    show ?thesis
    proof (cases "entry env (mSession s) ?h")
      case None
      then show ?thesis
        using * True set_entry_None [of env name v]
        by (auto simp: s'(3) public_value_def fresh_entry_def set_entry_def)
    next
      case (Some e)
      then show ?thesis
        using * True set_entry_Some [OF entry_entry_ok [OF ok Some], of name v]
        by (auto simp: s'(3) public_value_def)
    qed
  qed
  then show ?thesis
    using s' by (auto simp: in_step_def)
qed

lemma in_step_EncodeChanges:
  assumes "in_step env (s, c)"
  shows "\<exists>s' into. EncodeChanges env s [] = Inr (s', into) \<and> in_step env (s', apply_changes env into c) \<and>
    apply_changes env into c = public_value env s' \<and> public_value env s' = public_value env s"
proof -
  have ok: "session_ok env s"
    using assms by (simp add: in_step_def)
  obtain s' into where e: "EncodeChanges env s [] = Inr (s', into)" "session_ok env s'"
    "\<And>h. entry env (mSession s') h = map_option sent (entry env (mSession s) h)"
    "added env (mSession s) (\<lambda>e. changed e) (\<lambda>e. change e) [] into"
    using EncodeChanges_entry [OF ok] by blast
  have p: "public_value env s' = public_value env s"
    by (auto simp: fun_eq_iff public_value_def e(3) split: option.split)
  have "apply_changes env into c h = public_value env s h" for h
    using e(4) assms unfolding in_step_def
    by (cases "entry env (mSession s) h") (auto simp: added_def apply_changes_def public_value_def dest!: spec [of _ h])
  then show ?thesis
    using e p by (auto simp: in_step_def fun_eq_iff)
qed

lemma in_step_op:
  assumes "in_step env sc" "op_usable env o'"
  shows "\<exists>sc'. run_op env o' sc = Inr sc' \<and> in_step env sc'"
proof (cases sc)
  case (Pair s c)
  have *: "\<exists>s'. Session_Set env n v s = Inr s' \<and> in_step env (s', c)"
    if "usable env n" "session_value env v" for n v
    using in_step_Set that assms(1) Pair by blast
  show ?thesis
  proof (cases o')
    case (Op_SetInt n v)
    then show ?thesis
      using * [of n "PyInt v"] assms(2) Pair by (auto simp: SetInt_def)
  next
    case (Op_SetLong n v)
    then show ?thesis
      using * [of n "PyLong v"] assms(2) Pair by (auto simp: SetLong_def)
  next
    case (Op_SetString n v)
    then show ?thesis
      using * [of n "PyString (c_str v)"] assms(2) Pair by (auto simp: SetString_def)
  next
    case (Op_SetFloat n v)
    then show ?thesis
      using * [of n "PyFloat v"] assms(2) Pair by (auto simp: SetFloat_def)
  next
    case (Op_Clear n)
    then show ?thesis
      using * [of n PyNone] assms(2) Pair by (auto simp: Session_Clear_def)
  next
    case Op_EncodeChanges
    then show ?thesis
      using in_step_EncodeChanges assms(1) Pair by fastforce
  qed
qed

lemma in_step_ops:
  "in_step env sc \<Longrightarrow> list_all (op_usable env) os \<Longrightarrow> \<exists>sc'. run_ops env os sc = Inr sc' \<and> in_step env sc'"
proof (induction os arbitrary: sc)
  case (Cons o' os)
  then obtain sc1 where "run_op env o' sc = Inr sc1" "in_step env sc1"
    using in_step_op by fastforce
  then show ?case
    using Cons by simp
qed simp

lemma in_step_initial:
  assumes "session_ok env s"
  shows "\<exists>s' into. EncodeInitialState env s [] = Inr (s', into) \<and> in_step env (s', take_initial env into)"
proof -
  obtain s' into where e: "EncodeInitialState env s [] = Inr (s', into)" "session_ok env s'"
    "\<And>h. entry env (mSession s') h = map_option sent (entry env (mSession s) h)"
    "added env (mSession s) persistent current [] into"
    using EncodeInitialState_entry [OF assms] by blast
  have "take_initial env into h = public_value env s' h" for h
    using e(4) by (auto simp: added_def take_initial_def public_value_def e(3) split: option.split)
  then show ?thesis
    using e by (auto simp: in_step_def)
qed

lemma session_ok_new:
  "\<exists>s. ClientSession_new env usec = Inr s \<and> session_ok env s"
proof -
  define good where "good es \<longleftrightarrow> dict_ok env es \<and> list_all (entry_ok env) es \<and> \<not> list_ex is_new es" for es
  have step: "\<exists>es'. Dict_SetItem env es (PyString nm) (fresh_entry v) = Inr es' \<and> good es'"
    if g: "good es" and v: "session_value env v" for es nm v
  proof -
    let ?h = "string_hash env nm"
    have ok: "entry_ok env (PyString x, fresh_entry v)" and old: "\<not> is_new (k, fresh_entry v)" for x k
      using v by (auto simp: entry_ok_def fresh_entry_def session_value_def is_new_def)
    show ?thesis
    proof (cases "?h = - 1")
      case True
      then show ?thesis using g by (simp add: Dict_SetItem_def)
    next
      case False
      show ?thesis
      proof (cases "find_hash env ?h es")
        case None
        then show ?thesis
          using g False ok old Dict_SetItem_fresh [of env es "PyString nm" ?h "fresh_entry v"]
          by (auto simp: good_def dict_map_def)
      next
        case (Some n)
        have n: "n < length es"
          using find_hash_Some [OF Some] by simp
        then obtain x t where x: "es ! n = (PyString x, t)"
          using g by (fastforce simp: good_def list_all_length entry_ok_def)
        let ?es = "es[n := (fst (es ! n), fresh_entry v)]"
        have "set ?es \<subseteq> insert (PyString x, fresh_entry v) (set es)"
          using x set_update_subset_insert by fastforce
        then have "list_all (entry_ok env) ?es \<and> \<not> list_ex is_new ?es"
          using g ok old unfolding good_def list_all_iff list_ex_iff by blast
        then show ?thesis
          using g False Some dict_ok_update [of env es n] n
          by (simp add: good_def Dict_SetItem_def fresh_entry_def)
      qed
    qed
  qed
  have "good []"
    by (simp add: good_def dict_ok_def)
  then obtain d1 where d1: "Dict_SetItem env [] (PyString (str ''role'')) (fresh_entry (PyLong (Role_PLAYER OR Role_NEWBIE))) = Inr d1" "good d1"
    using step by (meson session_valueI)
  obtain d2 where d2: "Dict_SetItem env d1 (PyString (str ''userid'')) (fresh_entry (PyInt 0)) = Inr d2" "good d2"
    using step [OF d1(2)] by (meson session_valueI)
  obtain d3 where d3: "Dict_SetItem env d2 (PyString (str ''address'')) (fresh_entry (PyString (str ''0.0.0.0''))) = Inr d3" "good d3"
    using step [OF d2(2)] by (meson session_valueI)
  show ?thesis
    using d1 d2 d3 by (simp add: ClientSession_new_def session_ok_def good_def del: str_Cons)
qed

text \<open>No operation fails, and each keeps the invariant.\<close>

lemma run_op_ok:
  assumes "session_ok env s" "op_usable env x"
  shows "\<exists>s' c'. run_op env x (s, c) = Inr (s', c') \<and> session_ok env s'"
proof -
  have *: "\<exists>s'. Session_Set env n v s = Inr s' \<and> session_ok env s'"
    if "usable env n" "session_value env v" for n v
    using Session_Set_entry [OF assms(1) that] by blast
  show ?thesis
  proof (cases x)
    case (Op_SetInt n v)
    then show ?thesis
      using * [of n "PyInt v"] assms(2) by (auto simp: SetInt_def)
  next
    case (Op_SetLong n v)
    then show ?thesis
      using * [of n "PyLong v"] assms(2) by (auto simp: SetLong_def)
  next
    case (Op_SetString n v)
    then show ?thesis
      using * [of n "PyString (c_str v)"] assms(2) by (auto simp: SetString_def)
  next
    case (Op_SetFloat n v)
    then show ?thesis
      using * [of n "PyFloat v"] assms(2) by (auto simp: SetFloat_def)
  next
    case (Op_Clear n)
    then show ?thesis
      using * [of n PyNone] assms(2) by (auto simp: Session_Clear_def)
  next
    case Op_EncodeChanges
    then show ?thesis
      using EncodeChanges_entry [OF assms(1)] by auto
  qed
qed

lemma run_ops_ok:
  "session_ok env s \<Longrightarrow> list_all (op_usable env) xs \<Longrightarrow>
   \<exists>s' c'. run_ops env xs (s, c) = Inr (s', c') \<and> session_ok env s'"
proof (induction xs arbitrary: s c)
  case (Cons x xs)
  obtain s1 c1 where r: "run_op env x (s, c) = Inr (s1, c1)" "session_ok env s1"
    using run_op_ok [OF Cons.prems(1), of x c] Cons.prems(2) by auto
  show ?case
    using Cons.IH [OF r(2), of c1] Cons.prems(2) r(1) by simp
qed simp

section \<open>Reading and setting\<close>

lemma GetCurrent_entry:
  assumes "session_ok env s" "usable env name"
  shows "GetCurrent env s name =
    Inr (case entry env (mSession s) (string_hash env (c_str name)) of None \<Rightarrow> PyNull | Some e \<Rightarrow> current e)"
proof -
  let ?h = "string_hash env (c_str name)"
  have g: "Dict_GetItemString env (mSession s) name =
      Inr (case entry env (mSession s) ?h of None \<Rightarrow> PyNull | Some e \<Rightarrow> snd e)"
    using Dict_GetItem_map [of "PyString (c_str name)" env ?h "mSession s"]
    by (simp add: Dict_GetItemString_def dict_map_entry split: option.split)
  show ?thesis
  proof (cases "entry env (mSession s) ?h")
    case None
    then show ?thesis by (simp add: GetCurrent_def GetValueTuple_def g)
  next
    case (Some e)
    then obtain nm old cur b where "e = (PyString nm, PyTuple [old, cur, PyBool b])"
      using entry_entry_ok [OF assms(1) Some] by (auto simp: entry_ok_def)
    then show ?thesis
      using Some by (simp add: GetCurrent_def GetValueTuple_def g AsTuple_def vec_at_def)
  qed
qed

primrec Session_Set_all :: "env \<Rightarrow> (bytes \<times> pyrep) list \<Rightarrow> client_session \<Rightarrow> client_session result" where
  "Session_Set_all env [] s = Inr s"
| "Session_Set_all env (nv # nvs) s = ebind (Session_Set env (fst nv) (snd nv) s) (Session_Set_all env nvs)"

lemma Session_Set_all_ok:
  assumes "session_ok env s" "list_all (\<lambda>(n, v). usable env n \<and> session_value env v) nvs"
  shows "\<exists>s'. Session_Set_all env nvs s = Inr s' \<and> session_ok env s'"
  using assms
proof (induction nvs arbitrary: s)
  case (Cons nv nvs)
  obtain s1 where "Session_Set env (fst nv) (snd nv) s = Inr s1" "session_ok env s1"
    using Session_Set_entry [OF Cons.prems(1), of "fst nv" "snd nv"] Cons.prems(2) by (cases nv) auto
  then show ?case
    using Cons by simp
qed simp

lemma Session_Set_all_append:
  "Session_Set_all env (xs @ ys) = (\<lambda>s. ebind (Session_Set_all env xs s) (Session_Set_all env ys))"
  by (induction xs) (rule ext; simp add: ebind_assoc)+

lemma Session_Set_all_fun:
  "ebind m (Session_Set_all env []) = m"
  "Session_Set_all env (nv # nvs) = (\<lambda>s. ebind (Session_Set env (fst nv) (snd nv) s) (Session_Set_all env nvs))"
  by (cases m) (simp_all add: fun_eq_iff)

lemma Session_Set_all_other:
  assumes "session_ok env s" "list_all (\<lambda>(n, v). usable env n \<and> session_value env v) nvs"
    and "\<forall>(n, v) \<in> set nvs. string_hash env (c_str n) \<noteq> h" "Session_Set_all env nvs s = Inr s'"
  shows "entry env (mSession s') h = entry env (mSession s) h"
  using assms
proof (induction nvs arbitrary: s)
  case (Cons nv nvs)
  obtain s1 where s1: "Session_Set env (fst nv) (snd nv) s = Inr s1" "session_ok env s1"
    "entry env (mSession s1) h = entry env (mSession s) h"
    using Session_Set_entry [OF Cons.prems(1), of "fst nv" "snd nv"] Cons.prems(2,3) by (cases nv) auto
  then show ?case
    using Cons.IH [OF s1(2)] Cons.prems by simp
qed simp

text \<open>An integer variable that held an integer holds the one it was set to, unless hashes collide.\<close>

lemma Session_Set_all_int:
  assumes "session_ok env s" "list_all (\<lambda>(n, v). usable env n \<and> session_value env v) nvs"
    and nvs: "nvs = xs @ (name, PyInt i) # ys"
    and other: "\<forall>(n, v) \<in> set xs \<union> set ys. string_hash env (c_str n) \<noteq> string_hash env (c_str name)"
    and run: "Session_Set_all env nvs s = Inr s'" and was: "GetCurrent env s name = Inr (PyInt j)"
    and i: "i \<noteq> - 1" "i \<noteq> - 2"
  shows "GetCurrent env s' name = Inr (PyInt i)"
proof -
  let ?h = "string_hash env (c_str name)"
  have ok: "list_all (\<lambda>(n, v). usable env n \<and> session_value env v) xs"
      "list_all (\<lambda>(n, v). usable env n \<and> session_value env v) ys" "usable env name"
    using assms(2) by (simp_all add: nvs)
  obtain s1 where s1: "Session_Set_all env xs s = Inr s1" "session_ok env s1"
    using Session_Set_all_ok [OF assms(1) ok(1)] by blast
  obtain s2 where s2: "Session_Set env name (PyInt i) s1 = Inr s2" "session_ok env s2"
    "entry env (mSession s2) ?h = Some (set_entry env name (PyInt i) (entry env (mSession s1) ?h))"
    using Session_Set_entry [OF s1(2) ok(3), of "PyInt i"] by auto
  have s': "Session_Set_all env ys s2 = Inr s'"
    using run s1(1) s2(1) by (simp add: nvs Session_Set_all_append)
  then have ok': "session_ok env s'"
    using Session_Set_all_ok [OF s2(2) ok(2)] by auto
  have e1: "entry env (mSession s1) ?h = entry env (mSession s) ?h"
    using Session_Set_all_other [OF assms(1) ok(1) _ s1(1)] other by auto
  have e2: "entry env (mSession s') ?h = entry env (mSession s2) ?h"
    using Session_Set_all_other [OF s2(2) ok(2) _ s'] other by auto
  obtain e where e: "entry env (mSession s) ?h = Some e" "current e = PyInt j"
    using was GetCurrent_entry [OF assms(1) ok(3)] by (auto split: option.splits)
  obtain nm old b where "e = (PyString nm, PyTuple [old, PyInt j, PyBool b])"
    using entry_entry_ok [OF assms(1) e(1)] e(2) by (auto simp: entry_ok_def)
  then have "current (set_entry env name (PyInt i) (Some e)) = PyInt i"
    using i by (auto simp: set_entry_def int_hash_def no_minus_one_def split: if_splits)
  then show ?thesis
    using GetCurrent_entry [OF ok' ok(3)] e2 s2(3) e1 e(1) by simp
qed

section \<open>Main results\<close>

text \<open>C27. The client is kept in step: after the initial state was sent, whatever variables the server sets
  and however often it sends changes in between, every call succeeds, and when it sends changes once
  more the copy of the client holds exactly the current values of the variables it may know, and
  nothing of those that are never sent.\<close>

theorem client_copy_in_step:
  assumes "session_ok env s" "EncodeInitialState env s [] = Inr (s1, into)" "list_all (op_usable env) xs"
  shows "\<exists>s2 c. run_ops env (xs @ [Op_EncodeChanges]) (s1, take_initial env into) = Inr (s2, c) \<and>
    c = public_value env s2 \<and> \<not> mDirty s2"
proof -
  have i: "in_step env (s1, take_initial env into)"
    using in_step_initial [OF assms(1)] assms(2) by auto
  obtain s2 c where r: "run_ops env xs (s1, take_initial env into) = Inr (s2, c)" "in_step env (s2, c)"
    using in_step_ops [OF i assms(3)] by auto
  obtain s3 into3 where e: "EncodeChanges env s2 [] = Inr (s3, into3)"
    "apply_changes env into3 c = public_value env s3"
    using in_step_EncodeChanges [OF r(2)] by blast
  have "\<not> mDirty s3"
    using EncodeChanges_entry [of env s2] r(2) e(1) by (auto simp: in_step_def)
  then show ?thesis
    using r e by (simp add: run_ops_append)
qed

theorem client_copy_in_step_witness:
  "\<forall>env. \<exists>s2 c. run_ops env [Op_SetInt [] 7, Op_EncodeChanges]
     (\<lparr>mSession = [], mDirty = False, m_sessionID = 3\<rparr>, take_initial env []) = Inr (s2, c) \<and>
     c = public_value env s2 \<and> \<not> mDirty s2"
proof (intro allI)
  fix env
  show "\<exists>s2 c. run_ops env [Op_SetInt [] 7, Op_EncodeChanges]
     (\<lparr>mSession = [], mDirty = False, m_sessionID = 3\<rparr>, take_initial env []) = Inr (s2, c) \<and>
     c = public_value env s2 \<and> \<not> mDirty s2"
    using client_copy_in_step [of env "\<lparr>mSession = [], mDirty = False, m_sessionID = 3\<rparr>"
        "\<lparr>mSession = [], mDirty = False, m_sessionID = 3\<rparr>" "[]" "[Op_SetInt [] 7]"]
    by (simp add: session_ok_def dict_ok_def EncodeInitialState_def usable_def c_str_def string_hash_def)
qed

text \<open>The invariant of the session: a new session satisfies it and every operation keeps it, so every
  entry is a tuple of the last value, the current value and a flag, names have different hashes, and the
  session counts as dirty exactly when some flag is set.\<close>

theorem session_invariant:
  assumes "list_all (op_usable env) xs"
  shows "\<exists>s0. ClientSession_new env usec = Inr s0 \<and>
    (\<exists>s c'. run_ops env xs (s0, \<lambda>_. PyNone) = Inr (s, c') \<and> dict_ok env (mSession s) \<and>
      (\<forall>e \<in> set (mSession s). entry_ok env e) \<and> (mDirty s \<longleftrightarrow> (\<exists>e \<in> set (mSession s). is_new e)))"
proof -
  obtain s0 where s0: "ClientSession_new env usec = Inr s0" "session_ok env s0"
    using session_ok_new by blast
  then show ?thesis
    using run_ops_ok [OF s0(2) assms, of "\<lambda>_. PyNone"] by (auto simp: session_ok_def list_all_iff list_ex_iff)
qed

theorem session_invariant_witness:
  "\<forall>env usec. \<exists>s0. ClientSession_new env usec = Inr s0 \<and>
    (\<exists>s c'. run_ops env [Op_SetInt [] 7, Op_Clear [], Op_EncodeChanges] (s0, \<lambda>_. PyNone) = Inr (s, c') \<and> dict_ok env (mSession s) \<and>
      (\<forall>e \<in> set (mSession s). entry_ok env e) \<and> (mDirty s \<longleftrightarrow> (\<exists>e \<in> set (mSession s). is_new e)))"
proof (intro allI)
  fix env usec
  show "\<exists>s0. ClientSession_new env usec = Inr s0 \<and>
    (\<exists>s c'. run_ops env [Op_SetInt [] 7, Op_Clear [], Op_EncodeChanges] (s0, \<lambda>_. PyNone) = Inr (s, c') \<and> dict_ok env (mSession s) \<and>
      (\<forall>e \<in> set (mSession s). entry_ok env e) \<and> (mDirty s \<longleftrightarrow> (\<exists>e \<in> set (mSession s). is_new e)))"
    by (rule session_invariant) (simp add: usable_def c_str_def string_hash_def)
qed

text \<open>Changes are missed when hashes agree: a variable that holds -2 stays at -2 when it is set to -1,
  the session is not marked, and the client is told nothing.\<close>

theorem session_change_missed:
  assumes "session_ok env s" "usable env name" "SetInt env name (- 2) s = Inr s1" "EncodeChanges env s1 [] = Inr (s2, into)"
  shows "SetInt env name (- 1) s2 = Inr s2 \<and> \<not> mDirty s2"
proof -
  let ?h = "string_hash env (c_str name)"
  have s1: "session_ok env s1" "entry env (mSession s1) ?h = Some (set_entry env name (PyInt (- 2)) (entry env (mSession s) ?h))"
    using Session_Set_entry [OF assms(1,2), of "PyInt (- 2)"] assms(3) by (auto simp: SetInt_def)
  have s2: "session_ok env s2" "\<not> mDirty s2" "entry env (mSession s2) ?h = map_option sent (entry env (mSession s1) ?h)"
    using EncodeChanges_entry [OF s1(1)] assms(4) by auto
  then obtain k t where e: "entry env (mSession s2) ?h = Some (k, t)"
    using s1(2) by (metis option.simps(9) prod.collapse)
  obtain n where n: "find_hash env ?h (mSession s2) = Some n" "mSession s2 ! n = (k, t)"
    using e by (auto simp: entry_def)
  obtain nm old cur b where t: "k = PyString nm" "t = PyTuple [old, cur, PyBool b]"
    using entry_entry_ok [OF s2(1) e] by (auto simp: entry_ok_def)
  have "py_hash env cur = Inr (- 2)"
  proof (cases "entry env (mSession s) ?h")
    case None
    then show ?thesis
      using s1(2) s2(3) e t
      by (auto simp: set_entry_def fresh_entry_def int_hash_def no_minus_one_def split: if_splits)
  next
    case (Some e0)
    then show ?thesis
      using s1(2) s2(3) e t entry_entry_ok [OF assms(1) Some]
      by (auto simp: entry_ok_def set_entry_def int_hash_def no_minus_one_def split: if_splits)
  qed
  moreover have "py_hash env (PyInt (- 1)) = Inr (- 2)"
    by (simp add: int_hash_def no_minus_one_def)
  ultimately show ?thesis
    using n t s2(2)
    by (simp add: SetInt_def Session_Set_def GetValueTuple_def Dict_GetItemString_def Dict_GetItem_def AsTuple_def vec_at_def)
qed

theorem session_change_missed_witness:
  "\<forall>env. \<exists>s1 s2 into. SetInt env [] (- 2) \<lparr>mSession = [], mDirty = False, m_sessionID = 3\<rparr> = Inr s1 \<and>
     EncodeChanges env s1 [] = Inr (s2, into) \<and> SetInt env [] (- 1) s2 = Inr s2 \<and> \<not> mDirty s2"
proof (intro allI)
  fix env
  let ?s = "\<lparr>mSession = [], mDirty = False, m_sessionID = 3\<rparr>"
  have s: "session_ok env ?s" "usable env []"
    by (simp_all add: session_ok_def dict_ok_def usable_def c_str_def string_hash_def)
  obtain s1 where s1: "SetInt env [] (- 2) ?s = Inr s1" "session_ok env s1"
    using Session_Set_entry [OF s, of "PyInt (- 2)"] by (auto simp: SetInt_def)
  obtain s2 into where "EncodeChanges env s1 [] = Inr (s2, into)"
    using EncodeChanges_entry [OF s1(2)] by blast
  with s s1 session_change_missed show "\<exists>s1 s2 into. SetInt env [] (- 2) ?s = Inr s1 \<and>
     EncodeChanges env s1 [] = Inr (s2, into) \<and> SetInt env [] (- 1) s2 = Inr s2 \<and> \<not> mDirty s2"
    by blast
qed

end
