(* ===== verification/Sha.thy ===== *)
theory Sha
  imports Prelude
begin

text \<open>
  The SHA-1 module of \<open>eve-common/auth/ShaModule.h\<close>, which hashes the passwords of accounts:
  the compression function with its rounds unravelled over six registers, and the streaming
  interface \<open>sha_init\<close>, \<open>sha_update\<close>, \<open>sha_final\<close> with its buffer of one block. The reference
  is the algorithm of FIPS 180, written down here as \<open>SHA1\<close>: a theorem below shows that any
  sequence of updates computes it.
\<close>

section \<open>State\<close>

record SHAobject =
  digest :: "int32 list"
  count_lo :: int32
  count_hi :: int32
  block :: bytes
  Endianness :: nat
  pending :: nat

text \<open>
  \<open>block\<close> is the member \<open>data\<close>, \<open>pending\<close> the member \<open>local\<close>. \<open>TestEndianness\<close> finds a
  little-endian machine on x86-64.
\<close>

definition PCT_LITTLE_ENDIAN :: nat where
  "PCT_LITTLE_ENDIAN = 1"

definition PCT_BIG_ENDIAN :: nat where
  "PCT_BIG_ENDIAN = 0"

text \<open>\<open>memcpy\<close> and \<open>memset\<close> into an array at an offset.\<close>

definition put_at :: "'a list \<Rightarrow> nat \<Rightarrow> 'a list \<Rightarrow> 'a list" where
  "put_at xs i ys = take i xs @ ys @ drop (i + length ys) xs"

definition longReverse :: "int32 list \<Rightarrow> nat \<Rightarrow> int32 list" where
  "longReverse buffer endian =
     (if endian = PCT_BIG_ENDIAN then buffer
      else map (\<lambda>v. let v = drop_bit 8 (v AND 0xFF00FF00) OR push_bit 8 (v AND 0x00FF00FF)
                    in push_bit 16 v OR drop_bit 16 v) buffer)"

definition SHAcopy :: "SHAobject \<Rightarrow> SHAobject \<Rightarrow> SHAobject" where
  "SHAcopy src dest =
     dest\<lparr>Endianness := Endianness src, pending := pending src, count_lo := count_lo src,
          count_hi := count_hi src, digest := digest src, block := block src\<rparr>"

section \<open>The compression function\<close>

definition f1 :: "int32 \<Rightarrow> int32 \<Rightarrow> int32 \<Rightarrow> int32" where
  "f1 x y z = z XOR (x AND (y XOR z))"

definition f2 :: "int32 \<Rightarrow> int32 \<Rightarrow> int32 \<Rightarrow> int32" where
  "f2 x y z = x XOR y XOR z"

definition f3 :: "int32 \<Rightarrow> int32 \<Rightarrow> int32 \<Rightarrow> int32" where
  "f3 x y z = (x AND y) OR (z AND (x OR y))"

definition f4 :: "int32 \<Rightarrow> int32 \<Rightarrow> int32 \<Rightarrow> int32" where
  "f4 x y z = x XOR y XOR z"

definition CONST1 :: int32 where "CONST1 = 0x5a827999"

definition CONST2 :: int32 where "CONST2 = 0x6ed9eba1"

definition CONST3 :: int32 where "CONST3 = 0x8f1bbcdc"

definition CONST4 :: int32 where "CONST4 = 0xca62c1d6"

definition R32 :: "int32 \<Rightarrow> nat \<Rightarrow> int32" where
  "R32 x n = push_bit n x OR drop_bit (32 - n) x"

text \<open>The token pastings \<open>f##n\<close> and \<open>CONST##n\<close> of the round macros.\<close>

datatype quarter = Q1 | Q2 | Q3 | Q4

fun f_of :: "quarter \<Rightarrow> int32 \<Rightarrow> int32 \<Rightarrow> int32 \<Rightarrow> int32" where
  "f_of Q1 = f1"
| "f_of Q2 = f2"
| "f_of Q3 = f3"
| "f_of Q4 = f4"

fun CONST_of :: "quarter \<Rightarrow> int32" where
  "CONST_of Q1 = CONST1"
| "CONST_of Q2 = CONST2"
| "CONST_of Q3 = CONST3"
| "CONST_of Q4 = CONST4"

record regs =
  rT :: int32
  rA :: int32
  rB :: int32
  rC :: int32
  rD :: int32
  rE :: int32

datatype macro = FA quarter | FB quarter | FC quarter | FD quarter | FE quarter | FT quarter

text \<open>One macro, with the word that \<open>*WP++\<close> reads.\<close>

fun run_macro :: "macro \<Rightarrow> int32 \<Rightarrow> regs \<Rightarrow> regs" where
  "run_macro (FA n) w s =
     s\<lparr>rT := R32 (rA s) 5 + f_of n (rB s) (rC s) (rD s) + rE s + w + CONST_of n,
       rB := R32 (rB s) 30\<rparr>"
| "run_macro (FB n) w s =
     s\<lparr>rE := R32 (rT s) 5 + f_of n (rA s) (rB s) (rC s) + rD s + w + CONST_of n,
       rA := R32 (rA s) 30\<rparr>"
| "run_macro (FC n) w s =
     s\<lparr>rD := R32 (rE s) 5 + f_of n (rT s) (rA s) (rB s) + rC s + w + CONST_of n,
       rT := R32 (rT s) 30\<rparr>"
| "run_macro (FD n) w s =
     s\<lparr>rC := R32 (rD s) 5 + f_of n (rE s) (rT s) (rA s) + rB s + w + CONST_of n,
       rE := R32 (rE s) 30\<rparr>"
| "run_macro (FE n) w s =
     s\<lparr>rB := R32 (rC s) 5 + f_of n (rD s) (rE s) (rT s) + rA s + w + CONST_of n,
       rD := R32 (rD s) 30\<rparr>"
| "run_macro (FT n) w s =
     s\<lparr>rA := R32 (rB s) 5 + f_of n (rC s) (rD s) (rE s) + rT s + w + CONST_of n,
       rC := R32 (rC s) 30\<rparr>"

text \<open>The eighty macros in the order of the source, ten to a line.\<close>

definition unravelled :: "macro list" where
  "unravelled =
    [FA Q1, FB Q1, FC Q1, FD Q1, FE Q1, FT Q1, FA Q1, FB Q1, FC Q1, FD Q1,
     FE Q1, FT Q1, FA Q1, FB Q1, FC Q1, FD Q1, FE Q1, FT Q1, FA Q1, FB Q1,
     FC Q2, FD Q2, FE Q2, FT Q2, FA Q2, FB Q2, FC Q2, FD Q2, FE Q2, FT Q2,
     FA Q2, FB Q2, FC Q2, FD Q2, FE Q2, FT Q2, FA Q2, FB Q2, FC Q2, FD Q2,
     FE Q3, FT Q3, FA Q3, FB Q3, FC Q3, FD Q3, FE Q3, FT Q3, FA Q3, FB Q3,
     FC Q3, FD Q3, FE Q3, FT Q3, FA Q3, FB Q3, FC Q3, FD Q3, FE Q3, FT Q3,
     FA Q4, FB Q4, FC Q4, FD Q4, FE Q4, FT Q4, FA Q4, FB Q4, FC Q4, FD Q4,
     FE Q4, FT Q4, FA Q4, FB Q4, FC Q4, FD Q4, FE Q4, FT Q4, FA Q4, FB Q4]"

fun run_macros :: "macro list \<Rightarrow> int32 list \<Rightarrow> regs \<Rightarrow> regs" where
  "run_macros (m # ms) (w # ws) s = run_macros ms ws (run_macro m w s)"
| "run_macros _ _ s = s"

text \<open>\<open>memcpy(W, data)\<close> reads the block as words in the byte order of the machine.\<close>

fun words_of :: "bytes \<Rightarrow> int32 list" where
  "words_of (a # b # c # d # bs) = le_word [a, b, c, d] # words_of bs"
| "words_of _ = []"

text \<open>The loop that extends \<open>W\<close>; \<open>i\<close> is the length of what is filled.\<close>

primrec extend_W :: "nat \<Rightarrow> int32 list \<Rightarrow> int32 list" where
  "extend_W 0 W = W"
| "extend_W (Suc n) W =
     (let i = length W in
      extend_W n (W @ [R32 (W ! (i - 3) XOR W ! (i - 8) XOR W ! (i - 14) XOR W ! (i - 16)) 1]))"

text \<open>\<open>T\<close> is not initialised; the first macro assigns it before anything reads it.\<close>

definition sha_transform :: "SHAobject \<Rightarrow> SHAobject" where
  "sha_transform sha =
     (let W = extend_W 64 (longReverse (words_of (block sha)) (Endianness sha));
          d = digest sha;
          s = run_macros unravelled W
                \<lparr>rT = 0, rA = d ! 0, rB = d ! 1, rC = d ! 2, rD = d ! 3, rE = d ! 4\<rparr>
      in sha\<lparr>digest := [d ! 0 + rE s, d ! 1 + rT s, d ! 2 + rA s, d ! 3 + rB s, d ! 4 + rC s]\<rparr>)"

section \<open>The streaming interface\<close>

definition sha_init :: "SHAobject \<Rightarrow> SHAobject" where
  "sha_init sha =
     sha\<lparr>Endianness := PCT_LITTLE_ENDIAN,
         digest := [0x67452301, 0xefcdab89, 0x98badcfe, 0x10325476, 0xc3d2e1f0],
         count_lo := 0, count_hi := 0, pending := 0\<rparr>"

text \<open>The \<open>while\<close> loop over whole blocks, and the copy of the rest.\<close>

function update_loop :: "bytes \<Rightarrow> SHAobject \<Rightarrow> SHAobject" where
  "update_loop buffer sha =
     (if 64 \<le> length buffer
      then update_loop (drop 64 buffer)
             (sha_transform (sha\<lparr>block := put_at (block sha) 0 (take 64 buffer)\<rparr>))
      else sha\<lparr>block := put_at (block sha) 0 buffer, pending := length buffer\<rparr>)"
  by pat_completeness auto
termination
  by (relation "measure (length \<circ> fst)") auto

declare update_loop.simps [simp del]

text \<open>
  \<open>count\<close> is an \<open>int\<close>: a negative one makes \<open>memcpy\<close> run over the end of the object. The
  words that count bits are added modulo \<open>2 ^ 32\<close>.
\<close>

definition count_bits :: "nat \<Rightarrow> SHAobject \<Rightarrow> SHAobject" where
  "count_bits count sha =
     (let clo = count_lo sha + push_bit 3 (word_of_nat count);
          chi = (if clo < count_lo sha then count_hi sha + 1 else count_hi sha)
      in sha\<lparr>count_hi := chi + drop_bit 29 (word_of_nat count), count_lo := clo\<rparr>)"

definition absorb :: "SHAobject \<Rightarrow> bytes \<Rightarrow> SHAobject" where
  "absorb sha buffer =
     (let sha = count_bits (length buffer) sha in
      if pending sha \<noteq> 0 then
        let i = min (64 - pending sha) (length buffer);
            sha = sha\<lparr>block := put_at (block sha) (pending sha) (take i buffer),
                      pending := pending sha + i\<rparr>
        in if pending sha = 64 then update_loop (drop i buffer) (sha_transform sha) else sha
      else update_loop buffer sha)"

definition sha_update :: "SHAobject \<Rightarrow> bytes \<Rightarrow> int32 \<Rightarrow> SHAobject result" where
  "sha_update sha buffer count =
     (if sint count < 0 then Inl Undefined_behaviour
      else Inr (absorb sha (take (unat count) buffer)))"

definition sha_update_wstring :: "SHAobject \<Rightarrow> int32 list \<Rightarrow> SHAobject result" where
  "sha_update_wstring sha value =
     sha_update sha (concat (map (le_bytes 4) value)) (word_of_nat (length value * 4))"

definition be_bytes_of :: "int32 \<Rightarrow> bytes" where
  "be_bytes_of w =
     [ucast (drop_bit 24 w AND 0xff), ucast (drop_bit 16 w AND 0xff),
      ucast (drop_bit 8 w AND 0xff), ucast (w AND 0xff)]"

definition sha_final :: "SHAobject \<Rightarrow> bytes \<times> SHAobject" where
  "sha_final sha =
     (let lo_bit_count = count_lo sha;
          hi_bit_count = count_hi sha;
          count = unat (drop_bit 3 lo_bit_count AND 0x3f);
          sha = sha\<lparr>block := (block sha)[count := 0x80]\<rparr>;
          count = count + 1;
          sha = (if count > 56 then
                   let sha = sha_transform
                               (sha\<lparr>block := put_at (block sha) count (replicate (64 - count) 0)\<rparr>)
                   in sha\<lparr>block := put_at (block sha) 0 (replicate 56 0)\<rparr>
                 else sha\<lparr>block := put_at (block sha) count (replicate (56 - count) 0)\<rparr>);
          sha = sha\<lparr>block := put_at (put_at (block sha) 56 (be_bytes_of hi_bit_count))
                               60 (be_bytes_of lo_bit_count)\<rparr>;
          sha = sha_transform sha
      in (concat (map be_bytes_of (digest sha)), sha))"

text \<open>The digest of a copy, so that the object can absorb more.\<close>

definition sha_digest :: "SHAobject \<Rightarrow> bytes" where
  "sha_digest self = fst (sha_final (SHAcopy self self))"

definition hex_char :: "byte \<Rightarrow> byte" where
  "hex_char c = (if c > 9 then c + 97 - 10 else c + 48)"

definition Hexify :: "bytes \<Rightarrow> bytes" where
  "Hexify d = concat (map (\<lambda>b. [hex_char (drop_bit 4 b AND 0xf), hex_char (b AND 0xf)]) d)"

definition SHA_hexdigest :: "SHAobject \<Rightarrow> bytes" where
  "SHA_hexdigest self = Hexify (fst (sha_final (SHAcopy self self)))"

section \<open>The reference algorithm\<close>

text \<open>FIPS 180-4, sections 4.1.1, 4.2.1, 5.1.1, 5.3.1 and 6.1.2.\<close>

definition sha_f :: "nat \<Rightarrow> int32 \<Rightarrow> int32 \<Rightarrow> int32 \<Rightarrow> int32" where
  "sha_f t x y z =
     (if t < 20 then (x AND y) XOR (NOT x AND z)
      else if t < 40 then x XOR y XOR z
      else if t < 60 then (x AND y) XOR (x AND z) XOR (y AND z)
      else x XOR y XOR z)"

definition sha_K :: "nat \<Rightarrow> int32" where
  "sha_K t =
     (if t < 20 then 0x5a827999 else if t < 40 then 0x6ed9eba1
      else if t < 60 then 0x8f1bbcdc else 0xca62c1d6)"

type_synonym chain = "int32 \<times> int32 \<times> int32 \<times> int32 \<times> int32"

fun sha_round :: "nat \<Rightarrow> int32 \<Rightarrow> chain \<Rightarrow> chain" where
  "sha_round t w (a, b, c, d, e) =
     (word_rotl 5 a + sha_f t b c d + e + sha_K t + w, a, word_rotl 30 b, c, d)"

primrec sha_rounds :: "nat \<Rightarrow> int32 list \<Rightarrow> chain \<Rightarrow> chain" where
  "sha_rounds t [] h = h"
| "sha_rounds t (w # ws) h = sha_rounds (Suc t) ws (sha_round t w h)"

text \<open>The message schedule, word by word.\<close>

fun sha_W :: "int32 list \<Rightarrow> nat \<Rightarrow> int32" where
  "sha_W M t =
     (if t < 16 then M ! t
      else word_rotl 1 (sha_W M (t - 3) XOR sha_W M (t - 8) XOR sha_W M (t - 14) XOR sha_W M (t - 16)))"

declare sha_W.simps [simp del]

text \<open>Words of a block are big-endian.\<close>

fun be_words :: "bytes \<Rightarrow> int32 list" where
  "be_words (a # b # c # d # bs) = le_word [d, c, b, a] # be_words bs"
| "be_words _ = []"

fun chain_add :: "chain \<Rightarrow> chain \<Rightarrow> chain" where
  "chain_add (a, b, c, d, e) (a', b', c', d', e') = (a + a', b + b', c + c', d + d', e + e')"

definition compress :: "chain \<Rightarrow> bytes \<Rightarrow> chain" where
  "compress h m = chain_add h (sha_rounds 0 (map (sha_W (be_words m)) [0..<80]) h)"

function hash_blocks :: "chain \<Rightarrow> bytes \<Rightarrow> chain" where
  "hash_blocks h m = (if length m < 64 then h else hash_blocks (compress h (take 64 m)) (drop 64 m))"
  by pat_completeness auto
termination
  by (relation "measure (length \<circ> snd)") auto

declare hash_blocks.simps [simp del]

definition sha_pad :: "bytes \<Rightarrow> bytes" where
  "sha_pad m = m @ [0x80] @ replicate ((119 - length m mod 64) mod 64) 0
                 @ rev (le_bytes 8 (word_of_nat (8 * length m) :: int64))"

definition sha_H0 :: chain where
  "sha_H0 = (0x67452301, 0xefcdab89, 0x98badcfe, 0x10325476, 0xc3d2e1f0)"

fun chain_list :: "chain \<Rightarrow> int32 list" where
  "chain_list (a, b, c, d, e) = [a, b, c, d, e]"

definition SHA1 :: "bytes \<Rightarrow> bytes" where
  "SHA1 m = concat (map (\<lambda>w. rev (le_bytes 4 w)) (chain_list (hash_blocks sha_H0 (sha_pad m))))"

section \<open>The unravelled rounds\<close>

lemma R32_rotl:
  assumes "0 < n" and "n < 32"
  shows "R32 x n = word_rotl n x"
proof (rule bit_word_eqI)
  fix i
  assume "i < LENGTH(32)"
  then have i: "i < 32" by simp
  have R: "bit (word_rotl n x) i = bit x ((i + (32 - n)) mod 32)"
    using i assms by (simp add: bit_word_rotl_iff)
  have L: "bit (R32 x n) i = ((n \<le> i \<and> bit x (i - n)) \<or> bit x (i + (32 - n)))"
    using i by (simp only: R32_def bit_or_iff bit_push_bit_iff bit_drop_bit_eq o_def
        add.commute [of "32 - n"]) simp
  show "bit (R32 x n) i = bit (word_rotl n x) i"
  proof (cases "i < n")
    case True
    then have "(i + (32 - n)) mod 32 = i + (32 - n)"
      using assms by simp
    then show ?thesis
      unfolding L R using True by simp
  next
    case False
    then have "(i + (32 - n)) mod 32 = i - n"
      using i assms mod_add_self2 [of "i - n" 32] by (simp add: algebra_simps)
    moreover have "\<not> bit x (i + (32 - n))"
      using False i assms by (auto dest!: bit_imp_le_length)
    ultimately show ?thesis
      unfolding L R using False by simp
  qed
qed

lemma f1_ch: "f1 x y z = (x AND y) XOR (NOT x AND z)"
  by (rule bit_word_eqI) (auto simp: f1_def bit_simps)

lemma f3_maj: "f3 x y z = (x AND y) XOR (x AND z) XOR (y AND z)"
  by (rule bit_word_eqI) (auto simp: f3_def bit_simps)

text \<open>The phase of a macro and the quarter it uses, by its position.\<close>

fun phase :: "macro \<Rightarrow> nat" where
  "phase (FA n) = 0"
| "phase (FB n) = 1"
| "phase (FC n) = 2"
| "phase (FD n) = 3"
| "phase (FE n) = 4"
| "phase (FT n) = 5"

fun quarter_of :: "macro \<Rightarrow> quarter" where
  "quarter_of (FA n) = n"
| "quarter_of (FB n) = n"
| "quarter_of (FC n) = n"
| "quarter_of (FD n) = n"
| "quarter_of (FE n) = n"
| "quarter_of (FT n) = n"

text \<open>Which registers hold the chaining values before a macro of each phase.\<close>

definition view :: "nat \<Rightarrow> regs \<Rightarrow> chain" where
  "view p s =
     (if p = 0 then (rA s, rB s, rC s, rD s, rE s)
      else if p = 1 then (rT s, rA s, rB s, rC s, rD s)
      else if p = 2 then (rE s, rT s, rA s, rB s, rC s)
      else if p = 3 then (rD s, rE s, rT s, rA s, rB s)
      else if p = 4 then (rC s, rD s, rE s, rT s, rA s)
      else (rB s, rC s, rD s, rE s, rT s))"

definition quarter_at :: "nat \<Rightarrow> quarter" where
  "quarter_at t = (if t < 20 then Q1 else if t < 40 then Q2 else if t < 60 then Q3 else Q4)"

lemma f_of_quarter: "f_of (quarter_at t) = sha_f t" and CONST_of_quarter: "CONST_of (quarter_at t) = sha_K t"
  by (auto simp: quarter_at_def sha_f_def sha_K_def fun_eq_iff f1_ch f2_def f3_maj f4_def
      CONST1_def CONST2_def CONST3_def CONST4_def)

lemma run_macro_round:
  assumes "phase m = t mod 6" and "quarter_of m = quarter_at t"
  shows "view (Suc t mod 6) (run_macro m w s) = sha_round t w (view (t mod 6) s)"
  using assms by (cases m) (auto simp: view_def R32_rotl f_of_quarter CONST_of_quarter mod_Suc)

lemma run_macros_rounds:
  assumes "length ws = length ms"
    and "\<And>i. i < length ms \<Longrightarrow> phase (ms ! i) = (t + i) mod 6 \<and> quarter_of (ms ! i) = quarter_at (t + i)"
  shows "view ((t + length ms) mod 6) (run_macros ms ws s) = sha_rounds t ws (view (t mod 6) s)"
  using assms
proof (induction ms ws s arbitrary: t rule: run_macros.induct)
  case (1 m ms w ws s)
  have "phase (ms ! i) = (Suc t + i) mod 6 \<and> quarter_of (ms ! i) = quarter_at (Suc t + i)"
    if "i < length ms" for i
    using 1(3) [of "Suc i"] that by simp
  then have "view ((Suc t + length ms) mod 6) (run_macros ms ws (run_macro m w s))
      = sha_rounds (Suc t) ws (view (Suc t mod 6) (run_macro m w s))"
    using 1(1) [of "Suc t"] 1(2) by simp
  moreover have "view (Suc t mod 6) (run_macro m w s) = sha_round t w (view (t mod 6) s)"
    using 1(3) [of 0] by (intro run_macro_round) auto
  ultimately show ?case by simp
qed auto

lemma unravelled_cyclic:
  "map phase unravelled = map (\<lambda>i. i mod 6) [0..<80]"
  "map quarter_of unravelled = map quarter_at [0..<80]"
  by code_simp+

lemma length_unravelled: "length unravelled = 80"
  by (simp add: unravelled_def)

lemma unravelled_rounds:
  assumes "length ws = 80"
  shows "view 2 (run_macros unravelled ws s) = sha_rounds 0 ws (view 0 s)"
proof -
  have "phase (unravelled ! i) = i mod 6 \<and> quarter_of (unravelled ! i) = quarter_at i" if "i < 80" for i
  proof -
    have "map phase unravelled ! i = i mod 6" "map quarter_of unravelled ! i = quarter_at i"
      unfolding unravelled_cyclic using that by simp_all
    then show ?thesis using that by (simp add: length_unravelled)
  qed
  then show ?thesis
    using run_macros_rounds [of ws unravelled 0 s] assms by (simp add: length_unravelled)
qed

section \<open>One block\<close>

lemma length_extend_W [simp]: "length (extend_W n W) = length W + n"
  by (induction n arbitrary: W) (auto simp: Let_def)

lemma extend_W_schedule:
  "16 \<le> k \<Longrightarrow> extend_W n (map (sha_W M) [0..<k]) = map (sha_W M) [0..<k + n]"
proof (induction n arbitrary: k)
  case (Suc n)
  have "R32 (sha_W M (k - 3) XOR sha_W M (k - 8) XOR sha_W M (k - 14) XOR sha_W M (k - 16)) 1 = sha_W M k"
    using Suc.prems by (simp add: R32_rotl sha_W.simps [of M k])
  then have "extend_W (Suc n) (map (sha_W M) [0..<k]) = extend_W n (map (sha_W M) [0..<Suc k])"
    using Suc.prems by (simp add: Let_def)
  then show ?case
    using Suc.IH [of "Suc k"] Suc.prems by simp
qed simp

lemma reverse_word:
  "(let v = drop_bit 8 (v AND 0xFF00FF00) OR push_bit 8 (v AND 0x00FF00FF)
    in push_bit 16 v OR drop_bit 16 v) = le_word (rev (le_bytes 4 (v :: int32)))"
proof (rule bit_word_eqI)
  fix i
  assume "i < LENGTH(32)"
  then have "i \<in> {0, 1, 2, 3, 4, 5, 6, 7, 8, 9, 10, 11, 12, 13, 14, 15, 16, 17, 18, 19, 20, 21, 22, 23,
      24, 25, 26, 27, 28, 29, 30, 31}"
    by (simp, arith)
  then show "bit (let v = drop_bit 8 (v AND 0xFF00FF00) OR push_bit 8 (v AND 0x00FF00FF)
    in push_bit 16 v OR drop_bit 16 v) i = bit (le_word (rev (le_bytes 4 v)) :: int32) i"
    by (elim insertE emptyE) (simp_all add: Let_def bit_simps bit_le_word rev_nth nth_le_bytes)
qed

lemma le_bytes_le_word:
  assumes "8 * length bs \<le> LENGTH('a::len)"
  shows "le_bytes (length bs) (le_word bs :: 'a word) = bs"
proof (rule nth_equalityI)
  fix i
  assume "i < length (le_bytes (length bs) (le_word bs :: 'a word))"
  then have i: "i < length bs" by simp
  show "le_bytes (length bs) (le_word bs :: 'a word) ! i = bs ! i"
  proof (rule bit_word_eqI)
    fix k
    assume "k < LENGTH(8)"
    then have "k < 8" and "8 * i + k < 8 * length bs"
      using i by auto
    then show "bit (le_bytes (length bs) (le_word bs :: 'a word) ! i) k = bit (bs ! i) k"
      using i assms by (simp add: nth_le_bytes bit_simps bit_le_word)
  qed
qed simp

lemma longReverse_map:
  "longReverse ws PCT_LITTLE_ENDIAN = map (\<lambda>v. le_word (rev (le_bytes 4 v))) ws"
  unfolding longReverse_def reverse_word by (simp add: PCT_LITTLE_ENDIAN_def PCT_BIG_ENDIAN_def)

lemma longReverse_words: "longReverse (words_of bs) PCT_LITTLE_ENDIAN = be_words bs"
proof (induction bs rule: be_words.induct)
  case (1 a b c d bs)
  have "le_bytes 4 (le_word [a, b, c, d] :: int32) = [a, b, c, d]"
    using le_bytes_le_word [of "[a, b, c, d]", where 'a = 32]
    by (simp add: eval_nat_numeral(2,3) del: le_bytes.simps le_word.simps)
  with 1 show ?case
    by (simp add: longReverse_map del: le_bytes.simps le_word.simps)
qed (simp_all add: longReverse_def)

lemma length_words_of: "length (words_of bs) = length bs div 4"
  by (induction bs rule: words_of.induct) auto

lemma length_be_words: "length (be_words bs) = length bs div 4"
  by (induction bs rule: be_words.induct) auto

definition chain_of :: "int32 list \<Rightarrow> chain" where
  "chain_of d = (d ! 0, d ! 1, d ! 2, d ! 3, d ! 4)"

lemma sha_transform_compress:
  assumes "length (block sha) = 64" and "Endianness sha = PCT_LITTLE_ENDIAN"
  shows "sha_transform sha = sha\<lparr>digest := chain_list (compress (chain_of (digest sha)) (block sha))\<rparr>"
proof -
  let ?M = "be_words (block sha)"
  have M: "map (sha_W ?M) [0..<16] = ?M"
    using assms by (intro nth_equalityI) (simp_all add: length_be_words sha_W.simps)
  have W: "extend_W 64 (longReverse (words_of (block sha)) (Endianness sha)) = map (sha_W ?M) [0..<80]"
    using assms extend_W_schedule [of 16 64 ?M] by (simp add: longReverse_words M)
  let ?s = "\<lparr>rT = 0, rA = digest sha ! 0, rB = digest sha ! 1, rC = digest sha ! 2,
     rD = digest sha ! 3, rE = digest sha ! 4\<rparr>"
  have v: "view 2 (run_macros unravelled (map (sha_W ?M) [0..<80]) ?s)
      = sha_rounds 0 (map (sha_W ?M) [0..<80]) (chain_of (digest sha))"
    using unravelled_rounds [of "map (sha_W ?M) [0..<80]" ?s]
    by (simp add: view_def chain_of_def)
  show ?thesis
    by (simp add: sha_transform_def W Let_def compress_def v [symmetric]) (simp add: view_def chain_of_def)
qed

section \<open>Streaming\<close>

lemma length_put_at [simp]:
  "i + length ys \<le> length xs \<Longrightarrow> length (put_at xs i ys) = length xs"
  by (simp add: put_at_def)

lemma take_put_at: "i \<le> length xs \<Longrightarrow> take (i + length ys) (put_at xs i ys) = take i xs @ ys"
  by (simp add: put_at_def)

lemma put_at_all [simp]: "length ys = length xs \<Longrightarrow> put_at xs 0 ys = ys"
  by (simp add: put_at_def)

lemma hash_blocks_short [simp]: "length m < 64 \<Longrightarrow> hash_blocks h m = h"
  by (simp add: hash_blocks.simps)

lemma hash_blocks_one: "length b = 64 \<Longrightarrow> hash_blocks h b = compress h b"
  by (simp add: hash_blocks.simps [of h b])

lemma hash_blocks_append:
  "length a mod 64 = 0 \<Longrightarrow> hash_blocks h (a @ b) = hash_blocks (hash_blocks h a) b"
proof (induction h a rule: hash_blocks.induct)
  case (1 h a)
  show ?case
  proof (cases "length a < 64")
    case True
    then show ?thesis using 1(2) by simp
  next
    case False
    then have "length (drop 64 a) mod 64 = 0"
      using 1(2) by (simp add: le_mod_geq)
    then show ?thesis
      using 1(1) False by (simp add: hash_blocks.simps [of h a] hash_blocks.simps [of h "a @ b"])
  qed
qed

lemma chain_of_list [simp]: "chain_of (chain_list h) = h"
  by (cases h) (simp add: chain_of_def)

definition whole :: "bytes \<Rightarrow> nat" where
  "whole m = length m - length m mod 64"

lemma whole_mod [simp]: "whole m mod 64 = 0"
  by (simp add: whole_def minus_mod_eq_mult_div)

lemma hash_blocks_tail:
  "hash_blocks h (m @ b) = hash_blocks (hash_blocks h m) (drop (whole m) m @ b)"
proof -
  have "whole m \<le> length m" and t: "length (drop (whole m) m) < 64"
    by (simp_all add: whole_def)
  then have h: "length (take (whole m) m) mod 64 = 0"
    by simp
  have "hash_blocks h m = hash_blocks h (take (whole m) m)"
    using hash_blocks_append [OF h, of h "drop (whole m) m"] t by simp
  then show ?thesis
    using hash_blocks_append [OF h, of h "drop (whole m) m @ b"] by (simp flip: append_assoc)
qed

text \<open>What an object has absorbed.\<close>

definition bit_count :: "SHAobject \<Rightarrow> nat" where
  "bit_count sha = unat (count_hi sha) * 2 ^ 32 + unat (count_lo sha)"

definition absorbed :: "SHAobject \<Rightarrow> bytes \<Rightarrow> bool" where
  "absorbed sha m \<longleftrightarrow>
     length (block sha) = 64 \<and> Endianness sha = PCT_LITTLE_ENDIAN \<and>
     digest sha = chain_list (hash_blocks sha_H0 m) \<and>
     pending sha = length m mod 64 \<and>
     take (pending sha) (block sha) = drop (whole m) m \<and>
     bit_count sha = 8 * length m mod 2 ^ 64"

lemma absorbed_init:
  "length (block sha) = 64 \<Longrightarrow> absorbed (sha_init sha) []"
  by (simp add: absorbed_def sha_init_def sha_H0_def bit_count_def)

lemma two_digits:
  "b < (N::nat) \<Longrightarrow> (a mod N) * N + b = (a * N + b) mod (N * N)"
  by (simp add: mod_mult2_eq mult.commute)

lemma bit_count_bits:
  assumes "n < 2 ^ 31"
  shows "bit_count (count_bits n sha) = (bit_count sha + 8 * n) mod 2 ^ 64"
proof -
  let ?N = "2 ^ 32 :: nat"
  define lo hi where "lo = unat (count_lo sha)" and "hi = unat (count_hi sha)"
  define k q c where "k = 8 * n mod ?N" and "q = n div 2 ^ 29" and "c = (if ?N \<le> lo + k then 1 else 0 :: nat)"
  define clo where "clo = count_lo sha + push_bit 3 (word_of_nat n)"
  have lo: "lo < ?N" and k: "k < ?N"
    using unsigned_less [of "count_lo sha"] by (simp_all add: lo_def k_def)
  have n: "unat (word_of_nat n :: int32) = n"
    using assms by (simp add: unat_of_nat take_bit_nat_eq_self_iff)
  have p: "unat (push_bit 3 (word_of_nat n :: int32)) = k"
  proof -
    have e: "push_bit 3 (word_of_nat n :: int32) = word_of_nat (8 * n)"
      by (simp add: push_bit_eq_mult)
    show ?thesis
      unfolding e unat_of_nat take_bit_eq_mod k_def by simp
  qed
  have clo: "unat clo = (lo + k) mod ?N"
    by (simp add: clo_def unat_word_ariths p lo_def)
  have less: "clo < count_lo sha \<longleftrightarrow> ?N \<le> lo + k"
    unfolding word_less_nat_alt clo lo_def [symmetric]
    using lo k by (cases "lo + k < ?N") (simp_all add: le_mod_geq)
  have d: "unat (drop_bit 29 (word_of_nat n :: int32)) = q"
    unfolding unsigned_drop_bit_eq n using assms by (simp add: drop_bit_eq_div q_def take_bit_eq_mod)
  have chi: "unat (count_hi (count_bits n sha)) = (hi + c + q) mod ?N"
    by (simp add: count_bits_def Let_def clo_def [symmetric] less c_def unat_word_ariths d hi_def mod_simps)
  have cl: "unat (count_lo (count_bits n sha)) = (lo + k) mod ?N"
    by (simp add: count_bits_def Let_def clo_def [symmetric] clo)
  have lk: "c * ?N + (lo + k) mod ?N = lo + k"
    using lo k by (simp add: c_def le_mod_geq)
  have qk: "q * ?N + k = 8 * n"
  proof -
    have "8 * n div ?N = q"
      using div_mult_mult1 [of "8::nat" n "2 ^ 29"] by (simp add: q_def)
    then show ?thesis
      using div_mult_mod_eq [of "8 * n" ?N] by (simp add: k_def)
  qed
  have "bit_count (count_bits n sha) = ((hi + c + q) mod ?N) * ?N + (lo + k) mod ?N"
    unfolding bit_count_def chi cl ..
  also have "\<dots> = ((hi + c + q) * ?N + (lo + k) mod ?N) mod (?N * ?N)"
    by (rule two_digits) simp
  also have "(hi + c + q) * ?N + (lo + k) mod ?N = hi * ?N + q * ?N + (c * ?N + (lo + k) mod ?N)"
    by (simp only: distrib_right)
  also have "\<dots> = hi * ?N + q * ?N + (lo + k)"
    unfolding lk ..
  also have "\<dots> = bit_count sha + 8 * n"
    unfolding qk [symmetric] bit_count_def lo_def hi_def by simp
  finally show ?thesis by simp
qed

lemma count_bits_frame [simp]:
  "digest (count_bits n sha) = digest sha"
  "block (count_bits n sha) = block sha"
  "pending (count_bits n sha) = pending sha"
  "Endianness (count_bits n sha) = Endianness sha"
  by (simp_all add: count_bits_def Let_def)

lemma update_loop_blocks:
  assumes "length (block sha) = 64" and "Endianness sha = PCT_LITTLE_ENDIAN" and "digest sha = chain_list h"
  shows "\<exists>B. length B = 64 \<and> take (length buf mod 64) B = drop (whole buf) buf \<and>
    update_loop buf sha = sha\<lparr>digest := chain_list (hash_blocks h buf), block := B, pending := length buf mod 64\<rparr>"
  using assms
proof (induction buf sha arbitrary: h rule: update_loop.induct)
  case (1 buf sha)
  show ?case
  proof (cases "64 \<le> length buf")
    case True
    define s where "s = sha_transform (sha\<lparr>block := put_at (block sha) 0 (take 64 buf)\<rparr>)"
    have s: "s = sha\<lparr>block := take 64 buf, digest := chain_list (compress h (take 64 buf))\<rparr>"
      using True 1(2-4) unfolding s_def by (subst sha_transform_compress) simp_all
    obtain B where "length B = 64" "take (length (drop 64 buf) mod 64) B = drop (whole (drop 64 buf)) (drop 64 buf)"
      and "update_loop (drop 64 buf) s = s\<lparr>digest := chain_list (hash_blocks (compress h (take 64 buf)) (drop 64 buf)),
             block := B, pending := length (drop 64 buf) mod 64\<rparr>"
      using 1(1) [OF True, of "compress h (take 64 buf)"] True 1(2-4) unfolding s_def [symmetric] by (auto simp: s)
    moreover have "whole (drop 64 buf) + 64 = whole buf" and "(length buf - 64) mod 64 = length buf mod 64"
      using True by (simp_all add: whole_def le_mod_geq)
    ultimately show ?thesis
      using True by (intro exI [of _ B]) (simp add: update_loop.simps [of buf] hash_blocks.simps [of h buf] s s_def [symmetric] add.commute)
  next
    case False
    then show ?thesis
      using 1(2-4) by (intro exI [of _ "put_at (block sha) 0 buf"])
        (simp add: update_loop.simps [of buf] whole_def put_at_def)
  qed
qed

lemma bit_count_frame [simp]:
  "bit_count (sha\<lparr>digest := d\<rparr>) = bit_count sha"
  "bit_count (sha\<lparr>block := b\<rparr>) = bit_count sha"
  "bit_count (sha\<lparr>pending := p\<rparr>) = bit_count sha"
  by (simp_all add: bit_count_def)

text \<open>A block that holds the tail \<open>t\<close> of the message, after the chaining value \<open>h\<close>.\<close>

definition holds :: "chain \<Rightarrow> bytes \<Rightarrow> SHAobject \<Rightarrow> bool" where
  "holds h t sha \<longleftrightarrow>
     length (block sha) = 64 \<and> Endianness sha = PCT_LITTLE_ENDIAN \<and> digest sha = chain_list h \<and>
     pending sha = length t \<and> length t < 64 \<and> take (length t) (block sha) = t"

lemma whole_short [simp]: "length m < 64 \<Longrightarrow> whole m = 0"
  by (simp add: whole_def)

lemma whole_step: "64 \<le> length m \<Longrightarrow> whole m = 64 + whole (drop 64 m)"
  by (simp add: whole_def le_mod_geq)

lemma length_tail [simp]: "length m - whole m = length m mod 64"
  by (simp add: whole_def)

lemma whole_mult: "whole m = 64 * (length m div 64)"
  by (simp add: whole_def minus_mod_eq_mult_div)

lemma update_loop_holds:
  assumes "length (block sha) = 64" and "Endianness sha = PCT_LITTLE_ENDIAN" and "digest sha = chain_list h"
  shows "holds (hash_blocks h buf) (drop (whole buf) buf) (update_loop buf sha) \<and>
    bit_count (update_loop buf sha) = bit_count sha"
  using update_loop_blocks [OF assms, of buf] assms by (auto simp: holds_def)

lemma absorb_holds:
  assumes "holds h t sha"
  shows "holds (hash_blocks h (t @ buf)) (drop (whole (t @ buf)) (t @ buf)) (absorb sha buf) \<and>
    bit_count (absorb sha buf) = bit_count (count_bits (length buf) sha)"
proof -
  let ?s = "count_bits (length buf) sha"
  have A: "length (block ?s) = 64" "Endianness ?s = PCT_LITTLE_ENDIAN" "digest ?s = chain_list h"
    "pending ?s = length t" "length t < 64" "take (length t) (block ?s) = t"
    using assms by (simp_all add: holds_def)
  consider "t = []" | "t \<noteq> []" "length t + length buf < 64" | "t \<noteq> []" "64 \<le> length t + length buf"
    by linarith
  then show ?thesis
  proof cases
    case 1
    then show ?thesis
      using update_loop_holds [OF A(1-3), of buf] A(4) by (simp add: absorb_def Let_def)
  next
    case 2
    then have "absorb sha buf = ?s\<lparr>block := put_at (block ?s) (length t) buf, pending := length t + length buf\<rparr>"
      using A by (simp add: absorb_def Let_def min_def)
    moreover have "take (length (t @ buf)) (put_at (block ?s) (length t) buf) = t @ buf"
      using take_put_at [of "length t" "block ?s" buf] A by simp
    ultimately show ?thesis
      using A 2 by (simp add: holds_def)
  next
    case 3
    define i where "i = 64 - length t"
    have i: "i \<le> length buf" "length t + i = 64" "min i (length buf) = i"
      using 3 A(5) by (simp_all add: i_def)
    define b where "b = t @ take i buf"
    have b: "length b = 64" "t @ buf = b @ drop i buf"
      using i by (simp_all add: b_def)
    have "put_at (block ?s) (length t) (take i buf) = b"
      using take_put_at [of "length t" "block ?s" "take i buf"] A i by (simp add: b_def)
    then have "absorb sha buf = update_loop (drop i buf) (sha_transform (?s\<lparr>block := b, pending := 64\<rparr>))"
      using A 3 i by (simp add: absorb_def Let_def i_def [symmetric])
    also have "sha_transform (?s\<lparr>block := b, pending := 64\<rparr>)
        = ?s\<lparr>block := b, pending := 64, digest := chain_list (compress h b)\<rparr>"
      using A b by (subst sha_transform_compress) simp_all
    finally have "absorb sha buf = update_loop (drop i buf) \<dots>" .
    moreover have "hash_blocks h (t @ buf) = hash_blocks (compress h b) (drop i buf)"
      unfolding b(2) using hash_blocks_append [of b h] hash_blocks_one [of b h] b(1) by simp
    moreover have "drop (whole (t @ buf)) (t @ buf) = drop (whole (drop i buf)) (drop i buf)"
      unfolding b(2) using whole_step [of "b @ drop i buf"] b(1) by simp
    ultimately show ?thesis
      using update_loop_holds [of "?s\<lparr>block := b, pending := 64, digest := chain_list (compress h b)\<rparr>"
          "compress h b" "drop i buf"] A b(1) by simp
  qed
qed

lemma absorbed_holds:
  "absorbed sha m \<longleftrightarrow>
     holds (hash_blocks sha_H0 m) (drop (whole m) m) sha \<and> bit_count sha = 8 * length m mod 2 ^ 64"
  by (auto simp: absorbed_def holds_def)

lemma whole_append: "whole (m @ b) = whole m + whole (drop (whole m) m @ b)"
proof -
  have "length m + length b = length m mod 64 + length b + length m div 64 * 64"
    using div_mult_mod_eq [of "length m" 64] by linarith
  then have "(length m + length b) div 64 = (length m mod 64 + length b + length m div 64 * 64) div 64"
    by simp
  also have "\<dots> = length m div 64 + (length m mod 64 + length b) div 64"
    by (rule div_mult_self1) simp
  finally show ?thesis
    by (simp only: whole_mult [of "m @ b"] whole_mult [of m] whole_mult [of "drop _ _ @ b"]
        length_append length_drop length_tail [unfolded whole_mult] distrib_left)
qed

lemma absorbed_absorb:
  assumes "absorbed sha m" and "length buf < 2 ^ 31"
  shows "absorbed (absorb sha buf) (m @ buf)"
proof -
  have A: "holds (hash_blocks sha_H0 m) (drop (whole m) m) sha" "bit_count sha = 8 * length m mod 2 ^ 64"
    using assms(1) by (simp_all add: absorbed_holds)
  have "drop (whole (m @ buf)) (m @ buf) = drop (whole (drop (whole m) m @ buf)) (drop (whole m) m @ buf)"
  proof -
    have "drop (whole m) (m @ buf) = drop (whole m) m @ buf"
      by (simp add: whole_def)
    then show ?thesis
      by (metis whole_append drop_drop add.commute)
  qed
  moreover have "bit_count (count_bits (length buf) sha) = 8 * length (m @ buf) mod 2 ^ 64"
    using bit_count_bits [OF assms(2), of sha] A(2) by (simp add: mod_simps)
  ultimately show ?thesis
    using absorb_holds [OF A(1), of buf] unfolding absorbed_holds hash_blocks_tail [of _ m buf] by simp
qed

text \<open>Any sequence of updates.\<close>

primrec sha_updates :: "SHAobject \<Rightarrow> bytes list \<Rightarrow> SHAobject result" where
  "sha_updates sha [] = Inr sha"
| "sha_updates sha (c # cs) = ebind (sha_update sha c (word_of_nat (length c))) (\<lambda>sha. sha_updates sha cs)"

lemma sha_update_absorb:
  assumes "length c < 2 ^ 31"
  shows "sha_update sha c (word_of_nat (length c)) = Inr (absorb sha c)"
proof -
  have u: "unat (word_of_nat (length c) :: int32) = length c"
    using assms by (simp add: unat_of_nat take_bit_nat_eq_self_iff)
  then have "sint (word_of_nat (length c) :: int32) = int (length c)"
    using assms by (simp add: signed_of_nat signed_take_bit_int_eq_self_iff)
  then show ?thesis
    by (simp add: sha_update_def u)
qed

lemma sha_updates_absorbed:
  assumes "absorbed sha m" and "\<forall>c \<in> set cs. length c < 2 ^ 31"
  shows "\<exists>sha'. sha_updates sha cs = Inr sha' \<and> absorbed sha' (m @ concat cs)"
  using assms
proof (induction cs arbitrary: sha m)
  case (Cons c cs)
  then have "absorbed (absorb sha c) (m @ c)"
    using absorbed_absorb by simp
  from Cons.IH [OF this] Cons.prems show ?case
    by (simp add: sha_update_absorb)
qed simp

section \<open>Padding\<close>

lemma mask_8: "(0xff :: int32) = mask 8"
  by (simp add: mask_eq_exp_minus_1)

lemma be_bytes_of_rev: "be_bytes_of w = rev (le_bytes 4 w)"
proof -
  have "le_bytes 4 w = [ucast w, ucast (drop_bit 8 w), ucast (drop_bit 16 w), ucast (drop_bit 24 w)]"
    by (simp add: eval_nat_numeral(2,3) drop_bit_drop_bit)
  moreover have "ucast (x AND 0xff :: int32) = (ucast x :: byte)" for x
    unfolding mask_8 by (rule bit_word_eqI) (auto simp: bit_simps)
  ultimately show ?thesis
    by (simp add: be_bytes_of_def)
qed

lemma unat_count_lo:
  "bit_count sha = n mod 2 ^ 64 \<Longrightarrow> unat (count_lo sha) = n mod 2 ^ 32"
  "bit_count sha = n mod 2 ^ 64 \<Longrightarrow> unat (count_hi sha) = n mod 2 ^ 64 div 2 ^ 32"
proof -
  assume b: "bit_count sha = n mod 2 ^ 64"
  have "bit_count sha mod 2 ^ 32 = unat (count_lo sha)" and "bit_count sha div 2 ^ 32 = unat (count_hi sha)"
    using unsigned_less [where ?'a = nat, of "count_lo sha"] by (simp_all add: bit_count_def)
  moreover have "n mod 2 ^ 64 mod 2 ^ 32 = n mod (2 ^ 32 :: nat)"
    by (simp add: mod_mod_cancel)
  ultimately show "unat (count_lo sha) = n mod 2 ^ 32" and "unat (count_hi sha) = n mod 2 ^ 64 div 2 ^ 32"
    unfolding b by simp_all
qed

lemma be_bytes_of_fun: "be_bytes_of = (\<lambda>w. rev (le_bytes 4 w))"
  by (simp add: fun_eq_iff be_bytes_of_rev)

lemma ucast_of_nat_64: "ucast (word_of_nat n :: int64) = (word_of_nat n :: int32)"
  unfolding word_unat_eq_iff
  by (simp add: unsigned_ucast_eq unat_of_nat take_bit_eq_mod mod_mod_cancel)

lemma length_bytes:
  assumes "bit_count sha = n mod 2 ^ 64"
  shows "be_bytes_of (count_hi sha) @ be_bytes_of (count_lo sha) = rev (le_bytes 8 (word_of_nat n :: int64))"
proof -
  let ?w = "word_of_nat n :: int64"
  have "le_bytes 8 ?w = le_bytes 4 (count_lo sha) @ le_bytes 4 (count_hi sha)"
  proof (rule nth_equalityI)
    fix i
    assume "i < length (le_bytes 8 ?w)"
    then have i: "i < 8" by simp
    have lo: "count_lo sha = ucast ?w"
      using unat_count_lo(1) [OF assms] unfolding ucast_of_nat_64 word_unat_eq_iff
      by (simp add: unat_of_nat take_bit_eq_mod)
    have u: "unat ?w = n mod 2 ^ 64"
      by (simp add: unat_of_nat take_bit_eq_mod)
    have "unat (ucast (drop_bit 32 ?w) :: int32) = n mod 2 ^ 64 div 2 ^ 32"
      unfolding unsigned_ucast_eq unsigned_drop_bit_eq u
      by (simp add: take_bit_eq_mod drop_bit_eq_div div_less_iff_less_mult less_mult_imp_div_less)
    then have hi: "count_hi sha = ucast (drop_bit 32 ?w)"
      using unat_count_lo(2) [OF assms] unfolding word_unat_eq_iff by simp
    show "le_bytes 8 ?w ! i = (le_bytes 4 (count_lo sha) @ le_bytes 4 (count_hi sha)) ! i"
    proof (cases "i < 4")
      case True
      then show ?thesis
        by (intro bit_word_eqI) (auto simp: nth_append nth_le_bytes lo bit_simps)
    next
      case False
      then obtain j where "i = 4 + j"
        using le_Suc_ex not_less by blast
      then show ?thesis
        using i by (intro bit_word_eqI) (auto simp: nth_append nth_le_bytes hi bit_simps add.assoc)
    qed
  qed simp
  then show ?thesis
    by (simp add: be_bytes_of_rev)
qed

lemma final_count:
  assumes "bit_count sha = 8 * n mod 2 ^ 64"
  shows "unat (drop_bit 3 (count_lo sha) AND 0x3f) = n mod 64"
proof -
  have "drop_bit 3 (count_lo sha) AND 0x3f = take_bit 6 (drop_bit 3 (count_lo sha))"
    by (simp add: take_bit_eq_mask mask_eq_exp_minus_1)
  then have "unat (drop_bit 3 (count_lo sha) AND 0x3f) = unat (count_lo sha) div 8 mod 64"
    using unsigned_less [where ?'a = nat, of "count_lo sha"]
    by (simp only: unsigned_take_bit_eq unsigned_drop_bit_eq) (simp add: take_bit_eq_mod drop_bit_eq_div)
  also have "\<dots> = 8 * (n mod 2 ^ 29) div 8 mod 64"
    unfolding unat_count_lo [OF assms] using mult_mod_right [of 8 n "2 ^ 29"] by simp
  also have "\<dots> = n mod 64"
    by (simp add: mod_mod_cancel)
  finally show ?thesis .
qed

lemma put_at_append: "i = length xs \<Longrightarrow> put_at (xs @ ys) i zs = xs @ zs @ drop (length zs) ys"
  by (simp add: put_at_def)

lemma put_length_bytes:
  "length b = 64 \<Longrightarrow> length x = 4 \<Longrightarrow> length y = 4 \<Longrightarrow> put_at (put_at b 56 x) 60 y = take 56 b @ x @ y"
  by (simp add: put_at_def)

lemma length_be_bytes_of [simp]: "length (be_bytes_of w) = 4"
  by (simp add: be_bytes_of_def)

text \<open>The blocks that \<open>sha_final\<close> hashes are those of the padded tail.\<close>

definition pad_tail :: "nat \<Rightarrow> bytes \<Rightarrow> bytes" where
  "pad_tail p L = [0x80] @ replicate ((119 - p) mod 64) 0 @ L"

lemma sha_final_digest:
  assumes "holds h t sha" and "unat (drop_bit 3 (count_lo sha) AND 0x3f) = length t"
    and L: "L = be_bytes_of (count_hi sha) @ be_bytes_of (count_lo sha)"
  shows "fst (sha_final sha) = concat (map be_bytes_of (chain_list (hash_blocks h (t @ pad_tail (length t) L))))"
proof -
  define p where "p = length t"
  define r where "r = drop (Suc p) (block sha)"
  have A: "length (block sha) = 64" "Endianness sha = PCT_LITTLE_ENDIAN" "digest sha = chain_list h"
    "p < 64" "take p (block sha) = t"
    using assms(1) by (simp_all add: holds_def p_def)
  have b: "(block sha)[p := 0x80] = (t @ [0x80]) @ r"
    using A by (simp add: upd_conv_take_nth_drop r_def)
  have r: "length r = 63 - p" and lt: "Suc p = length (t @ [0x80 :: byte])"
    using A by (simp_all add: r_def p_def)
  have lL: "length L = 8"
    by (simp add: L)
  show ?thesis
  proof (cases "56 < Suc p")
    case True
    define b1 where "b1 = t @ [0x80] @ replicate (63 - p) (0 :: byte)"
    have b1: "length b1 = 64" "put_at ((t @ [0x80]) @ r) (Suc p) (replicate (64 - Suc p) 0) = b1"
      unfolding put_at_append [OF lt] using A r by (simp_all add: b1_def p_def)
    have "(119 - p) mod 64 = (63 - p) + 56"
      using True A by (simp add: mod_if)
    then have "t @ pad_tail p L = b1 @ (replicate 56 0 @ L)"
      by (simp only: pad_tail_def b1_def replicate_add) simp
    then have H: "hash_blocks h (t @ pad_tail p L) = compress (compress h b1) (replicate 56 0 @ L)"
      using b1(1) lL by (simp add: hash_blocks_append hash_blocks_one)
    show ?thesis
      using True A b1 lL
      by (simp add: sha_final_def Let_def assms(2) p_def [symmetric] b sha_transform_compress
          put_length_bytes H L [symmetric])
        (simp add: put_at_def)
  next
    case False
    define b1 where "b1 = t @ [0x80] @ replicate (55 - p) (0 :: byte)"
    have b1: "length b1 = 56" "put_at ((t @ [0x80]) @ r) (Suc p) (replicate (56 - Suc p) 0) = b1 @ drop (55 - p) r"
      unfolding put_at_append [OF lt] using A False r by (simp_all add: b1_def p_def)
    have "(119 - p) mod 64 = 55 - p"
      using False by (simp add: mod_if)
    then have "t @ pad_tail p L = b1 @ L"
      by (simp add: pad_tail_def b1_def)
    then have H: "hash_blocks h (t @ pad_tail p L) = compress h (b1 @ L)"
      using b1(1) lL by (simp add: hash_blocks_one)
    show ?thesis
      using False A b1 lL r
      by (simp add: sha_final_def Let_def assms(2) p_def [symmetric] b sha_transform_compress
          put_length_bytes H L [symmetric])
  qed
qed

lemma sha_final_SHA1:
  assumes "absorbed sha m"
  shows "fst (sha_final sha) = SHA1 m"
proof -
  let ?t = "drop (whole m) m"
  have A: "holds (hash_blocks sha_H0 m) ?t sha" "bit_count sha = 8 * length m mod 2 ^ 64"
    using assms by (simp_all add: absorbed_holds)
  have "unat (drop_bit 3 (count_lo sha) AND 0x3f) = length ?t"
    using final_count [OF A(2)] by simp
  from sha_final_digest [OF A(1) this refl] show ?thesis
    unfolding length_bytes [OF A(2)]
    by (simp add: SHA1_def be_bytes_of_fun sha_pad_def pad_tail_def hash_blocks_tail [of _ m])
qed

text \<open>The digest of a copy leaves the object as it is.\<close>

lemma sha_digest_SHA1: "absorbed sha m \<Longrightarrow> sha_digest sha = SHA1 m"
  using sha_final_SHA1 [of sha m] by (simp add: sha_digest_def SHAcopy_def)

section \<open>Main results\<close>

text \<open>C28. The streaming SHA-1 is SHA-1: however a message is cut into updates, whatever was in the object
  before, every update succeeds, and both ways of reading the digest give the hash that FIPS 180
  defines for the whole message, with the rounds unravelled over six registers and the padding
  written into the last block or two. The object is the same after the digest of a copy.\<close>

theorem sha_streaming:
  assumes "length (block sha) = 64" "\<forall>c \<in> set cs. length c < 2 ^ 31"
  shows "\<exists>sha'. sha_updates (sha_init sha) cs = Inr sha' \<and>
    sha_digest sha' = SHA1 (concat cs) \<and> fst (sha_final sha') = SHA1 (concat cs) \<and>
    SHA_hexdigest sha' = Hexify (SHA1 (concat cs))"
proof -
  obtain sha' where s: "sha_updates (sha_init sha) cs = Inr sha'" "absorbed sha' (concat cs)"
    using sha_updates_absorbed [OF absorbed_init [OF assms(1)] assms(2)] by auto
  moreover have "SHA_hexdigest sha' = Hexify (sha_digest sha')"
    by (simp add: SHA_hexdigest_def sha_digest_def)
  ultimately show ?thesis
    using sha_final_SHA1 [OF s(2)] sha_digest_SHA1 [OF s(2)] by auto
qed

definition sha_blank :: SHAobject where
  "sha_blank = \<lparr>digest = [], count_lo = 0, count_hi = 0, block = replicate 64 7, Endianness = 0, pending = 0\<rparr>"

theorem sha_streaming_witness:
  "\<exists>sha'. sha_updates (sha_init sha_blank) [str ''ab'', [], str ''c''] = Inr sha' \<and>
    sha_digest sha' = SHA1 (str ''abc'') \<and> fst (sha_final sha') = SHA1 (str ''abc'') \<and>
    SHA_hexdigest sha' = Hexify (SHA1 (str ''abc''))"
  using sha_streaming [of sha_blank "[str ''ab'', [], str ''c'']"] by (simp add: sha_blank_def)

text \<open>The unravelled rounds are the rounds of the standard: for every initial content of the six
  registers and every eighty words, the macros FA to FT leave in E, T, A, B and C what eighty rounds
  with the functions Ch, Parity and Maj leave in a, b, c, d and e.\<close>

lemma sha_unravelled:
  assumes "length W = 80"
  shows "let s = run_macros unravelled W r in (rE s, rT s, rA s, rB s, rC s) = sha_rounds 0 W (rA r, rB r, rC r, rD r, rE r)"
  using unravelled_rounds [OF assms, of r] by (simp add: view_def Let_def)

end
