(* ===== verification/Password.thy ===== *)
theory Password
  imports Sha
begin

text \<open>
  The password hash of \<open>eve-common/auth/PasswordModule.cpp\<close>: the name is folded to lower case
  and trimmed, then SHA-1 is applied a thousand times over the previous digest and the name.
  The conversion from UTF-8 is the library utf8cpp, an argument of the definitions; it throws
  on malformed input.
\<close>

section \<open>Characters\<close>

text \<open>
  \<open>tolower\<close> and \<open>isspace\<close> of the C locale. \<open>isspace\<close> reads a table of 256 entries without a
  check, \<open>beyond\<close> is what it finds behind it.
\<close>

definition tolower_u :: "int16 \<Rightarrow> int16" where
  "tolower_u u = (if 65 \<le> u \<and> u \<le> 90 then u + 32 else u)"

definition isspace_u :: "(int16 \<Rightarrow> bool) \<Rightarrow> int16 \<Rightarrow> bool" where
  "isspace_u beyond u = (if u < 256 then u = 32 \<or> (9 \<le> u \<and> u \<le> 13) else beyond u)"

section \<open>The hash\<close>

text \<open>
  \<open>vector::erase\<close> from \<open>end() - backIndex\<close>, after the front was erased: outside the vector when
  nothing but spaces was there.
\<close>

definition trim_username :: "(int16 \<Rightarrow> bool) \<Rightarrow> int16 list \<Rightarrow> int16 list result" where
  "trim_username beyond username =
     (let frontIndex = length (takeWhile (isspace_u beyond) username);
          backIndex = length (takeWhile (isspace_u beyond) (rev username));
          username = drop frontIndex username
      in if backIndex \<le> length username
         then Inr (take (length username - backIndex) username)
         else Inl Undefined_behaviour)"

definition unit_bytes :: "int16 list \<Rightarrow> bytes" where
  "unit_bytes us = concat (map (le_bytes 2) us)"

definition update_all :: "SHAobject \<Rightarrow> bytes \<Rightarrow> SHAobject result" where
  "update_all sha bs = sha_update sha bs (word_of_nat (length bs))"

text \<open>The hashing loop; \<open>shaObj\<close> is not initialised before \<open>sha_init\<close>.\<close>

primrec hash_loop :: "nat \<Rightarrow> bytes \<Rightarrow> SHAobject \<Rightarrow> SHAobject result" where
  "hash_loop 0 user shaObj = Inr shaObj"
| "hash_loop (Suc n) user shaObj =
     ebind (update_all (sha_init shaObj) (sha_digest shaObj)) (\<lambda>shaObj.
     ebind (update_all shaObj user) (hash_loop n user))"

definition GeneratePassHash_units :: "SHAobject \<Rightarrow> int16 list \<Rightarrow> int16 list \<Rightarrow> bytes result" where
  "GeneratePassHash_units shaObj user pass =
     ebind (update_all (sha_init shaObj) (unit_bytes pass)) (\<lambda>shaObj.
     ebind (update_all shaObj (unit_bytes user)) (\<lambda>shaObj.
     ebind (hash_loop 1000 (unit_bytes user) shaObj) (\<lambda>shaObj.
     Inr (fst (sha_final shaObj)))))"

text \<open>What the module takes from outside: the decoder, the memory behind the table, the stack.\<close>

record pass_env =
  utf8to16 :: "bytes \<Rightarrow> int16 list option"
  beyond_table :: "int16 \<Rightarrow> bool"
  stack_object :: SHAobject

definition GeneratePassHash :: "pass_env \<Rightarrow> bytes \<Rightarrow> bytes \<Rightarrow> bytes result" where
  "GeneratePassHash env user pass =
     (case (utf8to16 env user, utf8to16 env pass) of
        (Some username, Some password) \<Rightarrow>
          ebind (trim_username (beyond_table env) (map tolower_u username)) (\<lambda>username.
            GeneratePassHash_units (stack_object env) username password)
      | _ \<Rightarrow> Inl Lib_throw)"

section \<open>What it computes\<close>

definition pass_hash :: "int16 list \<Rightarrow> int16 list \<Rightarrow> bytes" where
  "pass_hash user pass =
     ((\<lambda>d. SHA1 (d @ unit_bytes user)) ^^ 1000) (SHA1 (unit_bytes pass @ unit_bytes user))"

lemma length_unit_bytes [simp]: "length (unit_bytes us) = 2 * length us"
  by (induction us) (simp_all add: unit_bytes_def)

lemma length_SHA1 [simp]: "length (SHA1 m) = 20"
  by (cases "hash_blocks sha_H0 (sha_pad m)") (simp add: SHA1_def)

lemma update_all_absorbed:
  assumes "absorbed sha m" and "length bs < 2 ^ 31"
  shows "\<exists>sha'. update_all sha bs = Inr sha' \<and> absorbed sha' (m @ bs)"
  using assms sha_update_absorb absorbed_absorb unfolding update_all_def by blast

lemma absorbed_block: "absorbed sha m \<Longrightarrow> length (block sha) = 64"
  by (simp add: absorbed_def)

lemma hash_loop_digest:
  assumes "absorbed sha m" and "length user < 2 ^ 31"
  shows "\<exists>sha' m'. hash_loop n user sha = Inr sha' \<and> absorbed sha' m' \<and>
    SHA1 m' = ((\<lambda>d. SHA1 (d @ user)) ^^ n) (SHA1 m)"
  using assms
proof (induction n arbitrary: sha m)
  case (Suc n)
  have "absorbed (sha_init sha) []"
    using absorbed_init absorbed_block Suc.prems(1) by blast
  then obtain s1 where s1: "update_all (sha_init sha) (sha_digest sha) = Inr s1" "absorbed s1 (SHA1 m)"
    using update_all_absorbed [of "sha_init sha" "[]" "SHA1 m"] sha_digest_SHA1 Suc.prems(1) by auto
  then obtain s2 where s2: "update_all s1 user = Inr s2" "absorbed s2 (SHA1 m @ user)"
    using update_all_absorbed Suc.prems(2) by blast
  show ?case
    using Suc.IH [OF s2(2) Suc.prems(2)] s1 s2 by (simp add: funpow_Suc_right del: funpow.simps)
qed auto

lemma GeneratePassHash_units_pass_hash:
  assumes "length (block obj) = 64" and "length user < 2 ^ 30" and "length pass < 2 ^ 30"
  shows "GeneratePassHash_units obj user pass = Inr (pass_hash user pass)"
proof -
  have "absorbed (sha_init obj) []"
    using assms(1) by (rule absorbed_init)
  then obtain s1 where s1: "update_all (sha_init obj) (unit_bytes pass) = Inr s1" "absorbed s1 (unit_bytes pass)"
    using update_all_absorbed [of "sha_init obj" "[]" "unit_bytes pass"] assms(3) by auto
  then obtain s2 where s2: "update_all s1 (unit_bytes user) = Inr s2" "absorbed s2 (unit_bytes pass @ unit_bytes user)"
    using update_all_absorbed [of s1 _ "unit_bytes user"] assms(2) by auto
  obtain s3 m where "hash_loop 1000 (unit_bytes user) s2 = Inr s3" "absorbed s3 m"
    "SHA1 m = ((\<lambda>d. SHA1 (d @ unit_bytes user)) ^^ 1000) (SHA1 (unit_bytes pass @ unit_bytes user))"
    using hash_loop_digest [OF s2(2), of "unit_bytes user" 1000] assms(2) by auto
  then show ?thesis
    using s1 s2 sha_final_SHA1 by (simp add: GeneratePassHash_units_def pass_hash_def)
qed

text \<open>Trimming takes the spaces of both ends away, and nothing else.\<close>

lemma trim_username_trims:
  assumes "\<forall>u \<in> set xs. isspace_u b u" and "\<forall>u \<in> set zs. isspace_u b u"
    and "ys \<noteq> []" and "\<not> isspace_u b (hd ys)" and "\<not> isspace_u b (last ys)"
  shows "trim_username b (xs @ ys @ zs) = Inr ys"
proof -
  obtain y ys' where y: "ys = y # ys'" "\<not> isspace_u b y"
    using assms(3,4) by (cases ys) auto
  obtain w ws where w: "rev ys = w # ws" "\<not> isspace_u b w"
    using assms(3,5) by (cases "rev ys") (auto simp: last_rev hd_rev [of "rev ys", symmetric])
  have "takeWhile (isspace_u b) (xs @ ys @ zs) = xs"
    using assms(1) y by (subst takeWhile_append2) simp_all
  moreover have "takeWhile (isspace_u b) (rev (xs @ ys @ zs)) = rev zs"
    using assms(2) w unfolding rev_append append_assoc by (subst takeWhile_append2) simp_all
  ultimately show ?thesis
    by (simp add: trim_username_def Let_def)
qed

lemma trim_username_blank:
  assumes "\<forall>u \<in> set us. isspace_u b u" and "us \<noteq> []"
  shows "trim_username b us = Inl Undefined_behaviour"
proof -
  have a: "takeWhile (isspace_u b) us = us" "takeWhile (isspace_u b) (rev us) = rev us"
    using assms by (simp_all add: takeWhile_eq_all_conv)
  show ?thesis
    unfolding trim_username_def Let_def a using assms(2) by simp
qed

section \<open>Main results\<close>

text \<open>The password hash: for a name with something besides spaces in it the hash is computed without
  an error, and it is the thousandfold SHA-1 over the digest and the UTF-16 name, starting from
  password and name, with the name in lower case and without the spaces around it; so the
  spelling of the name in upper or lower case and spaces around it do not matter.\<close>

theorem password_hash:
  assumes "utf8to16 env user = Some (xs @ ys @ zs)" "utf8to16 env pass = Some p" "length (block (stack_object env)) = 64"
    and "\<forall>u \<in> set xs \<union> set zs. isspace_u (beyond_table env) (tolower_u u)"
    and "ys \<noteq> []" "\<not> isspace_u (beyond_table env) (tolower_u (hd ys))" "\<not> isspace_u (beyond_table env) (tolower_u (last ys))"
    and "length ys < 2 ^ 30" "length p < 2 ^ 30"
  shows "GeneratePassHash env user pass = Inr (pass_hash (map tolower_u ys) p)"
proof -
  have "trim_username (beyond_table env) (map tolower_u xs @ map tolower_u ys @ map tolower_u zs) = Inr (map tolower_u ys)"
    using assms(4-7) by (intro trim_username_trims) (auto simp: hd_map last_map)
  then show ?thesis
    using assms GeneratePassHash_units_pass_hash [of "stack_object env" "map tolower_u ys" p]
    by (simp add: GeneratePassHash_def)
qed

text \<open>A decoder for ASCII, and its environment.\<close>

definition ascii_env :: pass_env where
  "ascii_env = \<lparr>utf8to16 = (\<lambda>bs. Some (map ucast bs)), beyond_table = (\<lambda>_. False),
     stack_object = \<lparr>digest = [], count_lo = 0, count_hi = 0, block = replicate 64 7, Endianness = 0, pending = 0\<rparr>\<rparr>"

theorem password_hash_witness:
  "GeneratePassHash ascii_env [32, 65, 98, 32, 9] [112] = Inr (pass_hash [97, 98] [112])"
  using password_hash [of ascii_env "[32, 65, 98, 32, 9]" "[32]" "[65, 98]" "[32, 9]" "[112]" "[112]"]
  by (simp add: ascii_env_def isspace_u_def tolower_u_def)

text \<open>A name of spaces only ends in undefined behaviour: erasing the front empties the vector, and the
  iterator from which the back is erased lies before its start.\<close>

theorem blank_name_undefined:
  assumes "utf8to16 env user = Some us" "utf8to16 env pass = Some p" "us \<noteq> []"
    and "\<forall>u \<in> set us. isspace_u (beyond_table env) (tolower_u u)"
  shows "GeneratePassHash env user pass = Inl Undefined_behaviour"
  using assms trim_username_blank [of "map tolower_u us" "beyond_table env"]
  by (simp add: GeneratePassHash_def)

theorem blank_name_undefined_witness:
  "GeneratePassHash ascii_env [32, 32, 32] [112] = Inl Undefined_behaviour"
  using blank_name_undefined [of ascii_env "[32, 32, 32]" "[32, 32, 32]" "[112]" "[112]"]
  by (simp add: ascii_env_def isspace_u_def tolower_u_def)

end
