(* ===== verification/Tcp.thy ===== *)
theory Tcp
  imports Prelude
begin

text \<open>
  The TCP connection of \<open>eve-core/network/TCPConnection.cpp\<close>: its state machine, the send
  queue with partial sends, and the receive loop. The socket is outside the program; what
  its calls answer is an argument, one answer per call. A connection is used by the game
  thread and by its worker thread, which runs \<open>TCPConnectionLoop\<close>; every operation holds
  the mutex of the socket, so an execution is a sequence of operations.
\<close>

section \<open>State\<close>

datatype state_t = STATE_DISCONNECTED | STATE_CONNECTING | STATE_CONNECTED | STATE_DISCONNECTING

text \<open>\<open>mSock\<close> tells whether the socket pointer is set, \<open>mThread\<close> whether the worker runs.\<close>

record tcp =
  mSock :: bool
  mSockState :: state_t
  mrIP :: int32
  mrPort :: int16
  mSendQueue :: "bytes list"
  mRecvBuf :: "bytes option"
  mThread :: bool

text \<open>What \<open>send\<close> and \<open>recv\<close> answer.\<close>

datatype send_answer = Sent nat | Send_blocks | Send_error

datatype recv_answer = Received bytes | Closed | Recv_blocks | Recv_error

section \<open>Operations of the game thread\<close>

definition TCPConnection_new :: tcp where
  "TCPConnection_new =
     \<lparr>mSock = False, mSockState = STATE_DISCONNECTED, mrIP = 0, mrPort = 0, mSendQueue = [],
      mRecvBuf = None, mThread = False\<rparr>"

definition TCPConnection_accepted :: "int32 \<Rightarrow> int16 \<Rightarrow> tcp" where
  "TCPConnection_accepted rIP rPort =
     \<lparr>mSock = True, mSockState = STATE_CONNECTED, mrIP = rIP, mrPort = rPort, mSendQueue = [],
      mRecvBuf = None, mThread = True\<rparr>"

text \<open>
  A caller that finds the connection disconnected waits for the worker: its next
  \<open>Process\<close> answers \<open>false\<close> and its \<open>DoDisconnect\<close> returns at once, so it stops.
\<close>

definition WaitLoop :: "tcp \<Rightarrow> tcp" where
  "WaitLoop t = t\<lparr>mThread := False\<rparr>"

definition Connect :: "bool \<Rightarrow> int32 \<Rightarrow> int16 \<Rightarrow> tcp \<Rightarrow> bool \<times> tcp" where
  "Connect accepted rIP rPort t =
     (let t1 = (if mSockState t = STATE_DISCONNECTED then WaitLoop t else t);
          oldState = mSockState t1
      in if oldState \<noteq> STATE_DISCONNECTED \<and> oldState \<noteq> STATE_CONNECTING then (False, t1)
         else if \<not> accepted then (False, t1\<lparr>mSock := False\<rparr>)
         else (True, t1\<lparr>mSock := True, mrIP := rIP, mrPort := rPort,
                        mSockState := STATE_CONNECTED,
                        mThread := (if oldState = STATE_DISCONNECTED then True
                                    else mThread t1)\<rparr>))"

definition AsyncConnect :: "int32 \<Rightarrow> int16 \<Rightarrow> tcp \<Rightarrow> tcp" where
  "AsyncConnect rIP rPort t =
     (let t1 = (if mSockState t = STATE_DISCONNECTED then WaitLoop t else t)
      in if mSockState t1 \<noteq> STATE_DISCONNECTED then t1
         else t1\<lparr>mrIP := rIP, mrPort := rPort, mSockState := STATE_CONNECTING,
                 mThread := True\<rparr>)"

definition Disconnect :: "tcp \<Rightarrow> tcp" where
  "Disconnect t =
     (if mSockState t \<noteq> STATE_CONNECTING \<and> mSockState t \<noteq> STATE_CONNECTED then t
      else t\<lparr>mSockState := STATE_DISCONNECTING\<rparr>)"

definition Send :: "bytes \<Rightarrow> tcp \<Rightarrow> bool \<times> tcp" where
  "Send data t =
     (if mSockState t \<noteq> STATE_CONNECTED then (False, t)
      else (True, t\<lparr>mSendQueue := mSendQueue t @ [data]\<rparr>))"

definition ClearBuffers :: "tcp \<Rightarrow> tcp" where
  "ClearBuffers t = t\<lparr>mSendQueue := [], mRecvBuf := None\<rparr>"

definition DoDisconnect :: "tcp \<Rightarrow> tcp" where
  "DoDisconnect t =
     (if mSockState t \<noteq> STATE_CONNECTED \<and> mSockState t \<noteq> STATE_DISCONNECTING then t
      else (ClearBuffers t)\<lparr>mrIP := 0, mrPort := 0, mSock := False,
                            mSockState := STATE_DISCONNECTED\<rparr>)"

section \<open>Sending\<close>

text \<open>
  The loop of \<open>SendData\<close> over the queue, with the answers of \<open>send\<close> and the bytes handed to
  the socket so far. It answers \<open>Some b\<close> when it returns \<open>b\<close> and \<open>None\<close> when it still
  loops after the given answers: a socket that blocks keeps it spinning.
\<close>

fun send_loop ::
    "send_answer list \<Rightarrow> bytes list \<Rightarrow> bytes \<Rightarrow> (bool option \<times> bytes \<times> bytes list) result" where
  "send_loop answers [] wire = Inr (Some True, wire, [])"
| "send_loop [] (buf # q) wire = Inr (None, wire, buf # q)"
| "send_loop (a # answers) (buf # q) wire =
     (if buf = [] then Inl Assert_fail else
      case a of
        Send_error \<Rightarrow> Inr (Some False, wire, q)
      | Send_blocks \<Rightarrow> send_loop answers (buf # q) wire
      | Sent status \<Rightarrow>
          if status > length buf then Inr (Some False, wire, q)
          else if status < length buf
          then send_loop answers ((if status > 0 then drop status buf else buf) # q)
                 (wire @ take status buf)
          else send_loop answers q (wire @ buf))"

definition SendData :: "send_answer list \<Rightarrow> tcp \<Rightarrow> (bool option \<times> bytes \<times> tcp) result" where
  "SendData answers t =
     (if mSockState t \<noteq> STATE_CONNECTED \<and> mSockState t \<noteq> STATE_DISCONNECTING
      then Inr (Some False, [], t)
      else if mSendQueue t \<noteq> [] \<and> \<not> mSock t then Inl Null_deref
      else ebind (send_loop answers (mSendQueue t) []) (\<lambda>(res, wire, q).
             Inr (res, wire, t\<lparr>mSendQueue := q\<rparr>)))"

section \<open>Receiving\<close>

definition TCPCONN_RECVBUF_SIZE :: nat where
  "TCPCONN_RECVBUF_SIZE = 0x1000"

definition recv_room :: "bytes option \<Rightarrow> bytes" where
  "recv_room b =
     (case b of
        None \<Rightarrow> replicate TCPCONN_RECVBUF_SIZE 0
      | Some bs \<Rightarrow> if length bs < TCPCONN_RECVBUF_SIZE
                   then bs @ replicate (TCPCONN_RECVBUF_SIZE - length bs) 0 else bs)"

text \<open>
  The loop of \<open>RecvData\<close> over the answers of \<open>recv\<close>; the kernel writes the received bytes
  to the front of the receive buffer. \<open>proc\<close> is \<open>ProcessReceivedData\<close> of the subclass and
  \<open>s\<close> the state it works on.
\<close>

fun recv_loop ::
    "(bytes \<Rightarrow> 's \<Rightarrow> bool \<times> 's) \<Rightarrow> recv_answer list \<Rightarrow> bytes option \<Rightarrow> 's
     \<Rightarrow> bool option \<times> bytes option \<times> 's" where
  "recv_loop proc [] buf s = (None, buf, s)"
| "recv_loop proc (a # answers) buf s =
     (let room = recv_room buf in
      case a of
        Recv_blocks \<Rightarrow> (Some True, Some room, s)
      | Recv_error \<Rightarrow> (Some False, Some room, s)
      | Closed \<Rightarrow> (Some False, Some room, s)
      | Received bs \<Rightarrow>
          let got = take (length room) bs;
              data = take (length got) (got @ drop (length got) room);
              (ok, s') = proc data s
          in if got = [] then (Some False, Some room, s)
             else if ok then recv_loop proc answers (Some data) s'
             else (Some False, Some data, s'))"

definition RecvData ::
    "(bytes \<Rightarrow> 's \<Rightarrow> bool \<times> 's) \<Rightarrow> recv_answer list \<Rightarrow> tcp \<Rightarrow> 's
     \<Rightarrow> (bool option \<times> tcp \<times> 's) result" where
  "RecvData proc answers t s =
     (if mSockState t \<noteq> STATE_CONNECTED \<and> mSockState t \<noteq> STATE_DISCONNECTING
      then Inr (Some False, t, s)
      else if \<not> mSock t then Inl Null_deref
      else let (res, buf, s') = recv_loop proc answers (mRecvBuf t) s
           in Inr (res, t\<lparr>mRecvBuf := buf\<rparr>, s'))"

section \<open>The worker\<close>

text \<open>The answers of the socket to one run of \<open>Process\<close>.\<close>

record answers =
  on_connect :: bool
  on_recv :: "recv_answer list"
  on_send :: "send_answer list"

text \<open>\<open>Process\<close>: the bytes it handed to the socket, and \<open>None\<close> while it still loops.\<close>

definition Process ::
    "(bytes \<Rightarrow> 's \<Rightarrow> bool \<times> 's) \<Rightarrow> answers \<Rightarrow> tcp \<Rightarrow> 's
     \<Rightarrow> (bool option \<times> bytes \<times> tcp \<times> 's) result" where
  "Process proc a t s =
     (case mSockState t of
        STATE_CONNECTING \<Rightarrow>
          (let (ok, t1) = Connect (on_connect a) (mrIP t) (mrPort t) t
           in Inr (Some ok, [], t1, s))
      | STATE_CONNECTED \<Rightarrow>
          ebind (RecvData proc (on_recv a) t s) (\<lambda>(res, t1, s1).
            if res \<noteq> Some True then Inr (res, [], t1, s1) else
            ebind (SendData (on_send a) t1) (\<lambda>(res, wire, t2). Inr (res, wire, t2, s1)))
      | STATE_DISCONNECTING \<Rightarrow>
          ebind (SendData (on_send a) t) (\<lambda>(res, wire, t1).
            if res \<noteq> Some True then Inr (res, wire, t1, s)
            else Inr (Some True, wire, DoDisconnect t1, s))
      | STATE_DISCONNECTED \<Rightarrow> Inr (Some False, [], t, s))"

text \<open>One turn of \<open>TCPConnectionLoop\<close>: the loop ends when \<open>Process\<close> answers \<open>false\<close>.\<close>

definition loop_turn ::
    "(bytes \<Rightarrow> 's \<Rightarrow> bool \<times> 's) \<Rightarrow> answers \<Rightarrow> tcp \<Rightarrow> 's \<Rightarrow> (bytes \<times> tcp \<times> 's) result" where
  "loop_turn proc a t s =
     ebind (Process proc a t s) (\<lambda>(res, wire, t1, s1).
       Inr (wire, if res = Some False then (DoDisconnect t1)\<lparr>mThread := False\<rparr> else t1, s1))"

section \<open>Properties\<close>

lemma send_loop_conserves:
  "send_loop answers q wire = Inr (res, wire', q') \<Longrightarrow> res \<noteq> Some False \<Longrightarrow>
   wire' @ concat q' = wire @ concat q"
proof (induction answers q wire rule: send_loop.induct)
  case (3 a answers buf q wire)
  then show ?case
    by (auto split: send_answer.splits if_splits)
qed auto

lemma send_loop_lost:
  "send_loop answers q wire = Inr (Some False, wire', q') \<Longrightarrow>
   \<exists>lost. wire' @ lost @ concat q' = wire @ concat q"
proof (induction answers q wire rule: send_loop.induct)
  case (3 a answers buf q wire)
  have whole: "take n buf @ drop n buf @ r = buf @ r" for n r
    by (metis append.assoc append_take_drop_id)
  show ?case
    using 3 by (auto simp: whole split: send_answer.splits if_splits)
qed auto

lemma send_loop_done: "send_loop answers q wire = Inr (Some True, wire', q') \<Longrightarrow> q' = []"
  by (induction answers q wire rule: send_loop.induct) (auto split: send_answer.splits if_splits)

lemma send_loop_fault: "send_loop answers q wire = Inl f \<Longrightarrow> f = Assert_fail \<and> [] \<in> set q"
  by (induction answers q wire rule: send_loop.induct) (auto split: send_answer.splits if_splits)

text \<open>The bytes that the answers of \<open>send\<close> take.\<close>

definition taken :: "send_answer list \<Rightarrow> nat" where
  "taken answers = sum_list (map (\<lambda>x. case x of Sent n \<Rightarrow> n | _ \<Rightarrow> 0) answers)"

lemma taken_simps [simp]:
  "taken [] = 0" "taken (Sent n # answers) = n + taken answers" "taken (Send_blocks # answers) = taken answers"
  by (simp_all add: taken_def)

lemma send_loop_spins:
  "send_loop answers q wire = Inr (None, wire', q') \<Longrightarrow>
   Send_error \<notin> set answers \<and> q \<noteq> [] \<and> ([] \<notin> set q \<longrightarrow> taken answers < length (concat q))"
proof (induction answers q wire rule: send_loop.induct)
  case (3 a answers buf q wire)
  then show ?case
    by (auto split: send_answer.splits if_splits)
qed auto

lemma length_recv_room: "TCPCONN_RECVBUF_SIZE \<le> length (recv_room b)"
  by (auto simp: recv_room_def split: option.splits)

text \<open>The receive loop hands every chunk to the subclass, in order and unchanged.\<close>

fun chunks :: "recv_answer list \<Rightarrow> bytes list" where
  "chunks (Received bs # answers) = bs # chunks answers"
| "chunks _ = []"

definition recv_ok :: "recv_answer list \<Rightarrow> bool" where
  "recv_ok answers \<longleftrightarrow>
     (\<forall>bs. Received bs \<in> set answers \<longrightarrow> bs \<noteq> [] \<and> length bs \<le> TCPCONN_RECVBUF_SIZE)"

lemma recv_loop_chunks:
  "recv_ok answers \<Longrightarrow> \<forall>bs s. fst (proc bs s) \<Longrightarrow>
   snd (snd (recv_loop proc answers buf s)) = fold (\<lambda>bs s. snd (proc bs s)) (chunks answers) s"
proof (induction proc answers buf s rule: recv_loop.induct)
  case (1 proc buf s)
  then show ?case by simp
next
  case (2 proc a answers buf s)
  show ?case
  proof (cases a)
    case (Received bs)
    then have bs: "bs \<noteq> []" "length bs \<le> length (recv_room buf)" and ok: "recv_ok answers"
      using 2 length_recv_room [of buf] by (fastforce simp: recv_ok_def)+
    moreover obtain s' where s': "proc bs s = (True, s')"
      using 2(3) by (metis prod.collapse)
    ultimately show ?thesis
      using 2(1) [OF refl Received refl refl _ s' [symmetric]] 2(3) Received
      by (auto simp: Let_def)
  qed simp_all
qed

text \<open>
  The steps of a connection: calls of the game thread, and turns of the worker that came to an
  end. A turn that still loops holds the mutex of the socket, so nothing else is a step then.
\<close>

inductive tcp_step :: "(bytes \<Rightarrow> 's \<Rightarrow> bool \<times> 's) \<Rightarrow> tcp \<times> 's \<Rightarrow> tcp \<times> 's \<Rightarrow> bool"
  for proc :: "bytes \<Rightarrow> 's \<Rightarrow> bool \<times> 's" where
  connect: "Connect accepted rIP rPort t = (ok, t') \<Longrightarrow> tcp_step proc (t, s) (t', s)"
| async: "tcp_step proc (t, s) (AsyncConnect rIP rPort t, s)"
| disconnect: "tcp_step proc (t, s) (Disconnect t, s)"
| send: "Send data t = (ok, t') \<Longrightarrow> tcp_step proc (t, s) (t', s)"
| turn: "mThread t \<Longrightarrow> Process proc a t s = Inr (Some b, p) \<Longrightarrow> loop_turn proc a t s = Inr (wire, t', s') \<Longrightarrow>
    tcp_step proc (t, s) (t', s')"

inductive_cases tcp_stepE: "tcp_step proc (t, s) (t', s')"

definition tcp_inv :: "tcp \<Rightarrow> bool" where
  "tcp_inv t \<longleftrightarrow>
     (mSock t \<longrightarrow> mSockState t = STATE_CONNECTED \<or> mSockState t = STATE_DISCONNECTING) \<and>
     (mSockState t = STATE_CONNECTED \<longrightarrow> mSock t) \<and>
     (mSendQueue t \<noteq> [] \<longrightarrow> mSock t)"

lemma tcp_inv_new: "tcp_inv TCPConnection_new" "tcp_inv (TCPConnection_accepted ip port)"
  by (simp_all add: tcp_inv_def TCPConnection_new_def TCPConnection_accepted_def)

lemma tcp_inv_Connect: "tcp_inv t \<Longrightarrow> Connect acc ip port t = (ok, t') \<Longrightarrow> tcp_inv t'"
  by (cases "mSockState t") (auto simp: tcp_inv_def Connect_def WaitLoop_def Let_def split: if_splits)

lemma tcp_inv_calls:
  "tcp_inv t \<Longrightarrow> tcp_inv (AsyncConnect ip port t)" "tcp_inv t \<Longrightarrow> tcp_inv (Disconnect t)"
  "tcp_inv t \<Longrightarrow> tcp_inv (DoDisconnect t)"
  by (auto simp: tcp_inv_def AsyncConnect_def WaitLoop_def Disconnect_def DoDisconnect_def
      ClearBuffers_def Let_def)

lemma tcp_inv_Send: "tcp_inv t \<Longrightarrow> Send data t = (ok, t') \<Longrightarrow> tcp_inv t'"
  by (auto simp: tcp_inv_def Send_def split: if_splits)

lemma SendData_inv:
  assumes "tcp_inv t" "SendData answers t = Inr (res, wire, t')"
  shows "tcp_inv t'"
proof -
  have "q = []" if "send_loop answers (mSendQueue t) [] = Inr (res, wire, q)" "mSendQueue t = []" for q
    using that by simp
  then show ?thesis
    using assms by (auto simp: SendData_def tcp_inv_def ebind_Inr_conv split: if_splits)
qed

lemma SendData_fault:
  "tcp_inv t \<Longrightarrow> SendData answers t = Inl f \<Longrightarrow> f = Assert_fail \<and> [] \<in> set (mSendQueue t)"
  using send_loop_fault [of answers "mSendQueue t" "[]" f]
  by (auto simp: SendData_def tcp_inv_def ebind_Inl_conv split: if_splits)

lemma SendData_spins:
  "SendData answers t = Inr (None, wire, t') \<Longrightarrow> Send_error \<notin> set answers \<and> mSendQueue t \<noteq> [] \<and>
   ([] \<notin> set (mSendQueue t) \<longrightarrow> taken answers < length (concat (mSendQueue t)))"
  using send_loop_spins [of answers "mSendQueue t" "[]" wire "mSendQueue t'"]
  by (auto simp: SendData_def ebind_Inr_conv split: if_splits)

lemma SendData_ends:
  assumes "SendData (on_send a) (t\<lparr>mRecvBuf := buf\<rparr>) = Inr (r, w, t')" "[] \<notin> set (mSendQueue t)"
    and "Send_error \<in> set (on_send a) \<or> length (concat (mSendQueue t)) \<le> taken (on_send a)"
  shows "r \<noteq> None"
  using SendData_spins [of "on_send a" "t\<lparr>mRecvBuf := buf\<rparr>"] assms by (cases r) auto

lemma recv_loop_spins:
  "recv_loop proc answers buf s = (None, buf', s') \<Longrightarrow> x \<in> set answers \<Longrightarrow> \<exists>bs. x = Received bs"
  by (induction answers arbitrary: buf s)
    (auto simp: Let_def split: recv_answer.splits if_splits prod.splits)

lemma RecvData_inv:
  assumes "tcp_inv t" and "mSockState t = STATE_CONNECTED"
  obtains res buf s' where "RecvData proc answers t s = Inr (res, t\<lparr>mRecvBuf := buf\<rparr>, s')"
    "tcp_inv (t\<lparr>mRecvBuf := buf\<rparr>)" "res = None \<Longrightarrow> \<forall>x \<in> set answers. \<exists>bs. x = Received bs"
proof -
  obtain res buf s' where r: "recv_loop proc answers (mRecvBuf t) s = (res, buf, s')"
    by (cases "recv_loop proc answers (mRecvBuf t) s") auto
  then have "RecvData proc answers t s = Inr (res, t\<lparr>mRecvBuf := buf\<rparr>, s')"
    using assms by (simp add: RecvData_def tcp_inv_def)
  moreover have "tcp_inv (t\<lparr>mRecvBuf := buf\<rparr>)"
    using assms by (simp add: tcp_inv_def)
  moreover have "\<forall>x \<in> set answers. \<exists>bs. x = Received bs" if "res = None"
    using recv_loop_spins r that by fast
  ultimately show thesis by (rule that)
qed

text \<open>
  A socket that lets a turn come to an end: it stops delivering, and either it fails or its
  answers take all that is queued.
\<close>

definition socket_ends :: "answers \<Rightarrow> tcp \<Rightarrow> bool" where
  "socket_ends a t \<longleftrightarrow>
     {Closed, Recv_blocks, Recv_error} \<inter> set (on_recv a) \<noteq> {} \<and>
     (Send_error \<in> set (on_send a) \<or> length (concat (mSendQueue t)) \<le> taken (on_send a))"

lemma Process_ends:
  assumes t: "tcp_inv t"
  shows "case Process proc a t s of
           Inl f \<Rightarrow> f = Assert_fail \<and> [] \<in> set (mSendQueue t)
         | Inr (res, wire, t', s') \<Rightarrow>
             tcp_inv t' \<and> ([] \<notin> set (mSendQueue t) \<and> socket_ends a t \<longrightarrow> res \<noteq> None)"
proof (cases "mSockState t")
  case STATE_CONNECTING
  then show ?thesis
    using tcp_inv_Connect [OF t]
    by (cases "Connect (on_connect a) (mrIP t) (mrPort t) t") (auto simp: Process_def)
next
  case STATE_CONNECTED
  obtain res buf s1 where 1: "RecvData proc (on_recv a) t s = Inr (res, t\<lparr>mRecvBuf := buf\<rparr>, s1)"
      "tcp_inv (t\<lparr>mRecvBuf := buf\<rparr>)" "res = None \<Longrightarrow> \<forall>x \<in> set (on_recv a). \<exists>bs. x = Received bs"
    using RecvData_inv [OF t STATE_CONNECTED] by metis
  have "res \<noteq> None" if "socket_ends a t"
    using that 1(3) by (fastforce simp: socket_ends_def)
  then show ?thesis
    using SendData_inv [OF 1(2), of "on_send a"] SendData_fault [OF 1(2), of "on_send a"] STATE_CONNECTED 1
      SendData_ends [where a = a and t = t and buf = buf]
    by (cases "SendData (on_send a) (t\<lparr>mRecvBuf := buf\<rparr>)") (auto simp: Process_def socket_ends_def)
next
  case STATE_DISCONNECTING
  have "t\<lparr>mRecvBuf := mRecvBuf t\<rparr> = t" by simp
  then show ?thesis
    using SendData_inv [OF t, of "on_send a"] SendData_fault [OF t, of "on_send a"]
      SendData_ends [where a = a and t = t and buf = "mRecvBuf t"] tcp_inv_calls(3) STATE_DISCONNECTING
    by (cases "SendData (on_send a) t") (auto simp: Process_def socket_ends_def)
qed (use t in \<open>auto simp: Process_def\<close>)

lemma tcp_inv_thread [simp]: "tcp_inv (t\<lparr>mThread := b\<rparr>) = tcp_inv t"
  by (simp add: tcp_inv_def)

lemma loop_turn_inv: "loop_turn proc a t s = Inr (wire, t', s') \<Longrightarrow> tcp_inv t \<Longrightarrow> tcp_inv t'"
  using Process_ends [where proc = proc and a = a and t = t and s = s] tcp_inv_calls(3) by (auto simp: loop_turn_def ebind_Inr_conv)

lemma tcp_step_inv: "tcp_step proc ts ts' \<Longrightarrow> tcp_inv (fst ts) \<Longrightarrow> tcp_inv (fst ts')"
  by (induction rule: tcp_step.induct)
    (auto intro: tcp_inv_Connect tcp_inv_calls tcp_inv_Send loop_turn_inv)

lemma tcp_steps_inv: "(tcp_step proc)\<^sup>*\<^sup>* ts ts' \<Longrightarrow> tcp_inv (fst ts) \<Longrightarrow> tcp_inv (fst ts')"
  by (induction rule: rtranclp_induct) (auto dest: tcp_step_inv)

section \<open>Main results\<close>

text \<open>C37. No order of calls and worker turns makes a connection use a socket that is not there: from the
  two ways a connection is made, after any calls and completed turns, the next turn of the worker
  either does what it should or stops at the assertion of an empty buffer, and that only when an
  empty buffer was queued (the game queues frames, which begin with their length). With no empty
  buffer queued the turn comes to an end when the socket stops delivering and either fails or takes
  all that is queued; a socket that blocks for ever keeps the worker looping in \<open>SendData\<close>, with the
  mutex of the connection held.\<close>

theorem tcp_never_faults:
  assumes "(tcp_step proc)\<^sup>*\<^sup>* (t0, s0) (t, s)" "t0 \<in> {TCPConnection_new, TCPConnection_accepted ip port}"
  shows "case Process proc a t s of
      Inl f \<Rightarrow> f = Assert_fail \<and> [] \<in> set (mSendQueue t)
    | Inr (res, _) \<Rightarrow> [] \<notin> set (mSendQueue t) \<and> socket_ends a t \<longrightarrow> res \<noteq> None"
proof -
  have "tcp_inv t" using tcp_steps_inv [OF assms(1)] assms(2) tcp_inv_new by auto
  from Process_ends [OF this, where proc = proc and a = a and s = s] show ?thesis
    by (cases "Process proc a t s") auto
qed

definition sent_twice :: tcp where
  "sent_twice = snd (Send [2] (snd (Send [1] (TCPConnection_accepted 1 2))))"

lemma sent_twice_steps: "(tcp_step proc)\<^sup>*\<^sup>* (TCPConnection_accepted 1 2, s) (sent_twice, s)"
proof -
  have one: "tcp_step proc (t, s) (snd (Send [x] t), s)" for t x
    by (rule tcp_step.send [of "[x]" t "fst (Send [x] t)"]) simp
  define t where "t = snd (Send [1] (TCPConnection_accepted 1 2))"
  have "tcp_step proc (TCPConnection_accepted 1 2, s) (t, s)" unfolding t_def by (rule one)
  moreover have "tcp_step proc (t, s) (sent_twice, s)"
    unfolding sent_twice_def t_def [symmetric] by (rule one)
  ultimately show ?thesis by (rule converse_rtranclp_into_rtranclp [OF _ r_into_rtranclp])
qed

theorem tcp_never_faults_witness:
  "\<forall>proc s. \<exists>res wire t' s'. Process proc \<lparr>on_connect = False, on_recv = [Recv_blocks],
     on_send = [Sent 1, Send_blocks, Sent 1]\<rparr> sent_twice s = Inr (Some res, wire, t', s')"
proof (intro allI)
  fix proc s
  let ?a = "\<lparr>on_connect = False, on_recv = [Recv_blocks], on_send = [Sent 1, Send_blocks, Sent 1]\<rparr>"
  have "mSendQueue sent_twice = [[1], [2]]"
    by (simp add: sent_twice_def TCPConnection_accepted_def Send_def)
  then have q: "[] \<notin> set (mSendQueue sent_twice)" "socket_ends ?a sent_twice"
    by (simp_all add: socket_ends_def)
  then show "\<exists>res wire t' s'. Process proc ?a sent_twice s = Inr (Some res, wire, t', s')"
    using tcp_never_faults [OF sent_twice_steps [of proc s], where ip = 1 and port = 2 and a = ?a]
    by (cases "Process proc ?a sent_twice s") auto
qed

text \<open>The turn ends on what the socket answers, not on a bound of the loop: a socket that always
  blocks lets no turn end that has something to send.\<close>

theorem blocked_socket_spins:
  "mSockState t = STATE_DISCONNECTING \<Longrightarrow> mSock t \<Longrightarrow> mSendQueue t = buf # q \<Longrightarrow> buf \<noteq> [] \<Longrightarrow>
   Process proc (a\<lparr>on_send := replicate n Send_blocks\<rparr>) t s = Inr (None, [], t, s)"
proof -
  assume t: "mSockState t = STATE_DISCONNECTING" "mSock t" "mSendQueue t = buf # q" and b: "buf \<noteq> []"
  have "send_loop (replicate n Send_blocks) (buf # q) [] = Inr (None, [], buf # q)" for n
    using b by (induction n) auto
  then show ?thesis
    using t by (cases t) (simp add: Process_def SendData_def)
qed

text \<open>Nothing is lost or reordered by partial sends: whatever \<open>send\<close> answers, the bytes handed to
  the socket followed by the queue that is left are the queue there was; when \<open>SendData\<close> returns
  \<open>true\<close> the queue is empty.\<close>

theorem send_keeps_order:
  assumes "SendData answers t = Inr (res, wire, t')" "res \<noteq> Some False"
  shows "wire @ concat (mSendQueue t') = concat (mSendQueue t) \<and> (res = Some True \<longrightarrow> mSendQueue t' = [])"
  using assms send_loop_conserves [of answers "mSendQueue t" "[]"] send_loop_done [of answers "mSendQueue t" "[]"]
  by (auto simp: SendData_def ebind_Inr_conv split: if_splits)

theorem send_keeps_order_witness:
  "\<forall>t. SendData [Sent 1, Send_blocks, Sent 1, Sent 2] (t\<lparr>mSock := True, mSockState := STATE_CONNECTED,
     mSendQueue := [[1, 2], [3, 4]]\<rparr>) = Inr (Some True, [1, 2, 3, 4], t\<lparr>mSock := True,
     mSockState := STATE_CONNECTED, mSendQueue := []\<rparr>) \<and>
   [1, 2, 3, 4] @ concat [] = concat [[1 :: byte, 2], [3, 4]]"
proof (intro allI)
  fix t
  show "SendData [Sent 1, Send_blocks, Sent 1, Sent 2] (t\<lparr>mSock := True, mSockState := STATE_CONNECTED,
     mSendQueue := [[1, 2], [3, 4]]\<rparr>) = Inr (Some True, [1, 2, 3, 4], t\<lparr>mSock := True,
     mSockState := STATE_CONNECTED, mSendQueue := []\<rparr>) \<and>
   [1, 2, 3, 4] @ concat [] = concat [[1 :: byte, 2], [3, 4]]"
  proof -
    let ?t = "t\<lparr>mSock := True, mSockState := STATE_CONNECTED, mSendQueue := [[1, 2], [3, 4]]\<rparr>"
    have "SendData [Sent 1, Send_blocks, Sent 1, Sent 2] ?t = Inr (Some True, [1, 2, 3, 4],
        t\<lparr>mSock := True, mSockState := STATE_CONNECTED, mSendQueue := []\<rparr>)"
      by (simp add: SendData_def)
    from this send_keeps_order [OF this] show ?thesis by simp
  qed
qed

text \<open>The receive loop hands every chunk the socket delivers to the subclass, in order and
  unchanged, until the socket blocks, closes or fails.\<close>

theorem recv_hands_over:
  assumes "RecvData proc answers t s = Inr (res, t', s')" "mSockState t = STATE_CONNECTED"
    "recv_ok answers" "\<forall>bs s. fst (proc bs s)"
  shows "s' = fold (\<lambda>bs s. snd (proc bs s)) (chunks answers) s"
proof -
  obtain r b s1 where r: "recv_loop proc answers (mRecvBuf t) s = (r, b, s1)"
    by (cases "recv_loop proc answers (mRecvBuf t) s") auto
  then have "s1 = fold (\<lambda>bs s. snd (proc bs s)) (chunks answers) s"
    using recv_loop_chunks [OF assms(3,4), of "mRecvBuf t" s] by simp
  then show ?thesis using assms(1,2) r by (auto simp: RecvData_def split: if_splits)
qed

theorem recv_hands_over_witness:
  "\<exists>t'. RecvData (\<lambda>bs l. (True, l @ bs)) [Received [1], Received [2, 3], Recv_blocks]
     (TCPConnection_accepted 1 2) [] = Inr (Some True, t', [1, 2, 3])"
proof -
  have ok: "recv_ok [Received [1], Received [2, 3], Recv_blocks]"
    by (auto simp: recv_ok_def TCPCONN_RECVBUF_SIZE_def)
  obtain res t' s' where r: "RecvData (\<lambda>bs l. (True, l @ bs)) [Received [1], Received [2, 3], Recv_blocks]
      (TCPConnection_accepted 1 2) [] = Inr (res, t', s')" "res = Some True"
    by (simp add: RecvData_def TCPConnection_accepted_def recv_room_def TCPCONN_RECVBUF_SIZE_def)
  then show ?thesis
    using recv_hands_over [OF r(1)] ok by (simp add: TCPConnection_accepted_def)
qed

text \<open>A connection whose asynchronous attempt fails stays in STATE_CONNECTING without a worker: it
  accepts neither another asynchronous attempt nor data, and a later synchronous connect that
  succeeds leaves it connected with nobody to send or receive.\<close>

theorem failed_connect_sticks:
  "\<exists>t. loop_turn proc (a\<lparr>on_connect := False\<rparr>) (AsyncConnect ip port TCPConnection_new) s = Inr ([], t, s) \<and>
     mSockState t = STATE_CONNECTING \<and> \<not> mThread t \<and>
     (\<forall>ip' port'. AsyncConnect ip' port' t = t) \<and> (\<forall>data. Send data t = (False, t)) \<and>
     (\<forall>ip' port'. mSockState (snd (Connect True ip' port' t)) = STATE_CONNECTED \<and>
        \<not> mThread (snd (Connect True ip' port' t)))"
  by (simp add: loop_turn_def Process_def AsyncConnect_def TCPConnection_new_def WaitLoop_def
      Connect_def Send_def DoDisconnect_def Let_def)

end
