(* ===== verification/StringTable.thy ===== *)
theory StringTable
  imports Prelude
begin

text \<open>
  The table of well-known strings of \<open>eve-common/marshal/EVEMarshalStringTable.cpp\<close>: the
  strings in their order, the djb2 hash of the header, the hash map the constructor builds
  and the two lookups. The map is keyed by the hash alone, so a lookup by string is exact
  only for strings whose hash no entry shares (\<open>table_exact\<close>); the round trip of the wire
  format needs that, and the last section has strings for which it fails.
\<close>

section \<open>The table\<close>

definition table_names :: "string list" where
  "table_names = [
    ''*corpid'', ''*locationid'', ''age'', ''Asteroid'', ''authentication'', ''ballID'',
    ''beyonce'', ''bloodlineID'', ''capacity'', ''categoryID'', ''character'', ''characterID'',
    ''characterName'', ''characterType'', ''charID'', ''chatx'', ''clientID'', ''config'',
    ''contraband'', ''corporationDateTime'', ''corporationID'', ''createDateTime'',
    ''customInfo'', ''description'', ''divisionID'', ''DoDestinyUpdate'', ''dogmaIM'',
    ''EVE System'', ''flag'', ''foo.SlimItem'', ''gangID'', ''Gemini'', ''gender'',
    ''graphicID'', ''groupID'', ''header'', ''idName'', ''invbroker'', ''itemID'', ''items'',
    ''jumps'', ''line'', ''lines'', ''locationID'', ''locationName'', ''macho.CallReq'',
    ''macho.CallRsp'', ''macho.MachoAddress'', ''macho.Notification'',
    ''macho.SessionChangeNotification'', ''modules'', ''name'', ''objectCaching'',
    ''objectCaching.CachedObject'', ''OnChatJoin'', ''OnChatLeave'', ''OnChatSpeak'',
    ''OnGodmaShipEffect'', ''OnItemChange'', ''OnModuleAttributeChange'', ''OnMultiEvent'',
    ''orbitID'', ''ownerID'', ''ownerName'', ''quantity'', ''raceID'', ''RowClass'',
    ''securityStatus'', ''Sentry Gun'', ''sessionchange'', ''singleton'', ''skillEffect'',
    ''squadronID'', ''typeID'', ''used'', ''userID'', ''util.CachedObject'',
    ''util.IndexRowset'', ''util.Moniker'', ''util.Row'', ''util.Rowset'', ''*multicastID'',
    ''AddBalls'', ''AttackHit3'', ''AttackHit3R'', ''AttackHit4R'', ''DoDestinyUpdates'',
    ''GetLocationsEx'', ''InvalidateCachedObjects'', ''JoinChannel'', ''LSC'',
    ''LaunchMissile'', ''LeaveChannel'', ''OID+'', ''OID-'', ''OnAggressionChange'',
    ''OnCharGangChange'', ''OnCharNoLongerInStation'', ''OnCharNowInStation'',
    ''OnDamageMessage'', ''OnDamageStateChange'', ''OnEffectHit'', ''OnGangDamageStateChange'',
    ''OnLSC'', ''OnSpecialFX'', ''OnTarget'', ''RemoveBalls'', ''SendMessage'',
    ''SetMaxSpeed'', ''SetSpeedFraction'', ''TerminalExplosion'', ''address'', ''alert'',
    ''allianceID'', ''allianceid'', ''bid'', ''bookmark'', ''bounty'', ''channel'', ''charid'',
    ''constellationid'', ''corpID'', ''corpid'', ''corprole'', ''damage'', ''duration'',
    ''effects.Laser'', ''gangid'', ''gangrole'', ''hqID'', ''issued'', ''jit'', ''languageID'',
    ''locationid'', ''machoVersion'', ''marketProxy'', ''minVolume'', ''orderID'', ''price'',
    ''range'', ''regionID'', ''regionid'', ''role'', ''rolesAtAll'', ''rolesAtBase'',
    ''rolesAtHQ'', ''rolesAtOther'', ''shipid'', ''sn'', ''solarSystemID'', ''solarsystemid'',
    ''solarsystemid2'', ''source'', ''splash'', ''stationID'', ''stationid'', ''target'',
    ''userType'', ''userid'', ''volEntered'', ''volRemaining'', ''weapon'',
    ''agent.missionTemplatizedContent_BasicKillMission'',
    ''agent.missionTemplatizedContent_ResearchKillMission'',
    ''agent.missionTemplatizedContent_StorylineKillMission'',
    ''agent.missionTemplatizedContent_GenericStorylineKillMission'',
    ''agent.missionTemplatizedContent_BasicCourierMission'',
    ''agent.missionTemplatizedContent_ResearchCourierMission'',
    ''agent.missionTemplatizedContent_StorylineCourierMission'',
    ''agent.missionTemplatizedContent_GenericStorylineCourierMission'',
    ''agent.missionTemplatizedContent_BasicTradeMission'',
    ''agent.missionTemplatizedContent_ResearchTradeMission'',
    ''agent.missionTemplatizedContent_StorylineTradeMission'',
    ''agent.missionTemplatizedContent_GenericStorylineTradeMission'',
    ''agent.offerTemplatizedContent_BasicExchangeOffer'',
    ''agent.offerTemplatizedContent_BasicExchangeOffer_ContrabandDemand'',
    ''agent.offerTemplatizedContent_BasicExchangeOffer_Crafting'', ''agent.LoyaltyPoints'',
    ''agent.ResearchPoints'', ''agent.Credits'', ''agent.Item'', ''agent.Entity'',
    ''agent.Objective'', ''agent.FetchObjective'', ''agent.EncounterObjective'',
    ''agent.DungeonObjective'', ''agent.TransportObjective'', ''agent.Reward'',
    ''agent.TimeBonusReward'', ''agent.MissionReferral'', ''agent.Location'',
    ''agent.StandardMissionDetails'', ''agent.OfferDetails'', ''agent.ResearchMissionDetails'',
    ''agent.StorylineMissionDetails'']"

definition s_mStringTable :: "bytes list" where
  "s_mStringTable = map str table_names"

text \<open>\<open>hash\<close> reads the characters up to the terminating zero; a \<open>char\<close> is signed.\<close>

definition hash_step :: "byte \<Rightarrow> int32 \<Rightarrow> int32" where
  "hash_step c h = (push_bit 5 h + h) + scast c"

definition table_hash :: "bytes \<Rightarrow> int32" where
  "table_hash s = fold hash_step (c_str s) 5381"

text \<open>\<open>std::unordered_map::insert\<close> keeps the first entry of a key, as \<open>map_of\<close> does.\<close>

definition mStringTableMap :: "(int32 \<times> byte) list" where
  "mStringTableMap =
     zip (map table_hash s_mStringTable) (map word_of_nat [1 ..< Suc (length s_mStringTable)])"

definition LookupIndex :: "bytes \<Rightarrow> byte" where
  "LookupIndex s = (case map_of mStringTableMap (table_hash s) of None \<Rightarrow> 0 | Some i \<Rightarrow> i)"

definition LookupString :: "byte \<Rightarrow> bytes option" where
  "LookupString index =
     (let i = unat (index - 1)
      in if i < length s_mStringTable then Some (s_mStringTable ! i) else None)"

section \<open>The hashes of the entries\<close>

text \<open>The hash over naturals, to evaluate it on the entries.\<close>

definition nat_hash :: "string \<Rightarrow> nat" where
  "nat_hash s = fold (\<lambda>c h. 33 * h + of_char c) s 5381"

definition plain :: "string \<Rightarrow> bool" where
  "plain s \<longleftrightarrow> list_all (\<lambda>c. 0 < (of_char c :: nat) \<and> (of_char c :: nat) < 128) s"

lemma length_table: "length table_names = 195"
  by (simp add: table_names_def)

lemma plain_names: "list_all plain table_names"
  unfolding table_names_def plain_def by simp

lemma nat_hash_names:
  "map (\<lambda>s. take_bit 32 (nat_hash s)) table_names = [
    2480232656, 2710653909, 193486130, 583933696, 1447146533, 4086360397, 1878014698,
    3040061162, 273598739, 1305855696, 885744530, 2503121343, 2890091827, 2890333684,
    4133408464, 255405437, 1326046257, 4142165115, 3194275713, 2198727298, 2021766850,
    4073512294, 275038956, 2444281737, 499121495, 1202529339, 535903779, 2244327402, 2090260095,
    1802735035, 4282103791, 3034482398, 4286845178, 1025954000, 242537759, 30546094, 67809747,
    2779744119, 87622881, 262956327, 264186996, 2090472877, 266128320, 178233931, 823437503,
    20469087, 20469548, 1958978825, 1614264706, 1900187980, 3565923582, 2090536006, 2379826569,
    269718982, 2280560082, 2246042799, 2254743222, 1085223787, 1364759063, 1847632130,
    3168391151, 1968503058, 2178265149, 1309014833, 3714866180, 417228333, 2748908339,
    2853907425, 4067227860, 1471188559, 950585080, 423560945, 2278803071, 524428404, 2090806902,
    556067121, 2566685120, 987527629, 2562382438, 1406648777, 3267121109, 3034557074,
    2018463036, 739091829, 2915193959, 2915193992, 1028762638, 3247387694, 1479907368,
    2739851246, 193462567, 1690548598, 217838731, 2089394412, 2089394414, 3823045370,
    3182757731, 2683261981, 2827848557, 2466341862, 870720104, 4125289620, 4253129509,
    231878628, 1040292289, 1117190889, 2963335169, 856853940, 3786224136, 2665977112, 283329634,
    522605547, 253181629, 182071435, 182072523, 193487284, 1478585499, 4103290374, 3258390878,
    4133409552, 2655765137, 4142318662, 4142319750, 1270886027, 4164656164, 80805899, 416150090,
    4282104879, 3173036148, 2090336587, 86949746, 193496012, 2722292150, 178235019, 3683303667,
    1309324107, 1448120929, 1970728974, 271189912, 272956402, 128724918, 128726006, 2090694967,
    2683403864, 2653005882, 2944627000, 1665936097, 464893862, 5863814, 151400728, 2436944248,
    3109748906, 473628534, 474473040, 2498362036, 2498363124, 496041324, 4262130150, 556068209,
    146659101, 2798075504, 617590383, 896315697, 527920604, 3928051192, 3224339701, 3492090590,
    1566839721, 240209477, 4022763554, 519755541, 1247619360, 1782779068, 35136345, 219039528,
    182168012, 1833441781, 2211019213, 3271322604, 4278460880, 4148182673, 3197184351, 85425725,
    794162919, 1909126096, 2239322541, 4128499114, 3695370183, 2323867549, 2586681367,
    1108303867, 2328481915, 732929690, 1201970519, 2438038547]"
  unfolding table_names_def nat_hash_def by simp

lemma distinct_nat_hash: "distinct (map (\<lambda>s. take_bit 32 (nat_hash s)) table_names)"
  unfolding nat_hash_names by simp

lemma scast_ascii:
  assumes "n < 128"
  shows "scast (word_of_nat n :: 8 word) = (word_of_nat n :: int32)"
proof -
  have "sint (word_of_nat n :: 8 word) = int n"
    using assms by (simp add: signed_of_nat signed_take_bit_int_eq_self)
  then show ?thesis by (simp add: scast_eq)
qed

lemma of_char_byte: "(of_char c :: byte) = word_of_nat (of_char c)"
  by (rule of_nat_of_char [symmetric])

lemma hash_str:
  "plain s \<Longrightarrow> fold hash_step (str s) (word_of_nat h) =
     word_of_nat (fold (\<lambda>c h. 33 * h + of_char c) s h)"
proof (induction s arbitrary: h)
  case (Cons c s)
  have "scast (of_char c :: 8 word) = (word_of_nat (of_char c) :: int32)"
    using Cons.prems scast_ascii [of "of_char c"]
    by (simp add: plain_def of_char_byte)
  then have "hash_step (of_char c) (word_of_nat h) = word_of_nat (33 * h + of_char c)"
    by (simp add: hash_step_def push_bit_eq_mult)
  then have "fold hash_step (str (c # s)) (word_of_nat h) =
      fold hash_step (str s) (word_of_nat (33 * h + of_char c))"
    by (simp only: str_Cons fold_simps)
  also have "\<dots> = word_of_nat (fold (\<lambda>c h. 33 * h + of_char c) s (33 * h + of_char c))"
    using Cons.prems by (intro Cons.IH) (simp add: plain_def)
  finally show ?case by (simp only: fold_simps)
qed simp

lemma c_str_plain:
  assumes "plain s"
  shows "c_str (str s) = str s"
proof -
  have "(of_char c :: byte) \<noteq> 0" if "c \<in> set s" for c
  proof -
    have c: "0 < (of_char c :: nat)" "(of_char c :: nat) < 128"
      using assms that by (auto simp: plain_def list_all_iff)
    have "unat (of_char c :: byte) = (of_char c :: nat)"
      using c by (simp add: unsigned_of_nat take_bit_nat_eq_self of_char_byte)
    then show ?thesis using c by auto
  qed
  then show ?thesis
    unfolding c_str_def str_def by (simp add: takeWhile_eq_all_conv)
qed

lemma table_hash_plain:
  assumes "plain s"
  shows "unat (table_hash (str s)) = take_bit 32 (nat_hash s)"
proof -
  have "table_hash (str s) = word_of_nat (nat_hash s)"
    using hash_str [OF assms, of 5381] by (simp add: table_hash_def nat_hash_def c_str_plain [OF assms])
  then show ?thesis by (simp add: unsigned_of_nat)
qed

lemma distinct_table_hash: "distinct (map table_hash s_mStringTable)"
proof -
  have "map unat (map table_hash s_mStringTable) = map (\<lambda>s. take_bit 32 (nat_hash s)) table_names"
    using plain_names by (auto simp: s_mStringTable_def list_all_iff table_hash_plain)
  then show ?thesis
    using distinct_nat_hash by (metis distinct_map)
qed

section \<open>The two lookups\<close>

definition table_exact :: "bytes \<Rightarrow> bool" where
  "table_exact s \<longleftrightarrow> LookupIndex s = 0 \<or> LookupString (LookupIndex s) = Some s"

lemma length_s_mStringTable: "length s_mStringTable = 195"
  by (simp add: s_mStringTable_def length_table)

lemma map_of_mStringTableMap:
  "map_of mStringTableMap h = Some i \<longleftrightarrow>
     (\<exists>n < 195. i = word_of_nat (Suc n) \<and> h = table_hash (s_mStringTable ! n))"
proof -
  have "map fst mStringTableMap = map table_hash s_mStringTable"
    by (simp add: mStringTableMap_def del: upt_Suc)
  then have "map_of mStringTableMap h = Some i \<longleftrightarrow> (h, i) \<in> set mStringTableMap"
    using distinct_table_hash by (simp add: map_of_eq_Some_iff)
  also have "\<dots> \<longleftrightarrow> (\<exists>n < 195. i = word_of_nat (Suc n) \<and> h = table_hash (s_mStringTable ! n))"
  proof -
    have "map table_hash s_mStringTable ! n = table_hash (s_mStringTable ! n) \<and>
        map word_of_nat [1 ..< Suc 195] ! n = (word_of_nat (Suc n) :: byte)" if "n < 195" for n
      using that by (simp add: length_s_mStringTable nth_upt del: upt_Suc of_nat_Suc)
    then show ?thesis
      unfolding mStringTableMap_def in_set_zip length_map length_upt length_s_mStringTable fst_conv snd_conv
      by (intro ex_cong1) (auto simp del: upt_Suc of_nat_Suc)
  qed
  finally show ?thesis .
qed

lemma unat_index:
  assumes "n < 195"
  shows "unat (word_of_nat (Suc n) - 1 :: byte) = n"
  using assms by (simp add: unsigned_of_nat take_bit_nat_eq_self)

lemma LookupString_index:
  "n < 195 \<Longrightarrow> LookupString (word_of_nat (Suc n)) = Some (s_mStringTable ! n)"
  by (simp add: LookupString_def unat_index length_s_mStringTable Let_def del: of_nat_Suc)

lemma LookupIndex_LookupString:
  assumes "LookupString i = Some s"
  shows "LookupIndex s = i"
proof -
  define n where "n = unat (i - 1)"
  have n: "n < 195" "s = s_mStringTable ! n"
    using assms by (auto simp: LookupString_def n_def Let_def length_s_mStringTable split: if_splits)
  have "word_of_nat (Suc n) = i" by (simp add: n_def)
  then have "map_of mStringTableMap (table_hash s) = Some i"
    unfolding map_of_mStringTableMap using n by auto
  then show ?thesis by (simp add: LookupIndex_def)
qed

lemma LookupIndex_hash:
  assumes "LookupIndex s \<noteq> 0"
  shows "\<exists>t. LookupString (LookupIndex s) = Some t \<and> table_hash t = table_hash s"
proof -
  obtain i where i: "map_of mStringTableMap (table_hash s) = Some i" "LookupIndex s = i"
    using assms by (auto simp: LookupIndex_def split: option.splits)
  then obtain n where "n < 195" "i = word_of_nat (Suc n)" "table_hash s = table_hash (s_mStringTable ! n)"
    unfolding map_of_mStringTableMap by blast
  then show ?thesis using i LookupString_index by metis
qed

lemma LookupIndex_c_str:
  assumes "0 \<notin> set s"
  shows "LookupIndex (s @ 0 # t) = LookupIndex s"
proof -
  have "c_str (s @ 0 # t) = c_str s"
    using assms unfolding c_str_def by (induction s) auto
  then show ?thesis by (simp add: LookupIndex_def table_hash_def)
qed

section \<open>Main results\<close>

text \<open>Every index of the string table is the one its string is written with: looking up a string
  that \<open>LookupString\<close> gives for an index finds that index (no two of the 195 strings share a hash).\<close>

theorem string_table_inverse:
  assumes "LookupString i = Some s"
  shows "LookupIndex s = i"
  using LookupIndex_LookupString [OF assms] .

theorem string_table_inverse_witness: "LookupIndex (s_mStringTable ! 6) = 7"
  using string_table_inverse [of 7 "s_mStringTable ! 6"] LookupString_index [of 6] by simp

lemma collision_hash: "table_hash (str ''bFe'') = table_hash (str ''age'')"
proof (rule word_unat_eq_iff [THEN iffD2])
  have "plain ''bFe''" "plain ''age''" by (simp_all add: plain_def)
  then show "unat (table_hash (str ''bFe'')) = unat (table_hash (str ''age''))"
    by (simp only: table_hash_plain) (simp add: nat_hash_def)
qed

lemma age_entry: "s_mStringTable ! 2 = str ''age''"
  by (simp add: s_mStringTable_def table_names_def)

text \<open>A lookup goes by the hash alone: the string \<open>bFe\<close>, which is not in the table, is written
  with the index of \<open>age\<close>, and reading that index gives another string.\<close>

theorem string_table_collision:
  "LookupString (LookupIndex (str ''bFe'')) = Some (str ''age'')"
proof -
  have "LookupString 3 = Some (str ''age'')" using LookupString_index [of 2] by (simp add: age_entry)
  moreover from this have "LookupIndex (str ''age'') = 3" by (rule LookupIndex_LookupString)
  moreover have "LookupIndex (str ''bFe'') = LookupIndex (str ''age'')"
    unfolding LookupIndex_def collision_hash ..
  ultimately show ?thesis by (simp only:)
qed

end
