(* ===== verification/Buffers.thy ===== *)
theory Buffers
  imports Prelude
begin

text \<open>
  The growable byte buffer of \<open>eve-core/utils/Buffer.h\<close>: an allocated block
  (\<open>mBuffer\<close>, whose length is \<open>mCapacity\<close>) of which the first \<open>mSize\<close> bytes are the
  contents, with the capacity policy of \<open>_CalcBufferCapacity\<close> and every write operation.
  \<open>realloc\<close> leaves the bytes past the old block unspecified: they are a parameter
  \<open>junk\<close> of the operations, and the lemmas hold for all of them. Element sequences are
  sequences of bytes, the only instances of the templates the server uses.
\<close>

section \<open>State and arithmetic\<close>

record buffer =
  mBuffer :: bytes
  mSize :: nat

definition mCapacity :: "buffer \<Rightarrow> nat" where
  "mCapacity b = length (mBuffer b)"

definition content :: "buffer \<Rightarrow> bytes" where
  "content b = take (mSize b) (mBuffer b)"

definition npowof2 :: "int64 \<Rightarrow> int64" where
  "npowof2 num =
     (let n0 = num - 1;
          n1 = n0 OR signed_drop_bit 1 n0;
          n2 = n1 OR signed_drop_bit 2 n1;
          n4 = n2 OR signed_drop_bit 4 n2;
          n8 = n4 OR signed_drop_bit 8 n4;
          n16 = n8 OR signed_drop_bit 16 n8;
          n32 = n16 OR signed_drop_bit 32 n16
      in n32 + 1)"

definition CalcBufferCapacity :: "nat \<Rightarrow> nat \<Rightarrow> nat" where
  "CalcBufferCapacity currentCapacity requiredSize =
     (let newCapacity =
            (if 0x100 < requiredSize then unat (npowof2 (word_of_nat requiredSize))
             else if 0 < requiredSize then 0x100
             else 0)
      in if requiredSize \<le> currentCapacity \<and> currentCapacity < newCapacity
         then currentCapacity else newCapacity)"

section \<open>Operations\<close>

definition Reallocate :: "(nat \<Rightarrow> byte) \<Rightarrow> buffer \<Rightarrow> nat \<Rightarrow> buffer result" where
  "Reallocate junk b requiredSize =
     (let newCapacity = CalcBufferCapacity (mCapacity b) requiredSize
      in ebind (assert_that (requiredSize \<le> newCapacity)) (\<lambda>_.
         if newCapacity \<noteq> mCapacity b
         then Inr (b\<lparr>mBuffer := take newCapacity (mBuffer b)
                               @ map junk [mCapacity b ..< newCapacity]\<rparr>)
         else Inr b))"

definition ResizeAt_nofill ::
    "(nat \<Rightarrow> byte) \<Rightarrow> nat \<Rightarrow> buffer \<Rightarrow> nat \<Rightarrow> nat \<Rightarrow> buffer result" where
  "ResizeAt_nofill junk sz b index requiredCount =
     ebind (assert_that (index \<le> mSize b)) (\<lambda>_.
     ebind (Reallocate junk b (index + sz * requiredCount)) (\<lambda>b'.
       Inr (b'\<lparr>mSize := index + sz * requiredCount\<rparr>)))"

definition write_at :: "bytes \<Rightarrow> nat \<Rightarrow> bytes \<Rightarrow> bytes" where
  "write_at mem i bs = take i mem @ bs @ drop (i + length bs) mem"

definition ResizeAt ::
    "(nat \<Rightarrow> byte) \<Rightarrow> nat \<Rightarrow> buffer \<Rightarrow> nat \<Rightarrow> nat \<Rightarrow> byte \<Rightarrow> buffer result" where
  "ResizeAt junk sz b index requiredCount fill =
     ebind (assert_that (index \<le> mSize b)) (\<lambda>_.
       let oldSize = mSize b; newSize = index + sz * requiredCount in
       ebind (ResizeAt_nofill junk sz b index requiredCount) (\<lambda>b'.
         if newSize > oldSize
         then Inr (b'\<lparr>mBuffer := write_at (mBuffer b') oldSize
                                  (replicate (newSize - oldSize) fill)\<rparr>)
         else Inr b'))"

definition AssignAt :: "buffer \<Rightarrow> nat \<Rightarrow> bytes \<Rightarrow> buffer result" where
  "AssignAt b index value =
     ebind (assert_that (1 \<le> (mSize b - index) div length value)) (\<lambda>_.
       Inr (b\<lparr>mBuffer := write_at (mBuffer b) index value\<rparr>))"

definition AssignSeqAt :: "buffer \<Rightarrow> nat \<Rightarrow> bytes \<Rightarrow> buffer result" where
  "AssignSeqAt b index sq =
     ebind (assert_that (length sq \<le> mSize b - index)) (\<lambda>_.
       if sq \<noteq> [] then Inr (b\<lparr>mBuffer := write_at (mBuffer b) index sq\<rparr>) else Inr b)"

definition Append :: "(nat \<Rightarrow> byte) \<Rightarrow> buffer \<Rightarrow> bytes \<Rightarrow> buffer result" where
  "Append junk b value =
     (let index = mSize b in
      ebind (ResizeAt_nofill junk (length value) b index 1) (\<lambda>b'. AssignAt b' index value))"

definition AppendSeq :: "(nat \<Rightarrow> byte) \<Rightarrow> buffer \<Rightarrow> bytes \<Rightarrow> buffer result" where
  "AppendSeq junk b sq =
     (let index = mSize b in
      ebind (ResizeAt_nofill junk 1 b index (length sq)) (\<lambda>b'. AssignSeqAt b' index sq))"

definition Assign :: "(nat \<Rightarrow> byte) \<Rightarrow> buffer \<Rightarrow> bytes \<Rightarrow> buffer result" where
  "Assign junk b value =
     (if 1 \<le> mSize b div length value
      then ebind (AssignAt b 0 value) (\<lambda>b'. ResizeAt_nofill junk (length value) b' 0 1)
      else ebind (ResizeAt_nofill junk (length value) b 0 1) (\<lambda>b'. AssignAt b' 0 value))"

definition AssignSeq :: "(nat \<Rightarrow> byte) \<Rightarrow> buffer \<Rightarrow> bytes \<Rightarrow> buffer result" where
  "AssignSeq junk b sq =
     (if length sq \<le> mSize b
      then ebind (AssignSeqAt b 0 sq) (\<lambda>b'. ResizeAt_nofill junk 1 b' 0 (length sq))
      else ebind (ResizeAt_nofill junk 1 b 0 (length sq)) (\<lambda>b'. AssignSeqAt b' 0 sq))"

definition ReserveAt :: "(nat \<Rightarrow> byte) \<Rightarrow> nat \<Rightarrow> buffer \<Rightarrow> nat \<Rightarrow> nat \<Rightarrow> buffer result" where
  "ReserveAt junk sz b index requiredCount =
     ebind (assert_that (index \<le> mSize b)) (\<lambda>_.
       if index + sz * requiredCount > mCapacity b
       then Reallocate junk b (index + sz * requiredCount) else Inr b)"

definition Buffer_empty :: buffer where
  "Buffer_empty = \<lparr>mBuffer = [], mSize = 0\<rparr>"

definition Buffer_fill :: "(nat \<Rightarrow> byte) \<Rightarrow> nat \<Rightarrow> byte \<Rightarrow> buffer result" where
  "Buffer_fill junk len fill = ResizeAt junk 1 Buffer_empty 0 len fill"

definition Buffer_from :: "(nat \<Rightarrow> byte) \<Rightarrow> bytes \<Rightarrow> buffer result" where
  "Buffer_from junk sq = AssignSeq junk Buffer_empty sq"

section \<open>Iterators\<close>

text \<open>
  A \<open>const_iterator<T>\<close> is a byte index into its buffer. Advancing it by \<open>n\<close> elements
  of \<open>sz\<close> bytes may reach the end but not pass it; dereferencing needs a whole element
  before the end.
\<close>

definition iter_add :: "nat \<Rightarrow> bytes \<Rightarrow> nat \<Rightarrow> nat \<Rightarrow> nat result" where
  "iter_add sz data index diff =
     ebind (assert_that (index + diff * sz \<le> length data)) (\<lambda>_. Inr (index + diff * sz))"

definition iter_deref :: "nat \<Rightarrow> bytes \<Rightarrow> nat \<Rightarrow> bytes result" where
  "iter_deref sz data index =
     ebind (assert_that (1 \<le> (length data - index) div sz)) (\<lambda>_.
       Inr (take sz (drop index data)))"

definition buf_get :: "bytes \<Rightarrow> nat \<Rightarrow> byte result" where
  "buf_get data index =
     ebind (iter_add 1 data 0 index) (\<lambda>i.
     ebind (iter_deref 1 data i) (\<lambda>bs. Inr (hd bs)))"

section \<open>The power of two above a size\<close>

lemma smear_step:
  fixes m n :: int64
  assumes m: "\<And>i. bit m i \<longleftrightarrow> (\<exists>j. i \<le> j \<and> j < i + k \<and> bit n j)"
    and n: "\<not> bit n 63" and k: "0 < k" "k < 64"
  shows "bit (m OR signed_drop_bit k m) i \<longleftrightarrow> (\<exists>j. i \<le> j \<and> j < i + 2 * k \<and> bit n j)"
proof -
  have lim: "j < 63" if "bit n j" for j
    using n that bit_imp_le_length [OF that] by (cases "j = 63") auto
  have top: "\<not> bit m 63"
    using m [of 63] lim by fastforce
  have "bit (signed_drop_bit k m) i \<longleftrightarrow> bit m (k + i)"
  proof (cases "64 - k \<le> i \<and> i < 64")
    case True
    then have "\<not> bit m (k + i)"
      using m [of "k + i"] lim by fastforce
    then show ?thesis
      using True top by (simp add: bit_signed_drop_bit_iff)
  next
    case False
    then show ?thesis by (auto simp: bit_signed_drop_bit_iff)
  qed
  then have "bit (m OR signed_drop_bit k m) i \<longleftrightarrow>
      (\<exists>j. i \<le> j \<and> j < i + k \<and> bit n j) \<or> (\<exists>j. k + i \<le> j \<and> j < k + i + k \<and> bit n j)"
    by (simp add: bit_or_iff m)
  also have "\<dots> \<longleftrightarrow> (\<exists>j. i \<le> j \<and> j < i + 2 * k \<and> bit n j)"
    (is "?A \<longleftrightarrow> ?B")
  proof -
    have "(i \<le> j \<and> j < i + k) \<or> (k + i \<le> j \<and> j < k + i + k) \<longleftrightarrow> i \<le> j \<and> j < i + 2 * k" for j
      by arith
    then show ?thesis by metis
  qed
  finally show ?thesis .
qed

lemma npowof2_bits:
  fixes n :: int64
  assumes "\<not> bit (n - 1) 63"
  shows "bit (npowof2 n - 1) i \<longleftrightarrow> (\<exists>j. i \<le> j \<and> j < i + 64 \<and> bit (n - 1) j)"
proof -
  define n0 n1 n2 n4 n8 n16 where "n0 = n - 1"
    and "n1 = n0 OR signed_drop_bit 1 n0" and "n2 = n1 OR signed_drop_bit 2 n1"
    and "n4 = n2 OR signed_drop_bit 4 n2" and "n8 = n4 OR signed_drop_bit 8 n4"
    and "n16 = n8 OR signed_drop_bit 16 n8"
  note defs = n1_def n2_def n4_def n8_def n16_def
  have m: "\<not> bit n0 63" using assms by (simp add: n0_def)
  have 0: "bit n0 i \<longleftrightarrow> (\<exists>j. i \<le> j \<and> j < i + 1 \<and> bit n0 j)" for i
    using le_less_Suc_eq by auto
  have 1: "bit n1 i \<longleftrightarrow> (\<exists>j. i \<le> j \<and> j < i + 2 \<and> bit n0 j)" for i
    unfolding n1_def using smear_step [OF 0 m, of i] by simp
  have 2: "bit n2 i \<longleftrightarrow> (\<exists>j. i \<le> j \<and> j < i + 4 \<and> bit n0 j)" for i
    unfolding n2_def using smear_step [OF 1 m, of i] by simp
  have 4: "bit n4 i \<longleftrightarrow> (\<exists>j. i \<le> j \<and> j < i + 8 \<and> bit n0 j)" for i
    unfolding n4_def using smear_step [OF 2 m, of i] by simp
  have 8: "bit n8 i \<longleftrightarrow> (\<exists>j. i \<le> j \<and> j < i + 16 \<and> bit n0 j)" for i
    unfolding n8_def using smear_step [OF 4 m, of i] by simp
  have 16: "bit n16 i \<longleftrightarrow> (\<exists>j. i \<le> j \<and> j < i + 32 \<and> bit n0 j)" for i
    unfolding n16_def using smear_step [OF 8 m, of i] by simp
  have "npowof2 n - 1 = n16 OR signed_drop_bit 32 n16"
    by (simp add: npowof2_def Let_def n0_def defs)
  then show ?thesis
    using smear_step [OF 16 m, of i] by (simp add: n0_def)
qed

lemma npowof2_least:
  assumes n: "1 \<le> n" "n \<le> 2 ^ 62"
  obtains k where "unat (npowof2 (word_of_nat n)) = 2 ^ k" "n \<le> 2 ^ k" "k \<le> 62"
    "\<And>j. n \<le> 2 ^ j \<Longrightarrow> k \<le> j"
proof -
  define k where "k = (LEAST k. n \<le> 2 ^ k)"
  have le: "n \<le> 2 ^ k" unfolding k_def by (rule LeastI [of _ 62]) (rule n)
  have least: "k \<le> j" if "n \<le> 2 ^ j" for j
    unfolding k_def using that by (rule Least_le)
  have k: "k \<le> 62" by (rule least) (rule n)
  have low: "2 ^ j \<le> n - 1" if "j < k" for j
    using least [of j] that by force
  define w :: int64 where "w = word_of_nat n - 1"
  have w: "w = word_of_nat (n - 1)" using n by (simp add: w_def of_nat_diff)
  have bw: "bit w i \<longleftrightarrow> bit (n - 1) i \<and> i < 64" for i
    by (auto simp: w bit_of_nat_iff)
  have hi: "\<not> bit (n - 1) i" if "k \<le> i" for i
  proof -
    have "n - 1 < 2 ^ k" using le n by linarith
    then have "n - 1 < 2 ^ i"
      using that by (meson less_le_trans one_le_numeral power_increasing)
    then show ?thesis by (simp add: bit_iff_odd)
  qed
  have top: "bit (n - 1) (k - 1)" if "0 < k"
  proof -
    have "2 ^ (k - 1) \<le> n - 1" using that by (intro low) simp
    moreover have "n - 1 < 2 * 2 ^ (k - 1)"
      using le n that by (cases k) (auto intro: order_less_le_trans)
    ultimately have "(n - 1) div 2 ^ (k - 1) = 1"
      by (intro div_nat_eqI) simp_all
    then show ?thesis by (simp add: bit_iff_odd)
  qed
  have "\<not> bit w 63" using hi [of 63] k by (simp add: bw)
  note bits = npowof2_bits [of "word_of_nat n", folded w_def, OF this]
  have "npowof2 (word_of_nat n) - 1 = mask k"
  proof (rule bit_word_eqI)
    fix i assume i: "i < LENGTH(64)"
    show "bit (npowof2 (word_of_nat n) - 1 :: int64) i = bit (mask k :: int64) i"
    proof (cases "i < k")
      case True
      then have "i \<le> k - 1 \<and> k - 1 < i + 64 \<and> bit w (k - 1)"
        using top k by (auto simp: bw)
      then show ?thesis
        using True i k unfolding bits by (auto simp: bit_mask_iff)
    next
      case False
      then show ?thesis
        using hi unfolding bits by (auto simp: bit_mask_iff bw)
    qed
  qed
  then have "npowof2 (word_of_nat n) = mask k + 1" by (simp add: diff_eq_eq)
  also have "\<dots> = (2 ^ k :: int64)" by (simp add: mask_eq_exp_minus_1)
  also have "\<dots> = word_of_nat (2 ^ k)" by simp
  finally have "unat (npowof2 (word_of_nat n)) = take_bit 64 (2 ^ k)"
    by (simp only: unsigned_of_nat) simp
  also have "\<dots> = 2 ^ k"
    using k power_strict_increasing [of k 64 "2 :: nat"]
    by (intro take_bit_nat_eq_self) simp
  finally have "unat (npowof2 (word_of_nat n)) = 2 ^ k" .
  with le k least show thesis by (intro that)
qed

section \<open>Invariant and refinement of byte sequences\<close>

text \<open>
  A buffer is well formed when its contents fit the block and the block has one of the
  capacities of the policy. Sizes up to \<open>2 ^ 62\<close> are considered: past that the
  power of two does not fit an \<open>int64\<close> (and no such block can be allocated).
\<close>

definition buffer_limit :: nat where
  "buffer_limit = 2 ^ 62"

definition policy_capacity :: "nat \<Rightarrow> bool" where
  "policy_capacity c \<longleftrightarrow> c = 0 \<or> (\<exists>k. 8 \<le> k \<and> k \<le> 62 \<and> c = 2 ^ k)"

definition buffer_inv :: "buffer \<Rightarrow> bool" where
  "buffer_inv b \<longleftrightarrow> mSize b \<le> mCapacity b \<and> policy_capacity (mCapacity b)"

definition holds :: "buffer \<Rightarrow> bytes \<Rightarrow> bool" where
  "holds b xs \<longleftrightarrow> buffer_inv b \<and> content b = xs"

lemma length_content: "buffer_inv b \<Longrightarrow> length (content b) = mSize b"
  by (simp add: buffer_inv_def content_def mCapacity_def)

lemma holds_mSize: "holds b xs \<Longrightarrow> mSize b = length xs"
  using length_content by (auto simp: holds_def)

lemma CalcBufferCapacity_policy:
  assumes "r \<le> buffer_limit" "policy_capacity c"
  shows "r \<le> CalcBufferCapacity c r \<and> policy_capacity (CalcBufferCapacity c r)"
proof -
  define n where "n = (if 0x100 < r then unat (npowof2 (word_of_nat r)) else if 0 < r then 0x100 else 0)"
  have n: "r \<le> n \<and> policy_capacity n"
  proof (cases "0x100 < r")
    case True
    then have "1 \<le> r" "r \<le> 2 ^ 62" using assms by (simp_all add: buffer_limit_def)
    then obtain k where k: "unat (npowof2 (word_of_nat r)) = 2 ^ k" "r \<le> 2 ^ k" "k \<le> 62"
      by (rule npowof2_least) (rule that)
    have "(2 :: nat) ^ 8 < 2 ^ k" using True k by simp
    then have "8 < k" using power_less_imp_less_exp [of "2 :: nat" 8 k] by simp
    then show ?thesis using True k by (auto simp: n_def policy_capacity_def)
  next
    case False
    have "policy_capacity 256"
      unfolding policy_capacity_def by (intro disjI2 exI [of _ 8]) simp
    then show ?thesis using False by (simp add: n_def) (simp add: policy_capacity_def)
  qed
  then show ?thesis
    using assms unfolding CalcBufferCapacity_def n_def [symmetric] Let_def by simp
qed

lemma Reallocate_spec:
  assumes b: "buffer_inv b" and r: "r \<le> buffer_limit"
  obtains b' where "Reallocate junk b r = Inr b'" "mSize b' = mSize b" "r \<le> mCapacity b'"
    "policy_capacity (mCapacity b')"
    "\<And>i. i \<le> r \<Longrightarrow> i \<le> mCapacity b \<Longrightarrow> take i (mBuffer b') = take i (mBuffer b)"
proof -
  define c where "c = CalcBufferCapacity (mCapacity b) r"
  have c: "r \<le> c" "policy_capacity c"
    using CalcBufferCapacity_policy [OF r, of "mCapacity b"] b
    by (simp_all add: c_def buffer_inv_def)
  define mem where "mem = (if c \<noteq> mCapacity b
    then take c (mBuffer b) @ map junk [mCapacity b ..< c] else mBuffer b)"
  have "Reallocate junk b r = Inr (b\<lparr>mBuffer := mem\<rparr>)"
    using c by (simp add: Reallocate_def Let_def c_def [symmetric] mem_def)
  moreover have "length mem = c"
    by (auto simp: mem_def mCapacity_def)
  moreover have "take i mem = take i (mBuffer b)" if "i \<le> r" "i \<le> mCapacity b" for i
    using that c by (auto simp: mem_def mCapacity_def min_def)
  ultimately show thesis
    using c by (intro that [of "b\<lparr>mBuffer := mem\<rparr>"]) (simp_all add: mCapacity_def)
qed

lemma ResizeAt_nofill_spec:
  assumes b: "buffer_inv b" and i: "i \<le> mSize b" and r: "i + sz * n \<le> buffer_limit"
  obtains b' where "ResizeAt_nofill junk sz b i n = Inr b'" "buffer_inv b'"
    "mSize b' = i + sz * n"
    "take (min (mSize b) (i + sz * n)) (mBuffer b') = take (min (mSize b) (i + sz * n)) (mBuffer b)"
proof (rule Reallocate_spec [OF b r, of junk])
  fix b'
  assume *: "Reallocate junk b (i + sz * n) = Inr b'" "i + sz * n \<le> mCapacity b'"
    "policy_capacity (mCapacity b')"
    "\<And>k. k \<le> i + sz * n \<Longrightarrow> k \<le> mCapacity b \<Longrightarrow> take k (mBuffer b') = take k (mBuffer b)"
  have "mSize b \<le> mCapacity b" using b by (simp add: buffer_inv_def)
  then show thesis
    using * i by (intro that [of "b'\<lparr>mSize := i + sz * n\<rparr>"])
      (simp_all add: ResizeAt_nofill_def buffer_inv_def mCapacity_def)
qed

lemma length_write_at:
  "i + length bs \<le> length mem \<Longrightarrow> length (write_at mem i bs) = length mem"
  by (simp add: write_at_def)

lemma take_write_at:
  "i + length bs \<le> length mem \<Longrightarrow> take (i + length bs) (write_at mem i bs) = take i mem @ bs"
  by (simp add: write_at_def)

text \<open>Growing a buffer and filling the gap is appending, whatever the allocator leaves.\<close>

lemma holds_write_gap:
  assumes b: "holds b xs" and b': "buffer_inv b'" "mSize b' = length xs + length bs"
    "take (length xs) (mBuffer b') = take (length xs) (mBuffer b)"
  shows "holds (b'\<lparr>mBuffer := write_at (mBuffer b') (length xs) bs\<rparr>) (xs @ bs)"
proof -
  have "length xs + length bs \<le> length (mBuffer b')"
    using b' by (simp add: buffer_inv_def mCapacity_def)
  moreover have "take (length xs) (mBuffer b) = xs"
    using b holds_mSize [OF b] by (simp add: holds_def content_def)
  ultimately show ?thesis
    using b' by (simp add: holds_def buffer_inv_def mCapacity_def content_def
        length_write_at take_write_at)
qed

lemma AppendSeq_spec:
  assumes b: "holds b xs" and r: "length xs + length bs \<le> buffer_limit"
  shows "\<exists>b'. AppendSeq junk b bs = Inr b' \<and> holds b' (xs @ bs)"
proof -
  have sz: "mSize b = length xs" by (rule holds_mSize) (rule b)
  have inv: "buffer_inv b" using b by (simp add: holds_def)
  have le: "mSize b \<le> mSize b" "mSize b + 1 * length bs \<le> buffer_limit"
    using r sz by simp_all
  show ?thesis
  proof (rule ResizeAt_nofill_spec [OF inv le, of junk])
    fix b'
    assume *: "ResizeAt_nofill junk 1 b (mSize b) (length bs) = Inr b'" "buffer_inv b'"
      "mSize b' = mSize b + 1 * length bs"
      "take (min (mSize b) (mSize b + 1 * length bs)) (mBuffer b') =
       take (min (mSize b) (mSize b + 1 * length bs)) (mBuffer b)"
    then have "holds (b'\<lparr>mBuffer := write_at (mBuffer b') (length xs) bs\<rparr>) (xs @ bs)"
      using sz by (intro holds_write_gap [OF b]) simp_all
    moreover have "b'\<lparr>mBuffer := write_at (mBuffer b') (length xs) []\<rparr> = b'"
      by (simp add: write_at_def)
    ultimately show ?thesis
      using * sz by (cases "bs = []") (auto simp: AppendSeq_def AssignSeqAt_def)
  qed
qed

lemma AssignSeqAt_spec:
  assumes b: "holds b xs" and r: "i + length bs \<le> length xs"
  shows "\<exists>b'. AssignSeqAt b i bs = Inr b' \<and> holds b' (write_at xs i bs)"
proof -
  have sz: "mSize b = length xs" by (rule holds_mSize) (rule b)
  have inv: "length xs \<le> length (mBuffer b)"
    using b sz by (simp add: holds_def buffer_inv_def mCapacity_def)
  define b' where "b' = b\<lparr>mBuffer := write_at (mBuffer b) i bs\<rparr>"
  have "take (length xs) (write_at (mBuffer b) i bs) = write_at (take (length xs) (mBuffer b)) i bs"
    using r inv by (cases "length xs = i") (auto simp: write_at_def take_drop min_def)
  then have "holds b' (write_at xs i bs)"
    using b r sz inv by (simp add: b'_def holds_def buffer_inv_def content_def mCapacity_def length_write_at)
  moreover have "bs = [] \<Longrightarrow> b' = b" by (simp add: b'_def write_at_def)
  moreover have "length bs \<le> mSize b - i" using r sz by simp
  ultimately show ?thesis
    by (cases "bs = []") (auto simp: AssignSeqAt_def b'_def)
qed

lemma ResizeAt_spec:
  assumes b: "holds b xs" and i: "i \<le> length xs" and r: "i + sz * n \<le> buffer_limit"
  shows "\<exists>b'. ResizeAt junk sz b i n fill = Inr b' \<and>
    holds b' (take (i + sz * n) xs @ replicate (i + sz * n - length xs) fill)"
proof -
  have sz: "mSize b = length xs" by (rule holds_mSize) (rule b)
  have inv: "buffer_inv b" and xs: "take (length xs) (mBuffer b) = xs"
    using b sz by (auto simp: holds_def content_def)
  have ile: "i \<le> mSize b" using i sz by simp
  show ?thesis
  proof (rule ResizeAt_nofill_spec [OF inv ile r, of junk])
    fix b'
    assume *: "ResizeAt_nofill junk sz b i n = Inr b'" "buffer_inv b'" "mSize b' = i + sz * n"
      "take (min (mSize b) (i + sz * n)) (mBuffer b') = take (min (mSize b) (i + sz * n)) (mBuffer b)"
    show ?thesis
    proof (cases "length xs < i + sz * n")
      case True
      then have "holds (b'\<lparr>mBuffer := write_at (mBuffer b') (length xs)
          (replicate (i + sz * n - length xs) fill)\<rparr>) (xs @ replicate (i + sz * n - length xs) fill)"
        using * sz by (intro holds_write_gap [OF b]) simp_all
      then show ?thesis
        using True * i sz by (auto simp: ResizeAt_def Let_def)
    next
      case False
      then have "take (i + sz * n) (mBuffer b') = take (i + sz * n) (mBuffer b)"
        using * sz by (simp add: min_absorb2)
      also have "\<dots> = take (i + sz * n) (take (length xs) (mBuffer b))"
        using False by simp
      finally have "holds b' (take (i + sz * n) xs)"
        using * xs by (simp add: holds_def content_def)
      then show ?thesis
        using False * i sz by (auto simp: ResizeAt_def Let_def)
    qed
  qed
qed

lemma AssignSeq_spec:
  assumes b: "holds b xs" and r: "length bs \<le> buffer_limit"
  shows "\<exists>b'. AssignSeq junk b bs = Inr b' \<and> holds b' bs"
proof -
  have nofill: "\<exists>c'. ResizeAt_nofill junk 1 c 0 (length bs) = Inr c' \<and> mSize c' = length bs \<and>
      buffer_inv c' \<and> take (min (length ys) (length bs)) (mBuffer c') = take (min (length ys) (length bs)) (mBuffer c)"
    if "holds c ys" for c ys
  proof -
    have inv: "buffer_inv c" using that by (simp add: holds_def)
    have le: "0 \<le> mSize c" "0 + 1 * length bs \<le> buffer_limit" using r by simp_all
    show ?thesis
      by (rule ResizeAt_nofill_spec [OF inv le, of junk]) (use holds_mSize [OF that] in simp)
  qed
  have sz: "mSize b = length xs" by (rule holds_mSize) (rule b)
  show ?thesis
  proof (cases "length bs \<le> length xs")
    case True
    obtain b1 where b1: "AssignSeqAt b 0 bs = Inr b1" "holds b1 (write_at xs 0 bs)"
      using AssignSeqAt_spec [OF b, of 0 bs] True by auto
    obtain b2 where b2: "ResizeAt_nofill junk 1 b1 0 (length bs) = Inr b2" "mSize b2 = length bs"
      "buffer_inv b2" "take (length bs) (mBuffer b2) = take (length bs) (mBuffer b1)"
      using nofill [OF b1(2)] True by (auto simp: length_write_at min_absorb2)
    have "take (length bs) (mBuffer b1) = take (length bs) (content b1)"
      using holds_mSize [OF b1(2)] True by (simp add: content_def length_write_at)
    then have "take (length bs) (mBuffer b1) = bs"
      using b1(2) by (simp add: holds_def write_at_def)
    then show ?thesis
      using True b1 b2 sz by (simp add: AssignSeq_def holds_def content_def)
  next
    case False
    obtain b1 where b1: "ResizeAt_nofill junk 1 b 0 (length bs) = Inr b1" "mSize b1 = length bs"
      "buffer_inv b1" using nofill [OF b] by auto
    then have "holds b1 (content b1)" and "length (content b1) = length bs"
      by (simp_all add: holds_def length_content)
    then obtain b2 where "AssignSeqAt b1 0 bs = Inr b2" "holds b2 bs"
      using AssignSeqAt_spec [of b1 "content b1" 0 bs] by (auto simp: write_at_def)
    then show ?thesis
      using False b1 sz by (simp add: AssignSeq_def)
  qed
qed

lemma ReserveAt_spec:
  assumes b: "holds b xs" and i: "i \<le> length xs" and r: "i + sz * n \<le> buffer_limit"
  shows "\<exists>b'. ReserveAt junk sz b i n = Inr b' \<and> holds b' xs \<and> i + sz * n \<le> mCapacity b'"
proof -
  have sz: "mSize b = length xs" by (rule holds_mSize) (rule b)
  have inv: "buffer_inv b" and le: "length xs \<le> mCapacity b"
    using b sz by (auto simp: holds_def buffer_inv_def)
  show ?thesis
  proof (rule Reallocate_spec [OF inv r, of junk])
    fix b'
    assume *: "Reallocate junk b (i + sz * n) = Inr b'" "mSize b' = mSize b"
      "i + sz * n \<le> mCapacity b'" "policy_capacity (mCapacity b')"
      "\<And>k. k \<le> i + sz * n \<Longrightarrow> k \<le> mCapacity b \<Longrightarrow> take k (mBuffer b') = take k (mBuffer b)"
    show ?thesis
    proof (cases "mCapacity b < i + sz * n")
      case True
      then have "holds b' xs"
        using * le sz b by (auto simp: holds_def buffer_inv_def content_def)
      then show ?thesis using True * i sz by (simp add: ReserveAt_def)
    next
      case False
      then show ?thesis using b i sz by (simp add: ReserveAt_def)
    qed
  qed
qed

lemma holds_empty [simp]: "holds Buffer_empty []"
  by (simp add: holds_def Buffer_empty_def buffer_inv_def content_def mCapacity_def policy_capacity_def)

section \<open>The interface of a byte sink\<close>

text \<open>
  What the writers of the wire format rely on: a sink \<open>s\<close> stands for the bytes
  \<open>val s\<close> put so far; a put within the limit succeeds and appends. Writing a list of
  chunks is then writing their concatenation, so the encoders are modelled as functions
  to byte sequences.
\<close>

locale byte_sink =
  fixes stands :: "'s \<Rightarrow> bytes \<Rightarrow> bool"
    and put :: "'s \<Rightarrow> bytes \<Rightarrow> 's result"
    and limit :: nat
  assumes put_ok: "stands s xs \<Longrightarrow> length xs + length bs \<le> limit \<Longrightarrow>
    \<exists>s'. put s bs = Inr s' \<and> stands s' (xs @ bs)"
begin

lemma put_all:
  "stands s xs \<Longrightarrow> length xs + length (concat bss) \<le> limit \<Longrightarrow>
   \<exists>s'. fold (\<lambda>bs m. ebind m (\<lambda>t. put t bs)) bss (Inr s) = Inr s' \<and> stands s' (xs @ concat bss)"
proof (induction bss arbitrary: s xs)
  case Nil
  then show ?case by simp
next
  case (Cons bs bss)
  then obtain s1 where s1: "put s bs = Inr s1" "stands s1 (xs @ bs)"
    using put_ok [of s xs bs] by auto
  show ?case
    using Cons.IH [OF s1(2)] Cons.prems s1(1) by simp
qed

end

definition write_chunks :: "(nat \<Rightarrow> byte) \<Rightarrow> bytes list \<Rightarrow> buffer \<Rightarrow> buffer result" where
  "write_chunks junk bss b = fold (\<lambda>bs m. ebind m (\<lambda>t. AppendSeq junk t bs)) bss (Inr b)"

interpretation sink: byte_sink holds "AppendSeq junk" buffer_limit for junk
  by unfold_locales (rule AppendSeq_spec)

section \<open>Main results\<close>

text \<open>C38. Writing chunk after chunk to a buffer is writing their concatenation: no append fails below
  \<open>2 ^ 62\<close> bytes, the well-formedness of the buffer is kept, and the contents are the old ones
  followed by the chunks, whatever the reallocated block held.\<close>

theorem buffer_write_chunks:
  assumes "holds b xs" "length xs + length (concat bss) \<le> buffer_limit"
  shows "\<exists>b'. write_chunks junk bss b = Inr b' \<and> buffer_inv b' \<and> content b' = xs @ concat bss"
  using sink.put_all [OF assms, of junk] by (auto simp: write_chunks_def holds_def)

theorem buffer_write_chunks_witness:
  "\<forall>junk. \<exists>b'. write_chunks junk [[1, 2], [], [3]] Buffer_empty = Inr b' \<and> buffer_inv b' \<and> content b' = [1, 2, 3]"
proof (intro allI)
  fix junk
  show "\<exists>b'. write_chunks junk [[1, 2], [], [3]] Buffer_empty = Inr b' \<and> buffer_inv b' \<and> content b' = [1, 2, 3]"
    using buffer_write_chunks [of Buffer_empty "[]" "[[1, 2], [], [3]]" junk] by (simp add: buffer_limit_def)
qed

text \<open>Assigning a sequence replaces the contents of a buffer, whether the sequence is longer or
  shorter than the old contents.\<close>

theorem buffer_assign:
  assumes "holds b xs" "length bs \<le> buffer_limit"
  shows "\<exists>b'. AssignSeq junk b bs = Inr b' \<and> buffer_inv b' \<and> content b' = bs"
  using AssignSeq_spec [OF assms, of junk] by (auto simp: holds_def)

theorem buffer_assign_witness:
  "\<forall>junk. \<exists>b'. AssignSeq junk Buffer_empty [4, 5] = Inr b' \<and> buffer_inv b' \<and> content b' = [4, 5]"
proof (intro allI)
  fix junk
  show "\<exists>b'. AssignSeq junk Buffer_empty [4, 5] = Inr b' \<and> buffer_inv b' \<and> content b' = [4, 5]"
    using buffer_assign [of Buffer_empty "[]" "[4, 5]" junk] by (simp add: buffer_limit_def)
qed

text \<open>The bit smearing of \<open>npowof2\<close> computes the least power of two that is not smaller than
  its argument, for every size up to \<open>2 ^ 62\<close>.\<close>

theorem npowof2_power:
  assumes "1 \<le> n" "n \<le> 2 ^ 62"
  shows "\<exists>k \<le> 62. unat (npowof2 (word_of_nat n)) = 2 ^ k \<and> n \<le> 2 ^ k \<and> (\<forall>j. n \<le> 2 ^ j \<longrightarrow> k \<le> j)"
  using npowof2_least [OF assms] by metis

theorem npowof2_power_witness:
  "\<exists>k \<le> 62. unat (npowof2 (word_of_nat 300)) = 2 ^ k \<and> 300 \<le> (2::nat) ^ k \<and> (\<forall>j. (300::nat) \<le> 2 ^ j \<longrightarrow> k \<le> j)"
  using npowof2_power [of 300] by simp

end
