(* ===== verification/DBRow.thy ===== *)
theory DBRow
  imports PyRep Buffers
begin

text \<open>
  Database rows on the wire: the column types of \<open>eve-core/database/dbtype.h\<close>, the row
  descriptor of \<open>PyDatabase.cpp\<close>, the layout that \<open>VisitPackedRow\<close> and
  \<open>LoadPackedRow\<close> compute from a descriptor, the conversions between \<open>float\<close> and
  \<open>double\<close>, and the fixed-size part of a packed row with its bit fields.
\<close>

section \<open>Column types\<close>

datatype dbtype =
    DBTYPE_EMPTY | DBTYPE_I2 | DBTYPE_I4 | DBTYPE_R4 | DBTYPE_R8 | DBTYPE_CY | DBTYPE_ERROR
  | DBTYPE_BOOL | DBTYPE_I1 | DBTYPE_UI1 | DBTYPE_UI2 | DBTYPE_UI4 | DBTYPE_I8 | DBTYPE_UI8
  | DBTYPE_FILETIME | DBTYPE_BYTES | DBTYPE_STR | DBTYPE_WSTR | DBTYPE_unnamed int32

definition dbtype_codes :: "(int32 \<times> dbtype) list" where
  "dbtype_codes =
     [(0x00, DBTYPE_EMPTY), (0x02, DBTYPE_I2), (0x03, DBTYPE_I4), (0x04, DBTYPE_R4),
      (0x05, DBTYPE_R8), (0x06, DBTYPE_CY), (0x0A, DBTYPE_ERROR), (0x0B, DBTYPE_BOOL),
      (0x10, DBTYPE_I1), (0x11, DBTYPE_UI1), (0x12, DBTYPE_UI2), (0x13, DBTYPE_UI4),
      (0x14, DBTYPE_I8), (0x15, DBTYPE_UI8), (0x40, DBTYPE_FILETIME), (0x80, DBTYPE_BYTES),
      (0x81, DBTYPE_STR), (0x82, DBTYPE_WSTR)]"

definition dbtype_of :: "int32 \<Rightarrow> dbtype" where
  "dbtype_of c = (case map_of dbtype_codes c of Some t \<Rightarrow> t | None \<Rightarrow> DBTYPE_unnamed c)"

definition DBTYPE_GetSizeBits :: "dbtype \<Rightarrow> nat" where
  "DBTYPE_GetSizeBits t =
     (case t of
        DBTYPE_I8 \<Rightarrow> 64 | DBTYPE_UI8 \<Rightarrow> 64 | DBTYPE_R8 \<Rightarrow> 64 | DBTYPE_CY \<Rightarrow> 64 | DBTYPE_FILETIME \<Rightarrow> 64
      | DBTYPE_I4 \<Rightarrow> 32 | DBTYPE_UI4 \<Rightarrow> 32 | DBTYPE_R4 \<Rightarrow> 32
      | DBTYPE_I2 \<Rightarrow> 16 | DBTYPE_UI2 \<Rightarrow> 16
      | DBTYPE_I1 \<Rightarrow> 8 | DBTYPE_UI1 \<Rightarrow> 8
      | DBTYPE_BOOL \<Rightarrow> 1
      | _ \<Rightarrow> 0)"

definition DBTYPE_GetSizeBytes :: "dbtype \<Rightarrow> nat" where
  "DBTYPE_GetSizeBytes t = (DBTYPE_GetSizeBits t + 7) div 8"

text \<open>
  The range checks of \<open>DBTYPE_IsCompatible\<close> stand after an unconditional \<open>return true\<close>;
  only the null dereference of \<open>rep->IsNone()\<close> is left.
\<close>

definition DBTYPE_IsCompatible :: "dbtype \<Rightarrow> pyrep \<Rightarrow> bool result" where
  "DBTYPE_IsCompatible t rep = (if rep = PyNull then Inl Null_deref else Inr True)"

section \<open>Row descriptors\<close>

definition Type1_GetType :: "pyrep \<Rightarrow> bytes result" where
  "Type1_GetType header =
     ebind (assert_that (header \<noteq> PyNull)) (\<lambda>_.
     ebind (AsTuple header) (\<lambda>t. ebind (vec_at t 0) AsToken))"

definition Type1_GetArgs :: "pyrep \<Rightarrow> pyrep list result" where
  "Type1_GetArgs header =
     ebind (assert_that (header \<noteq> PyNull)) (\<lambda>_.
     ebind (AsTuple header) (\<lambda>t. ebind (vec_at t 1) AsTuple))"

definition GetColumnList :: "pyrep \<Rightarrow> pyrep list result" where
  "GetColumnList desc =
     (case desc of
        PyObjectEx ty2 header xs es \<Rightarrow>
          ebind (Type1_GetArgs header) (\<lambda>args. ebind (vec_at args 0) AsTuple)
      | PyNull \<Rightarrow> Inl Null_deref
      | _ \<Rightarrow> Inl Bad_cast)"

definition GetColumn :: "pyrep \<Rightarrow> nat \<Rightarrow> pyrep list result" where
  "GetColumn desc index =
     ebind (GetColumnList desc) (\<lambda>cols. ebind (vec_at cols index) AsTuple)"

definition ColumnCount :: "pyrep \<Rightarrow> nat result" where
  "ColumnCount desc = ebind (GetColumnList desc) (\<lambda>cols. Inr (length cols))"

definition GetColumnName :: "pyrep \<Rightarrow> nat \<Rightarrow> bytes result" where
  "GetColumnName desc index =
     ebind (GetColumn desc index) (\<lambda>col.
     ebind (vec_at col 0) (\<lambda>r.
       case r of PyString s \<Rightarrow> Inr s | PyNull \<Rightarrow> Inl Null_deref | _ \<Rightarrow> Inl Assert_fail))"

definition GetColumnType :: "pyrep \<Rightarrow> nat \<Rightarrow> dbtype result" where
  "GetColumnType desc index =
     ebind (GetColumn desc index) (\<lambda>col.
     ebind (vec_at col 1) (\<lambda>r.
       case r of PyInt i \<Rightarrow> Inr (dbtype_of i) | PyNull \<Rightarrow> Inl Null_deref | _ \<Rightarrow> Inl Assert_fail))"

text \<open>Columns are found by the hash of their name; the count of columns is \<open>not found\<close>.\<close>

primrec find_column :: "env \<Rightarrow> pyrep \<Rightarrow> bytes \<Rightarrow> nat list \<Rightarrow> nat \<Rightarrow> nat result" where
  "find_column env desc name [] cc = Inr cc"
| "find_column env desc name (i # is) cc =
     ebind (GetColumnName desc i) (\<lambda>n.
       if string_hash env (c_str name) = string_hash env n then Inr i
       else find_column env desc name is cc)"

definition FindColumn :: "env \<Rightarrow> pyrep \<Rightarrow> bytes \<Rightarrow> nat result" where
  "FindColumn env desc name =
     ebind (ColumnCount desc) (\<lambda>cc. find_column env desc name [0 ..< cc] cc)"

definition AddColumn :: "pyrep list \<Rightarrow> bytes \<Rightarrow> int32 \<Rightarrow> pyrep list" where
  "AddColumn cols name ty = cols @ [PyTuple [PyString (c_str name), PyInt ty]]"

definition DBRowDescriptor :: "(bytes \<times> int32) list \<Rightarrow> pyrep" where
  "DBRowDescriptor cols =
     PyObjectEx False
       (PyTuple [PyToken (str ''blue.DBRowDescriptor''),
                 PyTuple [PyTuple (fold (\<lambda>(name, ty) cs. AddColumn cs name ty) cols [])]])
       [] []"

text \<open>\<open>SetField\<close> ignores a value the column does not take, and answers \<open>false\<close>.\<close>

definition SetField :: "pyrep \<Rightarrow> pyrep list \<Rightarrow> nat \<Rightarrow> pyrep \<Rightarrow> (bool \<times> pyrep list) result" where
  "SetField desc fs index v =
     ebind (GetColumnType desc index) (\<lambda>t.
     ebind (DBTYPE_IsCompatible t v) (\<lambda>ok.
       if ok then ebind (List_SetItem fs index v) (\<lambda>fs'. Inr (True, fs'))
       else Inr (False, fs)))"

section \<open>Layout of a packed row\<close>

text \<open>
  The columns by descending size, those of one size in their order (\<open>std::multimap\<close>
  with \<open>std::greater\<close>), the bit lengths, and the map from a boolean column to its bit,
  whose keys and values are \<open>uint8\<close>.
\<close>

record layout =
  sizeMap :: "(nat \<times> nat) list"
  booleanColumns :: "(byte \<times> byte) list"
  byteDataBitLength :: nat
  booleansBitLength :: nat
  nullsBitLength :: nat

definition boolean_columns :: "dbtype list \<Rightarrow> (byte \<times> byte) list" where
  "boolean_columns types =
     (let bools = filter (\<lambda>i. types ! i = DBTYPE_BOOL) [0 ..< length types]
      in zip (map word_of_nat bools) (map word_of_nat [0 ..< length bools]))"

definition row_layout :: "dbtype list \<Rightarrow> layout" where
  "row_layout types =
     \<lparr>sizeMap = sort_key (\<lambda>(size, i). 255 - size)
        (map (\<lambda>i. (DBTYPE_GetSizeBits (types ! i), i)) [0 ..< length types]),
      booleanColumns = boolean_columns types,
      byteDataBitLength = sum_list (filter (\<lambda>s. 8 \<le> s) (map DBTYPE_GetSizeBits types)),
      booleansBitLength = length (filter (\<lambda>t. t = DBTYPE_BOOL) types),
      nullsBitLength = length types\<rparr>"

definition get_column_types :: "pyrep \<Rightarrow> dbtype list result" where
  "get_column_types desc =
     ebind (ColumnCount desc) (\<lambda>cc. emap (GetColumnType desc) [0 ..< cc])"

definition bit_data_size :: "layout \<Rightarrow> nat" where
  "bit_data_size l = (booleansBitLength l + nullsBitLength l) div 8 + 1"

definition bool_bit :: "layout \<Rightarrow> nat \<Rightarrow> nat result" where
  "bool_bit l index =
     (case map_of (booleanColumns l) (word_of_nat index) of
        Some b \<Rightarrow> Inr (unat b) | None \<Rightarrow> Inl Null_deref)"

definition set_bit_at :: "bytes \<Rightarrow> nat \<Rightarrow> bytes result" where
  "set_bit_at bits n =
     (if n div 8 < length bits
      then Inr (bits[n div 8 := bits ! (n div 8) OR push_bit (n mod 8) 1])
      else Inl Assert_fail)"

definition get_bit_at :: "bytes \<Rightarrow> nat \<Rightarrow> bool result" where
  "get_bit_at bits n =
     (if n div 8 < length bits then Inr (bit (bits ! (n div 8)) (n mod 8)) else Inl Assert_fail)"

section \<open>Single precision\<close>

definition float_of_dbl :: "64 word \<Rightarrow> 32 word" where
  "float_of_dbl d =
     (let sgn = (if dbl_negative d then push_bit 31 1 else 0) :: 32 word;
          m = dbl_mantissa d; e = dbl_exponent d;
          q = max (e + int (bit_length m) - 24) (- 149);
          s = nat (q - e);
          n = m * 2 ^ nat (e - q) div 2 ^ s; r = m * 2 ^ nat (e - q) mod 2 ^ s;
          up = (0 < s \<and> (2 ^ (s - 1) < r \<or> (r = 2 ^ (s - 1) \<and> odd n)));
          bits = nat (q + 149) * 2 ^ 23 + (if up then n + 1 else n)
      in if dbl_nan d then sgn OR 0x7FC00000 OR word_of_nat (dbl_fraction d div 2 ^ 29)
         else if dbl_infinite d \<or> 255 * 2 ^ 23 \<le> bits then sgn OR 0x7F800000
         else if m = 0 then sgn
         else sgn OR word_of_nat bits)"

definition dbl_of_float :: "32 word \<Rightarrow> 64 word" where
  "dbl_of_float f =
     (let sgn = (if bit f 31 then push_bit 63 1 else 0) :: 64 word;
          field = unat (take_bit 8 (drop_bit 23 f)); frac = unat (take_bit 23 f);
          n = frac + (if field = 0 then 0 else 2 ^ 23); len = bit_length n
      in if field = 255 then
           (if frac = 0 then sgn OR push_bit 52 0x7FF
            else sgn OR push_bit 51 0xFFF OR push_bit 29 (word_of_nat frac))
         else if n = 0 then sgn
         else sgn OR push_bit 52 (word_of_nat (max field 1 + len + 872))
              OR word_of_nat (n * 2 ^ (53 - len) - 2 ^ 52))"

section \<open>Fixed-size fields\<close>

definition long_field :: "pyrep \<Rightarrow> int64 result" where
  "long_field v = (case v of PyNone \<Rightarrow> Inr 0 | PyLong l \<Rightarrow> Inr l | _ \<Rightarrow> Inl Assert_fail)"

definition int_field :: "pyrep \<Rightarrow> int32 result" where
  "int_field v = (case v of PyNone \<Rightarrow> Inr 0 | PyInt i \<Rightarrow> Inr i | _ \<Rightarrow> Inl Assert_fail)"

definition real_field :: "pyrep \<Rightarrow> 64 word result" where
  "real_field v = (case v of PyNone \<Rightarrow> Inr 0 | PyFloat d \<Rightarrow> Inr d | _ \<Rightarrow> Inl Assert_fail)"

definition field_data :: "dbtype \<Rightarrow> pyrep \<Rightarrow> bytes result" where
  "field_data t v =
     (if v = PyNull then Inl Null_deref else
      if t \<in> {DBTYPE_CY, DBTYPE_I8, DBTYPE_UI8, DBTYPE_FILETIME} then
        ebind (long_field v) (\<lambda>l. Inr (le_bytes 8 l))
      else if t \<in> {DBTYPE_I4, DBTYPE_UI4} then ebind (int_field v) (\<lambda>i. Inr (le_bytes 4 i))
      else if t \<in> {DBTYPE_I2, DBTYPE_UI2} then ebind (int_field v) (\<lambda>i. Inr (le_bytes 2 i))
      else if t \<in> {DBTYPE_I1, DBTYPE_UI1} then ebind (int_field v) (\<lambda>i. Inr (le_bytes 1 i))
      else if t = DBTYPE_R8 then ebind (real_field v) (\<lambda>d. Inr (le_bytes 8 d))
      else if t = DBTYPE_R4 then ebind (real_field v) (\<lambda>d. Inr (le_bytes 4 (float_of_dbl d)))
      else Inl Assert_fail)"

text \<open>The first loop of \<open>VisitPackedRow\<close>: the fields of at least a byte, and their null bits.\<close>

primrec pack_fields ::
    "dbtype list \<Rightarrow> pyrep list \<Rightarrow> layout \<Rightarrow> (nat \<times> nat) list \<Rightarrow> bytes \<Rightarrow> bytes \<Rightarrow>
     (bytes \<times> bytes) result" where
  "pack_fields types fs l [] rowData bitData = Inr (rowData, bitData)"
| "pack_fields types fs l (c # cs) rowData bitData =
     ebind (vec_at fs (snd c)) (\<lambda>v.
     ebind (if v = PyNone then set_bit_at bitData (snd c + booleansBitLength l)
            else Inr bitData) (\<lambda>bits.
     ebind (field_data (types ! snd c) v) (\<lambda>bs.
       pack_fields types fs l cs (rowData @ bs) bits)))"

primrec pack_bools ::
    "pyrep list \<Rightarrow> layout \<Rightarrow> (nat \<times> nat) list \<Rightarrow> bytes \<Rightarrow> bytes result" where
  "pack_bools fs l [] bitData = Inr bitData"
| "pack_bools fs l (c # cs) bitData =
     ebind (vec_at fs (snd c)) (\<lambda>v.
     ebind (case v of PyBool b \<Rightarrow> Inr b | PyNull \<Rightarrow> Inl Null_deref | _ \<Rightarrow> Inl Assert_fail) (\<lambda>b.
     ebind (if b then ebind (bool_bit l (snd c)) (set_bit_at bitData) else Inr bitData) (\<lambda>bits.
       pack_bools fs l cs bits)))"

definition pack_row :: "dbtype list \<Rightarrow> pyrep list \<Rightarrow> bytes result" where
  "pack_row types fs =
     (let l = row_layout types
      in ebind (pack_fields types fs l (filter (\<lambda>c. 1 < fst c) (sizeMap l)) []
                  (replicate (bit_data_size l) 0)) (\<lambda>(rowData, bits0).
         ebind (pack_bools fs l (filter (\<lambda>c. fst c = 1) (sizeMap l)) bits0) (\<lambda>bits.
           Inr (rowData @ bits))))"

end
