(* ===== verification/ZeroRLE.thy ===== *)
theory ZeroRLE
  imports Buffers
begin

text \<open>
  The zero compression of packed rows: \<open>MarshalStream::SaveRLE\<close> and
  \<open>UnmarshalStream::LoadRLE\<close>. A control byte describes two runs of at most eight bytes,
  its low half first: a value \<open>c\<close> below 8 is followed by \<open>8 - c\<close> literal bytes, a value
  from 8 stands for \<open>c - 7\<close> zeros. Control bytes of zeros only are cut off at the end, since
  the reader fills a zeroed buffer. The last sections prove that compression never writes
  out of its buffer and that decompression inverts it.
\<close>

section \<open>Compression\<close>

text \<open>
  \<open>out\<close> holds the bytes \<open>0 ..< out_ix\<close> written so far, \<open>rest\<close> the input from
  \<open>in_ix\<close> on; every write asserts that it is inside the reserved \<open>cap\<close> bytes.
\<close>

definition set_nibble :: "bytes \<Rightarrow> bool \<Rightarrow> nat \<Rightarrow> nat \<Rightarrow> bytes" where
  "set_nibble out nibble nibble_ix count =
     (if nibble then out[nibble_ix := out ! nibble_ix OR push_bit 4 (word_of_nat count)]
      else out[nibble_ix := word_of_nat count])"

function save_loop ::
    "nat \<Rightarrow> bytes \<Rightarrow> bytes \<Rightarrow> bool \<Rightarrow> nat \<Rightarrow> nat \<Rightarrow> (bytes \<times> bool \<times> nat) result" where
  "save_loop cap rest out nibble nibble_ix zerochains =
     (if rest = [] then Inr (out, nibble, zerochains) else
      let ix = (if nibble then nibble_ix else length out);
          out1 = (if nibble then out else out @ [0])
      in ebind (assert_that (length out1 \<le> cap)) (\<lambda>_.
         if hd rest \<noteq> 0 then
           let lit = takeWhile (\<lambda>b. b \<noteq> 0) (take 8 rest)
           in ebind (assert_that (length out1 + length lit \<le> cap)) (\<lambda>_.
              save_loop cap (drop (length lit) rest)
                (set_nibble (out1 @ lit) nibble ix (8 - length lit)) (\<not> nibble) ix 0)
         else
           let len = length (takeWhile (\<lambda>b. b = 0) (take 8 rest))
           in save_loop cap (drop len rest)
                (set_nibble out1 nibble ix (len + 7)) (\<not> nibble) ix (Suc zerochains)))"
  by pat_completeness auto

lemma takeWhile_window_Nil [simp]:
  "rest \<noteq> [] \<Longrightarrow> takeWhile P (take 8 rest) = [] \<longleftrightarrow> \<not> P (hd rest)"
  by (cases rest) auto

termination save_loop
  by (relation "measure (\<lambda>(cap, rest, out, nibble, ix, zc). length rest)") auto

fun trim_chains :: "nat \<Rightarrow> nat \<Rightarrow> nat" where
  "trim_chains zerochains out_ix =
     (if 1 < zerochains then trim_chains (zerochains - 2) (out_ix - 1) else out_ix)"

definition SaveRLE :: "bytes \<Rightarrow> bytes result" where
  "SaveRLE inp =
     ebind (save_loop (length inp * 2) inp [] False 0 0) (\<lambda>(out, nibble, zerochains).
       let zc = (if nibble \<and> zerochains \<noteq> 0 then zerochains + 1 else zerochains)
       in Inr (take (trim_chains zc (length out)) out))"

section \<open>Decompression\<close>

text \<open>
  \<open>src\<close> is the input still unread. The output keeps its size; a run that does not fit
  is the error return, and a literal run stops with the input.
\<close>

function load_loop :: "bytes \<Rightarrow> bytes \<Rightarrow> nat \<Rightarrow> bool \<Rightarrow> byte \<Rightarrow> bytes result" where
  "load_loop src out out_ix nibble run =
     (if src = [] then Inr out else
      let nibble' = (\<not> nibble);
          run' = (if nibble' then hd src else run);
          src' = (if nibble' then tl src else src);
          count = int (unat (if nibble' then run' AND 0x0F else drop_bit 4 run')) - 8
      in if 0 \<le> count then
           (if int (length out) < int out_ix + count + 1 then Inl Ret_null
            else load_loop src' (write_at out out_ix (replicate (nat (count + 1)) 0))
                   (out_ix + nat (count + 1)) nibble' run')
         else
           (if int (length out) < int out_ix - count then Inl Ret_null
            else let n = min (nat (- count)) (length src')
                 in load_loop (drop n src') (write_at out out_ix (take n src')) (out_ix + n)
                      nibble' run'))"
  by pat_completeness auto

termination load_loop
  by (relation "measure (\<lambda>(src, out, ix, nibble, run). 2 * length src + (if nibble then 1 else 0))")
    (auto simp: Let_def neq_Nil_conv)

definition LoadRLE :: "bytes \<Rightarrow> bytes \<Rightarrow> bytes result" where
  "LoadRLE src out = load_loop src out 0 False 0"

declare save_loop.simps [simp del] trim_chains.simps [simp del] load_loop.simps [simp del]

section \<open>Runs\<close>

datatype run = Lit bytes | Zeros nat

fun run_bytes :: "run \<Rightarrow> bytes" where
  "run_bytes (Lit bs) = bs"
| "run_bytes (Zeros n) = replicate n 0"

fun run_data :: "run \<Rightarrow> bytes" where
  "run_data (Lit bs) = bs"
| "run_data (Zeros n) = []"

fun run_nibble :: "run \<Rightarrow> nat" where
  "run_nibble (Lit bs) = 8 - length bs"
| "run_nibble (Zeros n) = n + 7"

fun run_ok :: "run \<Rightarrow> bool" where
  "run_ok (Lit bs) \<longleftrightarrow> 0 < length bs \<and> length bs \<le> 8"
| "run_ok (Zeros n) \<longleftrightarrow> 0 < n \<and> n \<le> 8"

fun is_zeros :: "run \<Rightarrow> bool" where
  "is_zeros (Lit bs) = False"
| "is_zeros (Zeros n) = True"

function runs :: "bytes \<Rightarrow> run list" where
  "runs rest =
     (if rest = [] then []
      else if hd rest \<noteq> 0 then
        Lit (takeWhile (\<lambda>b. b \<noteq> 0) (take 8 rest))
        # runs (drop (length (takeWhile (\<lambda>b. b \<noteq> 0) (take 8 rest))) rest)
      else
        Zeros (length (takeWhile (\<lambda>b. b = 0) (take 8 rest)))
        # runs (drop (length (takeWhile (\<lambda>b. b = 0) (take 8 rest))) rest))"
  by pat_completeness auto

termination runs
  by (relation "measure length") auto

declare runs.simps [simp del]

text \<open>Two runs share a control byte.\<close>

definition control :: "nat \<Rightarrow> nat \<Rightarrow> byte" where
  "control lo hi = word_of_nat lo OR push_bit 4 (word_of_nat hi)"

fun pack :: "run list \<Rightarrow> bytes" where
  "pack [] = []"
| "pack [r] = control (run_nibble r) 0 # run_data r"
| "pack (r # s # rs) = control (run_nibble r) (run_nibble s) # run_data r @ run_data s @ pack rs"

text \<open>The control bytes at the end that stand for zeros only.\<close>

fun zero_tail :: "run list \<Rightarrow> nat" where
  "zero_tail [] = 0"
| "zero_tail [r] = (if is_zeros r then 1 else 0)"
| "zero_tail (r # s # rs) =
     (if list_all is_zeros (r # s # rs) then Suc (zero_tail rs) else zero_tail rs)"

lemma runs_ok: "list_all run_ok (runs rest)"
proof (induction rest rule: runs.induct)
  case (1 rest)
  have len: "length (takeWhile P (take 8 rest)) \<le> 8" for P
    using length_takeWhile_le [of P "take 8 rest"] by simp
  show ?case
    using 1 len by (subst runs.simps) auto
qed

lemma takeWhile_zero: "takeWhile (\<lambda>b. b = x) bs = replicate (length (takeWhile (\<lambda>b. b = x) bs)) x"
  by (induction bs) auto

lemma takeWhile_window_append:
  "takeWhile P (take n bs) @ drop (length (takeWhile P (take n bs))) bs = bs"
proof -
  have "length (takeWhile P (take n bs)) \<le> length (take n bs)" by (rule length_takeWhile_le)
  then have "takeWhile P (take n bs) = take (length (takeWhile P (take n bs))) bs"
    by (metis length_take min.bounded_iff takeWhile_eq_take take_take min.absorb1)
  then show ?thesis by (metis append_take_drop_id)
qed

lemma runs_bytes: "concat (map run_bytes (runs rest)) = rest"
proof (induction rest rule: runs.induct)
  case (1 rest)
  show ?case
  proof (cases "rest = []")
    case False
    show ?thesis
      using 1 False takeWhile_window_append [of _ 8 rest]
      by (subst runs.simps) (auto simp flip: takeWhile_zero)
  qed (simp add: runs.simps)
qed

section \<open>The compressor packs the runs of its input\<close>

definition zstep :: "run \<Rightarrow> nat \<Rightarrow> nat" where
  "zstep r z = (if is_zeros r then Suc z else 0)"

definition pack_from :: "bool \<Rightarrow> nat \<Rightarrow> bytes \<Rightarrow> run list \<Rightarrow> bytes" where
  "pack_from nibble ix out rs =
     (if nibble then
        (case rs of [] \<Rightarrow> out
         | r # rs' \<Rightarrow> set_nibble (out @ run_data r) True ix (run_nibble r) @ pack rs')
      else out @ pack rs)"

lemma pack_from_False_Cons:
  "pack_from False ix out (r # rs) =
     pack_from True (length out)
       (set_nibble (out @ 0 # run_data r) False (length out) (run_nibble r)) rs"
  by (cases rs) (simp_all add: pack_from_def set_nibble_def control_def nth_append)

lemma pack_from_True_Cons:
  "pack_from True ix out (r # rs) =
     pack_from False ix (set_nibble (out @ run_data r) True ix (run_nibble r)) rs"
  by (simp add: pack_from_def)

lemma length_set_nibble [simp]: "length (set_nibble out nibble ix n) = length out"
  by (simp add: set_nibble_def)

lemma save_loop_runs:
  "length out + 2 * length rest \<le> cap \<Longrightarrow> (nibble \<Longrightarrow> ix < length out) \<Longrightarrow>
   save_loop cap rest out nibble ix zc =
     Inr (pack_from nibble ix out (runs rest), nibble \<noteq> odd (length (runs rest)),
          fold zstep (runs rest) zc)"
proof (induction cap rest out nibble ix zc rule: save_loop.induct)
  case (1 cap rest out nibble ix zc)
  show ?case
  proof (cases "rest = []")
    case True
    then show ?thesis
      by (subst save_loop.simps) (simp add: runs.simps pack_from_def)
  next
    case False
    define ix' out1 where "ix' = (if nibble then ix else length out)"
      and "out1 = (if nibble then out else out @ [0])"
    have rest: "0 < length rest" using False by simp
    have "Suc (length out) \<le> cap" using 1(3) rest by linarith
    then have cap1: "length out1 \<le> cap" by (simp add: out1_def)
    have ix': "ix' < length out1" using 1(4) by (simp add: ix'_def out1_def)
    show ?thesis
    proof (cases "hd rest = 0")
      case True
      define len where "len = length (takeWhile (\<lambda>b. b = 0) (take 8 rest))"
      have len: "0 < len" "len \<le> length rest"
        using True False length_takeWhile_le [of "\<lambda>b. b = 0" "take 8 rest"]
        by (auto simp: len_def)
      have rs: "runs rest = Zeros len # runs (drop len rest)"
        using False True by (subst runs.simps) (simp add: len_def)
      have bnd: "length out1 + 2 * (length rest - len) \<le> cap" using 1(3) len by (auto simp: out1_def)
      define out2 where "out2 = set_nibble out1 nibble ix' (len + 7)"
      have "save_loop cap rest out nibble ix zc = save_loop cap (drop len rest) out2 (\<not> nibble) ix' (Suc zc)"
        using False True cap1
        by (subst save_loop.simps) (simp add: ix'_def [symmetric] out1_def [symmetric] len_def [symmetric] out2_def)
      also have "\<dots> = Inr (pack_from (\<not> nibble) ix' out2 (runs (drop len rest)),
          (\<not> nibble) \<noteq> odd (length (runs (drop len rest))), fold zstep (runs (drop len rest)) (Suc zc))"
        unfolding len_def out2_def
        by (rule 1(2)) (use False True cap1 bnd ix' in \<open>simp_all add: ix'_def out1_def len_def\<close>)
      also have "pack_from (\<not> nibble) ix' out2 (runs (drop len rest)) = pack_from nibble ix out (runs rest)"
        using False True
        by (cases nibble) (simp_all add: rs out2_def out1_def ix'_def pack_from_False_Cons pack_from_True_Cons)
      finally show ?thesis
        by (simp add: rs) (simp add: zstep_def)
    next
      case nz: False
      define lit where "lit = takeWhile (\<lambda>b. b \<noteq> 0) (take 8 rest)"
      have "lit \<noteq> []" using nz False by (simp add: lit_def)
      then have len: "0 < length lit" "length lit \<le> length rest"
        using length_takeWhile_le [of "\<lambda>b. b \<noteq> 0" "take 8 rest"] by (auto simp: lit_def)
      have rs: "runs rest = Lit lit # runs (drop (length lit) rest)"
        using False nz by (subst runs.simps) (simp add: lit_def)
      have bnd: "length out1 + length lit + 2 * (length rest - length lit) \<le> cap"
      proof -
        have "length out1 \<le> Suc (length out)" by (simp add: out1_def)
        then show ?thesis using 1(3) len by arith
      qed
      define out2 where "out2 = set_nibble (out1 @ lit) nibble ix' (8 - length lit)"
      have cap2: "length out1 + length lit \<le> cap" using bnd by linarith
      have "save_loop cap rest out nibble ix zc =
          save_loop cap (drop (length lit) rest) out2 (\<not> nibble) ix' 0"
        using False nz cap1 cap2
        by (subst save_loop.simps) (simp add: ix'_def [symmetric] out1_def [symmetric] lit_def [symmetric] out2_def)
      also have "\<dots> = Inr (pack_from (\<not> nibble) ix' out2 (runs (drop (length lit) rest)),
          (\<not> nibble) \<noteq> odd (length (runs (drop (length lit) rest))), fold zstep (runs (drop (length lit) rest)) 0)"
        unfolding lit_def out2_def
        by (rule 1(1)) (use False nz cap1 cap2 bnd ix' in \<open>simp_all add: ix'_def out1_def lit_def\<close>)
      also have "pack_from (\<not> nibble) ix' out2 (runs (drop (length lit) rest)) = pack_from nibble ix out (runs rest)"
        using False nz
        by (cases nibble) (simp_all add: rs out2_def out1_def ix'_def pack_from_False_Cons pack_from_True_Cons)
      finally show ?thesis
        by (simp add: rs) (simp add: zstep_def)
    qed
  qed
qed

lemma fold_zstep:
  "fold zstep rs z = (if list_all is_zeros rs then z + length rs else fold zstep rs 0)"
proof (induction rs arbitrary: z)
  case (Cons r rs)
  show ?case
    by (simp add: Cons [of "zstep r z"] Cons [of "zstep r 0"]) (simp add: zstep_def)
qed simp

lemma trim_chains_eq: "trim_chains zc n = n - zc div 2"
proof (induction zc n rule: trim_chains.induct)
  case (1 zc n)
  show ?case
  proof (cases "1 < zc")
    case True
    then have "zc div 2 = Suc ((zc - 2) div 2)" by (simp add: le_div_geq)
    then show ?thesis using 1 True by (subst trim_chains.simps) simp
  qed (subst trim_chains.simps, simp)
qed

lemma zero_tail_chains:
  "(if odd (length rs) \<and> fold zstep rs 0 \<noteq> 0 then fold zstep rs 0 + 1 else fold zstep rs 0) div 2
     = zero_tail rs"
proof (induction rs rule: zero_tail.induct)
  case (3 r s rs)
  have z: "fold zstep (r # s # rs) 0 =
      (if list_all is_zeros rs then zstep s (zstep r 0) + length rs else fold zstep rs 0)"
    by (simp add: fold_zstep [of rs "zstep s (zstep r 0)"])
  have IH: "(if odd (length rs) \<and> fold zstep rs 0 \<noteq> 0 then fold zstep rs 0 + 1 else fold zstep rs 0) div 2
      = zero_tail rs"
    using 3 by blast
  show ?case
  proof (cases "list_all is_zeros rs")
    case True
    have "fold zstep rs 0 = length rs" using True by (simp add: fold_zstep [of rs 0])
    moreover have "odd (length rs) \<Longrightarrow> length rs \<noteq> 0" by auto
    ultimately have "(if odd (length rs) then length rs + 1 else length rs) div 2 = zero_tail rs"
      using IH by presburger
    then show ?thesis
      using True unfolding z by (auto simp: zstep_def)
  next
    case False
    then have "fold zstep (r # s # rs) 0 = fold zstep rs 0" "zero_tail (r # s # rs) = zero_tail rs"
      unfolding z by simp_all
    moreover have "odd (length (r # s # rs)) = odd (length rs)" by simp
    ultimately show ?thesis using IH by (simp only:)
  qed
qed (simp_all add: zstep_def)

lemma SaveRLE_pack:
  "SaveRLE inp = Inr (take (length (pack (runs inp)) - zero_tail (runs inp)) (pack (runs inp)))"
proof -
  have "save_loop (length inp * 2) inp [] False 0 0 =
      Inr (pack (runs inp), odd (length (runs inp)), fold zstep (runs inp) 0)"
    by (simp add: save_loop_runs pack_from_def)
  then show ?thesis
    unfolding SaveRLE_def by (simp only: ebind_simps prod.case Let_def trim_chains_eq zero_tail_chains)
qed

section \<open>Decompression inverts it\<close>

lemma write_at_Nil [simp]: "write_at mem i [] = mem"
  by (simp add: write_at_def)

lemma write_at_write_at:
  "i + length xs \<le> length mem \<Longrightarrow>
   write_at (write_at mem i xs) (i + length xs) ys = write_at mem i (xs @ ys)"
  by (simp add: write_at_def add.commute add.left_commute)

lemma drop_write_at:
  "i + length xs \<le> length mem \<Longrightarrow> drop (i + length xs) (write_at mem i xs) = drop (i + length xs) mem"
  by (simp add: write_at_def)

lemma write_at_zeros:
  assumes "i + n \<le> length mem" "drop i mem = replicate (length mem - i) 0"
  shows "write_at mem i (replicate n 0) = mem"
proof -
  have "drop (i + n) mem = replicate (length mem - i - n) 0"
    using assms(2) by (metis drop_drop drop_replicate add.commute)
  then have "replicate n 0 @ drop (i + n) mem = drop i mem"
    using assms by (simp flip: replicate_add)
  then show ?thesis by (simp add: write_at_def)
qed

lemma zeros_after_write:
  assumes "ix + length xs \<le> length out" "drop ix out = replicate (length out - ix) 0"
  shows "drop (ix + length xs) (write_at out ix xs) = replicate (length (write_at out ix xs) - (ix + length xs)) 0"
proof -
  have "drop (ix + length xs) out = replicate (length out - (ix + length xs)) 0"
    using assms(2) by (metis drop_drop drop_replicate add.commute diff_diff_left)
  then show ?thesis using assms(1) by (simp add: drop_write_at length_write_at)
qed

lemma control_nibbles:
  assumes "lo < 16" "hi < 16"
  shows "uint (control lo hi AND 0x0F) = int lo" "uint (drop_bit 4 (control lo hi)) = int hi"
proof -
  have lo: "\<not> bit lo i" if "4 \<le> i" for i
  proof -
    have "(2 :: nat) ^ 4 \<le> 2 ^ i" using that by (rule power_increasing) simp
    then have "lo < 2 ^ i" using assms(1) by simp
    then show ?thesis by (simp add: bit_iff_odd)
  qed
  have hi: "\<not> bit hi i" if "4 \<le> i" for i
  proof -
    have "(2 :: nat) ^ 4 \<le> 2 ^ i" using that by (rule power_increasing) simp
    then have "hi < 2 ^ i" using assms(2) by simp
    then show ?thesis by (simp add: bit_iff_odd)
  qed
  have mask: "(0x0F :: byte) = mask 4" by (simp add: mask_eq_exp_minus_1)
  have "control lo hi AND 0x0F = word_of_nat lo"
  proof (rule bit_word_eqI)
    fix i assume "i < LENGTH(8)"
    then show "bit (control lo hi AND 0x0F) i = bit (word_of_nat lo :: byte) i"
      using lo [of i] unfolding control_def mask
      by (cases "4 \<le> i") (auto simp: bit_and_iff bit_or_iff bit_push_bit_iff bit_mask_iff bit_of_nat_iff)
  qed
  then show "uint (control lo hi AND 0x0F) = int lo"
    using assms by (simp add: unsigned_of_nat take_bit_nat_eq_self)
  have "drop_bit 4 (control lo hi) = word_of_nat hi"
  proof (rule bit_word_eqI)
    fix i assume "i < LENGTH(8)"
    then show "bit (drop_bit 4 (control lo hi)) i = bit (word_of_nat hi :: byte) i"
      using lo [of "4 + i"] hi [of i] unfolding control_def
      by (cases "4 \<le> i") (auto simp: bit_drop_bit_eq bit_or_iff bit_push_bit_iff bit_of_nat_iff)
  qed
  then show "uint (drop_bit 4 (control lo hi)) = int hi"
    using assms by (simp add: unsigned_of_nat take_bit_nat_eq_self)
qed

lemma load_loop_Nil: "load_loop [] out ix nibble run = Inr out"
  by (subst load_loop.simps) simp

lemma lo_step:
  assumes r: "run_ok r" and fit: "ix + length (run_bytes r) \<le> length out" and hi: "hi < 16"
  defines "c \<equiv> control (run_nibble r) hi"
  shows "load_loop (c # run_data r @ src) out ix False run =
    load_loop src (write_at out ix (run_bytes r)) (ix + length (run_bytes r)) True c"
proof (cases r)
  case (Lit bs)
  then have "uint (c AND 0x0F) = 8 - int (length bs)"
    using r hi control_nibbles(1) [of "8 - length bs" hi] by (simp add: c_def of_nat_diff)
  then show ?thesis
    using Lit r fit by (subst load_loop.simps) (simp add: Let_def of_nat_diff)
next
  case (Zeros n)
  then have "uint (c AND 0x0F) = int n + 7"
    using r hi control_nibbles(1) [of "n + 7" hi] by (simp add: c_def of_nat_diff)
  moreover have "nat (int n) = n" by simp
  ultimately show ?thesis
    using Zeros r fit by (subst load_loop.simps) (simp add: Let_def del: nat_int)
qed

lemma hi_step:
  assumes r: "run_ok r" and fit: "ix + length (run_bytes r) \<le> length out"
    and zero: "drop ix out = replicate (length out - ix) 0" and lo: "lo < 16"
  defines "c \<equiv> control lo (run_nibble r)"
  shows "load_loop (run_data r @ src) out ix True c =
    load_loop src (write_at out ix (run_bytes r)) (ix + length (run_bytes r)) False c"
proof (cases r)
  case (Lit bs)
  then have "uint (drop_bit 4 c) = 8 - int (length bs)"
    using r lo control_nibbles(2) [of lo "8 - length bs"] by (simp add: c_def of_nat_diff)
  then show ?thesis
    using Lit r fit by (subst load_loop.simps) (simp add: Let_def of_nat_diff)
next
  case (Zeros n)
  then have c: "uint (drop_bit 4 c) = int n + 7"
    using r lo control_nibbles(2) [of lo "n + 7"] by (simp add: c_def of_nat_diff)
  show ?thesis
  proof (cases "src = []")
    case True
    then show ?thesis
      using Zeros fit zero by (simp add: load_loop_Nil write_at_zeros)
  next
    case False
    then show ?thesis
      using Zeros r fit c by (subst load_loop.simps) (simp add: Let_def)
  qed
qed

lemma run_nibble_less: "run_ok r \<Longrightarrow> run_nibble r < 16"
  by (cases r) auto

lemma zeros_bytes:
  "list_all is_zeros rs \<Longrightarrow> \<exists>n. concat (map run_bytes rs) = replicate n 0"
proof (induction rs)
  case (Cons r rs)
  then obtain n where "concat (map run_bytes rs) = replicate n 0" by auto
  moreover obtain m where "r = Zeros m" using Cons by (cases r) auto
  ultimately show ?case by (intro exI [of _ "m + n"]) (simp add: replicate_add)
qed (rule exI [of _ 0], simp)

lemma zeros_pack: "list_all is_zeros rs \<Longrightarrow> length (pack rs) = zero_tail rs"
proof (induction rs rule: pack.induct)
  case (2 r)
  then show ?case by (cases r) auto
next
  case (3 r s rs)
  then show ?case by (cases r; cases s) auto
qed simp

lemma zero_tail_le: "zero_tail rs \<le> length (pack rs)"
  by (induction rs rule: pack.induct) auto

lemma load_pack:
  "list_all run_ok rs \<Longrightarrow> t \<le> zero_tail rs \<Longrightarrow>
   ix + length (concat (map run_bytes rs)) \<le> length out \<Longrightarrow>
   drop ix out = replicate (length out - ix) 0 \<Longrightarrow>
   load_loop (take (length (pack rs) - t) (pack rs)) out ix False run =
     Inr (write_at out ix (concat (map run_bytes rs)))"
proof (induction rs arbitrary: ix out run rule: pack.induct)
  case 1
  then show ?case by (simp add: load_loop_Nil)
next
  case (2 r)
  show ?case
  proof (cases "t = 0")
    case True
    have "load_loop (control (run_nibble r) 0 # run_data r @ []) out ix False run =
        load_loop [] (write_at out ix (run_bytes r)) (ix + length (run_bytes r)) True (control (run_nibble r) 0)"
      using 2 by (intro lo_step) simp_all
    then show ?thesis using True by (simp add: load_loop_Nil)
  next
    case False
    then obtain n where "r = Zeros n" using 2 by (cases r) auto
    then show ?thesis using False 2 by (simp add: load_loop_Nil write_at_zeros)
  qed
next
  case (3 r s rs)
  let ?c = "control (run_nibble r) (run_nibble s)"
  show ?case
  proof (cases "t \<le> zero_tail rs")
    case True
    let ?src = "take (length (pack rs) - t) (pack rs)"
    have t: "t \<le> length (pack rs)" using True zero_tail_le [of rs] by linarith
    have ok: "run_ok r" "run_ok s" "list_all run_ok rs" using 3 by simp_all
    define out1 out2 where "out1 = write_at out ix (run_bytes r)"
      and "out2 = write_at out1 (ix + length (run_bytes r)) (run_bytes s)"
    have fit: "ix + length (run_bytes r) \<le> length out" using 3 by simp
    have len1: "length out1 = length out" using fit by (simp add: out1_def length_write_at)
    have fit1: "ix + length (run_bytes r) + length (run_bytes s) \<le> length out1"
      using 3 by (simp add: len1)
    have len2: "length out2 = length out" using fit1 len1 by (simp add: out2_def length_write_at)
    have zero1: "drop (ix + length (run_bytes r)) out1 = replicate (length out1 - (ix + length (run_bytes r))) 0"
      unfolding out1_def using fit 3(5) by (rule zeros_after_write)
    have zero2: "drop (ix + length (run_bytes r) + length (run_bytes s)) out2 =
        replicate (length out2 - (ix + length (run_bytes r) + length (run_bytes s))) 0"
      unfolding out2_def using fit1 zero1 by (rule zeros_after_write)
    have "load_loop (?c # run_data r @ run_data s @ ?src) out ix False run =
        load_loop (run_data s @ ?src) out1 (ix + length (run_bytes r)) True ?c"
      unfolding out1_def using ok fit run_nibble_less by (intro lo_step) simp_all
    also have "\<dots> = load_loop ?src out2 (ix + length (run_bytes r) + length (run_bytes s)) False ?c"
      unfolding out2_def using ok fit1 zero1 run_nibble_less by (intro hi_step) simp_all
    also have "\<dots> = Inr (write_at out2 (ix + length (run_bytes r) + length (run_bytes s))
        (concat (map run_bytes rs)))"
      using ok True zero2 3(4) len2 by (intro 3(1)) simp_all
    also have "write_at out2 (ix + length (run_bytes r) + length (run_bytes s)) (concat (map run_bytes rs)) =
        write_at out ix (concat (map run_bytes (r # s # rs)))"
      unfolding out2_def using fit1 3(4) len1
      by (subst write_at_write_at) (simp_all add: out1_def write_at_write_at)
    finally show ?thesis
      using t by (simp add: Suc_diff_le add.assoc [symmetric])
  next
    case False
    then have all: "list_all is_zeros (r # s # rs)" and t: "t = zero_tail (r # s # rs)"
      using 3(3) by (auto split: if_splits)
    obtain n where n: "concat (map run_bytes (r # s # rs)) = replicate n 0"
      using zeros_bytes [OF all] by blast
    have "take (length (pack (r # s # rs)) - t) (pack (r # s # rs)) = []"
      using zeros_pack [OF all] t by simp
    moreover have "write_at out ix (concat (map run_bytes (r # s # rs))) = out"
      unfolding n using 3(4,5) n by (intro write_at_zeros) (metis length_replicate)+
    ultimately show ?thesis by (simp only: load_loop_Nil)
  qed
qed

lemma LoadRLE_SaveRLE:
  assumes "length inp \<le> n"
  shows "\<exists>packed. SaveRLE inp = Inr packed \<and>
    LoadRLE packed (replicate n 0) = Inr (inp @ replicate (n - length inp) 0)"
proof -
  have "load_loop (take (length (pack (runs inp)) - zero_tail (runs inp)) (pack (runs inp)))
      (replicate n 0) 0 False 0 = Inr (write_at (replicate n 0) 0 (concat (map run_bytes (runs inp))))"
    using assms by (intro load_pack) (simp_all add: runs_ok runs_bytes)
  then show ?thesis
    by (simp add: SaveRLE_pack LoadRLE_def runs_bytes write_at_def)
qed

lemma length_pack: "list_all run_ok rs \<Longrightarrow> length (pack rs) \<le> 2 * length (concat (map run_bytes rs))"
proof (induction rs rule: pack.induct)
  case (2 r)
  then show ?case by (cases r) (auto simp: Suc_le_eq)
next
  case (3 r s rs)
  then show ?case by (cases r; cases s) (auto simp: Suc_le_eq neq_Nil_conv)
qed simp

lemma length_SaveRLE: "SaveRLE inp = Inr packed \<Longrightarrow> length packed \<le> 2 * length inp"
  using length_pack [OF runs_ok [of inp]] by (auto simp: SaveRLE_pack runs_bytes)

section \<open>Main results\<close>

text \<open>C33. Zero compression loses nothing: what \<open>LoadRLE\<close> reads into a zeroed buffer of at least
  the size of the original is the original, followed by the zeros that were there. Neither
  direction fires an assertion on the way.\<close>

theorem rle_round_trip:
  "ebind (SaveRLE inp) (\<lambda>rle. LoadRLE rle (replicate (length inp + k) 0)) = Inr (inp @ replicate k 0)"
proof -
  obtain rle where "SaveRLE inp = Inr rle"
      "LoadRLE rle (replicate (length inp + k) 0) = Inr (inp @ replicate (length inp + k - length inp) 0)"
    using LoadRLE_SaveRLE [of inp "length inp + k"] by auto
  then show ?thesis by simp
qed

text \<open>C7. The compressor stays inside the buffer it reserves, which has twice the size of the input.\<close>

theorem rle_bound: "\<exists>rle. SaveRLE inp = Inr rle \<and> length rle \<le> 2 * length inp"
  using length_SaveRLE [of inp] by (simp add: SaveRLE_pack)

end
