(* ===== verification/Marshal.thy ===== *)
theory Marshal
  imports PyRep StringTable DBRow ZeroRLE
begin

text \<open>
  The writer of the wire format, \<open>eve-common/marshal/EVEMarshal.cpp\<close>, with the traversal
  of \<open>PyVisitor.cpp\<close> it inherits. A visit appends bytes to the stream and answers whether
  it succeeded: it is the pair of the answer and the bytes it appends, kept also when the
  answer is \<open>false\<close>, or the fault that ends the server. \<open>depth\<close> is \<open>m_depth\<close>, which the
  inherited visits of tuples, lists, objects and substructures increase.
\<close>

section \<open>Opcodes\<close>

abbreviation Op_PyNone :: byte where "Op_PyNone \<equiv> 0x01"
abbreviation Op_PyToken :: byte where "Op_PyToken \<equiv> 0x02"
abbreviation Op_PyLongLong :: byte where "Op_PyLongLong \<equiv> 0x03"
abbreviation Op_PyLong :: byte where "Op_PyLong \<equiv> 0x04"
abbreviation Op_PySignedShort :: byte where "Op_PySignedShort \<equiv> 0x05"
abbreviation Op_PyByte :: byte where "Op_PyByte \<equiv> 0x06"
abbreviation Op_PyMinusOne :: byte where "Op_PyMinusOne \<equiv> 0x07"
abbreviation Op_PyZeroInteger :: byte where "Op_PyZeroInteger \<equiv> 0x08"
abbreviation Op_PyOneInteger :: byte where "Op_PyOneInteger \<equiv> 0x09"
abbreviation Op_PyReal :: byte where "Op_PyReal \<equiv> 0x0A"
abbreviation Op_PyZeroReal :: byte where "Op_PyZeroReal \<equiv> 0x0B"
abbreviation Op_PyBuffer :: byte where "Op_PyBuffer \<equiv> 0x0D"
abbreviation Op_PyEmptyString :: byte where "Op_PyEmptyString \<equiv> 0x0E"
abbreviation Op_PyCharString :: byte where "Op_PyCharString \<equiv> 0x0F"
abbreviation Op_PyShortString :: byte where "Op_PyShortString \<equiv> 0x10"
abbreviation Op_PyStringTableItem :: byte where "Op_PyStringTableItem \<equiv> 0x11"
abbreviation Op_PyWStringUCS2 :: byte where "Op_PyWStringUCS2 \<equiv> 0x12"
abbreviation Op_PyLongString :: byte where "Op_PyLongString \<equiv> 0x13"
abbreviation Op_PyTuple :: byte where "Op_PyTuple \<equiv> 0x14"
abbreviation Op_PyList :: byte where "Op_PyList \<equiv> 0x15"
abbreviation Op_PyDict :: byte where "Op_PyDict \<equiv> 0x16"
abbreviation Op_PyObject :: byte where "Op_PyObject \<equiv> 0x17"
abbreviation Op_PySubStruct :: byte where "Op_PySubStruct \<equiv> 0x19"
abbreviation Op_PySavedStreamElement :: byte where "Op_PySavedStreamElement \<equiv> 0x1B"
abbreviation Op_PyChecksumedStream :: byte where "Op_PyChecksumedStream \<equiv> 0x1C"
abbreviation Op_PyTrue :: byte where "Op_PyTrue \<equiv> 0x1F"
abbreviation Op_PyFalse :: byte where "Op_PyFalse \<equiv> 0x20"
abbreviation Op_PyObjectEx1 :: byte where "Op_PyObjectEx1 \<equiv> 0x22"
abbreviation Op_PyObjectEx2 :: byte where "Op_PyObjectEx2 \<equiv> 0x23"
abbreviation Op_PyEmptyTuple :: byte where "Op_PyEmptyTuple \<equiv> 0x24"
abbreviation Op_PyOneTuple :: byte where "Op_PyOneTuple \<equiv> 0x25"
abbreviation Op_PyEmptyList :: byte where "Op_PyEmptyList \<equiv> 0x26"
abbreviation Op_PyOneList :: byte where "Op_PyOneList \<equiv> 0x27"
abbreviation Op_PyEmptyWString :: byte where "Op_PyEmptyWString \<equiv> 0x28"
abbreviation Op_PyWStringUCS2Char :: byte where "Op_PyWStringUCS2Char \<equiv> 0x29"
abbreviation Op_PyPackedRow :: byte where "Op_PyPackedRow \<equiv> 0x2A"
abbreviation Op_PySubStream :: byte where "Op_PySubStream \<equiv> 0x2B"
abbreviation Op_PyTwoTuple :: byte where "Op_PyTwoTuple \<equiv> 0x2C"
abbreviation Op_PackedTerminator :: byte where "Op_PackedTerminator \<equiv> 0x2D"
abbreviation Op_PyWStringUTF8 :: byte where "Op_PyWStringUTF8 \<equiv> 0x2E"
abbreviation Op_PyVarInteger :: byte where "Op_PyVarInteger \<equiv> 0x2F"
abbreviation MarshalHeaderByte :: byte where "MarshalHeaderByte \<equiv> 0x7E"

definition kMaxDepth :: nat where
  "kMaxDepth = 128"

section \<open>Sequencing of visits\<close>

type_synonym wire = "(bool \<times> bytes) result"

definition put :: "bytes \<Rightarrow> wire" where
  "put bs = Inr (True, bs)"

definition seq :: "wire \<Rightarrow> wire \<Rightarrow> wire" where
  "seq m n = ebind m (\<lambda>(ok, bs).
     if ok then ebind n (\<lambda>(ok', bs'). Inr (ok', bs @ bs')) else Inr (False, bs))"

text \<open>Continue whatever the answer was (a visit whose result is dropped).\<close>

definition seq_any :: "wire \<Rightarrow> wire \<Rightarrow> wire" where
  "seq_any m n = ebind m (\<lambda>(ok, bs). ebind n (\<lambda>(ok', bs'). Inr (ok', bs @ bs')))"

primrec visit_all :: "('a \<Rightarrow> wire) \<Rightarrow> 'a list \<Rightarrow> wire" where
  "visit_all f [] = put []"
| "visit_all f (x # xs) = seq (f x) (visit_all f xs)"

lemma visit_all_cong [fundef_cong]:
  "xs = ys \<Longrightarrow> (\<And>x. x \<in> set ys \<Longrightarrow> f x = g x) \<Longrightarrow> visit_all f xs = visit_all g ys"
  by (induction ys arbitrary: xs) auto

lemma put_inject [simp]: "put as = put bs \<longleftrightarrow> as = bs"
  by (simp add: put_def)

lemma put_seq [simp]: "seq (put as) (put bs) = put (as @ bs)"
  by (simp add: seq_def put_def)

lemma seq_eq_put:
  "seq m n = put cs \<longleftrightarrow> (\<exists>as bs. m = put as \<and> n = put bs \<and> cs = as @ bs)"
  by (auto simp: seq_def put_def ebind_Inr_conv split: if_splits prod.splits)

lemma visit_all_eq_put:
  "visit_all f xs = put cs \<longleftrightarrow> (\<exists>bss. list_all2 (\<lambda>x bs. f x = put bs) xs bss \<and> cs = concat bss)"
proof (induction xs arbitrary: cs)
  case Nil
  then show ?case by (auto simp: put_def)
next
  case (Cons x xs)
  show ?case
    by (auto simp: seq_eq_put Cons list_all2_Cons1) (metis concat.simps(2) list.rel_intros(2))
qed

section \<open>Values\<close>

definition PutSizeEx :: "int32 \<Rightarrow> bytes" where
  "PutSizeEx n = (if n < 0xFF then [ucast n] else 0xFF # le_bytes 4 n)"

definition VisitInteger :: "int32 \<Rightarrow> bytes" where
  "VisitInteger val =
     (if val = - 1 then [Op_PyMinusOne]
      else if val = 0 then [Op_PyZeroInteger]
      else if val = 1 then [Op_PyOneInteger]
      else if val + 0x8000 > 0xFFFF then Op_PyLong # le_bytes 4 val
      else if val + 0x80 > 0xFF then Op_PySignedShort # le_bytes 2 val
      else Op_PyByte # le_bytes 1 val)"

definition integer_size :: "int64 \<Rightarrow> nat" where
  "integer_size v =
     fold (\<lambda>x n. if le_bytes 8 v ! x \<noteq> 0 then x + 1 else n) [4, 5, 6] 0"

definition SaveVarInteger :: "int64 \<Rightarrow> bytes" where
  "SaveVarInteger v =
     (let n = integer_size v
      in if 0 < n \<and> n < 7 then Op_PyVarInteger # PutSizeEx (word_of_nat n) @ take n (le_bytes 8 v)
         else Op_PyLongLong # le_bytes 8 v)"

definition VisitReal :: "64 word \<Rightarrow> bytes" where
  "VisitReal d = (if dbl_is_zero d then [Op_PyZeroReal] else Op_PyReal # le_bytes 8 d)"

definition sized :: "byte \<Rightarrow> bytes \<Rightarrow> bytes" where
  "sized opcode bs = opcode # PutSizeEx (word_of_nat (length bs)) @ bs"

definition VisitString :: "bytes \<Rightarrow> bytes" where
  "VisitString s =
     (if length s = 0 then [Op_PyEmptyString]
      else if length s = 1 then [Op_PyCharString, s ! 0]
      else let index = LookupIndex s
           in if index > 0 then [Op_PyStringTableItem, index] else sized Op_PyLongString s)"

definition VisitWString :: "bytes \<Rightarrow> bytes" where
  "VisitWString s = (if length s = 0 then [Op_PyEmptyWString] else sized Op_PyWStringUTF8 s)"

definition tuple_header :: "nat \<Rightarrow> bytes" where
  "tuple_header n =
     (let size = word_of_nat n :: int32
      in if size = 0 then [Op_PyEmptyTuple]
         else if size = 1 then [Op_PyOneTuple]
         else if size = 2 then [Op_PyTwoTuple]
         else Op_PyTuple # PutSizeEx size)"

definition list_header :: "nat \<Rightarrow> bytes" where
  "list_header n =
     (let size = word_of_nat n :: int32
      in if size = 0 then [Op_PyEmptyList]
         else if size = 1 then [Op_PyOneList]
         else Op_PyList # PutSizeEx size)"

section \<open>The traversal\<close>

definition stream_header :: bytes where
  "stream_header = MarshalHeaderByte # le_bytes 4 (0 :: int32)"

lemma vec_at_size [termination_simp]:
  "vec_at fs i = Inr v \<Longrightarrow> size v \<le> size_list size fs"
  by (auto simp: vec_at_def split: if_splits intro!: size_list_estimation')

text \<open>
  \<open>PySubStream::EncodeData\<close> marshals into a buffer of its own; when that fails the stream
  gets a zero length and the visit fails.
\<close>

fun visit :: "nat \<Rightarrow> pyrep \<Rightarrow> wire" where
  "visit depth PyNull = Inl Null_deref"
| "visit depth (PyInt i) = put (VisitInteger i)"
| "visit depth (PyLong l) = put (SaveVarInteger l)"
| "visit depth (PyBool b) = put [if b then Op_PyTrue else Op_PyFalse]"
| "visit depth (PyFloat d) = put (VisitReal d)"
| "visit depth PyNone = put [Op_PyNone]"
| "visit depth (PyBuffer bs) = put (sized Op_PyBuffer bs)"
| "visit depth (PyString s) = put (VisitString s)"
| "visit depth (PyWString s) = put (VisitWString s)"
| "visit depth (PyToken s) = put (sized Op_PyToken s)"
| "visit depth (PyTuple xs) =
     (if kMaxDepth \<le> depth then put [Op_PyEmptyTuple] else
      seq (put (tuple_header (length xs)))
        (visit_all (\<lambda>x. if x = PyNull then put [] else visit (Suc depth) x) xs))"
| "visit depth (PyList xs) =
     (if kMaxDepth \<le> depth then put [Op_PyEmptyList] else
      seq (put (list_header (length xs)))
        (visit_all (\<lambda>x. if x = PyNull then put [] else visit (Suc depth) x) xs))"
| "visit depth (PyDict es) =
     (if kMaxDepth \<le> depth then put (Op_PyDict # PutSizeEx 0) else
      seq (put (Op_PyDict # PutSizeEx (word_of_nat (length es))))
        (visit_all (\<lambda>(k, v). seq (visit depth v) (visit depth k)) es))"
| "visit depth (PyObject ty args) =
     (if kMaxDepth \<le> depth then put [] else
      seq (put (Op_PyObject # VisitString ty)) (visit (Suc depth) args))"
| "visit depth (PyObjectEx type2 header xs es) =
     (if kMaxDepth \<le> depth then put [] else
      seq (put [if type2 then Op_PyObjectEx2 else Op_PyObjectEx1])
      (seq (visit depth header)
      (seq (visit_all (\<lambda>x. visit depth x) xs)
      (seq (put [Op_PackedTerminator])
      (seq (visit_all (\<lambda>(k, v). seq (visit depth k) (visit depth v)) es)
           (put [Op_PackedTerminator]))))))"
| "visit depth (PyPackedRow header fs) =
     seq (put [Op_PyPackedRow])
     (seq_any (visit depth header)
       (ebind (get_column_types header) (\<lambda>types.
        ebind (pack_row types fs) (\<lambda>row.
        ebind (SaveRLE row) (\<lambda>packed.
          seq (put (PutSizeEx (word_of_nat (length packed)) @ packed))
            (visit_all (\<lambda>c. ebind (vec_at fs (snd c)) (\<lambda>v. visit depth v))
               (filter (\<lambda>c. fst c = 0) (sizeMap (row_layout types)))))))))"
| "visit depth (PySubStruct r) =
     (if kMaxDepth \<le> depth then put [] else
      seq (put [Op_PySubStruct]) (visit (Suc depth) r))"
| "visit depth (PySubStream data decoded) =
     (if kMaxDepth \<le> depth then put [Op_PySubStream, 0] else
      case data of
        Some bs \<Rightarrow> put (sized Op_PySubStream bs)
      | None \<Rightarrow>
          (case decoded of
             None \<Rightarrow> Inr (False, [Op_PySubStream, 0])
           | Some r \<Rightarrow>
               ebind (visit 0 r) (\<lambda>(ok, bs).
                 if ok then put (sized Op_PySubStream (stream_header @ bs))
                 else Inr (False, [Op_PySubStream, 0]))))"
| "visit depth (PyChecksumedStream r checksum) =
     (if kMaxDepth \<le> depth then put [] else Inl Assert_fail)"

definition SaveStream :: "pyrep \<Rightarrow> wire" where
  "SaveStream rep = seq (put stream_header) (visit 0 rep)"

text \<open>\<open>Marshal\<close>: the bytes appended when it answers \<open>true\<close>; \<open>Ret_null\<close> when \<open>false\<close>.\<close>

definition Marshal :: "pyrep \<Rightarrow> bytes result" where
  "Marshal rep = ebind (SaveStream rep) (\<lambda>(ok, bs). if ok then Inr bs else Inl Ret_null)"

end
