(* ===== verification/Unmarshal.thy ===== *)
theory Unmarshal
  imports Marshal
begin

text \<open>
  The reader of the wire format, \<open>eve-common/marshal/EVEUnmarshal.cpp\<close>. A load takes the
  state of the stream (the read position, the iterator over the storage indices and the
  object store) and returns an object with the new state; a null result is
  \<open>Ret_null\<close>. The loads of compound objects take the load of an element as an argument
  and are tied together in \<open>load_rep\<close>, whose fuel bounds the nesting.
\<close>

section \<open>Positions\<close>

record ustate =
  mInItr :: nat
  mStoreIndexItr :: "nat option"
  mStoredObjects :: "pyrep list option"

type_synonym 'a load = "ustate \<Rightarrow> ('a \<times> ustate) result"

definition ReadN :: "bytes \<Rightarrow> nat \<Rightarrow> bytes load" where
  "ReadN buf n s =
     ebind (iter_add 1 buf (mInItr s) n) (\<lambda>i.
       Inr (take n (drop (mInItr s) buf), s\<lparr>mInItr := i\<rparr>))"

definition Read8 :: "bytes \<Rightarrow> byte load" where
  "Read8 buf s = ebind (ReadN buf 1 s) (\<lambda>(bs, s'). Inr (hd bs, s'))"

definition Read32 :: "bytes \<Rightarrow> int32 load" where
  "Read32 buf s = ebind (ReadN buf 4 s) (\<lambda>(bs, s'). Inr (le_word bs, s'))"

definition Peek8 :: "bytes \<Rightarrow> ustate \<Rightarrow> byte result" where
  "Peek8 buf s = ebind (iter_deref 1 buf (mInItr s)) (\<lambda>bs. Inr (hd bs))"

definition ReadSizeEx :: "bytes \<Rightarrow> nat load" where
  "ReadSizeEx buf s =
     ebind (Read8 buf s) (\<lambda>(b, s1).
       if b = 0xFF then ebind (Read32 buf s1) (\<lambda>(n, s2). Inr (unat n, s2))
       else Inr (unat b, s1))"

definition ReadSized :: "bytes \<Rightarrow> bytes load" where
  "ReadSized buf s = ebind (ReadSizeEx buf s) (\<lambda>(n, s1). ReadN buf n s1)"

section \<open>The object store\<close>

text \<open>
  The storage indices are the last \<open>4 * saveCount\<close> bytes. Moving an iterator before the
  beginning wraps around, so it is the assertion on the end that catches it.
\<close>

definition CreateObjectStore :: "bytes \<Rightarrow> nat \<Rightarrow> nat \<Rightarrow> ustate \<Rightarrow> ustate result" where
  "CreateObjectStore buf streamLength saveCount s =
     (if 0 < saveCount then
        ebind (iter_add 1 buf (mInItr s) streamLength) (\<lambda>i.
        ebind (assert_that (4 * saveCount \<le> i)) (\<lambda>_.
          Inr (s\<lparr>mStoreIndexItr := Some (i - 4 * saveCount),
                mStoredObjects := Some (replicate saveCount PyNull)\<rparr>)))
      else Inr (s\<lparr>mStoreIndexItr := None, mStoredObjects := None\<rparr>))"

definition GetStorageIndex :: "bytes \<Rightarrow> nat load" where
  "GetStorageIndex buf s =
     (case mStoreIndexItr s of
        None \<Rightarrow> Inl Assert_fail
      | Some i \<Rightarrow>
          ebind (iter_add 4 buf i 1) (\<lambda>i'.
          ebind (iter_deref 4 buf i) (\<lambda>bs.
            Inr (unat (le_word bs :: int32), s\<lparr>mStoreIndexItr := Some i'\<rparr>))))"

definition GetStoredObject :: "nat \<Rightarrow> ustate \<Rightarrow> pyrep result" where
  "GetStoredObject index s =
     (if 0 < index then
        (case mStoredObjects s of
           None \<Rightarrow> Inl Null_deref
         | Some objs \<Rightarrow>
             ebind (vec_at objs (index - 1)) (\<lambda>r. if r = PyNull then Inl Ret_null else Inr r))
      else Inl Ret_null)"

definition StoreObject :: "nat \<Rightarrow> pyrep \<Rightarrow> ustate \<Rightarrow> ustate result" where
  "StoreObject index r s =
     (case mStoredObjects s of
        None \<Rightarrow> Inl Null_deref
      | Some objs \<Rightarrow>
          ebind (List_SetItem objs (index - 1) r) (\<lambda>objs'.
            Inr (s\<lparr>mStoredObjects := Some objs'\<rparr>)))"

section \<open>Scalars and strings\<close>

definition load_sized :: "bytes \<Rightarrow> (bytes \<Rightarrow> pyrep) \<Rightarrow> pyrep load" where
  "load_sized buf f s = ebind (ReadSized buf s) (\<lambda>(bs, s'). Inr (f bs, s'))"

definition load_word :: "bytes \<Rightarrow> nat \<Rightarrow> (bytes \<Rightarrow> pyrep) \<Rightarrow> pyrep load" where
  "load_word buf n f s = ebind (ReadN buf n s) (\<lambda>(bs, s'). Inr (f bs, s'))"

definition load_short :: "bytes \<Rightarrow> (bytes \<Rightarrow> pyrep) \<Rightarrow> pyrep load" where
  "load_short buf f s =
     ebind (Read8 buf s) (\<lambda>(n, s1). ebind (ReadN buf (unat n) s1) (\<lambda>(bs, s2). Inr (f bs, s2)))"

definition LoadIntegerVar :: "bytes \<Rightarrow> pyrep load" where
  "LoadIntegerVar buf s =
     ebind (ReadSizeEx buf s) (\<lambda>(len, s1).
     ebind (ReadN buf len s1) (\<lambda>(data, s2).
       if len \<le> 4 then
         ebind (iter_deref 1 buf (mInItr s1)) (\<lambda>_. Inr (PyInt (le_word data), s2))
       else if len \<le> 8 then Inr (PyLong (le_word data), s2)
       else Inr (PyBuffer data, s2)))"

definition LoadStringTable :: "bytes \<Rightarrow> pyrep load" where
  "LoadStringTable buf s =
     ebind (Read8 buf s) (\<lambda>(index, s1).
       case LookupString index of None \<Rightarrow> Inl Assert_fail | Some t \<Rightarrow> Inr (PyString t, s1))"

fun int16s :: "bytes \<Rightarrow> int16 list" where
  "int16s (a # b # bs) = le_word [a, b] # int16s bs"
| "int16s _ = []"

definition load_ucs2 :: "env \<Rightarrow> bytes \<Rightarrow> nat \<Rightarrow> pyrep load" where
  "load_ucs2 env buf len s =
     ebind (iter_add 2 buf (mInItr s) len) (\<lambda>i.
       case utf16to8 env (int16s (take (2 * len) (drop (mInItr s) buf))) of
         None \<Rightarrow> Inl Lib_throw
       | Some t \<Rightarrow> Inr (PyWString t, s\<lparr>mInItr := i\<rparr>))"

definition LoadWStringUCS2 :: "env \<Rightarrow> bytes \<Rightarrow> pyrep load" where
  "LoadWStringUCS2 env buf s = ebind (ReadSizeEx buf s) (\<lambda>(len, s1). load_ucs2 env buf len s1)"

definition LoadSavedStreamElement :: "bytes \<Rightarrow> pyrep load" where
  "LoadSavedStreamElement buf s =
     ebind (ReadSizeEx buf s) (\<lambda>(index, s1).
     ebind (GetStoredObject index s1) (\<lambda>r. Inr (r, s1)))"

section \<open>Compound objects\<close>

primrec load_n :: "pyrep load \<Rightarrow> nat \<Rightarrow> pyrep list load" where
  "load_n ld 0 s = Inr ([], s)"
| "load_n ld (Suc n) s =
     ebind (ld s) (\<lambda>(r, s1). ebind (load_n ld n s1) (\<lambda>(rs, s2). Inr (r # rs, s2)))"

definition load_items :: "pyrep load \<Rightarrow> nat \<Rightarrow> (pyrep list \<Rightarrow> pyrep) \<Rightarrow> pyrep load" where
  "load_items ld n f s = ebind (load_n ld n s) (\<lambda>(rs, s'). Inr (f rs, s'))"

definition load_counted :: "pyrep load \<Rightarrow> bytes \<Rightarrow> (pyrep list \<Rightarrow> pyrep) \<Rightarrow> pyrep load" where
  "load_counted ld buf f s = ebind (ReadSizeEx buf s) (\<lambda>(n, s1). load_items ld n f s1)"

primrec load_entries :: "env \<Rightarrow> pyrep load \<Rightarrow> nat \<Rightarrow> entries \<Rightarrow> entries load" where
  "load_entries env ld 0 es s = Inr (es, s)"
| "load_entries env ld (Suc n) es s =
     ebind (ld s) (\<lambda>(v, s1).
     ebind (ld s1) (\<lambda>(k, s2).
     ebind (Dict_SetItem env es k v) (\<lambda>es'. load_entries env ld n es' s2)))"

definition LoadDict :: "env \<Rightarrow> pyrep load \<Rightarrow> bytes \<Rightarrow> pyrep load" where
  "LoadDict env ld buf s =
     ebind (ReadSizeEx buf s) (\<lambda>(n, s1).
     ebind (load_entries env ld n [] s1) (\<lambda>(es, s2). Inr (PyDict es, s2)))"

definition LoadObject :: "pyrep load \<Rightarrow> pyrep load" where
  "LoadObject ld s =
     ebind (ld s) (\<lambda>(ty, s1).
       case ty of
         PyString t \<Rightarrow> ebind (ld s1) (\<lambda>(args, s2). Inr (PyObject t args, s2))
       | _ \<Rightarrow> Inl Ret_null)"

text \<open>The two loops of \<open>LoadObjectEx\<close> run until the terminator is next.\<close>

primrec load_until :: "pyrep load \<Rightarrow> bytes \<Rightarrow> nat \<Rightarrow> pyrep list load" where
  "load_until ld buf 0 s = Inl Diverge"
| "load_until ld buf (Suc n) s =
     ebind (Peek8 buf s) (\<lambda>b.
       if b = Op_PackedTerminator then Inr ([], s)
       else ebind (ld s) (\<lambda>(r, s1).
            ebind (load_until ld buf n s1) (\<lambda>(rs, s2). Inr (r # rs, s2))))"

primrec load_pairs_until :: "env \<Rightarrow> pyrep load \<Rightarrow> bytes \<Rightarrow> nat \<Rightarrow> entries \<Rightarrow> entries load" where
  "load_pairs_until env ld buf 0 es s = Inl Diverge"
| "load_pairs_until env ld buf (Suc n) es s =
     ebind (Peek8 buf s) (\<lambda>b.
       if b = Op_PackedTerminator then Inr (es, s)
       else ebind (ld s) (\<lambda>(k, s1).
            ebind (ld s1) (\<lambda>(v, s2).
            ebind (Dict_SetItem env es k v) (\<lambda>es'. load_pairs_until env ld buf n es' s2))))"

definition LoadObjectEx :: "env \<Rightarrow> pyrep load \<Rightarrow> bytes \<Rightarrow> bool \<Rightarrow> pyrep load" where
  "LoadObjectEx env ld buf is_type_2 s =
     ebind (ld s) (\<lambda>(header, s1).
     ebind (load_until ld buf (Suc (length buf)) s1) (\<lambda>(xs, s2).
     ebind (Read8 buf s2) (\<lambda>(_, s3).
     ebind (load_pairs_until env ld buf (Suc (length buf)) [] s3) (\<lambda>(es, s4).
     ebind (Read8 buf s4) (\<lambda>(_, s5).
       Inr (PyObjectEx is_type_2 header xs es, s5))))))"

section \<open>Packed rows\<close>

text \<open>A field of at least a byte is read at \<open>itr\<close> of the unpacked data.\<close>

definition read_field :: "bytes \<Rightarrow> nat \<Rightarrow> nat \<Rightarrow> (bytes \<Rightarrow> pyrep) \<Rightarrow> (pyrep \<times> nat) result" where
  "read_field unpacked n itr f =
     ebind (iter_add n unpacked itr 1) (\<lambda>i.
     ebind (iter_deref n unpacked itr) (\<lambda>bs. Inr (f bs, i)))"

definition fixed_field :: "dbtype \<Rightarrow> bytes \<Rightarrow> nat \<Rightarrow> (pyrep \<times> nat) result option" where
  "fixed_field t unpacked itr =
     (if t \<in> {DBTYPE_I8, DBTYPE_CY, DBTYPE_UI8, DBTYPE_FILETIME} then
        Some (read_field unpacked 8 itr (\<lambda>bs. PyLong (le_word bs)))
      else if t \<in> {DBTYPE_I4, DBTYPE_UI4} then
        Some (read_field unpacked 4 itr (\<lambda>bs. PyInt (le_word bs)))
      else if t = DBTYPE_I2 then
        Some (read_field unpacked 2 itr (\<lambda>bs. PyInt (scast (le_word bs :: int16))))
      else if t = DBTYPE_UI2 then
        Some (read_field unpacked 2 itr (\<lambda>bs. PyInt (ucast (le_word bs :: int16))))
      else if t = DBTYPE_I1 then
        Some (read_field unpacked 1 itr (\<lambda>bs. PyInt (scast (le_word bs :: int8))))
      else if t = DBTYPE_UI1 then
        Some (read_field unpacked 1 itr (\<lambda>bs. PyInt (ucast (le_word bs :: int8))))
      else if t = DBTYPE_R8 then
        Some (read_field unpacked 8 itr (\<lambda>bs. PyFloat (le_word bs)))
      else if t = DBTYPE_R4 then
        Some (read_field unpacked 4 itr (\<lambda>bs. PyFloat (dbl_of_float (le_word bs))))
      else None)"

definition load_field ::
    "pyrep load \<Rightarrow> pyrep \<Rightarrow> layout \<Rightarrow> bytes \<Rightarrow> dbtype \<Rightarrow> nat \<Rightarrow> nat \<Rightarrow> pyrep list \<Rightarrow>
     (nat \<times> pyrep list) load" where
  "load_field ld desc l unpacked t index itr fs s =
     ebind (get_bit_at unpacked (byteDataBitLength l + booleansBitLength l + index)) (\<lambda>null.
     ebind (if null then
              ebind (iter_add 1 unpacked itr (DBTYPE_GetSizeBits t div 8)) (\<lambda>i.
              ebind (SetField desc fs index PyNone) (\<lambda>(_, fs'). Inr (i, fs')))
            else Inr (itr, fs)) (\<lambda>(itr1, fs1).
       if null \<and> t \<notin> {DBTYPE_BYTES, DBTYPE_STR, DBTYPE_WSTR} then Inr ((itr1, fs1), s)
       else case fixed_field t unpacked itr1 of
         Some read \<Rightarrow>
           ebind read (\<lambda>(v, i). ebind (SetField desc fs1 index v) (\<lambda>(_, fs2). Inr ((i, fs2), s)))
       | None \<Rightarrow>
           if t = DBTYPE_BOOL then
             ebind (bool_bit l index) (\<lambda>b.
             ebind (get_bit_at unpacked (byteDataBitLength l + b)) (\<lambda>v.
             ebind (SetField desc fs1 index (PyBool v)) (\<lambda>(_, fs2). Inr ((itr1, fs2), s))))
           else if t \<in> {DBTYPE_BYTES, DBTYPE_STR, DBTYPE_WSTR} then
             ebind (ld s) (\<lambda>(el, s1).
             ebind (SetField desc fs1 index el) (\<lambda>(_, fs2). Inr ((itr1, fs2), s1)))
           else if t \<in> {DBTYPE_EMPTY, DBTYPE_ERROR} then Inl Ret_null
           else Inr ((itr1, fs1), s)))"

primrec load_fields ::
    "pyrep load \<Rightarrow> pyrep \<Rightarrow> layout \<Rightarrow> dbtype list \<Rightarrow> bytes \<Rightarrow> (nat \<times> nat) list \<Rightarrow> nat \<Rightarrow>
     pyrep list \<Rightarrow> pyrep list load" where
  "load_fields ld desc l types unpacked [] itr fs s = Inr (fs, s)"
| "load_fields ld desc l types unpacked (c # cs) itr fs s =
     ebind (load_field ld desc l unpacked (types ! snd c) (snd c) itr fs s) (\<lambda>((itr', fs'), s').
       load_fields ld desc l types unpacked cs itr' fs' s')"

definition LoadPackedRow :: "pyrep load \<Rightarrow> bytes \<Rightarrow> pyrep load" where
  "LoadPackedRow ld buf s =
     ebind (ld s) (\<lambda>(header, s1).
     ebind (get_column_types header) (\<lambda>types.
     let l = row_layout types;
         expectedByteSize = byteDataBitLength l div 8
                            + (booleansBitLength l + nullsBitLength l) div 8 + 1
     in ebind (ReadSized buf s1) (\<lambda>(packed, s2).
        ebind (LoadRLE packed (replicate expectedByteSize 0)) (\<lambda>unpacked.
        ebind (load_fields ld header l types unpacked (sizeMap l) 0
                 (replicate (length types) PyNull) s2) (\<lambda>(fs, s3).
          Inr (PyPackedRow header fs, s3))))))"

section \<open>The stream\<close>

definition LoadError :: "pyrep load" where
  "LoadError s = Inl Ret_null"

definition load_value :: "pyrep \<Rightarrow> pyrep load" where
  "load_value r s = Inr (r, s)"

text \<open>The load function of each of the 64 opcodes, in the order of \<open>s_mLoadMap\<close>.\<close>

definition s_mLoadMap :: "env \<Rightarrow> bytes \<Rightarrow> pyrep load \<Rightarrow> pyrep load list" where
  "s_mLoadMap env buf ld = [
     LoadError,
     load_value PyNone,
     load_short buf PyToken,
     load_word buf 8 (\<lambda>bs. PyLong (le_word bs)),
     load_word buf 4 (\<lambda>bs. PyInt (le_word bs)),
     load_word buf 2 (\<lambda>bs. PyInt (scast (le_word bs :: int16))),
     load_word buf 1 (\<lambda>bs. PyInt (scast (le_word bs :: int8))),
     load_value (PyInt (- 1)),
     load_value (PyInt 0),
     load_value (PyInt 1),
     load_word buf 8 (\<lambda>bs. PyFloat (le_word bs)),
     load_value (PyFloat 0),
     LoadError,
     load_sized buf PyBuffer,
     load_value (PyString []),
     load_word buf 1 PyString,
     load_short buf PyString,
     LoadStringTable buf,
     LoadWStringUCS2 env buf,
     load_sized buf PyString,
     load_counted ld buf PyTuple,
     load_counted ld buf PyList,
     LoadDict env ld buf,
     LoadObject ld,
     LoadError,
     load_items ld 1 (\<lambda>rs. PySubStruct (hd rs)),
     LoadError,
     LoadSavedStreamElement buf,
     (\<lambda>s. ebind (Read32 buf s) (\<lambda>(checksum, s1).
            load_items ld 1 (\<lambda>rs. PyChecksumedStream (hd rs) checksum) s1)),
     LoadError,
     LoadError,
     load_value (PyBool True),
     load_value (PyBool False),
     LoadError,
     LoadObjectEx env ld buf False,
     LoadObjectEx env ld buf True,
     load_value (PyTuple []),
     load_items ld 1 PyTuple,
     load_value (PyList []),
     load_items ld 1 PyList,
     load_value (PyWString []),
     load_ucs2 env buf 1,
     LoadPackedRow ld buf,
     load_sized buf (\<lambda>bs. PySubStream (Some bs) None),
     load_items ld 2 PyTuple,
     LoadError,
     load_sized buf PyWString,
     LoadIntegerVar buf] @ replicate 16 LoadError"

definition PyRepSaveMask :: byte where "PyRepSaveMask = 0x40"

definition PyRepOpcodeMask :: byte where "PyRepOpcodeMask = 0x3F"

definition load_object :: "env \<Rightarrow> bytes \<Rightarrow> pyrep load \<Rightarrow> pyrep load" where
  "load_object env buf ld s =
     ebind (Read8 buf s) (\<lambda>(header, s1).
     ebind (if header AND PyRepSaveMask \<noteq> 0 then GetStorageIndex buf s1 else Inr (0, s1))
       (\<lambda>(storageIndex, s2).
     case (s_mLoadMap env buf ld ! unat (header AND PyRepOpcodeMask)) s2 of
       Inl e \<Rightarrow> Inl (if e = Ret_null \<and> storageIndex \<noteq> 0 then Null_deref else e)
     | Inr (r, s3) \<Rightarrow>
         if storageIndex \<noteq> 0 then ebind (StoreObject storageIndex r s3) (\<lambda>s4. Inr (r, s4))
         else Inr (r, s3)))"

primrec load_rep :: "env \<Rightarrow> bytes \<Rightarrow> nat \<Rightarrow> pyrep load" where
  "load_rep env buf 0 = (\<lambda>s. Inl Diverge)"
| "load_rep env buf (Suc fuel) = load_object env buf (load_rep env buf fuel)"

definition LoadStream :: "env \<Rightarrow> bytes \<Rightarrow> nat \<Rightarrow> pyrep load" where
  "LoadStream env buf fuel s =
     ebind (Read8 buf s) (\<lambda>(header, s1).
       if header \<noteq> MarshalHeaderByte then Inl Ret_null else
       ebind (Read32 buf s1) (\<lambda>(saveCount, s2).
       ebind (CreateObjectStore buf (length buf - 5) (unat saveCount) s2) (\<lambda>s3.
       ebind (load_rep env buf fuel s3) (\<lambda>(rep, s4).
         Inr (rep, s4\<lparr>mStoreIndexItr := None, mStoredObjects := None\<rparr>)))))"

definition Load :: "env \<Rightarrow> nat \<Rightarrow> bytes \<Rightarrow> pyrep result" where
  "Load env fuel data =
     ebind (LoadStream env data fuel
              \<lparr>mInItr = 0, mStoreIndexItr = None, mStoredObjects = None\<rparr>)
       (\<lambda>(rep, s). Inr rep)"

text \<open>Every nested object takes a byte of the stream, so its length is enough fuel.\<close>

definition Unmarshal :: "env \<Rightarrow> bytes \<Rightarrow> pyrep result" where
  "Unmarshal env data = Load env (length data) data"

section \<open>Termination\<close>

text \<open>
  A call is total when it does not run out of fuel. A load is sound from a position
  \<open>bound\<close> on when it is total there and only moves forward inside the buffer.
\<close>

named_theorems total_intros \<open>calls that do not run out of fuel\<close>
named_theorems sound_intros \<open>loads that move forward in the buffer\<close>

definition total :: "'a result \<Rightarrow> bool" where
  "total m \<longleftrightarrow> m \<noteq> Inl Diverge"

definition sound_at :: "bytes \<Rightarrow> ustate \<Rightarrow> ('a \<times> ustate) result \<Rightarrow> bool" where
  "sound_at buf s m \<longleftrightarrow>
     (case m of Inl e \<Rightarrow> e \<noteq> Diverge
      | Inr (r, s') \<Rightarrow> mInItr s \<le> mInItr s' \<and> mInItr s' \<le> length buf)"

definition sound_load :: "bytes \<Rightarrow> nat \<Rightarrow> 'a load \<Rightarrow> bool" where
  "sound_load buf bound m \<longleftrightarrow>
     (\<forall>s. bound \<le> mInItr s \<longrightarrow> mInItr s \<le> length buf \<longrightarrow> sound_at buf s (m s))"

lemma total_Inr [total_intros]: "total (Inr x)"
  by (simp add: total_def)

lemma total_Inl [total_intros]: "e \<noteq> Diverge \<Longrightarrow> total (Inl e)"
  by (simp add: total_def)

lemma total_ebind [total_intros]:
  "total m \<Longrightarrow> (\<And>x. m = Inr x \<Longrightarrow> total (f x)) \<Longrightarrow> total (ebind m f)"
  by (cases m) (simp_all add: total_def)

lemma total_if [total_intros]: "(b \<Longrightarrow> total m) \<Longrightarrow> (\<not> b \<Longrightarrow> total n) \<Longrightarrow> total (if b then m else n)"
  by simp

lemma total_assert [total_intros]: "total (assert_that b)"
  by (cases b) (simp_all add: total_def)

lemma total_vec_at [total_intros]: "total (vec_at xs i)"
  by (simp add: vec_at_def total_def)

lemma total_vec_set [total_intros]: "total (vec_set xs i x)"
  by (simp add: vec_set_def total_def)

lemma total_emap [total_intros]: "(\<And>x. x \<in> set xs \<Longrightarrow> total (f x)) \<Longrightarrow> total (emap f xs)"
  by (induction xs) (auto intro!: total_intros)

lemma total_hash_items: "(\<And>x. x \<in> set xs \<Longrightarrow> total (h x)) \<Longrightarrow> total (hash_items h a m xs)"
  by (induction xs arbitrary: a m) (auto intro!: total_intros)

lemma total_py_hash [total_intros]: "total (py_hash env r)"
proof (induction env r rule: py_hash.induct)
  case (5 env bs)
  then show ?case by (auto simp: buffer_hash_def Let_def intro!: total_intros split: list.split)
next
  case (8 env xs)
  then show ?case by (auto intro!: total_hash_items)
qed (auto intro!: total_intros)

lemma total_Dict_SetItem [total_intros]: "total (Dict_SetItem env es k v)"
  by (auto simp: Dict_SetItem_def intro!: total_intros split: option.split)

lemma total_As [total_intros]: "total (AsTuple r)" "total (AsToken r)" "total (AsList r)" "total (AsDict r)"
  by (auto simp: AsTuple_def AsToken_def AsList_def AsDict_def intro!: total_intros split: pyrep.split)

lemma total_GetColumnList [total_intros]: "total (GetColumnList desc)"
  by (auto simp: GetColumnList_def Type1_GetArgs_def intro!: total_intros split: pyrep.split)

lemma total_GetColumnType [total_intros]: "total (GetColumnType desc i)"
  by (auto simp: GetColumnType_def GetColumn_def intro!: total_intros split: pyrep.split)

lemma total_get_column_types [total_intros]: "total (get_column_types desc)"
  by (auto simp: get_column_types_def ColumnCount_def intro!: total_intros)

lemma total_SetField [total_intros]: "total (SetField desc fs i v)"
  by (auto simp: SetField_def DBTYPE_IsCompatible_def List_SetItem_def intro!: total_intros)

lemma total_bits [total_intros]: "total (get_bit_at bits n)" "total (bool_bit l n)"
  by (auto simp: get_bit_at_def bool_bit_def intro!: total_intros split: option.split)

lemma total_iter [total_intros]: "total (iter_add n bs i k)" "total (iter_deref n bs i)"
  by (auto simp: iter_add_def iter_deref_def intro!: total_intros)

lemma total_LoadRLE [total_intros]: "total (LoadRLE src out)"
proof -
  have "total (load_loop src out ix nibble run)" for ix nibble run
  proof (induction src out ix nibble run rule: load_loop.induct)
    case (1 src out ix nibble run)
    note IH = 1(1) [OF _ refl refl refl refl] 1(2) [OF _ refl refl refl refl _ _ refl]
    show ?case
      unfolding load_loop.simps [of src out] Let_def
      by (intro total_if total_Inr total_Inl IH) simp_all
  qed
  then show ?thesis by (simp add: LoadRLE_def)
qed

lemma sound_loadI:
  "(\<And>s. bound \<le> mInItr s \<Longrightarrow> mInItr s \<le> length buf \<Longrightarrow> sound_at buf s (m s)) \<Longrightarrow>
   sound_load buf bound m"
  by (simp add: sound_load_def)

lemma sound_loadD:
  "sound_load buf bound m \<Longrightarrow> bound \<le> mInItr s \<Longrightarrow> mInItr s \<le> length buf \<Longrightarrow> sound_at buf s (m s)"
  by (simp add: sound_load_def)

lemma sound_Inr:
  "sound_at buf s (Inr (r, s')) \<longleftrightarrow> mInItr s \<le> mInItr s' \<and> mInItr s' \<le> length buf"
  by (simp add: sound_at_def)

lemma sound_Inl: "sound_at buf s (Inl e) \<longleftrightarrow> e \<noteq> Diverge"
  by (simp add: sound_at_def)

lemma sound_total:
  "total m \<Longrightarrow> (\<And>x. m = Inr x \<Longrightarrow> sound_at buf s (f x)) \<Longrightarrow> sound_at buf s (ebind m f)"
  by (cases m) (simp_all add: sound_at_def total_def)

lemma sound_then:
  assumes "sound_at buf s m"
    and "\<And>r s'. m = Inr (r, s') \<Longrightarrow> mInItr s \<le> mInItr s' \<Longrightarrow> mInItr s' \<le> length buf \<Longrightarrow>
      sound_at buf s' (f (r, s'))"
  shows "sound_at buf s (ebind m f)"
proof (cases m)
  case (Inl e)
  then show ?thesis using assms(1) by (simp add: sound_at_def)
next
  case (Inr x)
  obtain r s' where x: "x = (r, s')" by (cases x)
  have le: "mInItr s \<le> mInItr s'" "mInItr s' \<le> length buf"
    using assms(1) Inr x by (simp_all add: sound_at_def)
  have "sound_at buf s' (f (r, s'))" using assms(2) Inr x le by blast
  then show ?thesis
    using Inr x le by (auto simp: sound_at_def split: sum.splits prod.splits)
qed

lemma sound_case:
  assumes "sound_at buf s m" "\<And>e. e \<noteq> Diverge \<Longrightarrow> h e \<noteq> Diverge"
    and "\<And>r s'. m = Inr (r, s') \<Longrightarrow> mInItr s' \<le> length buf \<Longrightarrow> sound_at buf s' (g r s')"
  shows "sound_at buf s (case m of Inl e \<Rightarrow> Inl (h e) | Inr (r, s') \<Rightarrow> g r s')"
proof (cases m)
  case (Inl e)
  then show ?thesis using assms(1,2) by (simp add: sound_at_def)
next
  case (Inr x)
  obtain r s' where x: "x = (r, s')" by (cases x)
  have le: "mInItr s \<le> mInItr s'" "mInItr s' \<le> length buf"
    using assms(1) Inr x by (simp_all add: sound_at_def)
  have "sound_at buf s' (g r s')" using assms(3) Inr x le by blast
  then show ?thesis
    using Inr x le by (auto simp: sound_at_def split: sum.splits prod.splits)
qed

lemma sound_if: "(b \<Longrightarrow> sound_at buf s m) \<Longrightarrow> (\<not> b \<Longrightarrow> sound_at buf s n) \<Longrightarrow> sound_at buf s (if b then m else n)"
  by simp

lemma sound_ReadN [sound_intros]: "mInItr s \<le> length buf \<Longrightarrow> sound_at buf s (ReadN buf n s)"
  by (simp add: ReadN_def iter_add_def ebind_def assert_that_def sound_at_def)

lemma sound_Read8 [sound_intros]: "mInItr s \<le> length buf \<Longrightarrow> sound_at buf s (Read8 buf s)"
  unfolding Read8_def by (rule sound_then) (auto intro: sound_intros simp: sound_Inr)

lemma sound_Read32 [sound_intros]: "mInItr s \<le> length buf \<Longrightarrow> sound_at buf s (Read32 buf s)"
  unfolding Read32_def by (rule sound_then) (auto intro: sound_intros simp: sound_Inr)

lemma sound_ReadSizeEx [sound_intros]: "mInItr s \<le> length buf \<Longrightarrow> sound_at buf s (ReadSizeEx buf s)"
  unfolding ReadSizeEx_def
  by (rule sound_then) (auto intro!: sound_then intro: sound_intros simp: sound_Inr)

lemma sound_ReadSized [sound_intros]: "mInItr s \<le> length buf \<Longrightarrow> sound_at buf s (ReadSized buf s)"
  unfolding ReadSized_def by (rule sound_then) (auto intro: sound_intros)

lemma Read8_pos: "Read8 buf s = Inr (b, s') \<Longrightarrow> mInItr s' = Suc (mInItr s)"
  by (auto simp: Read8_def ReadN_def iter_add_def ebind_Inr_conv assert_that_def split: if_splits)

lemma sound_GetStorageIndex [sound_intros]:
  "mInItr s \<le> length buf \<Longrightarrow> sound_at buf s (GetStorageIndex buf s)"
  by (auto simp: GetStorageIndex_def sound_Inr sound_Inl intro!: sound_total total_intros split: option.split)

lemma total_store [total_intros]: "total (GetStoredObject n s)" "total (StoreObject n r s)"
  by (auto simp: GetStoredObject_def StoreObject_def List_SetItem_def intro!: total_intros split: option.split)

lemma StoreObject_pos: "StoreObject n r s = Inr s' \<Longrightarrow> mInItr s' = mInItr s"
  by (auto simp: StoreObject_def ebind_Inr_conv split: option.splits)

lemma sound_scalars [sound_intros]:
  assumes "mInItr s \<le> length buf"
  shows "sound_at buf s (load_sized buf f s)" "sound_at buf s (load_word buf n f s)"
    "sound_at buf s (load_short buf f s)" "sound_at buf s (LoadIntegerVar buf s)"
    "sound_at buf s (LoadStringTable buf s)" "sound_at buf s (load_ucs2 env buf n s)"
    "sound_at buf s (LoadWStringUCS2 env buf s)" "sound_at buf s (LoadSavedStreamElement buf s)"
    "sound_at buf s (load_value r s)" "sound_at buf s (LoadError s)"
proof -
  show "sound_at buf s (load_sized buf f s)"
    unfolding load_sized_def using assms by (auto intro!: sound_then sound_intros simp: sound_Inr)
  show "sound_at buf s (load_word buf n f s)"
    unfolding load_word_def using assms by (auto intro!: sound_then sound_intros simp: sound_Inr)
  show "sound_at buf s (load_short buf f s)"
    unfolding load_short_def using assms by (auto intro!: sound_then sound_intros simp: sound_Inr)
  show "sound_at buf s (LoadIntegerVar buf s)"
    unfolding LoadIntegerVar_def using assms
    by (intro sound_then [OF sound_ReadSizeEx])
      (auto intro!: sound_then [OF sound_ReadN] sound_total [OF total_iter(2)] simp: sound_Inr)
  show "sound_at buf s (LoadStringTable buf s)"
    unfolding LoadStringTable_def using assms
    by (intro sound_then) (auto intro!: sound_intros simp: sound_Inr sound_Inl split: option.split)
  have ucs2: "sound_at buf t (load_ucs2 env buf n t)" if "mInItr t \<le> length buf" for n t
    using that by (auto simp: load_ucs2_def iter_add_def ebind_def assert_that_def sound_Inr sound_Inl
        split: option.split)
  show "sound_at buf s (load_ucs2 env buf n s)" by (rule ucs2) (rule assms)
  show "sound_at buf s (LoadWStringUCS2 env buf s)"
    unfolding LoadWStringUCS2_def using assms
    by (intro sound_then) (auto intro!: sound_intros ucs2)
  show "sound_at buf s (LoadSavedStreamElement buf s)"
    unfolding LoadSavedStreamElement_def using assms
    by (intro sound_then) (auto intro!: sound_total sound_intros total_intros simp: sound_Inr)
  show "sound_at buf s (load_value r s)" "sound_at buf s (LoadError s)"
    using assms by (simp_all add: load_value_def LoadError_def sound_Inr sound_Inl)
qed

text \<open>
  The interface between an element load and the loads of compound objects: an element load
  is sound and consumes at least a byte. Every compound load is then sound, the loops of
  \<open>LoadObjectEx\<close> included.
\<close>

locale element_load =
  fixes buf :: bytes and bound :: nat and ld :: "pyrep load"
  assumes ld_sound: "sound_load buf bound ld"
    and ld_strict: "bound \<le> mInItr s \<Longrightarrow> mInItr s \<le> length buf \<Longrightarrow> ld s = Inr (r, s') \<Longrightarrow>
      mInItr s < mInItr s'"
begin

lemma ld_at: "bound \<le> mInItr s \<Longrightarrow> mInItr s \<le> length buf \<Longrightarrow> sound_at buf s (ld s)"
  by (rule sound_loadD [OF ld_sound])

lemma load_n_at:
  "bound \<le> mInItr s \<Longrightarrow> mInItr s \<le> length buf \<Longrightarrow> sound_at buf s (load_n ld n s)"
proof (induction n arbitrary: s)
  case (Suc n)
  show ?case
    unfolding load_n.simps prod.case
    using Suc.prems by (intro sound_then [OF ld_at]) (auto intro!: sound_then Suc.IH simp: sound_Inr)
qed (simp add: sound_Inr)

lemma load_items_at:
  "bound \<le> mInItr s \<Longrightarrow> mInItr s \<le> length buf \<Longrightarrow> sound_at buf s (load_items ld n f s)"
  unfolding load_items_def by (intro sound_then [OF load_n_at]) (auto simp: sound_Inr)

lemma load_counted_at:
  "bound \<le> mInItr s \<Longrightarrow> mInItr s \<le> length buf \<Longrightarrow> sound_at buf s (load_counted ld buf f s)"
  unfolding load_counted_def
  by (intro sound_then [OF sound_ReadSizeEx]) (auto intro!: load_items_at)

lemma load_entries_at:
  "bound \<le> mInItr s \<Longrightarrow> mInItr s \<le> length buf \<Longrightarrow> sound_at buf s (load_entries env ld n es s)"
proof (induction n arbitrary: s es)
  case (Suc n)
  show ?case
    unfolding load_entries.simps
    using Suc.prems
    by (intro sound_then [OF ld_at])
      (auto intro!: sound_then [OF ld_at] sound_total [OF total_Dict_SetItem] Suc.IH)
qed (simp add: sound_Inr)

lemma LoadDict_at:
  "bound \<le> mInItr s \<Longrightarrow> mInItr s \<le> length buf \<Longrightarrow> sound_at buf s (LoadDict env ld buf s)"
  unfolding LoadDict_def
  by (intro sound_then [OF sound_ReadSizeEx])
    (auto intro!: sound_then [OF load_entries_at] simp: sound_Inr)

lemma LoadObject_at:
  "bound \<le> mInItr s \<Longrightarrow> mInItr s \<le> length buf \<Longrightarrow> sound_at buf s (LoadObject ld s)"
  unfolding LoadObject_def
  by (intro sound_then [OF ld_at])
    (auto intro!: sound_then [OF ld_at] simp: sound_Inr sound_Inl split: pyrep.split)

lemma load_until_at:
  "bound \<le> mInItr s \<Longrightarrow> mInItr s \<le> length buf \<Longrightarrow> length buf - mInItr s < n \<Longrightarrow>
   sound_at buf s (load_until ld buf n s)"
proof (induction n arbitrary: s)
  case (Suc n)
  have peek: "total (Peek8 buf s)" by (auto simp: Peek8_def intro!: total_intros)
  have step: "sound_at buf s (ebind (ld s) (\<lambda>(r, s1).
      ebind (load_until ld buf n s1) (\<lambda>(rs, s2). Inr (r # rs, s2))))"
  proof (rule sound_then)
    fix r s1
    assume ld: "ld s = Inr (r, s1)" and le: "mInItr s \<le> mInItr s1" "mInItr s1 \<le> length buf"
    have "sound_at buf s1 (load_until ld buf n s1)"
      using ld_strict [OF Suc.prems(1,2) ld] le Suc.prems by (intro Suc.IH) linarith+
    then show "sound_at buf s1 (case (r, s1) of (r, s1) \<Rightarrow>
        ebind (load_until ld buf n s1) (\<lambda>(rs, s2). Inr (r # rs, s2)))"
      by (auto intro: sound_then simp: sound_Inr)
  qed (rule ld_at [OF Suc.prems(1,2)])
  show ?case
    unfolding load_until.simps
    using Suc.prems by (intro sound_total [OF peek] sound_if step) (simp add: sound_Inr)
qed simp

lemma load_pairs_until_at:
  "bound \<le> mInItr s \<Longrightarrow> mInItr s \<le> length buf \<Longrightarrow> length buf - mInItr s < n \<Longrightarrow>
   sound_at buf s (load_pairs_until env ld buf n es s)"
proof (induction n arbitrary: s es)
  case (Suc n)
  have peek: "total (Peek8 buf s)" by (auto simp: Peek8_def intro!: total_intros)
  have step: "sound_at buf s (ebind (ld s) (\<lambda>(k, s1). ebind (ld s1) (\<lambda>(v, s2).
      ebind (Dict_SetItem env es k v) (\<lambda>es'. load_pairs_until env ld buf n es' s2))))"
  proof (rule sound_then)
    fix k s1
    assume k: "ld s = Inr (k, s1)" and le: "mInItr s \<le> mInItr s1" "mInItr s1 \<le> length buf"
    have "sound_at buf s1 (ebind (ld s1) (\<lambda>(v, s2).
        ebind (Dict_SetItem env es k v) (\<lambda>es'. load_pairs_until env ld buf n es' s2)))"
    proof (rule sound_then)
      fix v and s2 :: ustate
      assume v: "mInItr s1 \<le> mInItr s2" "mInItr s2 \<le> length buf"
      show "sound_at buf s2 (case (v, s2) of (v, s2) \<Rightarrow>
          ebind (Dict_SetItem env es k v) (\<lambda>es'. load_pairs_until env ld buf n es' s2))"
        unfolding prod.case using ld_strict [OF Suc.prems(1,2) k] le v Suc.prems
        by (intro sound_total [OF total_Dict_SetItem] Suc.IH) linarith+
    qed (use le Suc.prems in \<open>intro ld_at; linarith\<close>)
    then show "sound_at buf s1 (case (k, s1) of (k, s1) \<Rightarrow> ebind (ld s1) (\<lambda>(v, s2).
        ebind (Dict_SetItem env es k v) (\<lambda>es'. load_pairs_until env ld buf n es' s2)))"
      by simp
  qed (rule ld_at [OF Suc.prems(1,2)])
  show ?case
    unfolding load_pairs_until.simps
    using Suc.prems by (intro sound_total [OF peek] sound_if step) (simp add: sound_Inr)
qed simp

lemma LoadObjectEx_at:
  "bound \<le> mInItr s \<Longrightarrow> mInItr s \<le> length buf \<Longrightarrow> sound_at buf s (LoadObjectEx env ld buf ty s)"
  unfolding LoadObjectEx_def
  by (intro sound_then [OF ld_at])
    (auto intro!: sound_then [OF load_until_at] sound_then [OF load_pairs_until_at]
      sound_then [OF sound_Read8] simp: sound_Inr simp del: load_until.simps load_pairs_until.simps)

lemma load_field_at:
  assumes "bound \<le> mInItr s" "mInItr s \<le> length buf"
  shows "sound_at buf s (load_field ld desc l unpacked t index itr fs s)"
proof -
  have fixed: "total m" if "fixed_field t unpacked itr' = Some m" for itr' m
    using that by (auto simp: fixed_field_def read_field_def split: if_splits intro!: total_intros)
  show ?thesis
    unfolding load_field_def
    apply (intro sound_total)
      apply (auto intro!: total_intros) [2]
    using assms
    by (auto simp: sound_Inr sound_Inl split: option.split
        intro!: sound_total [OF fixed] sound_total [OF total_SetField] sound_total [OF total_bits(1)]
          sound_total [OF total_bits(2)] sound_then [OF ld_at])
qed

lemma load_fields_at:
  "bound \<le> mInItr s \<Longrightarrow> mInItr s \<le> length buf \<Longrightarrow>
   sound_at buf s (load_fields ld desc l types unpacked cs itr fs s)"
proof (induction cs arbitrary: itr fs s)
  case (Cons c cs)
  show ?case
    unfolding load_fields.simps
    using Cons.prems by (intro sound_then [OF load_field_at]) (auto intro!: Cons.IH)
qed (simp add: sound_Inr)

lemma LoadPackedRow_at:
  "bound \<le> mInItr s \<Longrightarrow> mInItr s \<le> length buf \<Longrightarrow> sound_at buf s (LoadPackedRow ld buf s)"
  unfolding LoadPackedRow_def Let_def
  by (intro sound_then [OF ld_at])
    (auto intro!: sound_total [OF total_get_column_types] sound_then [OF sound_ReadSized]
      sound_total [OF total_LoadRLE] sound_then [OF load_fields_at] simp: sound_Inr)

lemma load_op_at:
  assumes "bound \<le> mInItr s" "mInItr s \<le> length buf" "i < 64"
  shows "sound_at buf s ((s_mLoadMap env buf ld ! i) s)"
proof -
  note s = assms(2) and b = assms(1,2)
  have chk: "sound_at buf s (ebind (Read32 buf s) (\<lambda>(c, s1). load_items ld n (f c) s1))" for n f
    using b by (intro sound_then [OF sound_Read32]) (auto intro!: load_items_at)
  have all: "list_all (\<lambda>m. sound_at buf s (m s)) (s_mLoadMap env buf ld)"
    unfolding s_mLoadMap_def list_all_append list.pred_inject
    by (intro conjI sound_scalars [OF s] load_counted_at [OF b] load_items_at [OF b] LoadDict_at [OF b]
        LoadObject_at [OF b] LoadObjectEx_at [OF b] LoadPackedRow_at [OF b] chk TrueI)
      (simp_all add: list_all_length sound_scalars(10) [OF s])
  have "length (s_mLoadMap env buf ld) = 64" by (simp add: s_mLoadMap_def)
  then show ?thesis using all assms(3) by (simp add: list_all_length)
qed

lemma load_object_at:
  assumes "bound \<le> Suc (mInItr s)" "mInItr s \<le> length buf"
  shows "sound_at buf s (load_object env buf ld s)"
    and "load_object env buf ld s = Inr (r, s') \<Longrightarrow> mInItr s < mInItr s'"
proof -
  have small: "unat (h AND PyRepOpcodeMask) < 64" for h :: byte
  proof -
    have "h AND PyRepOpcodeMask \<le> PyRepOpcodeMask" by (rule word_and_le1)
    then show ?thesis unfolding word_le_nat_alt PyRepOpcodeMask_def by simp
  qed
  define rest where "rest = (\<lambda>(header, s1 :: ustate).
     ebind (if header AND PyRepSaveMask \<noteq> 0 then GetStorageIndex buf s1 else Inr (0, s1))
       (\<lambda>(storageIndex, s2).
     case (s_mLoadMap env buf ld ! unat (header AND PyRepOpcodeMask)) s2 of
       Inl e \<Rightarrow> Inl (if e = Ret_null \<and> storageIndex \<noteq> 0 then Null_deref else e)
     | Inr (r, s3) \<Rightarrow>
         if storageIndex \<noteq> 0 then ebind (StoreObject storageIndex r s3) (\<lambda>s4. Inr (r, s4))
         else Inr (r, s3)))"
  have store: "sound_at buf t (if i \<noteq> 0 then ebind (StoreObject i r t) (\<lambda>t'. Inr (r, t')) else Inr (r, t))"
    if "mInItr t \<le> length buf" for i r t
    using that by (auto intro!: sound_total [OF total_store(2)] simp: sound_Inr dest!: StoreObject_pos)
  have rest: "sound_at buf s1 (rest (h, s1))" if "Suc (mInItr s) \<le> mInItr s1" "mInItr s1 \<le> length buf" for h s1
    unfolding rest_def prod.case
  proof (rule sound_then)
    show "sound_at buf s1 (if h AND PyRepSaveMask \<noteq> 0 then GetStorageIndex buf s1 else Inr (0, s1))"
      using that by (auto intro!: sound_if sound_GetStorageIndex simp: sound_Inr)
  next
    fix i and s2 :: ustate
    assume s2: "mInItr s1 \<le> mInItr s2" "mInItr s2 \<le> length buf"
    show "sound_at buf s2 (case (i, s2) of (storageIndex, s2) \<Rightarrow>
        case (s_mLoadMap env buf ld ! unat (h AND PyRepOpcodeMask)) s2 of
          Inl e \<Rightarrow> Inl (if e = Ret_null \<and> storageIndex \<noteq> 0 then Null_deref else e)
        | Inr (r, s3) \<Rightarrow>
            if storageIndex \<noteq> 0 then ebind (StoreObject storageIndex r s3) (\<lambda>s4. Inr (r, s4))
            else Inr (r, s3))"
      unfolding prod.case using that s2 assms small
      by (intro sound_case load_op_at store) simp_all
  qed
  have eq: "load_object env buf ld s = ebind (Read8 buf s) rest"
    by (simp add: load_object_def rest_def)
  show "sound_at buf s (load_object env buf ld s)"
    unfolding eq using assms(2) by (intro sound_then [OF sound_Read8] rest) (auto dest: Read8_pos)
  show "mInItr s < mInItr s'" if loaded: "load_object env buf ld s = Inr (r, s')"
  proof -
    obtain x where x: "Read8 buf s = Inr x" "rest x = Inr (r, s')"
      using loaded unfolding eq ebind_Inr_conv by blast
    obtain h s1 where "x = (h, s1)" by (cases x)
    then have r8: "Read8 buf s = Inr (h, s1)" and "rest (h, s1) = Inr (r, s')" using x by simp_all
    moreover have "sound_at buf s (Read8 buf s)" by (rule sound_Read8) (rule assms)
    ultimately show ?thesis
      using rest [of s1 h] Read8_pos [OF r8] by (simp add: sound_at_def)
  qed
qed

end

lemma load_rep_element:
  "element_load buf (Suc (length buf) - fuel) (load_rep env buf fuel)"
proof (induction fuel)
  case 0
  show ?case by unfold_locales (simp_all add: sound_load_def)
next
  case (Suc fuel)
  have bound: "Suc (length buf) - fuel \<le> Suc (mInItr s)" if "Suc (length buf) - Suc fuel \<le> mInItr s" for s :: ustate
    using that by linarith
  show ?case
  proof
    show "sound_load buf (Suc (length buf) - Suc fuel) (load_rep env buf (Suc fuel))"
      unfolding load_rep.simps
      by (intro sound_loadI element_load.load_object_at(1) [OF Suc] bound)
    fix s r and s' :: ustate
    assume "Suc (length buf) - Suc fuel \<le> mInItr s" "mInItr s \<le> length buf"
      "load_rep env buf (Suc fuel) s = Inr (r, s')"
    then show "mInItr s < mInItr s'"
      unfolding load_rep.simps by (intro element_load.load_object_at(2) [OF Suc bound])
  qed
qed

interpretation rep: element_load buf "Suc (length buf) - fuel" "load_rep env buf fuel" for env buf fuel
  by (rule load_rep_element)

text \<open>With fuel for every byte a stream is read to an end, whatever it holds.\<close>

lemma Load_total:
  assumes "length data \<le> fuel"
  shows "total (Load env fuel data)"
proof -
  define s0 where "s0 = \<lparr>mInItr = 0, mStoreIndexItr = None, mStoredObjects = None\<rparr>"
  have store: "total (CreateObjectStore data n m s)" for n m s
    by (auto simp: CreateObjectStore_def intro!: total_intros)
  have pos: "mInItr s' = mInItr s" if "CreateObjectStore data n m s = Inr s'" for n m s and s' :: ustate
    using that by (auto simp: CreateObjectStore_def ebind_Inr_conv split: if_splits)
  have load: "sound_at data s (ebind (load_rep env data fuel s') (\<lambda>(rep, s4).
      Inr (rep, s4\<lparr>mStoreIndexItr := None, mStoredObjects := None\<rparr>)))"
    if "CreateObjectStore data n m s = Inr s'" "0 < mInItr s" "mInItr s \<le> length data" for n m s s'
  proof -
    have "sound_at data s' (ebind (load_rep env data fuel s') (\<lambda>(rep, s4).
        Inr (rep, s4\<lparr>mStoreIndexItr := None, mStoredObjects := None\<rparr>)))"
      using pos [OF that(1)] that assms by (intro sound_then [OF rep.ld_at]) (auto simp: sound_Inr)
    then show ?thesis using pos [OF that(1)] by (auto simp: sound_at_def split: sum.splits)
  qed
  have "sound_at data s0 (LoadStream env data fuel s0)"
    unfolding LoadStream_def
  proof (rule sound_then [OF sound_Read8], simp add: s0_def)
    fix h s1 assume "Read8 data s0 = Inr (h, s1)" and le: "mInItr s1 \<le> length data"
    then have s1: "0 < mInItr s1" by (simp add: Read8_pos)
    show "sound_at data s1 (case (h, s1) of (header, s1) \<Rightarrow>
        if header \<noteq> MarshalHeaderByte then Inl Ret_null else
        ebind (Read32 data s1) (\<lambda>(saveCount, s2).
        ebind (CreateObjectStore data (length data - 5) (unat saveCount) s2) (\<lambda>s3.
        ebind (load_rep env data fuel s3) (\<lambda>(rep, s4).
          Inr (rep, s4\<lparr>mStoreIndexItr := None, mStoredObjects := None\<rparr>)))))"
      using s1 le assms
      by (auto simp: sound_Inl intro!: sound_then [OF sound_Read32] sound_total [OF store] load)
  qed
  then show ?thesis
    by (auto simp: Load_def s0_def [symmetric] sound_at_def total_def ebind_def split: sum.splits)
qed

section \<open>Main results\<close>

text \<open>C32. Reading a stream always returns: whatever bytes the peer sends, \<open>Unmarshal\<close> ends with an
  object, the error return or a failed check, and the length of the input is enough fuel for
  the recursion of the model. So no input makes the reader loop or recurse without end.\<close>

theorem unmarshal_returns: "Unmarshal env data \<noteq> Inl Diverge"
  using Load_total [of data "length data" env] by (simp add: Unmarshal_def total_def)

end
