(* ===== verification/RoundTrip.thy ===== *)
theory RoundTrip
  imports Unmarshal
begin

text \<open>
  Reading back what the writer produced. \<open>wire_ok\<close> describes the objects the format
  carries faithfully, \<open>wire_norm\<close> what is read for them; \<open>reads env r bs\<close> says that the
  bytes \<open>bs\<close>, wherever they stand in a buffer, are read as \<open>r\<close>. The main lemma is that the
  bytes written for an object read as its normal form.
\<close>

section \<open>Bytes at a position\<close>

definition bytes_at :: "bytes \<Rightarrow> nat \<Rightarrow> bytes \<Rightarrow> bool" where
  "bytes_at buf p bs \<longleftrightarrow> p + length bs \<le> length buf \<and> take (length bs) (drop p buf) = bs"

definition adv :: "nat \<Rightarrow> ustate \<Rightarrow> ustate" where
  "adv n s = s\<lparr>mInItr := mInItr s + n\<rparr>"

lemma adv_simps [simp]:
  "mInItr (adv n s) = mInItr s + n" "adv m (adv n s) = adv (n + m) s" "adv 0 s = s"
  by (simp_all add: adv_def add.assoc)

lemma bytes_at_append [simp]:
  "bytes_at buf p (as @ bs) \<longleftrightarrow> bytes_at buf p as \<and> bytes_at buf (p + length as) bs"
proof -
  have *: "take (length as + length bs) (drop p buf) =
      take (length as) (drop p buf) @ take (length bs) (drop (p + length as) buf)"
    by (simp add: take_add add.commute)
  show ?thesis
  proof (cases "p + length as + length bs \<le> length buf")
    case True
    then have "length (take (length as) (drop p buf)) = length as" by simp
    then show ?thesis
      unfolding bytes_at_def length_append * by (auto simp: add.assoc append_eq_append_conv)
  next
    case False
    then show ?thesis by (simp add: bytes_at_def)
  qed
qed

lemma bytes_at_Cons:
  "bytes_at buf p (b # bs) \<longleftrightarrow> bytes_at buf p [b] \<and> bytes_at buf (Suc p) bs"
  using bytes_at_append [of buf p "[b]" bs] by (simp del: bytes_at_append)

lemma bytes_at_self: "bytes_at bs 0 bs"
  by (simp add: bytes_at_def)

lemma ReadN_at:
  "bytes_at buf (mInItr s) bs \<Longrightarrow> n = length bs \<Longrightarrow> ReadN buf n s = Inr (bs, adv n s)"
  by (simp add: bytes_at_def ReadN_def iter_add_def adv_def)

lemmas ReadN_length = ReadN_at [OF _ refl]

lemma Read8_at: "bytes_at buf (mInItr s) [b] \<Longrightarrow> Read8 buf s = Inr (b, adv 1 s)"
  by (simp add: Read8_def ReadN_at)

lemma Read32_at: "bytes_at buf (mInItr s) (le_bytes 4 w) \<Longrightarrow> Read32 buf s = Inr (w, adv 4 s)"
  by (simp add: Read32_def ReadN_at)

lemma Peek8_at:
  assumes "bytes_at buf (mInItr s) [b]"
  shows "Peek8 buf s = Inr b"
proof -
  have le: "Suc (mInItr s) \<le> length buf" and "take 1 (drop (mInItr s) buf) = [b]"
    using assms by (simp_all add: bytes_at_def)
  moreover have "1 \<le> length buf - mInItr s" using le by linarith
  ultimately show ?thesis by (simp add: Peek8_def iter_deref_def)
qed

lemma small_size_byte:
  assumes "n < (0xFF :: int32)"
  shows "unat (ucast n :: byte) = unat n" "(ucast n :: byte) \<noteq> 0xFF"
proof -
  have "unat n < 255" using assms by (simp add: word_less_nat_alt)
  then show u: "unat (ucast n :: byte) = unat n"
    by (simp add: unsigned_ucast_eq take_bit_nat_eq_self)
  show "(ucast n :: byte) \<noteq> 0xFF"
    using u \<open>unat n < 255\<close> by auto
qed

lemma ReadSizeEx_at:
  assumes "bytes_at buf (mInItr s) (PutSizeEx n)"
  shows "ReadSizeEx buf s = Inr (unat n, adv (length (PutSizeEx n)) s)"
proof (cases "n < 0xFF")
  case True
  then show ?thesis
    using assms small_size_byte [OF True] by (simp add: PutSizeEx_def ReadSizeEx_def Read8_at)
next
  case False
  then have "bytes_at buf (mInItr s) [0xFF]" "bytes_at buf (Suc (mInItr s)) (le_bytes 4 n)"
    using assms bytes_at_Cons [of buf "mInItr s" "0xFF" "le_bytes 4 n"] by (simp_all add: PutSizeEx_def)
  then show ?thesis
    using False by (simp add: PutSizeEx_def ReadSizeEx_def Read8_at Read32_at)
qed

section \<open>The interface of a codec\<close>

text \<open>
  A decoder inverts an encoder when it reads the encoding of a valid value at the
  position of the stream and moves past it. Sequences of encodings are then decoded one
  after the other.
\<close>

locale wire_codec =
  fixes enc :: "'a \<Rightarrow> bytes" and dec :: "bytes \<Rightarrow> 'a load" and valid :: "'a \<Rightarrow> bool"
  assumes dec_enc: "valid x \<Longrightarrow> bytes_at buf (mInItr s) (enc x) \<Longrightarrow>
    dec buf s = Inr (x, adv (length (enc x)) s)"
begin

lemma dec_bind:
  "valid x \<Longrightarrow> bytes_at buf (mInItr s) (enc x @ rest) \<Longrightarrow>
   ebind (dec buf s) f = f (x, adv (length (enc x)) s) \<and>
   bytes_at buf (mInItr (adv (length (enc x)) s)) rest"
  using dec_enc by simp

lemma enc_inj: "valid x \<Longrightarrow> valid y \<Longrightarrow> enc x = enc y \<Longrightarrow> x = y"
  using dec_enc [of x "enc x" "\<lparr>mInItr = 0, mStoreIndexItr = None, mStoredObjects = None\<rparr>"]
    dec_enc [of y "enc x" "\<lparr>mInItr = 0, mStoreIndexItr = None, mStoredObjects = None\<rparr>"]
  by (simp add: bytes_at_self)

lemma dec_two:
  "valid x \<Longrightarrow> valid y \<Longrightarrow> bytes_at buf (mInItr s) (enc x @ enc y) \<Longrightarrow>
   ebind (dec buf s) (\<lambda>(a, t). ebind (dec buf t) (\<lambda>(b, u). Inr ((a, b), u))) =
     Inr ((x, y), adv (length (enc x @ enc y)) s)"
  using dec_enc by simp

end

interpretation u8: wire_codec "\<lambda>b. [b]" Read8 "\<lambda>_. True"
  by unfold_locales (simp add: Read8_at)

interpretation u32: wire_codec "le_bytes 4" Read32 "\<lambda>_. True"
  by unfold_locales (simp add: Read32_at)

interpretation sizeEx: wire_codec "\<lambda>n. PutSizeEx (word_of_nat n)" ReadSizeEx "\<lambda>n. n < 2 ^ 32"
  by unfold_locales (simp add: ReadSizeEx_at unsigned_of_nat take_bit_nat_eq_self)

interpretation chunk: wire_codec "\<lambda>bs. PutSizeEx (word_of_nat (length bs)) @ bs" ReadSized
    "\<lambda>bs. length bs < 2 ^ 32"
proof (unfold_locales, goal_cases)
  case (1 bs buf s)
  then show ?case
    using sizeEx.dec_enc [OF 1(1), of buf s] by (simp add: ReadSized_def ReadN_length)
qed

section \<open>Objects the format carries\<close>

definition long_ok :: "int64 \<Rightarrow> bool" where
  "long_ok l \<longleftrightarrow> (0 < integer_size l \<and> integer_size l < 7 \<longrightarrow> le_bytes 8 l ! 7 = 0)"

definition string_ok :: "bytes \<Rightarrow> bool" where
  "string_ok s \<longleftrightarrow> length s < 2 ^ 32 \<and> (2 \<le> length s \<longrightarrow> table_exact s)"

definition marshalled :: "bytes option \<Rightarrow> pyrep option \<Rightarrow> bytes option" where
  "marshalled data decoded =
     (case data of Some bs \<Rightarrow> Some bs
      | None \<Rightarrow> (case decoded of None \<Rightarrow> None
                | Some r \<Rightarrow> (case Marshal r of Inr bs \<Rightarrow> Some bs | Inl _ \<Rightarrow> None)))"

fun wire_norm :: "pyrep \<Rightarrow> pyrep" where
  "wire_norm (PyFloat d) = PyFloat (if dbl_is_zero d then 0 else d)"
| "wire_norm (PyTuple xs) = PyTuple (map wire_norm xs)"
| "wire_norm (PyList xs) = PyList (map wire_norm xs)"
| "wire_norm (PyDict es) = PyDict (map (\<lambda>(k, v). (wire_norm k, wire_norm v)) es)"
| "wire_norm (PyObject ty args) = PyObject ty (wire_norm args)"
| "wire_norm (PyObjectEx ty2 header xs es) =
     PyObjectEx ty2 (wire_norm header) (map wire_norm xs)
       (map (\<lambda>(k, v). (wire_norm k, wire_norm v)) es)"
| "wire_norm (PySubStruct r) = PySubStruct (wire_norm r)"
| "wire_norm (PySubStream data decoded) = PySubStream (marshalled data decoded) None"
| "wire_norm r = r"

fun wire_ok :: "env \<Rightarrow> nat \<Rightarrow> pyrep \<Rightarrow> bool" where
  "wire_ok env depth PyNull = False"
| "wire_ok env depth (PyLong l) = long_ok l"
| "wire_ok env depth (PyBuffer bs) = (length bs < 2 ^ 32)"
| "wire_ok env depth (PyString s) = string_ok s"
| "wire_ok env depth (PyWString s) = (length s < 2 ^ 32)"
| "wire_ok env depth (PyToken s) = (length s < 255)"
| "wire_ok env depth (PyTuple xs) =
     (depth < kMaxDepth \<and> length xs < 2 ^ 32 \<and> list_all (\<lambda>x. wire_ok env (Suc depth) x) xs)"
| "wire_ok env depth (PyList xs) =
     (depth < kMaxDepth \<and> length xs < 2 ^ 32 \<and> list_all (\<lambda>x. wire_ok env (Suc depth) x) xs)"
| "wire_ok env depth (PyDict es) =
     (depth < kMaxDepth \<and> length es < 2 ^ 32 \<and> dict_ok env es \<and>
      list_all (\<lambda>(k, v). wire_ok env depth k \<and> wire_ok env depth v) es)"
| "wire_ok env depth (PyObject ty args) =
     (depth < kMaxDepth \<and> string_ok ty \<and> wire_ok env (Suc depth) args)"
| "wire_ok env depth (PyObjectEx ty2 header xs es) =
     (depth < kMaxDepth \<and> wire_ok env depth header \<and> list_all (\<lambda>x. wire_ok env depth x) xs \<and>
      dict_ok env es \<and> list_all (\<lambda>(k, v). wire_ok env depth k \<and> wire_ok env depth v) es)"
| "wire_ok env depth (PyPackedRow header fs) = False"
| "wire_ok env depth (PySubStruct r) = (depth < kMaxDepth \<and> wire_ok env (Suc depth) r)"
| "wire_ok env depth (PySubStream data decoded) =
     (depth < kMaxDepth \<and>
      (case marshalled data decoded of None \<Rightarrow> False | Some bs \<Rightarrow> length bs < 2 ^ 32))"
| "wire_ok env depth (PyChecksumedStream r checksum) = False"
| "wire_ok env depth _ = True"

section \<open>Hashes and normal forms\<close>

lemma hash_items_map: "hash_items h x m (map f xs) = hash_items (\<lambda>i. h (f i)) x m xs"
  by (induction xs arbitrary: x m) (simp_all cong: if_cong)

lemma real_hash_zero:
  assumes "dbl_is_zero d"
  shows "real_hash env d = 0"
proof -
  have z: "\<not> bit d i" if "i < 63" for i
  proof -
    have "bit (take_bit 63 d) i = (i < 63 \<and> bit d i)" by (simp add: bit_take_bit_iff)
    then show ?thesis using assms that by (simp add: dbl_is_zero_def)
  qed
  have "take_bit 11 (drop_bit 52 d) = 0"
    by (rule bit_word_eqI) (simp add: bit_take_bit_iff bit_drop_bit_eq z)
  moreover have "take_bit 52 d = 0"
    by (rule bit_word_eqI) (simp add: bit_take_bit_iff z)
  ultimately have "dbl_field d = 0" "dbl_fraction d = 0"
    by (simp_all add: dbl_field_def dbl_fraction_def)
  then show ?thesis
    by (simp add: real_hash_def dbl_nan_def dbl_infinite_def dbl_integral_def dbl_trunc_def
        dbl_mantissa_def Let_def no_minus_one_def)
qed

lemma py_hash_norm: "py_hash env (wire_norm r) = py_hash env r"
proof (induction env r rule: py_hash.induct)
  case (3 env d)
  have "dbl_is_zero 0" by (simp add: dbl_is_zero_def)
  then show ?case by (simp add: real_hash_zero)
next
  case (8 env xs)
  then show ?case by (simp add: hash_items_map cong: hash_items_cong)
qed simp_all

lemma wire_norm_PyNull [simp]: "wire_norm r = PyNull \<longleftrightarrow> r = PyNull"
  by (cases r) simp_all

lemma dict_ok_norm:
  "dict_ok env (map (\<lambda>(k, v). (wire_norm k, wire_norm v)) es) = dict_ok env es"
  by (auto simp: dict_ok_def py_hash_norm list_all_iff comp_def split_beta)

text \<open>Entries of a well-formed dictionary are inserted one after the other.\<close>

lemma Dict_SetItem_next:
  assumes "dict_ok env (es @ (k, v) # fs)"
  shows "Dict_SetItem env es k v = Inr (es @ [(k, v)])"
proof -
  obtain h where h: "py_hash env k = Inr h" "h \<noteq> - 1" and "k \<noteq> PyNull"
    using assms by (auto simp: dict_ok_def)
  moreover have "Inr h \<notin> (\<lambda>e. py_hash env (fst e)) ` set es"
    using assms h by (simp add: dict_ok_def)
  then have "find_hash env h es = None"
    by (force simp: find_hash_None)
  ultimately show ?thesis by (simp add: Dict_SetItem_def)
qed

section \<open>Encodings that read as a value\<close>

definition reads :: "env \<Rightarrow> pyrep \<Rightarrow> bytes \<Rightarrow> bool" where
  "reads env r bs \<longleftrightarrow> bs \<noteq> [] \<and> hd bs \<noteq> Op_PackedTerminator \<and>
     (\<forall>buf s fuel. bytes_at buf (mInItr s) bs \<longrightarrow> length bs \<le> fuel \<longrightarrow>
        load_rep env buf fuel s = Inr (r, adv (length bs) s))"

lemma load_object_op:
  assumes "bytes_at buf (mInItr s) [op]" "op AND PyRepSaveMask = 0"
  shows "load_object env buf ld s = (s_mLoadMap env buf ld ! unat (op AND PyRepOpcodeMask)) (adv 1 s)"
  using assms by (simp add: load_object_def Read8_at split: sum.split)

lemma readsI:
  assumes op: "op AND PyRepSaveMask = 0" "op \<noteq> Op_PackedTerminator"
    and load: "\<And>buf s fuel. bytes_at buf (mInItr s) bs \<Longrightarrow> length bs \<le> fuel \<Longrightarrow>
      (s_mLoadMap env buf (load_rep env buf fuel) ! unat (op AND PyRepOpcodeMask)) s =
        Inr (r, adv (length bs) s)"
  shows "reads env r (op # bs)"
  unfolding reads_def
proof (intro conjI allI impI)
  fix buf fuel and s :: ustate
  assume at: "bytes_at buf (mInItr s) (op # bs)" and "length (op # bs) \<le> fuel"
  then obtain f where f: "fuel = Suc f" "length bs \<le> f" by (cases fuel) auto
  have "bytes_at buf (mInItr s) [op]" "bytes_at buf (mInItr (adv 1 s)) bs"
    using iffD1 [OF bytes_at_Cons at] by simp_all
  then show "load_rep env buf fuel s = Inr (r, adv (length (op # bs)) s)"
    using f load op(1) by (simp add: load_object_op)
qed (use op in simp_all)

lemma load_map:
  "s_mLoadMap env buf ld ! Suc 0 = load_value PyNone"
  "s_mLoadMap env buf ld ! 2 = load_short buf PyToken"
  "s_mLoadMap env buf ld ! 3 = load_word buf 8 (\<lambda>bs. PyLong (le_word bs))"
  "s_mLoadMap env buf ld ! 4 = load_word buf 4 (\<lambda>bs. PyInt (le_word bs))"
  "s_mLoadMap env buf ld ! 5 = load_word buf 2 (\<lambda>bs. PyInt (scast (le_word bs :: int16)))"
  "s_mLoadMap env buf ld ! 6 = load_word buf 1 (\<lambda>bs. PyInt (scast (le_word bs :: int8)))"
  "s_mLoadMap env buf ld ! 7 = load_value (PyInt (- 1))"
  "s_mLoadMap env buf ld ! 8 = load_value (PyInt 0)"
  "s_mLoadMap env buf ld ! 9 = load_value (PyInt 1)"
  "s_mLoadMap env buf ld ! 10 = load_word buf 8 (\<lambda>bs. PyFloat (le_word bs))"
  "s_mLoadMap env buf ld ! 11 = load_value (PyFloat 0)"
  "s_mLoadMap env buf ld ! 13 = load_sized buf PyBuffer"
  "s_mLoadMap env buf ld ! 14 = load_value (PyString [])"
  "s_mLoadMap env buf ld ! 15 = load_word buf 1 PyString"
  "s_mLoadMap env buf ld ! 17 = LoadStringTable buf"
  "s_mLoadMap env buf ld ! 19 = load_sized buf PyString"
  "s_mLoadMap env buf ld ! 20 = load_counted ld buf PyTuple"
  "s_mLoadMap env buf ld ! 21 = load_counted ld buf PyList"
  "s_mLoadMap env buf ld ! 22 = LoadDict env ld buf"
  "s_mLoadMap env buf ld ! 23 = LoadObject ld"
  "s_mLoadMap env buf ld ! 25 = load_items ld 1 (\<lambda>rs. PySubStruct (hd rs))"
  "s_mLoadMap env buf ld ! 31 = load_value (PyBool True)"
  "s_mLoadMap env buf ld ! 32 = load_value (PyBool False)"
  "s_mLoadMap env buf ld ! 34 = LoadObjectEx env ld buf False"
  "s_mLoadMap env buf ld ! 35 = LoadObjectEx env ld buf True"
  "s_mLoadMap env buf ld ! 36 = load_value (PyTuple [])"
  "s_mLoadMap env buf ld ! 37 = load_items ld 1 PyTuple"
  "s_mLoadMap env buf ld ! 38 = load_value (PyList [])"
  "s_mLoadMap env buf ld ! 39 = load_items ld 1 PyList"
  "s_mLoadMap env buf ld ! 40 = load_value (PyWString [])"
  "s_mLoadMap env buf ld ! 43 = load_sized buf (\<lambda>bs. PySubStream (Some bs) None)"
  "s_mLoadMap env buf ld ! 44 = load_items ld 2 PyTuple"
  "s_mLoadMap env buf ld ! 46 = load_sized buf PyWString"
  "s_mLoadMap env buf ld ! 47 = LoadIntegerVar buf"
  by (simp_all add: s_mLoadMap_def)

lemmas op_simps = load_map PyRepSaveMask_def PyRepOpcodeMask_def

lemma reads_value:
  "reads env PyNone [Op_PyNone]" "reads env (PyBool True) [Op_PyTrue]"
  "reads env (PyBool False) [Op_PyFalse]" "reads env (PyInt (- 1)) [Op_PyMinusOne]"
  "reads env (PyInt 0) [Op_PyZeroInteger]" "reads env (PyInt 1) [Op_PyOneInteger]"
  "reads env (PyFloat 0) [Op_PyZeroReal]" "reads env (PyString []) [Op_PyEmptyString]"
  "reads env (PyWString []) [Op_PyEmptyWString]" "reads env (PyTuple []) [Op_PyEmptyTuple]"
  "reads env (PyList []) [Op_PyEmptyList]"
  by (rule readsI; simp add: op_simps load_value_def)+

lemma load_word_at:
  "bytes_at buf (mInItr s) bs \<Longrightarrow> n = length bs \<Longrightarrow>
   load_word buf n f s = Inr (f bs, adv n s)"
  by (simp add: load_word_def ReadN_at)

lemma load_sized_at:
  assumes "length bs < 2 ^ 32" "bytes_at buf (mInItr s) (PutSizeEx (word_of_nat (length bs)) @ bs)"
  shows "load_sized buf f s = Inr (f bs, adv (length (PutSizeEx (word_of_nat (length bs)) @ bs)) s)"
  unfolding load_sized_def using chunk.dec_enc [OF assms] by simp

lemma reads_sized:
  assumes "length bs < 2 ^ 32" "op AND PyRepSaveMask = 0" "op \<noteq> Op_PackedTerminator"
    and "\<And>buf ld. s_mLoadMap env buf ld ! unat (op AND PyRepOpcodeMask) = load_sized buf f"
  shows "reads env (f bs) (sized op bs)"
  unfolding sized_def by (intro readsI assms(2,3)) (simp only: assms(4) load_sized_at [OF assms(1)])

lemma le_word_low:
  fixes w :: "'a::len word"
  assumes "LENGTH('b) = 8 * n" "LENGTH('b) \<le> LENGTH('a)"
  shows "le_word (le_bytes n w) = (ucast w :: 'b::len word)"
proof (rule bit_word_eqI)
  fix i assume i: "i < LENGTH('b)"
  then have "i div 8 < n" using assms by linarith
  moreover have "8 * (i div 8) + i mod 8 = i" by simp
  ultimately show "bit (le_word (le_bytes n w) :: 'b word) i = bit (ucast w :: 'b word) i"
    using i assms by (simp add: bit_le_word nth_le_bytes bit_ucast_iff bit_drop_bit_eq)
qed

lemma scast_ucast_small:
  fixes w :: "'a::len word"
  assumes "LENGTH('b::len) = Suc n" "LENGTH('b) \<le> LENGTH('a)" "- (2 ^ n) \<le> sint w" "sint w < 2 ^ n"
  shows "scast (ucast w :: 'b word) = w"
proof -
  have "(ucast w :: 'b word) = word_of_int (sint w)"
    by (rule bit_word_eqI, unfold bit_ucast_iff bit_word_of_int_iff bit_sint_iff) (use assms(2) in auto)
  then have "sint (ucast w :: 'b word) = sint w"
    using assms by (simp only: signed_of_int) (simp add: signed_take_bit_int_eq_self)
  then show ?thesis by (simp add: scast_eq)
qed

lemma sint_offset:
  fixes i :: int32
  assumes "uint (i + word_of_int m) < 2 * m" "0 < m" "m \<le> 2 ^ 15"
  shows "- m \<le> sint i" "sint i < m"
proof -
  have "uint (i + word_of_int m) = (sint i + m) mod 2 ^ 32"
  proof -
    have "i + word_of_int m = word_of_int (sint i + m)" by simp
    then show ?thesis by (simp only: unsigned_of_int take_bit_eq_mod) simp
  qed
  moreover have "- (2 ^ 31) \<le> sint i" "sint i < 2 ^ 31"
    using sint_ge [of i] sint_less [of i] by simp_all
  moreover have "x mod 2 ^ 32 = (if x < 0 then x + 2 ^ 32 else x)" if "- (2 ^ 32) \<le> x" "x < 2 ^ 32" for x :: int
  proof (cases "x < 0")
    case True
    have "x mod 2 ^ 32 = (x + 2 ^ 32) mod 2 ^ 32" by simp
    also have "\<dots> = x + 2 ^ 32" using True that by (intro mod_pos_pos_trivial) linarith+
    finally show ?thesis using True by simp
  qed (use that in simp)
  ultimately show "- m \<le> sint i" "sint i < m"
    using assms by (simp_all split: if_splits)
qed

lemma reads_VisitInteger: "reads env (PyInt i) (VisitInteger i)"
proof -
  consider "i = - 1" | "i = 0" | "i = 1" | "i \<notin> {- 1, 0, 1}" "i + 0x8000 > 0xFFFF"
    | "i \<notin> {- 1, 0, 1}" "\<not> i + 0x8000 > 0xFFFF" "i + 0x80 > 0xFF"
    | "i \<notin> {- 1, 0, 1}" "\<not> i + 0x8000 > 0xFFFF" "\<not> i + 0x80 > 0xFF"
    by blast
  then show ?thesis
  proof cases
    case 4
    have "reads env (PyInt i) (Op_PyLong # le_bytes 4 i)"
      by (rule readsI) (simp_all add: op_simps load_word_at)
    then show ?thesis using 4 by (simp add: VisitInteger_def)
  next
    case 5
    have "uint (i + word_of_int 0x8000) < 2 * 0x8000"
      using 5(2) by (simp add: not_less word_le_def)
    then have "scast (le_word (le_bytes 2 i) :: int16) = i"
      using sint_offset [of i "0x8000"] by (subst le_word_low) (auto intro!: scast_ucast_small [of 15])
    then have "reads env (PyInt i) (Op_PySignedShort # le_bytes 2 i)"
      by (intro readsI) (simp_all add: op_simps load_word_at)
    then show ?thesis using 5 by (simp add: VisitInteger_def)
  next
    case 6
    have "uint (i + word_of_int 0x80) < 2 * 0x80"
      using 6(3) by (simp add: not_less word_le_def)
    then have "scast (le_word (le_bytes 1 i) :: int8) = i"
      using sint_offset [of i "0x80"] by (subst le_word_low) (auto intro!: scast_ucast_small [of 7])
    then have "reads env (PyInt i) (Op_PyByte # le_bytes 1 i)"
      by (intro readsI) (simp_all only: op_simps load_word_at, simp_all add: op_simps load_word_at)
    then show ?thesis using 6 by (simp add: VisitInteger_def)
  qed (simp_all add: VisitInteger_def reads_value)
qed

lemma le_word_append_zeros: "le_word (bs @ replicate k 0) = (le_word bs :: 'a::len word)"
proof (rule bit_word_eqI)
  fix i assume "i < LENGTH('a)"
  have "bit ((bs @ replicate k 0) ! (i div 8)) (i mod 8) \<longleftrightarrow>
      i div 8 < length bs \<and> bit (bs ! (i div 8)) (i mod 8)" if "i div 8 < length bs + k"
    using that by (auto simp: nth_append)
  then show "bit (le_word (bs @ replicate k 0) :: 'a word) i = bit (le_word bs :: 'a word) i"
    by (auto simp: bit_le_word less_mult_imp_div_less div_less_iff_less_mult mult.commute)
qed

lemma upper_zeros:
  assumes "\<And>i. n \<le> i \<Longrightarrow> i < 8 \<Longrightarrow> le_bytes 8 l ! i = 0" "n \<le> 8"
  shows "le_word (take n (le_bytes 8 l)) = (l :: int64)"
proof -
  have "drop n (le_bytes 8 l) = replicate (8 - n) 0"
    using assms by (intro nth_equalityI) simp_all
  then have "le_bytes 8 l = take n (le_bytes 8 l) @ replicate (8 - n) 0"
    by (metis append_take_drop_id)
  then have "le_word (take n (le_bytes 8 l)) = (le_word (le_bytes 8 l) :: int64)"
    by (metis le_word_append_zeros)
  then show ?thesis by simp
qed

lemma integer_size_upper:
  assumes "long_ok l" "0 < integer_size l" "integer_size l < 7" "integer_size l \<le> i" "i < 8"
  shows "le_bytes 8 l ! i = 0"
proof -
  have seven: "le_bytes 8 l ! 7 = 0" using assms by (simp add: long_ok_def)
  have six: "le_bytes 8 l ! 6 = 0"
    using assms(3) by (auto simp: integer_size_def split: if_splits)
  have five: "integer_size l = 5 \<Longrightarrow> le_bytes 8 l ! 5 = 0"
    by (auto simp: integer_size_def split: if_splits)
  have "integer_size l \<in> {5, 6}"
    using assms(2,3) by (auto simp: integer_size_def split: if_splits)
  then have "i \<in> {6, 7} \<or> (integer_size l = 5 \<and> i = 5)" using assms(4,5) by auto
  then show ?thesis using seven six five by auto
qed

text \<open>What a long written with the variable-length encoding reads as.\<close>

lemma le_word_take: "n \<le> 8 \<Longrightarrow> le_word (take n (le_bytes 8 l)) = take_bit (8 * n) (l :: int64)"
  by (rule bit_word_eqI)
    (auto simp: bit_le_word bit_take_bit_iff nth_le_bytes bit_ucast_iff bit_drop_bit_eq)

lemma reads_VarInteger:
  assumes "0 < integer_size l" "integer_size l < 7"
  shows "reads env (PyLong (take_bit (8 * integer_size l) l)) (SaveVarInteger l)"
proof -
  define n where "n = integer_size l"
  have n: "4 < n" "n < 7" "n \<le> 8"
    using assms by (auto simp: n_def integer_size_def split: if_splits)
  have size: "unat (word_of_nat n :: int32) = n"
    using n by (simp add: unsigned_of_nat take_bit_nat_eq_self)
  have "LoadIntegerVar buf s = Inr (PyLong (le_word (take n (le_bytes 8 l))),
      adv (length (PutSizeEx (word_of_nat n) @ take n (le_bytes 8 l))) s)"
    if "bytes_at buf (mInItr s) (PutSizeEx (word_of_nat n) @ take n (le_bytes 8 l))" for buf s
    using that n ReadSizeEx_at [of buf s "word_of_nat n"]
      ReadN_at [of buf "adv (length (PutSizeEx (word_of_nat n))) s" "take n (le_bytes 8 l)" n]
    by (simp add: LoadIntegerVar_def size)
  then have "reads env (PyLong (le_word (take n (le_bytes 8 l))))
      (Op_PyVarInteger # PutSizeEx (word_of_nat n) @ take n (le_bytes 8 l))"
    by (intro readsI) (simp_all add: op_simps)
  then show ?thesis using assms n by (simp add: SaveVarInteger_def n_def Let_def le_word_take)
qed

lemma reads_SaveVarInteger:
  assumes "long_ok l"
  shows "reads env (PyLong l) (SaveVarInteger l)"
proof (cases "0 < integer_size l \<and> integer_size l < 7")
  case True
  then have "take_bit (8 * integer_size l) l = l"
    using assms integer_size_upper [of l] upper_zeros [of "integer_size l" l] le_word_take [of "integer_size l" l]
    by simp
  then show ?thesis using True reads_VarInteger [of l env] by simp
next
  case False
  have "reads env (PyLong l) (Op_PyLongLong # le_bytes 8 l)"
    by (rule readsI) (simp_all add: op_simps load_word_at)
  then show ?thesis using False by (auto simp: SaveVarInteger_def Let_def)
qed

lemma reads_VisitReal: "reads env (wire_norm (PyFloat d)) (VisitReal d)"
proof -
  have "reads env (PyFloat d) (Op_PyReal # le_bytes 8 d)"
    by (rule readsI) (simp_all add: op_simps load_word_at)
  then show ?thesis by (simp add: VisitReal_def reads_value)
qed

lemma reads_VisitString:
  assumes "string_ok s"
  shows "reads env (PyString s) (VisitString s)"
proof -
  consider "s = []" | b where "s = [b]" | "2 \<le> length s" "LookupIndex s \<noteq> 0" | "2 \<le> length s" "LookupIndex s = 0"
    by (cases s rule: remdups_adj.cases) auto
  then show ?thesis
  proof cases
    case (2 b)
    have "reads env (PyString [b]) [Op_PyCharString, b]"
      by (rule readsI) (simp_all add: op_simps load_word_at)
    then show ?thesis using 2 by (simp add: VisitString_def)
  next
    case 3
    then have "LookupString (LookupIndex s) = Some s"
      using assms by (simp add: string_ok_def table_exact_def)
    then have "reads env (PyString s) [Op_PyStringTableItem, LookupIndex s]"
      by (intro readsI) (simp_all add: op_simps LoadStringTable_def Read8_at)
    then show ?thesis using 3 by (auto simp: VisitString_def word_gt_0)
  next
    case 4
    have "reads env (PyString s) (sized Op_PyLongString s)"
      using assms by (intro reads_sized) (simp_all add: op_simps string_ok_def)
    then show ?thesis using 4 by (auto simp: VisitString_def)
  qed (simp add: VisitString_def reads_value)
qed

lemma reads_VisitWString:
  "length s < 2 ^ 32 \<Longrightarrow> reads env (PyWString s) (VisitWString s)"
  using reads_sized [of s Op_PyWStringUTF8 env PyWString]
  by (simp add: VisitWString_def reads_value op_simps)

lemma reads_token:
  assumes "length s < 255"
  shows "reads env (PyToken s) (sized Op_PyToken s)"
proof -
  have "(word_of_nat (length s) :: int32) < 0xFF"
    using assms by (simp add: word_less_nat_alt unsigned_of_nat take_bit_nat_eq_self)
  then have "PutSizeEx (word_of_nat (length s)) = [word_of_nat (length s)]"
    by (simp add: PutSizeEx_def) (rule bit_word_eqI, simp add: bit_ucast_iff bit_of_nat_iff)
  moreover have "unat (word_of_nat (length s) :: byte) = length s"
    using assms by (simp add: unsigned_of_nat take_bit_nat_eq_self)
  then have "load_short buf PyToken t = Inr (PyToken s, adv (length (word_of_nat (length s) # s)) t)"
    if "bytes_at buf (mInItr t) (word_of_nat (length s) # s)" for buf t
  proof -
    have "bytes_at buf (mInItr t) [word_of_nat (length s)]" "bytes_at buf (mInItr (adv 1 t)) s"
      using iffD1 [OF bytes_at_Cons that] by simp_all
    note steps = Read8_at [OF this(1)] ReadN_length [OF this(2)]
    show ?thesis
      using steps \<open>unat (word_of_nat (length s) :: byte) = length s\<close> by (simp add: load_short_def)
  qed
  ultimately show ?thesis
    unfolding sized_def by (intro readsI) (simp_all add: op_simps)
qed

section \<open>The writer's bytes read back\<close>

lemma load_n_reads:
  "list_all2 (reads env) rs bss \<Longrightarrow> bytes_at buf (mInItr s) (concat bss) \<Longrightarrow>
   length (concat bss) \<le> fuel \<Longrightarrow>
   load_n (load_rep env buf fuel) (length rs) s = Inr (rs, adv (length (concat bss)) s)"
proof (induction rs bss arbitrary: s rule: list_all2_induct)
  case (Cons r rs bs bss)
  have "load_rep env buf fuel s = Inr (r, adv (length bs) s)"
    using Cons by (auto simp: reads_def)
  moreover have "load_n (load_rep env buf fuel) (length rs) (adv (length bs) s) =
      Inr (rs, adv (length (concat bss)) (adv (length bs) s))"
    using Cons.prems by (intro Cons.IH) simp_all
  ultimately show ?case by simp
qed simp

lemma load_items_reads:
  assumes "list_all2 (reads env) rs bss" "bytes_at buf (mInItr s) (concat bss)"
    "length (concat bss) \<le> fuel" "n = length rs"
  shows "load_items (load_rep env buf fuel) n f s = Inr (f rs, adv (length (concat bss)) s)"
  using load_n_reads [OF assms(1-3)] assms(4) by (simp add: load_items_def)

lemma load_counted_reads:
  assumes "list_all2 (reads env) rs bss" "length rs < 2 ^ 32"
    "bytes_at buf (mInItr s) (PutSizeEx (word_of_nat (length rs)) @ concat bss)"
    "length (PutSizeEx (word_of_nat (length rs)) @ concat bss) \<le> fuel"
  shows "load_counted (load_rep env buf fuel) buf f s =
    Inr (f rs, adv (length (PutSizeEx (word_of_nat (length rs)) @ concat bss)) s)"
  using sizeEx.dec_enc [OF assms(2), of buf s] assms
  by (simp add: load_counted_def load_items_reads)

lemma small_count:
  assumes "m < 3" "n < 2 ^ 32"
  shows "(word_of_nat n :: int32) = word_of_nat m \<longleftrightarrow> n = m"
proof
  assume "(word_of_nat n :: int32) = word_of_nat m"
  then have "unat (word_of_nat n :: int32) = unat (word_of_nat m :: int32)" by simp
  then show "n = m" using assms by (simp only: unsigned_of_nat) (simp add: take_bit_nat_eq_self)
qed simp

lemma reads_tuple:
  assumes "list_all2 (reads env) rs bss" "length rs < 2 ^ 32"
  shows "reads env (PyTuple rs) (tuple_header (length rs) @ concat bss)"
proof -
  consider "rs = []" | "length rs = 1" | "length rs = 2" | "2 < length rs"
    by (cases rs rule: remdups_adj.cases) (auto simp: Suc_lessI)
  then show ?thesis
  proof cases
    case 1
    then show ?thesis using assms by (simp add: tuple_header_def reads_value)
  next
    case 2
    have "reads env (PyTuple rs) (Op_PyOneTuple # concat bss)"
      using assms 2 by (intro readsI) (simp_all add: op_simps load_items_reads)
    then show ?thesis using 2 by (simp add: tuple_header_def)
  next
    case 3
    have "reads env (PyTuple rs) (Op_PyTwoTuple # concat bss)"
      using assms 3 by (intro readsI) (simp_all add: op_simps load_items_reads)
    then show ?thesis using 3 by (simp add: tuple_header_def)
  next
    case 4
    have "reads env (PyTuple rs) (Op_PyTuple # PutSizeEx (word_of_nat (length rs)) @ concat bss)"
      using assms by (intro readsI) (simp_all only: op_simps load_counted_reads, simp_all add: op_simps load_counted_reads)
    then show ?thesis
      using 4 assms(2) small_count [of 0 "length rs"] small_count [of 1 "length rs"] small_count [of 2 "length rs"]
      by (auto simp: tuple_header_def Let_def)
  qed
qed

lemma reads_list:
  assumes "list_all2 (reads env) rs bss" "length rs < 2 ^ 32"
  shows "reads env (PyList rs) (list_header (length rs) @ concat bss)"
proof -
  consider "rs = []" | "length rs = 1" | "1 < length rs"
    by (cases rs rule: remdups_adj.cases) (auto simp: Suc_lessI)
  then show ?thesis
  proof cases
    case 1
    then show ?thesis using assms by (simp add: list_header_def reads_value)
  next
    case 2
    have "reads env (PyList rs) (Op_PyOneList # concat bss)"
      using assms 2 by (intro readsI) (simp_all add: op_simps load_items_reads)
    then show ?thesis using 2 by (simp add: list_header_def)
  next
    case 3
    have "reads env (PyList rs) (Op_PyList # PutSizeEx (word_of_nat (length rs)) @ concat bss)"
      using assms by (intro readsI) (simp_all add: op_simps load_counted_reads)
    then show ?thesis
      using 3 assms(2) small_count [of 0 "length rs"] small_count [of 1 "length rs"]
      by (auto simp: list_header_def Let_def)
  qed
qed

text \<open>The entries of a dictionary: the value first in a dict, the key first in an object.\<close>

lemma load_entries_reads:
  "list_all2 (\<lambda>(k, v) bs. \<exists>vb kb. bs = vb @ kb \<and> reads env v vb \<and> reads env k kb) es bss \<Longrightarrow>
   dict_ok env (acc @ es) \<Longrightarrow> bytes_at buf (mInItr s) (concat bss) \<Longrightarrow> length (concat bss) \<le> fuel \<Longrightarrow>
   load_entries env (load_rep env buf fuel) (length es) acc s =
     Inr (acc @ es, adv (length (concat bss)) s)"
proof (induction es bss arbitrary: s acc rule: list_all2_induct)
  case (Cons e es bs bss)
  obtain k v where e: "e = (k, v)" by (cases e)
  then obtain vb kb where b: "bs = vb @ kb" "reads env v vb" "reads env k kb" using Cons by auto
  have "load_rep env buf fuel s = Inr (v, adv (length vb) s)"
    "load_rep env buf fuel (adv (length vb) s) = Inr (k, adv (length kb) (adv (length vb) s))"
    using Cons.prems b by (auto simp: reads_def)
  moreover have "Dict_SetItem env acc k v = Inr (acc @ [(k, v)])"
    using Cons.prems(1) e by (intro Dict_SetItem_next) simp
  moreover have "load_entries env (load_rep env buf fuel) (length es) (acc @ [(k, v)]) (adv (length bs) s) =
      Inr ((acc @ [(k, v)]) @ es, adv (length (concat bss)) (adv (length bs) s))"
    using Cons.prems e by (intro Cons.IH) simp_all
  ultimately show ?case using e b by (simp add: add.assoc)
qed simp

lemma reads_dict:
  assumes "list_all2 (\<lambda>(k, v) bs. \<exists>vb kb. bs = vb @ kb \<and> reads env v vb \<and> reads env k kb) es bss"
    and "dict_ok env es" "length es < 2 ^ 32"
  shows "reads env (PyDict es) (Op_PyDict # PutSizeEx (word_of_nat (length es)) @ concat bss)"
proof (rule readsI)
  fix buf fuel and s :: ustate
  assume at: "bytes_at buf (mInItr s) (PutSizeEx (word_of_nat (length es)) @ concat bss)"
    and fuel: "length (PutSizeEx (word_of_nat (length es)) @ concat bss) \<le> fuel"
  show "(s_mLoadMap env buf (load_rep env buf fuel) ! unat (Op_PyDict AND PyRepOpcodeMask)) s =
      Inr (PyDict es, adv (length (PutSizeEx (word_of_nat (length es)) @ concat bss)) s)"
    using sizeEx.dec_enc [OF assms(3), of buf s] at fuel assms(2)
      load_entries_reads [OF assms(1), of "[]" buf "adv (length (PutSizeEx (word_of_nat (length es)))) s" fuel]
    by (simp add: op_simps LoadDict_def)
qed (simp_all add: op_simps)

lemma load_until_reads:
  "list_all2 (reads env) rs bss \<Longrightarrow> bytes_at buf (mInItr s) (concat bss @ [Op_PackedTerminator]) \<Longrightarrow>
   length (concat bss) \<le> fuel \<Longrightarrow> length (concat bss) < n \<Longrightarrow>
   load_until (load_rep env buf fuel) buf n s = Inr (rs, adv (length (concat bss)) s)"
proof (induction rs bss arbitrary: s n rule: list_all2_induct)
  case Nil
  then show ?case by (cases n) (simp_all add: Peek8_at)
next
  case (Cons r rs bs bss)
  then obtain m where m: "n = Suc m" by (cases n) auto
  obtain b bs' where bs: "bs = b # bs'" "b \<noteq> Op_PackedTerminator"
    using Cons(1) by (cases bs) (auto simp: reads_def)
  have at: "bytes_at buf (mInItr s) bs" using Cons.prems by simp
  then have "bytes_at buf (mInItr s) [b]" using bs(1) iffD1 [OF bytes_at_Cons] by blast
  note peek = Peek8_at [OF this]
  have ld: "load_rep env buf fuel s = Inr (r, adv (length bs) s)"
    using Cons at by (auto simp: reads_def)
  have "load_until (load_rep env buf fuel) buf m (adv (length bs) s) =
      Inr (rs, adv (length (concat bss)) (adv (length bs) s))"
  proof (rule Cons.IH)
    show "bytes_at buf (mInItr (adv (length bs) s)) (concat bss @ [Op_PackedTerminator])"
      "length (concat bss) \<le> fuel" using Cons.prems by simp_all
    show "length (concat bss) < m" using Cons.prems(3) m bs(1) by simp
  qed
  then show ?case using m peek ld bs(2) by simp
qed

lemma load_pairs_until_reads:
  "list_all2 (\<lambda>(k, v) bs. \<exists>kb vb. bs = kb @ vb \<and> reads env k kb \<and> reads env v vb) es bss \<Longrightarrow>
   dict_ok env (acc @ es) \<Longrightarrow> bytes_at buf (mInItr s) (concat bss @ [Op_PackedTerminator]) \<Longrightarrow>
   length (concat bss) \<le> fuel \<Longrightarrow> length (concat bss) < n \<Longrightarrow>
   load_pairs_until env (load_rep env buf fuel) buf n acc s =
     Inr (acc @ es, adv (length (concat bss)) s)"
proof (induction es bss arbitrary: s n acc rule: list_all2_induct)
  case Nil
  then show ?case by (cases n) (simp_all add: Peek8_at)
next
  case (Cons e es bs bss)
  obtain k v where e: "e = (k, v)" by (cases e)
  then obtain vb kb where b: "bs = kb @ vb" "reads env v vb" "reads env k kb" using Cons by auto
  obtain m where m: "n = Suc m" using Cons.prems by (cases n) auto
  obtain c bs' where kb: "kb = c # bs'" "c \<noteq> Op_PackedTerminator"
    using b(3) by (cases kb) (auto simp: reads_def)
  have at: "bytes_at buf (mInItr s) kb" "bytes_at buf (mInItr (adv (length kb) s)) vb"
    using Cons.prems b by simp_all
  have "bytes_at buf (mInItr s) [c]" using at(1) kb(1) iffD1 [OF bytes_at_Cons] by blast
  note peek = Peek8_at [OF this]
  have ld: "load_rep env buf fuel s = Inr (k, adv (length kb) s)"
    "load_rep env buf fuel (adv (length kb) s) = Inr (v, adv (length vb) (adv (length kb) s))"
    using Cons.prems b at by (auto simp: reads_def)
  have set: "Dict_SetItem env acc k v = Inr (acc @ [(k, v)])"
    using Cons.prems(1) e by (intro Dict_SetItem_next) simp
  have "load_pairs_until env (load_rep env buf fuel) buf m (acc @ [(k, v)]) (adv (length bs) s) =
      Inr ((acc @ [(k, v)]) @ es, adv (length (concat bss)) (adv (length bs) s))"
  proof (rule Cons.IH)
    show "dict_ok env ((acc @ [(k, v)]) @ es)" using Cons.prems(1) e by simp
    show "bytes_at buf (mInItr (adv (length bs) s)) (concat bss @ [Op_PackedTerminator])"
      "length (concat bss) \<le> fuel" using Cons.prems by simp_all
    show "length (concat bss) < m" using Cons.prems(4) m b(1) kb(1) by simp
  qed
  then show ?case using m peek ld set kb(2) e b by (simp add: add.assoc)
qed

lemma reads_object_ex:
  assumes h: "reads env header hb" and xs: "list_all2 (reads env) rs bss"
    and es: "list_all2 (\<lambda>(k, v) bs. \<exists>kb vb. bs = kb @ vb \<and> reads env k kb \<and> reads env v vb) es ess"
    and ok: "dict_ok env es"
  shows "reads env (PyObjectEx ty2 header rs es)
    ((if ty2 then Op_PyObjectEx2 else Op_PyObjectEx1) #
     hb @ concat bss @ [Op_PackedTerminator] @ concat ess @ [Op_PackedTerminator])"
proof -
  let ?bs = "hb @ concat bss @ [Op_PackedTerminator] @ concat ess @ [Op_PackedTerminator]"
  have load: "LoadObjectEx env (load_rep env buf fuel) buf ty2 s = Inr (PyObjectEx ty2 header rs es, adv (length ?bs) s)"
    if at: "bytes_at buf (mInItr s) ?bs" and fuel: "length ?bs \<le> fuel" for buf fuel s
  proof -
    define s1 s2 s3 s4 where "s1 = adv (length hb) s" and "s2 = adv (length (concat bss)) s1"
      and "s3 = adv 1 s2" and "s4 = adv (length (concat ess)) s3"
    have len: "length ?bs \<le> length buf" using at by (simp add: bytes_at_def)
    note parts = at [unfolded bytes_at_append]
    have lists: "bytes_at buf (mInItr s1) (concat bss @ [Op_PackedTerminator])"
      "bytes_at buf (mInItr s3) (concat ess @ [Op_PackedTerminator])"
      "bytes_at buf (mInItr s2) [Op_PackedTerminator]" "bytes_at buf (mInItr s4) [Op_PackedTerminator]"
      using parts by (simp_all add: s4_def s3_def s2_def s1_def add.assoc)
    have hd: "load_rep env buf fuel s = Inr (header, s1)"
      using h parts fuel by (auto simp: reads_def s1_def)
    have "load_until (load_rep env buf fuel) buf (Suc (length buf)) s1 = Inr (rs, s2)"
      unfolding s2_def using lists fuel len by (intro load_until_reads [OF xs]) simp_all
    moreover have "Read8 buf s2 = Inr (Op_PackedTerminator, s3)"
      unfolding s3_def by (rule Read8_at) (rule lists)
    moreover have "load_pairs_until env (load_rep env buf fuel) buf (Suc (length buf)) [] s3 = Inr ([] @ es, s4)"
      unfolding s4_def using lists fuel len ok by (intro load_pairs_until_reads [OF es]) simp_all
    moreover have "Read8 buf s4 = Inr (Op_PackedTerminator, adv 1 s4)"
      by (rule Read8_at) (rule lists)
    ultimately show ?thesis
      using hd by (simp add: LoadObjectEx_def) (simp add: s4_def s3_def s2_def s1_def add.assoc)
  qed
  show ?thesis
    using load by (cases ty2) (auto intro!: readsI simp: op_simps)
qed

text \<open>Collecting the encodings of a list.\<close>

lemma visit_all_reads:
  assumes "\<And>x. x \<in> set xs \<Longrightarrow> \<exists>bs. f x = put bs \<and> P x bs"
  shows "\<exists>bss. visit_all f xs = put (concat bss) \<and> list_all2 P xs bss"
  using assms
proof (induction xs)
  case (Cons x xs)
  obtain bs where "f x = put bs" "P x bs" using Cons.prems by auto
  moreover obtain bss where "visit_all f xs = put (concat bss)" "list_all2 P xs bss" using Cons by auto
  ultimately show ?case by (intro exI [of _ "bs # bss"]) simp
qed (rule exI [of _ "[]"], simp)

lemma reads_substream:
  "length bs < 2 ^ 32 \<Longrightarrow> reads env (PySubStream (Some bs) None) (sized Op_PySubStream bs)"
  using reads_sized [of bs Op_PySubStream env "\<lambda>bs. PySubStream (Some bs) None"]
  by (simp add: op_simps)

lemma visit_reads:
  "wire_ok env depth r \<Longrightarrow> \<exists>bs. visit depth r = put bs \<and> reads env (wire_norm r) bs"
proof (induction depth r rule: visit.induct)
  case (4 depth b)
  then show ?case by (cases b) (simp_all add: reads_value)
next
  case (7 depth bs)
  then show ?case using reads_sized [of bs Op_PyBuffer env PyBuffer] by (simp add: op_simps)
next
  case (11 depth xs)
  have "\<exists>bss. visit_all (\<lambda>x. if x = PyNull then put [] else visit (Suc depth) x) xs = put (concat bss) \<and>
      list_all2 (\<lambda>x bs. reads env (wire_norm x) bs) xs bss"
    using 11 by (intro visit_all_reads) (fastforce simp: list_all_iff)
  then show ?case
    using 11(2) reads_tuple [of env "map wire_norm xs"] by (auto simp: list.rel_map)
next
  case (12 depth xs)
  have "\<exists>bss. visit_all (\<lambda>x. if x = PyNull then put [] else visit (Suc depth) x) xs = put (concat bss) \<and>
      list_all2 (\<lambda>x bs. reads env (wire_norm x) bs) xs bss"
    using 12 by (intro visit_all_reads) (fastforce simp: list_all_iff)
  then show ?case
    using 12(2) reads_list [of env "map wire_norm xs"] by (auto simp: list.rel_map)
next
  case (13 depth es)
  have "\<exists>bss. visit_all (\<lambda>(k, v). seq (visit depth v) (visit depth k)) es = put (concat bss) \<and>
      list_all2 (\<lambda>(k, v) bs. \<exists>vb kb. bs = vb @ kb \<and> reads env (wire_norm v) vb \<and> reads env (wire_norm k) kb) es bss"
    using 13 by (intro visit_all_reads) (fastforce simp: list_all_iff)
  then obtain bss where bss: "visit_all (\<lambda>(k, v). seq (visit depth v) (visit depth k)) es = put (concat bss)"
      "list_all2 (\<lambda>(k, v) bs. \<exists>vb kb. bs = vb @ kb \<and> reads env (wire_norm v) vb \<and> reads env (wire_norm k) kb) es bss"
    by blast
  have "reads env (PyDict (map (\<lambda>(k, v). (wire_norm k, wire_norm v)) es))
      (Op_PyDict # PutSizeEx (word_of_nat (length (map (\<lambda>(k, v). (wire_norm k, wire_norm v)) es))) @ concat bss)"
    using bss(2) 13(3)
    by (intro reads_dict) (simp_all add: list.rel_map case_prod_unfold dict_ok_norm [unfolded case_prod_unfold])
  then show ?case using 13(3) bss(1) by simp
next
  case (14 depth ty args)
  then obtain bs where bs: "visit (Suc depth) args = put bs" "reads env (wire_norm args) bs" by auto
  have ty: "reads env (PyString ty) (VisitString ty)" using 14(2) by (intro reads_VisitString) simp
  have "reads env (PyObject ty (wire_norm args)) (Op_PyObject # VisitString ty @ bs)"
    using bs(2) ty by (intro readsI) (simp_all add: op_simps LoadObject_def reads_def)
  then show ?case using 14(2) bs(1) by simp
next
  case (15 depth ty2 header xs es)
  obtain hb where hb: "visit depth header = put hb" "reads env (wire_norm header) hb" using 15 by auto
  obtain bss where xs: "visit_all (visit depth) xs = put (concat bss)"
      "list_all2 (\<lambda>x bs. reads env (wire_norm x) bs) xs bss"
    using 15 visit_all_reads [of xs "visit depth" "\<lambda>x bs. reads env (wire_norm x) bs"]
    by (fastforce simp: list_all_iff)
  have "\<exists>bss. visit_all (\<lambda>(k, v). seq (visit depth k) (visit depth v)) es = put (concat bss) \<and>
      list_all2 (\<lambda>(k, v) bs. \<exists>kb vb. bs = kb @ vb \<and> reads env (wire_norm k) kb \<and> reads env (wire_norm v) vb) es bss"
    using 15 by (intro visit_all_reads) (fastforce simp: list_all_iff)
  then obtain ess where es: "visit_all (\<lambda>(k, v). seq (visit depth k) (visit depth v)) es = put (concat ess)"
      "list_all2 (\<lambda>(k, v) bs. \<exists>kb vb. bs = kb @ vb \<and> reads env (wire_norm k) kb \<and> reads env (wire_norm v) vb) es ess"
    by blast
  have "reads env (wire_norm (PyObjectEx ty2 header xs es))
      ((if ty2 then Op_PyObjectEx2 else Op_PyObjectEx1) #
       hb @ concat bss @ [Op_PackedTerminator] @ concat ess @ [Op_PackedTerminator])"
    unfolding wire_norm.simps
    using hb(2) xs(2) es(2) 15(5) by (intro reads_object_ex)
      (simp_all add: list.rel_map case_prod_unfold dict_ok_norm [unfolded case_prod_unfold])
  then show ?case using 15(5) hb(1) xs(1) es(1) by simp
next
  case (17 depth r)
  then obtain bs where bs: "visit (Suc depth) r = put bs" "reads env (wire_norm r) bs" by auto
  have "reads env (PySubStruct (wire_norm r)) (Op_PySubStruct # bs)"
  proof (rule readsI)
    fix buf fuel and s :: ustate
    assume "bytes_at buf (mInItr s) bs" "length bs \<le> fuel"
    then show "(s_mLoadMap env buf (load_rep env buf fuel) ! unat (Op_PySubStruct AND PyRepOpcodeMask)) s =
        Inr (PySubStruct (wire_norm r), adv (length bs) s)"
      using bs(2) load_items_reads [of env "[wire_norm r]" "[bs]" buf s fuel 1] by (simp add: op_simps)
  qed (simp_all add: op_simps)
  then show ?case using 17(2) bs(1) by simp
next
  case (18 depth data decoded)
  then obtain bs where bs: "marshalled data decoded = Some bs" "length bs < 2 ^ 32" "depth < kMaxDepth"
    by (auto split: option.splits)
  have "visit depth (PySubStream data decoded) = put (sized Op_PySubStream bs)"
    using bs by (auto simp: marshalled_def Marshal_def SaveStream_def ebind_Inr_conv put_def seq_def
        split: option.splits sum.splits if_splits)
  then show ?case using bs reads_substream by simp
qed (simp_all add: reads_VisitInteger reads_SaveVarInteger reads_VisitReal [simplified] reads_value
    reads_VisitString reads_VisitWString reads_token)

lemma reads_Unmarshal:
  assumes bs: "visit 0 r = put bs" "reads env x bs"
  shows "\<exists>data. Marshal r = Inr data \<and> Unmarshal env data = Inr x"
proof -
  define data s0 where "data = MarshalHeaderByte # le_bytes 4 (0 :: int32) @ bs"
    and "s0 = \<lparr>mInItr = 0, mStoreIndexItr = None, mStoredObjects = None\<rparr>"
  have at: "bytes_at data (mInItr s0) data" by (simp add: s0_def bytes_at_self)
  have "bytes_at data (mInItr s0) [MarshalHeaderByte]"
    "bytes_at data (mInItr (adv 1 s0)) (le_bytes 4 (0 :: int32) @ bs)"
    using iffD1 [OF bytes_at_Cons at [unfolded data_def], folded data_def] by simp_all
  then have r: "Read8 data s0 = Inr (MarshalHeaderByte, adv 1 s0)"
      "Read32 data (adv 1 s0) = Inr (0, adv 5 s0)" and at5: "bytes_at data (mInItr (adv 5 s0)) bs"
    using Read32_at [of data "adv 1 s0" 0] by (simp_all add: Read8_at add.commute)
  have "load_rep env data (length data) (adv 5 s0) = Inr (x, adv (length bs) (adv 5 s0))"
    using bs(2) at5 unfolding reads_def by (simp add: data_def)
  moreover have "CreateObjectStore data n 0 (adv 5 s0) = Inr (adv 5 s0)" for n
    by (simp add: CreateObjectStore_def adv_def s0_def)
  ultimately have "Unmarshal env data = Inr x"
    using r by (simp add: Unmarshal_def Load_def LoadStream_def s0_def [symmetric])
  moreover have "Marshal r = Inr data"
    using bs(1) by (simp add: Marshal_def SaveStream_def stream_header_def data_def) (simp add: put_def)
  ultimately show ?thesis by blast
qed

lemma Unmarshal_Marshal:
  assumes "wire_ok env 0 r"
  shows "\<exists>bs. Marshal r = Inr bs \<and> Unmarshal env bs = Inr (wire_norm r)"
  using visit_reads [OF assms] reads_Unmarshal by blast

section \<open>Main results\<close>

text \<open>C26. Reading back what was written: an object that the wire format can carry is marshalled
  without failing, and unmarshalling the bytes gives the object back (negative zero becomes
  zero, and a substream comes back as the bytes of its object).\<close>

theorem marshal_unmarshal:
  assumes "wire_ok env 0 r"
  shows "ebind (Marshal r) (Unmarshal env) = Inr (wire_norm r)"
  using Unmarshal_Marshal [OF assms] by auto

definition sample_rep :: pyrep where
  "sample_rep =
     PyTuple [PyInt (- 5), PyLong 70000, PyList [PyBool True, PyNone, PyFloat 0],
       PyObject (str ''x'') (PyBuffer [1, 2, 3]), PyDict [(PyInt 7, PyInt 8), (PyInt 9, PyString [])]]"

lemma sample_long: "long_ok 70000"
  by (simp add: long_ok_def nth_le_bytes)

lemma sample_dict: "dict_ok env [(PyInt 7, PyInt 8), (PyInt 9, PyString [])]"
  by (simp add: dict_ok_def int_hash_def no_minus_one_def)

lemma sample_rep_ok: "wire_ok env 0 sample_rep" "wire_norm sample_rep = sample_rep"
  using sample_dict [of env] by (simp_all add: sample_rep_def kMaxDepth_def string_ok_def sample_long)

theorem marshal_unmarshal_witness:
  "\<forall>env. ebind (Marshal sample_rep) (Unmarshal env) = Inr sample_rep"
proof (intro allI)
  fix env
  show "ebind (Marshal sample_rep) (Unmarshal env) = Inr sample_rep"
    using marshal_unmarshal [OF sample_rep_ok(1)] by (simp add: sample_rep_ok)
qed

text \<open>What the variable-length encoding of a long loses: a long whose byte 4, 5 or 6 decides for
  that encoding is read back as its low five or six bytes, whatever its upper bytes are.\<close>

theorem long_truncated:
  assumes "0 < integer_size l" "integer_size l < 7"
  shows "ebind (Marshal (PyLong l)) (Unmarshal env) = Inr (PyLong (take_bit (8 * integer_size l) l))"
  using reads_Unmarshal [of "PyLong l" "SaveVarInteger l" env] reads_VarInteger [OF assms] by fastforce

theorem long_truncated_witness:
  "\<forall>env. ebind (Marshal (PyLong 0x0100000100000000)) (Unmarshal env) = Inr (PyLong 0x0000000100000000)"
proof (intro allI)
  fix env
  show "ebind (Marshal (PyLong 0x0100000100000000)) (Unmarshal env) = Inr (PyLong 0x0000000100000000)"
  proof -
    have "integer_size 0x0100000100000000 = 5" by (simp add: integer_size_def nth_le_bytes)
    then show ?thesis using long_truncated [of "0x0100000100000000" env] by simp
  qed
qed

end
