(* ===== verification/Connection.thy ===== *)
theory Connection
  imports Tcp RoundTrip
begin

text \<open>
  From bytes to objects: the framing of \<open>eve-core/network/StreamPacketizer.cpp\<close>, the
  compression of \<open>eve-core/utils/Deflate.cpp\<close> and of \<open>MarshalDeflate\<close> and
  \<open>InflateUnmarshal\<close>, and \<open>eve-common/network/EVETCPConnection.cpp\<close>, which puts them
  together. zlib is outside the program: its two calls are a record of functions, and what
  its manual promises is the hypothesis \<open>zlib_ok\<close>.
\<close>

section \<open>Stream packetizer\<close>

record packetizer =
  mBuffer :: bytes
  mPackets :: "bytes list"

definition StreamPacketizer_new :: packetizer where
  "StreamPacketizer_new = \<lparr>mBuffer = [], mPackets = []\<rparr>"

definition InputData :: "bytes \<Rightarrow> packetizer \<Rightarrow> packetizer" where
  "InputData data p = p\<lparr>mBuffer := mBuffer p @ data\<rparr>"

text \<open>The loop of \<open>Process\<close> from \<open>cur\<close> to the end of the buffer.\<close>

fun process_loop :: "bytes \<Rightarrow> bytes list \<Rightarrow> bytes \<times> bytes list" where
  "process_loop cur packets =
     (if 4 > length cur then (cur, packets) else
      let len = le_word (take 4 cur) :: int32;
          start = drop 4 cur
      in if len > word_of_nat (length start) then (cur, packets)
         else process_loop (drop (unat len) start) (packets @ [take (unat len) start]))"

declare process_loop.simps [simp del]

definition Process_packets :: "packetizer \<Rightarrow> packetizer" where
  "Process_packets p =
     (let (rest, packets) = process_loop (mBuffer p) (mPackets p)
      in \<lparr>mBuffer = rest, mPackets = packets\<rparr>)"

definition PopPacket :: "packetizer \<Rightarrow> bytes option \<times> packetizer" where
  "PopPacket p =
     (case mPackets p of
        [] \<Rightarrow> (None, p)
      | b # bs \<Rightarrow> (Some b, p\<lparr>mPackets := bs\<rparr>))"

text \<open>The packets are popped until none is left; the bytes of a partial frame stay.\<close>

definition Packetizer_ClearBuffers :: "packetizer \<Rightarrow> packetizer" where
  "Packetizer_ClearBuffers p = p\<lparr>mPackets := []\<rparr>"

section \<open>Compression\<close>

datatype z_answer = Z_OK bytes | Z_BUF_ERROR | Z_ERROR

text \<open>
  \<open>compress\<close> of an input; \<open>uncompress\<close> of an input into a buffer of a given size.
\<close>

record zlib =
  z_compress :: "bytes \<Rightarrow> bytes option"
  z_uncompress :: "nat \<Rightarrow> bytes \<Rightarrow> z_answer"

definition DeflateHeaderByte :: byte where
  "DeflateHeaderByte = 0x78"

definition IsDeflated :: "bytes \<Rightarrow> bool result" where
  "IsDeflated data = ebind (buf_get data 0) (\<lambda>b. Inr (DeflateHeaderByte = b))"

definition DeflateData :: "zlib \<Rightarrow> bytes \<Rightarrow> bytes \<Rightarrow> (bool \<times> bytes) result" where
  "DeflateData z input out =
     ebind (buf_get input 0) (\<lambda>_.
       case z_compress z input of
         Some d \<Rightarrow> Inr (True, out @ d)
       | None \<Rightarrow> Inr (False, out))"

text \<open>
  The loop of \<open>InflateData\<close> doubles the room until \<open>uncompress\<close> has enough. A process has
  less than \<open>2 ^ 47\<close> bytes of address space on x86-64: past that \<open>realloc\<close> answers null,
  which the loop passes on to \<open>uncompress\<close>.
\<close>

definition address_space :: nat where
  "address_space = 2 ^ 47"

primrec inflate_loop :: "zlib \<Rightarrow> bytes \<Rightarrow> nat \<Rightarrow> nat \<Rightarrow> bytes option result" where
  "inflate_loop z input 0 sizeMultiplier = Inl Diverge"
| "inflate_loop z input (Suc fuel) sizeMultiplier =
     (let outputSize = length input * 2 ^ Suc sizeMultiplier in
      if address_space \<le> outputSize then Inl Null_deref else
      case z_uncompress z outputSize input of
        Z_OK d \<Rightarrow> Inr (Some d)
      | Z_BUF_ERROR \<Rightarrow> inflate_loop z input fuel (Suc sizeMultiplier)
      | Z_ERROR \<Rightarrow> Inr None)"

definition InflateData :: "zlib \<Rightarrow> bytes \<Rightarrow> bytes \<Rightarrow> (bool \<times> bytes) result" where
  "InflateData z input out =
     ebind (buf_get input 0) (\<lambda>_.
     ebind (inflate_loop z input 47 0) (\<lambda>res.
       case res of Some d \<Rightarrow> Inr (True, out @ d) | None \<Rightarrow> Inr (False, out)))"

definition deflationLimit_default :: int32 where
  "deflationLimit_default = 0x2000"

definition MarshalDeflate :: "zlib \<Rightarrow> pyrep \<Rightarrow> bytes \<Rightarrow> int32 \<Rightarrow> (bool \<times> bytes) result" where
  "MarshalDeflate z rep into deflationLimit =
     (case Marshal rep of
        Inl e \<Rightarrow> if e = Ret_null then Inr (False, into) else Inl e
      | Inr data \<Rightarrow>
          if length data \<ge> unat deflationLimit then DeflateData z data into
          else Inr (True, into @ data))"

definition InflateUnmarshal :: "env \<Rightarrow> zlib \<Rightarrow> bytes \<Rightarrow> pyrep result" where
  "InflateUnmarshal env z data =
     ebind (IsDeflated data) (\<lambda>deflated.
       if deflated
       then ebind (InflateData z data []) (\<lambda>(ok, inflated).
              if ok then Unmarshal env inflated else Inl Ret_null)
       else Unmarshal env data)"

section \<open>Connection\<close>

record evetcp =
  base :: tcp
  mInQueue :: packetizer

definition PACKET_SIZE_LIMIT :: nat where
  "PACKET_SIZE_LIMIT = 1024 * 1024"

definition EVETCPConnection_new :: evetcp where
  "EVETCPConnection_new = \<lparr>base = TCPConnection_new, mInQueue = StreamPacketizer_new\<rparr>"

text \<open>The size limit is checked while the buffer holds nothing but the length field.\<close>

definition QueueRep :: "zlib \<Rightarrow> pyrep \<Rightarrow> bool \<Rightarrow> evetcp \<Rightarrow> evetcp result" where
  "QueueRep z rep compress c =
     (let room = le_bytes 4 (0 :: int32) in
      if PACKET_SIZE_LIMIT < length room then Inr c else
      ebind (MarshalDeflate z rep room
               (if compress then deflationLimit_default else word_of_nat PACKET_SIZE_LIMIT))
        (\<lambda>(success, buf).
          if success
          then Inr (c\<lparr>base := snd (Send (le_bytes 4 (word_of_nat (length buf - 4) :: int32)
                                          @ drop 4 buf) (base c))\<rparr>)
          else Inr c))"

definition PopRep :: "env \<Rightarrow> zlib \<Rightarrow> evetcp \<Rightarrow> (pyrep option \<times> evetcp) result" where
  "PopRep env z c =
     (let (packet, p) = PopPacket (mInQueue c); c' = c\<lparr>mInQueue := p\<rparr> in
      case packet of
        None \<Rightarrow> Inr (None, c')
      | Some data \<Rightarrow>
          if PACKET_SIZE_LIMIT < length data then Inr (None, c') else
          (case InflateUnmarshal env z data of
             Inr rep \<Rightarrow> Inr (Some rep, c')
           | Inl e \<Rightarrow> if e = Ret_null then Inr (None, c') else Inl e))"

definition ProcessReceivedData :: "bytes \<Rightarrow> packetizer \<Rightarrow> bool \<times> packetizer" where
  "ProcessReceivedData data p = (True, Process_packets (InputData data p))"

definition EVETCP_ClearBuffers :: "evetcp \<Rightarrow> evetcp" where
  "EVETCP_ClearBuffers c =
     \<lparr>base = ClearBuffers (base c), mInQueue = Packetizer_ClearBuffers (mInQueue c)\<rparr>"

section \<open>Framing\<close>

text \<open>A frame is its length, four bytes little-endian, and its content.\<close>

definition frame :: "bytes \<Rightarrow> bytes" where
  "frame p = le_bytes 4 (word_of_nat (length p) :: int32) @ p"

definition frame_length :: "bytes \<Rightarrow> nat" where
  "frame_length cur = unat (le_word (take 4 cur) :: int32)"

lemma unat_length32 [simp]: "n < 2 ^ 32 \<Longrightarrow> unat (word_of_nat n :: int32) = n"
  by (simp add: unsigned_of_nat take_bit_nat_eq_self)

lemma process_small:
  assumes "length cur < 2 ^ 32"
  shows "process_loop cur ps =
    (if length cur < 4 + frame_length cur then (cur, ps)
     else process_loop (drop (4 + frame_length cur) cur)
            (ps @ [take (frame_length cur) (drop 4 cur)]))"
proof (cases "length cur < 4")
  case True
  then show ?thesis by (simp add: process_loop.simps [of cur])
next
  case False
  have "unat (word_of_nat (length (drop 4 cur)) :: int32) = length (drop 4 cur)"
    using assms by (intro unat_length32) simp
  then have "le_word (take 4 cur) > (word_of_nat (length (drop 4 cur)) :: int32) \<longleftrightarrow>
      length cur < 4 + frame_length cur"
    using False by (simp only: word_less_nat_alt frame_length_def length_drop) linarith
  then show ?thesis
    using False
    by (subst process_loop.simps)
      (simp add: Let_def frame_length_def add.commute del: of_nat_diff length_drop)
qed

lemma frame_length_append: "4 \<le> length a \<Longrightarrow> frame_length (a @ b) = frame_length a"
  by (simp add: frame_length_def)

lemma process_append:
  "length a + length b < 2 ^ 32 \<Longrightarrow>
   process_loop (a @ b) ps = (case process_loop a ps of (r, qs) \<Rightarrow> process_loop (r @ b) qs)"
proof (induction a arbitrary: ps rule: length_induct)
  case (1 a)
  show ?case
  proof (cases "length a < 4 + frame_length a")
    case True
    then show ?thesis using 1 by (simp add: process_small [of a])
  next
    case False
    then have "frame_length (a @ b) = frame_length a" by (simp add: frame_length_append)
    then show ?thesis
      using False 1 by (simp add: process_small [of a] process_small [of "a @ b"])
  qed
qed

lemma process_frames:
  "length (concat (map frame ps)) + length r < 2 ^ 32 \<Longrightarrow>
   process_loop (concat (map frame ps) @ r) qs = process_loop r (qs @ ps)"
proof (induction ps arbitrary: qs)
  case Nil
  then show ?case by simp
next
  case (Cons p ps)
  then have "frame_length (frame p @ x) = length p" for x
    by (simp add: frame_length_def frame_def)
  then show ?case
    using Cons by (simp add: process_small [of "frame p @ x" for x]) (simp add: frame_def)
qed

lemma process_shrinks: "length (fst (process_loop cur ps)) \<le> length cur"
proof (induction cur arbitrary: ps rule: length_induct)
  case (1 cur)
  have "length (fst (process_loop (drop n (drop 4 cur)) qs)) \<le> length cur" if "4 \<le> length cur" for n qs
  proof -
    have "length (drop n (drop 4 cur)) < length cur" using that by simp
    then show ?thesis using 1 by (meson less_imp_le order_trans)
  qed
  then show ?case
    by (subst process_loop.simps) (simp add: Let_def del: of_nat_diff drop_drop)
qed

definition feed :: "bytes list \<Rightarrow> packetizer \<Rightarrow> packetizer" where
  "feed bss p = fold (\<lambda>bs p. snd (ProcessReceivedData bs p)) bss p"

definition parsed :: "packetizer \<Rightarrow> bool" where
  "parsed p \<longleftrightarrow> process_loop (mBuffer p) (mPackets p) = (mBuffer p, mPackets p)"

lemma feed_concat:
  "parsed p \<Longrightarrow> length (mBuffer p) + length (concat bss) < 2 ^ 32 \<Longrightarrow>
   feed bss p = Process_packets (InputData (concat bss) p)"
proof (induction bss arbitrary: p)
  case Nil
  then show ?case by (simp add: feed_def parsed_def Process_packets_def InputData_def)
next
  case (Cons bs bss)
  define p' where "p' = snd (ProcessReceivedData bs p)"
  obtain r qs where rq: "process_loop (mBuffer p @ bs) (mPackets p) = (r, qs)" by fastforce
  have p': "p' = \<lparr>mBuffer = r, mPackets = qs\<rparr>"
    by (simp add: p'_def ProcessReceivedData_def Process_packets_def InputData_def rq)
  have whole: "process_loop (mBuffer p @ bs @ b) (mPackets p) = process_loop (r @ b) qs"
    if "length (mBuffer p @ bs) + length b < 2 ^ 32" for b
    using process_append [OF that, of "mPackets p"] by (simp add: rq)
  have "length r \<le> length (mBuffer p @ bs)"
    using process_shrinks [of "mBuffer p @ bs" "mPackets p"] by (simp add: rq)
  moreover have "parsed p'"
    using whole [of "[]"] Cons.prems rq by (simp add: parsed_def p')
  ultimately have "feed bss p' = Process_packets (InputData (concat bss) p')"
    using Cons by (simp add: p')
  then show ?case
    using whole [of "concat bss"] Cons.prems
    by (simp add: feed_def p'_def [symmetric]) (simp add: p' Process_packets_def InputData_def)
qed

text \<open>
  A queue of packets: what was fed comes out once, in order. The client drains the queue
  by popping until nothing is left.
\<close>

locale packet_queue =
  fixes items :: "'q \<Rightarrow> 'a list"
    and pop :: "'q \<Rightarrow> 'a option \<times> 'q"
  assumes pop_empty: "items q = [] \<Longrightarrow> pop q = (None, q)"
    and pop_first: "items q = x # xs \<Longrightarrow> \<exists>q'. pop q = (Some x, q') \<and> items q' = xs"
begin

primrec pops :: "nat \<Rightarrow> 'q \<Rightarrow> 'a list \<times> 'q" where
  "pops 0 q = ([], q)"
| "pops (Suc n) q =
     (case pop q of
        (None, q') \<Rightarrow> ([], q')
      | (Some x, q') \<Rightarrow> (let (xs, q'') = pops n q' in (x # xs, q'')))"

lemma pops_all: "length (items q) \<le> n \<Longrightarrow> \<exists>q'. pops n q = (items q, q') \<and> items q' = []"
proof (induction n arbitrary: q)
  case 0
  then show ?case by simp
next
  case (Suc n)
  show ?case
  proof (cases "items q")
    case Nil
    then show ?thesis by (simp add: pop_empty)
  next
    case (Cons x xs)
    then obtain q' where q': "pop q = (Some x, q')" "items q' = xs"
      using pop_first by blast
    then show ?thesis
      using Suc.IH [of q'] Suc.prems Cons by (auto split: prod.splits)
  qed
qed

lemma pops_split: "fst (pops (m + n) q) = fst (pops m q) @ fst (pops n (snd (pops m q)))"
proof (induction m arbitrary: q)
  case 0
  then show ?case by simp
next
  case (Suc m)
  show ?case
  proof (cases "items q")
    case Nil
    then show ?thesis by (cases n) (simp_all add: pop_empty)
  next
    case (Cons x xs)
    then obtain q' where "pop q = (Some x, q')" "items q' = xs"
      using pop_first by blast
    then show ?thesis
      using Suc.IH [of q'] by (simp add: split_beta)
  qed
qed

end

interpretation packets: packet_queue mPackets PopPacket
  by unfold_locales (simp_all add: PopPacket_def)

definition StreamPacketizer_PopAll :: "nat \<Rightarrow> packetizer \<Rightarrow> bytes list \<times> packetizer" where
  "StreamPacketizer_PopAll = packets.pops"

section \<open>Compression\<close>

text \<open>
  What the zlib manual promises: \<open>uncompress\<close> gives back what \<open>compress\<close> was given when
  it has the room and asks for more room when it has not; a zlib stream with the default
  window starts with \<open>0x78\<close>.
\<close>

definition zlib_ok :: "zlib \<Rightarrow> bool" where
  "zlib_ok z \<longleftrightarrow>
     (\<forall>d c. z_compress z d = Some c \<longrightarrow>
        c \<noteq> [] \<and> hd c = 0x78 \<and>
        (\<forall>n. z_uncompress z n c = (if length d \<le> n then Z_OK d else Z_BUF_ERROR)))"

lemma inflate_loop_enough:
  assumes z: "\<And>n. z_uncompress z n c = (if length d \<le> n then Z_OK d else Z_BUF_ERROR)"
    and c: "0 < length c" and d: "length d \<le> length c * 2 ^ k" "length c * 2 ^ k < address_space"
    and j: "j < k" "k < fuel + Suc j"
  shows "inflate_loop z c fuel j = Inr (Some d)"
  using j
proof (induction fuel arbitrary: j)
  case 0
  then show ?case by simp
next
  case (Suc fuel)
  have "(2::nat) ^ Suc j \<le> 2 ^ k" using Suc.prems by (intro power_increasing) auto
  then have room: "length c * 2 ^ Suc j < address_space"
    using d(2) by (meson le_less_trans mult_le_mono2)
  show ?case
  proof (cases "length d \<le> length c * 2 ^ Suc j")
    case True
    then show ?thesis using room z by (simp add: not_le)
  next
    case False
    then have "Suc j \<noteq> k" using d(1) by auto
    then show ?thesis using Suc room z False by (simp add: not_le)
  qed
qed

lemma room_exists:
  assumes "0 < (m::nat)"
  shows "\<exists>k. 0 < k \<and> n \<le> m * 2 ^ k \<and> m * 2 ^ k \<le> max (2 * m) (2 * n)"
proof (cases "n \<le> 2 * m")
  case True
  then show ?thesis by (intro exI [of _ 1]) auto
next
  case False
  define k where "k = (LEAST k. n \<le> m * 2 ^ k)"
  have "n \<le> m * 2 ^ n"
    using assms less_exp [of n] by (metis One_nat_def Suc_leI less_imp_le mult_le_mono nat_mult_1)
  then have k: "n \<le> m * 2 ^ k" unfolding k_def by (rule LeastI)
  have "k \<noteq> 0" using k False by (cases k) auto
  then obtain j where j: "k = Suc j" by (cases k) auto
  then have "\<not> n \<le> m * 2 ^ j" using not_less_Least [of j "\<lambda>k. n \<le> m * 2 ^ k"] by (simp add: k_def)
  then show ?thesis using k j by (intro exI [of _ k]) auto
qed

lemma inflate_loop_total:
  "0 < length c \<Longrightarrow> j < 47 \<Longrightarrow> 47 \<le> fuel + j \<Longrightarrow> inflate_loop z c fuel j \<noteq> Inl Diverge"
proof (induction fuel arbitrary: j)
  case 0
  then show ?case by simp
next
  case (Suc fuel)
  have "address_space \<le> length c * 2 ^ Suc j" if "j = 46"
    using Suc.prems(1) by (cases "length c") (auto simp: address_space_def that)
  then show ?case
    using Suc by (cases "j = 46") (auto simp: Let_def split: z_answer.split)
qed

lemma InflateData_total: "total (InflateData z input out)"
proof (cases input)
  case Nil
  then show ?thesis by (simp add: InflateData_def buf_get_def iter_add_def iter_deref_def total_def)
next
  case (Cons b bs)
  then have "total (inflate_loop z input 47 0)"
    using inflate_loop_total [of input 0 47 z] by (simp add: total_def)
  then show ?thesis
    unfolding InflateData_def buf_get_def by (auto intro!: total_intros split: option.split)
qed

lemma InflateUnmarshal_total: "total (InflateUnmarshal env z data)"
proof -
  have "total (Unmarshal env bs)" for bs
    by (simp add: Unmarshal_def Load_total)
  then show ?thesis
    unfolding InflateUnmarshal_def IsDeflated_def buf_get_def
    by (auto intro!: total_intros InflateData_total split: prod.split)
qed

definition deflate_limit :: nat where
  "deflate_limit = 2 ^ 45"

lemma InflateData_inverts:
  assumes z: "zlib_ok z" "z_compress z d = Some c"
    and small: "length d \<le> deflate_limit" "length c \<le> deflate_limit"
  shows "InflateData z c out = Inr (True, out @ d)"
proof -
  have c: "c \<noteq> []" and u: "\<And>n. z_uncompress z n c = (if length d \<le> n then Z_OK d else Z_BUF_ERROR)"
    using z by (auto simp: zlib_ok_def)
  obtain k where k: "0 < k" "length d \<le> length c * 2 ^ k"
      "length c * 2 ^ k \<le> max (2 * length c) (2 * length d)"
    using room_exists [of "length c" "length d"] c by auto
  have fits: "length c * 2 ^ k < address_space"
    using k(3) small
    by (intro le_less_trans [OF k(3)]) (simp add: deflate_limit_def address_space_def)
  have le: "2 ^ k \<le> length c * 2 ^ k" using c by (cases c) auto
  have "(2::nat) ^ k < 2 ^ 47"
    using fits by (intro le_less_trans [OF le]) (simp add: address_space_def)
  then have "k < 47" by (rule power_less_imp_less_exp [rotated]) simp
  then have "inflate_loop z c 47 0 = Inr (Some d)"
    using inflate_loop_enough [of z c d k 0 47] u c k fits by simp
  then show ?thesis
    using c by (cases c) (simp_all add: InflateData_def buf_get_def iter_add_def iter_deref_def)
qed

lemma Marshal_header: "Marshal r = Inr bs \<Longrightarrow> \<exists>tl. bs = MarshalHeaderByte # tl"
  by (auto simp: Marshal_def SaveStream_def seq_def put_def stream_header_def ebind_Inr_conv
      split: prod.splits if_splits)

text \<open>A payload that a peer builds with \<open>MarshalDeflate\<close> and reads with \<open>InflateUnmarshal\<close>.\<close>

definition packed :: "zlib \<Rightarrow> bool \<Rightarrow> pyrep \<Rightarrow> bytes" where
  "packed z compress r =
     (case MarshalDeflate z r []
             (if compress then deflationLimit_default else word_of_nat PACKET_SIZE_LIMIT) of
        Inr (True, bs) \<Rightarrow> bs | _ \<Rightarrow> [])"

definition sendable :: "env \<Rightarrow> zlib \<Rightarrow> bool \<Rightarrow> pyrep \<Rightarrow> bool" where
  "sendable env z compress r \<longleftrightarrow>
     wire_ok env 0 r \<and> packed z compress r \<noteq> [] \<and>
     length (packed z compress r) \<le> PACKET_SIZE_LIMIT \<and>
     (\<forall>bs. Marshal r = Inr bs \<longrightarrow> length bs \<le> deflate_limit)"

lemma buf_get_hd: "data \<noteq> [] \<Longrightarrow> buf_get data 0 = Inr (hd data)"
  by (cases data) (simp_all add: buf_get_def iter_add_def iter_deref_def)

lemma MarshalDeflate_append:
  "MarshalDeflate z r out lim =
     ebind (MarshalDeflate z r [] lim) (\<lambda>(ok, bs). Inr (ok, if ok then out @ bs else out))"
  by (auto simp: MarshalDeflate_def DeflateData_def ebind_assoc split: sum.split option.split
      intro!: ebind_cong)

lemma InflateUnmarshal_packed:
  assumes z: "zlib_ok z" and r: "sendable env z compress r"
  shows "InflateUnmarshal env z (packed z compress r) = Inr (wire_norm r)"
proof -
  define lim where
    "lim = (if compress then deflationLimit_default else word_of_nat PACKET_SIZE_LIMIT)"
  obtain bs where bs: "Marshal r = Inr bs" "Unmarshal env bs = Inr (wire_norm r)"
    using Unmarshal_Marshal [of env r] r by (auto simp: sendable_def)
  obtain tl where tl: "bs = MarshalHeaderByte # tl" using Marshal_header [OF bs(1)] by blast
  have p: "packed z compress r = (case MarshalDeflate z r [] lim of Inr (True, bs) \<Rightarrow> bs | _ \<Rightarrow> [])"
    by (simp add: packed_def lim_def)
  show ?thesis
  proof (cases "unat lim \<le> length bs")
    case False
    then have "packed z compress r = bs" by (simp add: p MarshalDeflate_def bs)
    then show ?thesis
      using bs tl by (simp add: InflateUnmarshal_def IsDeflated_def buf_get_hd DeflateHeaderByte_def)
  next
    case True
    then have "MarshalDeflate z r [] lim = DeflateData z bs []" by (simp add: MarshalDeflate_def bs)
    then obtain c where c: "z_compress z bs = Some c" "packed z compress r = c"
      using r tl by (auto simp: p sendable_def DeflateData_def buf_get_hd split: option.splits)
    moreover have "length bs \<le> deflate_limit" "length c \<le> deflate_limit"
      using r bs c by (auto simp: sendable_def PACKET_SIZE_LIMIT_def deflate_limit_def)
    ultimately have "InflateData z c [] = Inr (True, bs)"
      using InflateData_inverts [OF z] by simp
    moreover have "IsDeflated c = Inr True"
      using z c by (auto simp: zlib_ok_def IsDeflated_def buf_get_hd DeflateHeaderByte_def)
    ultimately show ?thesis
      using c bs by (simp add: InflateUnmarshal_def)
  qed
qed

lemma QueueRep_sends:
  assumes "sendable env z compress r"
  shows "QueueRep z r compress c =
    Inr (c\<lparr>base := snd (Send (frame (packed z compress r)) (base c))\<rparr>)"
proof -
  define lim where
    "lim = (if compress then deflationLimit_default else word_of_nat PACKET_SIZE_LIMIT)"
  have "\<exists>bs. MarshalDeflate z r [] lim = Inr (True, bs)"
    using assms by (auto simp: sendable_def packed_def lim_def [symmetric] split: sum.splits prod.splits bool.splits)
  then obtain bs where "MarshalDeflate z r [] lim = Inr (True, bs)" by blast
  moreover from this have "packed z compress r = bs" by (simp add: packed_def lim_def)
  ultimately show ?thesis
    unfolding QueueRep_def lim_def [symmetric]
    by (simp add: MarshalDeflate_append [of z r "le_bytes 4 0"] frame_def PACKET_SIZE_LIMIT_def)
qed

section \<open>From one end to the other\<close>

text \<open>
  What travels: the objects queued on one end, framed, are cut into chunks by the network
  and popped on the other end.
\<close>

definition queue_all :: "zlib \<Rightarrow> bool \<Rightarrow> pyrep list \<Rightarrow> evetcp \<Rightarrow> evetcp result" where
  "queue_all z compress rs c = fold (\<lambda>r m. ebind m (QueueRep z r compress)) rs (Inr c)"

lemma queue_all_frames:
  "mSockState (base c) = STATE_CONNECTED \<Longrightarrow> list_all (sendable env z compress) rs \<Longrightarrow>
   \<exists>c'. queue_all z compress rs c = Inr c' \<and> mSockState (base c') = STATE_CONNECTED \<and>
        mSock (base c') = mSock (base c) \<and> mSendQueue (base c') = mSendQueue (base c) @ map (\<lambda>r. frame (packed z compress r)) rs"
proof (induction rs arbitrary: c)
  case Nil
  then show ?case by (simp add: queue_all_def)
next
  case (Cons r rs)
  then show ?case
    using QueueRep_sends [of env z compress r c]
      Cons.IH [of "c\<lparr>base := snd (Send (frame (packed z compress r)) (base c))\<rparr>"]
    by (simp add: queue_all_def Send_def)
qed

primrec pop_all :: "env \<Rightarrow> zlib \<Rightarrow> nat \<Rightarrow> evetcp \<Rightarrow> (pyrep list \<times> evetcp) result" where
  "pop_all env z 0 c = Inr ([], c)"
| "pop_all env z (Suc n) c =
     ebind (PopRep env z c) (\<lambda>(rep, c1).
       case rep of
         None \<Rightarrow> Inr ([], c1)
       | Some r \<Rightarrow> ebind (pop_all env z n c1) (\<lambda>(rs, c2). Inr (r # rs, c2)))"

lemma pop_all_packed:
  "zlib_ok z \<Longrightarrow> list_all (sendable env z compress) rs \<Longrightarrow>
   mInQueue c = \<lparr>mBuffer = b, mPackets = map (packed z compress) rs\<rparr> \<Longrightarrow>
   pop_all env z (length rs) c =
     Inr (map wire_norm rs, c\<lparr>mInQueue := \<lparr>mBuffer = b, mPackets = []\<rparr>\<rparr>)"
proof (induction rs arbitrary: c)
  case Nil
  then show ?case by simp
next
  case (Cons r rs)
  define p where "p = \<lparr>mBuffer = b, mPackets = map (packed z compress) rs\<rparr>"
  have "length (packed z compress r) \<le> PACKET_SIZE_LIMIT"
    using Cons.prems(2) by (simp add: sendable_def)
  then have "PopRep env z c = Inr (Some (wire_norm r), c\<lparr>mInQueue := p\<rparr>)"
    using Cons.prems InflateUnmarshal_packed [of z env compress r]
    by (simp add: PopRep_def PopPacket_def p_def)
  then show ?case
    using Cons.IH [of "c\<lparr>mInQueue := p\<rparr>"] Cons.prems by (simp add: p_def)
qed

lemma feed_frames:
  assumes "concat bss = concat (map frame ps)" and "length (concat bss) < 2 ^ 32"
  shows "feed bss StreamPacketizer_new = \<lparr>mBuffer = [], mPackets = ps\<rparr>"
proof -
  have "parsed StreamPacketizer_new"
    by (simp add: parsed_def StreamPacketizer_new_def process_loop.simps)
  then have "feed bss StreamPacketizer_new =
      Process_packets (InputData (concat bss) StreamPacketizer_new)"
    using assms(2) by (simp add: feed_concat StreamPacketizer_new_def)
  then show ?thesis
    using assms process_frames [of ps "[]" "[]"]
    by (simp add: Process_packets_def InputData_def StreamPacketizer_new_def
        process_loop.simps [of "[]"])
qed

lemma delivery:
  assumes z: "zlib_ok z" and rs: "list_all (sendable env z compress) rs"
    and bss: "concat bss = concat (map (\<lambda>r. frame (packed z compress r)) rs)"
    and small: "length (concat bss) < 2 ^ 32"
  shows "pop_all env z (length rs) (c\<lparr>mInQueue := feed bss StreamPacketizer_new\<rparr>)
           = Inr (map wire_norm rs, c\<lparr>mInQueue := StreamPacketizer_new\<rparr>)"
proof -
  have "feed bss StreamPacketizer_new =
      \<lparr>mBuffer = [], mPackets = map (packed z compress) rs\<rparr>"
    using bss small by (intro feed_frames) (simp_all add: comp_def)
  then show ?thesis
    using pop_all_packed [OF z rs, of "c\<lparr>mInQueue := feed bss StreamPacketizer_new\<rparr>" "[]"]
    by (simp add: StreamPacketizer_new_def)
qed

section \<open>Main results\<close>

text \<open>C30. What one end queues the other end pops, as far as the wire format carries it: objects queued on a
  connected connection with nothing in its queue, sent in whatever pieces the socket takes them, cut by the network into
  whatever chunks, are popped in order and nothing else, with and without compression, each in
  the form that the format gives it (\<open>wire_norm\<close>: negative zero becomes zero, a substream the bytes
  of its object). The objects are \<open>sendable\<close>: they satisfy \<open>wire_ok\<close>, so they hold no packed row and no
  checksummed stream, no null pointer, no long whose encoding would be cut (\<open>long_truncated\<close>), no
  string that the string table would replace (\<open>string_table_collision\<close>), no token of 255 bytes, no
  dictionary with keys of one hash, and are not nested deeper than the format allows; and each takes a
  non-empty frame of at most \<open>PACKET_SIZE_LIMIT\<close>. The sending call has emptied the queue, the frames
  together are shorter than \<open>2 ^ 32\<close> bytes, and zlib inflates what it deflated.\<close>

theorem queued_objects_arrive:
  assumes "zlib_ok z" "list_all (sendable env z compress) rs"
    and "mSockState (base a) = STATE_CONNECTED" "mSendQueue (base a) = []"
    and "queue_all z compress rs a = Inr a'"
    and "SendData answers (base a') = Inr (Some True, wire, t)"
    and "concat bss = wire" "length wire < 2 ^ 32"
  shows "pop_all env z (length rs) (b\<lparr>mInQueue := feed bss StreamPacketizer_new\<rparr>)
           = Inr (map wire_norm rs, b\<lparr>mInQueue := StreamPacketizer_new\<rparr>)"
proof -
  have "mSendQueue (base a') = map (\<lambda>r. frame (packed z compress r)) rs"
    using queue_all_frames [OF assms(3,2)] assms(4,5) by auto
  then have "wire = concat (map (\<lambda>r. frame (packed z compress r)) rs)"
    using assms(6) send_loop_conserves [of answers "mSendQueue (base a')" "[]"]
      send_loop_done [of answers "mSendQueue (base a')" "[]"]
    by (auto simp: SendData_def ebind_Inr_conv split: if_splits)
  then show ?thesis using delivery [OF assms(1,2)] assms(7,8) by simp
qed

text \<open>A compressor to apply the statements to: it puts the header byte in front.\<close>

definition plain_zlib :: zlib where
  "plain_zlib = \<lparr>z_compress = (\<lambda>d. Some (0x78 # d)),
     z_uncompress = (\<lambda>n c. if length (tl c) \<le> n then Z_OK (tl c) else Z_BUF_ERROR)\<rparr>"

lemma plain_zlib_ok: "zlib_ok plain_zlib"
  by (simp add: zlib_ok_def plain_zlib_def)

lemma packed_small:
  assumes "Marshal r = Inr bs" "length bs < 0x2000"
  shows "packed z compress r = bs"
  using assms by (simp add: packed_def MarshalDeflate_def deflationLimit_default_def PACKET_SIZE_LIMIT_def)

lemma le_bytes_4: "le_bytes 4 w = [ucast w, ucast (drop_bit 8 w), ucast (drop_bit 16 w), ucast (drop_bit 24 w)]"
  by (simp add: eval_nat_numeral(2) [of "Num.num.Bit0 num.One"] numeral_eq_Suc drop_bit_drop_bit)

lemma Marshal_int: "Marshal (PyInt 5) = Inr [0x7E, 0, 0, 0, 0, 6, 5]"
  by (simp add: Marshal_def SaveStream_def stream_header_def VisitInteger_def le_bytes_4)
    (simp add: put_def)

lemma sendable_int: "packed plain_zlib True (PyInt 5) = [0x7E, 0, 0, 0, 0, 6, 5]" "sendable env plain_zlib True (PyInt 5)"
  using packed_small [OF Marshal_int, of plain_zlib True] Marshal_int
  by (simp_all add: sendable_def PACKET_SIZE_LIMIT_def deflate_limit_def)

theorem queued_objects_arrive_witness:
  "\<forall>env b. pop_all env plain_zlib 2 (b\<lparr>mInQueue := feed [[7, 0], [0, 0, 0x7E, 0, 0, 0, 0, 6, 5, 7, 0, 0],
     [0, 0x7E, 0, 0, 0, 0, 6, 5]] StreamPacketizer_new\<rparr>)
     = Inr ([PyInt 5, PyInt 5], b\<lparr>mInQueue := StreamPacketizer_new\<rparr>)"
proof (intro allI)
  fix env b
  show "pop_all env plain_zlib 2 (b\<lparr>mInQueue := feed [[7, 0], [0, 0, 0x7E, 0, 0, 0, 0, 6, 5, 7, 0, 0],
     [0, 0x7E, 0, 0, 0, 0, 6, 5]] StreamPacketizer_new\<rparr>)
     = Inr ([PyInt 5, PyInt 5], b\<lparr>mInQueue := StreamPacketizer_new\<rparr>)"
  proof -
    define a where "a = \<lparr>base = TCPConnection_accepted 1 2, mInQueue = StreamPacketizer_new\<rparr>"
    have a: "mSockState (base a) = STATE_CONNECTED" "mSendQueue (base a) = []"
      by (simp_all add: a_def TCPConnection_accepted_def)
    have rs: "list_all (sendable env plain_zlib True) [PyInt 5, PyInt 5]" by (simp add: sendable_int)
    have f: "frame [0x7E, 0, 0, 0, 0, 6, 5] = [7, 0, 0, 0, 0x7E, 0, 0, 0, 0, 6, 5]"
      by (simp add: frame_def le_bytes_4)
    obtain a' where a': "queue_all plain_zlib True [PyInt 5, PyInt 5] a = Inr a'"
        "mSock (base a')" "mSockState (base a') = STATE_CONNECTED"
        "mSendQueue (base a') = [frame [0x7E, 0, 0, 0, 0, 6, 5], frame [0x7E, 0, 0, 0, 0, 6, 5]]"
      using queue_all_frames [OF a(1) rs] a(2) by (auto simp: sendable_int a_def TCPConnection_accepted_def)
    then obtain t where t: "SendData [Sent 4, Sent 7, Sent 11] (base a') =
        Inr (Some True, [7, 0, 0, 0, 0x7E, 0, 0, 0, 0, 6, 5, 7, 0, 0, 0, 0x7E, 0, 0, 0, 0, 6, 5], t)"
      by (simp add: SendData_def f)
    let ?chunks = "[[7, 0], [0, 0, 0x7E, 0, 0, 0, 0, 6, 5, 7, 0, 0], [0, 0x7E, 0, 0, 0, 0, 6, 5]]"
    have "pop_all env plain_zlib (length [PyInt 5, PyInt 5]) (b\<lparr>mInQueue := feed ?chunks StreamPacketizer_new\<rparr>)
        = Inr (map wire_norm [PyInt 5, PyInt 5], b\<lparr>mInQueue := StreamPacketizer_new\<rparr>)"
      by (rule queued_objects_arrive [OF plain_zlib_ok rs a a'(1) t]) simp_all
    moreover have "length [PyInt 5, PyInt 5] = 2" by simp
    ultimately show ?thesis by (simp only: list.map wire_norm.simps)
  qed
qed

text \<open>C35. Framing does not depend on how the network cuts the stream: fed in any chunks, a sequence of
  frames becomes exactly its packets, and popping until nothing is left gives them in order.\<close>

theorem framing_any_chunks:
  assumes "concat bss = concat (map frame ps)" "length (concat bss) < 2 ^ 32"
  shows "feed bss StreamPacketizer_new = \<lparr>mBuffer = [], mPackets = ps\<rparr> \<and>
    fst (StreamPacketizer_PopAll (length ps) (feed bss StreamPacketizer_new)) = ps"
  using feed_frames [OF assms] packets.pops_all [of "\<lparr>mBuffer = [], mPackets = ps\<rparr>" "length ps"]
  by (auto simp: StreamPacketizer_PopAll_def)

theorem framing_any_chunks_witness:
  "feed [[1, 0], [0, 0, 9, 0, 0], [0, 0]] StreamPacketizer_new = \<lparr>mBuffer = [], mPackets = [[9], []]\<rparr>"
proof -
  have "frame [9] = [1, 0, 0, 0, 9]" "frame [] = [0, 0, 0, 0]"
    by (simp_all add: frame_def le_bytes_4)
  then show ?thesis
    using framing_any_chunks [of "[[1, 0], [0, 0, 9, 0, 0], [0, 0]]" "[[9], []]"] by simp
qed

text \<open>Inflating gives back what was deflated: the loop that doubles the output room ends with the
  original, for originals up to \<open>2 ^ 45\<close> bytes.\<close>

theorem inflate_deflate:
  assumes "zlib_ok z" "DeflateData z d [] = Inr (True, c)" "length d \<le> deflate_limit" "length c \<le> deflate_limit"
  shows "InflateData z c out = Inr (True, out @ d)"
  using assms InflateData_inverts [OF assms(1), of d c out]
  by (auto simp: DeflateData_def ebind_Inr_conv split: option.splits)

theorem inflate_deflate_witness: "InflateData plain_zlib [0x78, 1, 2] [9] = Inr (True, [9, 1, 2])"
  using inflate_deflate [OF plain_zlib_ok, of "[1, 2]" "[0x78, 1, 2]" "[9]"]
  by (simp add: DeflateData_def plain_zlib_def deflate_limit_def buf_get_hd)

lemma empty_frame_asserts:
  "PopRep env z (c\<lparr>mInQueue := feed [[0, 0, 0, 0]] StreamPacketizer_new\<rparr>) = Inl Assert_fail"
proof -
  have "frame [] = [0, 0, 0, 0]" by (simp add: frame_def le_bytes_4)
  then have "feed [[0, 0, 0, 0]] StreamPacketizer_new = \<lparr>mBuffer = [], mPackets = [[]]\<rparr>"
    using feed_frames [of "[[0, 0, 0, 0]]" "[[]]"] by simp
  then show ?thesis
    by (simp add: PopRep_def PopPacket_def InflateUnmarshal_def IsDeflated_def buf_get_def iter_add_def
        iter_deref_def)
qed

text \<open>Clearing the buffers of a connection keeps the bytes of a frame that was cut off: the first
  frame of the next stream is read as the rest of it.\<close>

theorem clear_keeps_partial_frame:
  "feed [frame [7]] (Packetizer_ClearBuffers (feed [[2, 0, 0, 0]] StreamPacketizer_new)) =
     \<lparr>mBuffer = [0, 0, 7], mPackets = [[1, 0]]\<rparr>"
proof -
  have f: "frame [7] = [1, 0, 0, 0, 7]" "frame [1, 0] = [2, 0, 0, 0, 1, 0]"
    by (simp_all add: frame_def le_bytes_4)
  have l: "frame_length [2, 0, 0, 0] = 2" "frame_length [0, 0, 7] = unat (le_word [0, 0, 7] :: int32)"
    by (simp_all add: frame_length_def)
  have "feed [[2, 0, 0, 0]] StreamPacketizer_new = \<lparr>mBuffer = [2, 0, 0, 0], mPackets = []\<rparr>"
    using process_small [of "[2, 0, 0, 0]" "[]"] l
    by (simp add: feed_def ProcessReceivedData_def Process_packets_def InputData_def StreamPacketizer_new_def)
  moreover have "process_loop ([2, 0, 0, 0] @ frame [7]) [] = ([0, 0, 7], [[1, 0]])"
    using process_frames [of "[[1, 0]]" "[0, 0, 7]" "[]"] f process_loop.simps [of "[0, 0, 7]" "[[1, 0]]"] by simp
  ultimately show ?thesis
    by (simp add: feed_def ProcessReceivedData_def Process_packets_def InputData_def Packetizer_ClearBuffers_def)
qed

end
