(* ===== verification/PyPacket.thy ===== *)
theory PyPacket
  imports RoundTrip
begin

text \<open>
  The packets of the Macho protocol, \<open>eve-common/python/PyPacket.cpp\<close>: addresses, packets,
  call streams and notification streams, each with its decoding from the object model and
  its encoding. A decoder answers whether it succeeded together with the object it decodes
  into, which keeps the fields assigned before a failure; the objects that the C++ code
  consumes are values here.
\<close>

section \<open>Helpers\<close>

definition IsTuple :: "pyrep \<Rightarrow> bool" where
  "IsTuple r = (case r of PyTuple _ \<Rightarrow> True | _ \<Rightarrow> False)"

definition IsInt :: "pyrep \<Rightarrow> bool" where
  "IsInt r = (case r of PyInt _ \<Rightarrow> True | _ \<Rightarrow> False)"

definition IsString :: "pyrep \<Rightarrow> bool" where
  "IsString r = (case r of PyString _ \<Rightarrow> True | _ \<Rightarrow> False)"

definition IsDict :: "pyrep \<Rightarrow> bool" where
  "IsDict r = (case r of PyDict _ \<Rightarrow> True | _ \<Rightarrow> False)"

definition IsNone :: "pyrep \<Rightarrow> bool" where
  "IsNone r = (case r of PyNone \<Rightarrow> True | _ \<Rightarrow> False)"

text \<open>A class test reads the type tag of the object, which a null pointer does not have.\<close>

definition test :: "(pyrep \<Rightarrow> bool) \<Rightarrow> pyrep \<Rightarrow> bool result" where
  "test p r = (if r = PyNull then Inl Null_deref else Inr (p r))"

text \<open>Go on when a condition holds, return \<open>false\<close> and the object as it is otherwise.\<close>

definition guard :: "bool result \<Rightarrow> 'o \<Rightarrow> (bool \<times> 'o) result \<Rightarrow> (bool \<times> 'o) result" where
  "guard c d m = ebind c (\<lambda>ok. if ok then m else Inr (False, d))"

lemma guard_simps [simp]:
  "guard (Inr True) d m = m" "guard (Inr False) d m = Inr (False, d)" "guard (Inl e) d m = Inl e"
  by (simp_all add: guard_def)

text \<open>\<open>DecodeData\<close> followed by \<open>decoded()\<close>; a stream that does not unmarshal leaves null.\<close>

definition decoded_stream :: "env \<Rightarrow> bytes option \<Rightarrow> pyrep option \<Rightarrow> pyrep result" where
  "decoded_stream env data decoded =
     (case decoded of
        Some r \<Rightarrow> Inr r
      | None \<Rightarrow>
          (case data of
             None \<Rightarrow> Inr PyNull
           | Some bs \<Rightarrow>
               (case Unmarshal env bs of
                  Inl e \<Rightarrow> if e = Ret_null then Inr PyNull else Inl e
                | Inr r \<Rightarrow> Inr r)))"

section \<open>Addresses\<close>

datatype addr_type = Node | Client | Broadcast | Any | Invalid

definition addr_code :: "addr_type \<Rightarrow> int32" where
  "addr_code t = (case t of Node \<Rightarrow> 1 | Client \<Rightarrow> 2 | Broadcast \<Rightarrow> 4 | Any \<Rightarrow> 8 | Invalid \<Rightarrow> 73)"

record address =
  addr_type :: addr_type
  objectID :: int64
  callID :: int64
  service :: bytes
  bcast_idtype :: bytes

definition PyAddress_new :: address where
  "PyAddress_new =
     \<lparr>addr_type = Invalid, objectID = 0, callID = 0, service = [], bcast_idtype = []\<rparr>"

definition decode_any :: "env \<Rightarrow> pyrep list \<Rightarrow> address \<Rightarrow> (bool \<times> address) result" where
  "decode_any env t a =
     (if length t \<noteq> 3 then Inr (False, a) else
      Inr (True, a\<lparr>addr_type := Any, service := StringContent (t ! 1),
                   callID := IntegerValue env (t ! 2)\<rparr>))"

definition decode_node :: "env \<Rightarrow> pyrep list \<Rightarrow> address \<Rightarrow> (bool \<times> address) result" where
  "decode_node env t a =
     (if length t \<noteq> 4 then Inr (False, a) else
      Inr (True, a\<lparr>addr_type := Node, objectID := IntegerValue env (t ! 1),
                   service := StringContent (t ! 2), callID := IntegerValue env (t ! 3)\<rparr>))"

definition decode_client :: "env \<Rightarrow> pyrep list \<Rightarrow> address \<Rightarrow> (bool \<times> address) result" where
  "decode_client env t a =
     (if length t \<noteq> 4 then Inr (False, a) else
      Inr (True, a\<lparr>addr_type := Client, objectID := IntegerValue env (t ! 1),
                   callID := IntegerValue env (t ! 2), service := StringContent (t ! 3)\<rparr>))"

definition decode_broadcast :: "pyrep list \<Rightarrow> address \<Rightarrow> (bool \<times> address) result" where
  "decode_broadcast t a =
     (if length t \<noteq> 4 then Inr (False, a) else
      let a1 = a\<lparr>addr_type := Broadcast\<rparr>
      in guard (test IsString (t ! 1)) a1
        (guard (test IsString (t ! 3)) a1
          (Inr (True, a1\<lparr>service := StringContent (t ! 1), bcast_idtype := StringContent (t ! 3)\<rparr>))))"

definition PyAddress_Decode :: "env \<Rightarrow> pyrep \<Rightarrow> address \<Rightarrow> (bool \<times> address) result" where
  "PyAddress_Decode env base a =
     (case base of
        PyObject ty args \<Rightarrow>
          ebind (AsTuple args) (\<lambda>t.
            if length t < 3 then Inr (False, a) else
            guard (test IsInt (t ! 0)) a
              (let code = IntegerValue env (t ! 0)
               in if code = scast (addr_code Any) then decode_any env t a
                  else if code = scast (addr_code Node) then decode_node env t a
                  else if code = scast (addr_code Client) then decode_client env t a
                  else if code = scast (addr_code Broadcast) then decode_broadcast t a
                  else Inr (False, a)))
      | _ \<Rightarrow> Inr (False, a))"

definition long_or_none :: "int64 \<Rightarrow> pyrep" where
  "long_or_none i = (if i = 0 then PyNone else PyLong i)"

definition string_or_none :: "bytes \<Rightarrow> pyrep" where
  "string_or_none s = (if s = [] then PyNone else PyString (c_str s))"

definition PyAddress_Encode :: "address \<Rightarrow> pyrep" where
  "PyAddress_Encode a =
     PyObject (str ''macho.MachoAddress'')
       (PyTuple (case addr_type a of
          Any \<Rightarrow> [PyInt (addr_code Any), string_or_none (service a), long_or_none (objectID a)]
        | Node \<Rightarrow> [PyInt (addr_code Node), PyLong (objectID a), string_or_none (service a),
                  long_or_none (callID a)]
        | Client \<Rightarrow> [PyInt (addr_code Client), PyLong (objectID a), long_or_none (callID a),
                    string_or_none (service a)]
        | Broadcast \<Rightarrow> [PyInt (addr_code Broadcast), string_or_none (service a), PyList [],
                       PyString (c_str (bcast_idtype a))]
        | Invalid \<Rightarrow> [PyNone]))"

section \<open>Packets\<close>

datatype machonet_type =
    AUTHENTICATION_REQ | AUTHENTICATION_RSP | IDENTIFICATION_REQ | IDENTIFICATION_RSP
  | Fake_Invalid_Type | CALL_REQ | CALL_RSP | TRANSPORTCLOSED | RESOLVE_REQ | RESOLVE_RSP
  | NOTIFICATION | ERRORRESPONSE | SESSIONCHANGENOTIFICATION | SESSIONINITIALSTATENOTIFICATION
  | PING_REQ | PING_RSP | MOVEMENTNOTIFICATION

definition msg_codes :: "(int32 \<times> machonet_type) list" where
  "msg_codes =
     [(0, AUTHENTICATION_REQ), (1, AUTHENTICATION_RSP), (2, IDENTIFICATION_REQ),
      (3, IDENTIFICATION_RSP), (6, CALL_REQ), (7, CALL_RSP), (8, TRANSPORTCLOSED),
      (10, RESOLVE_REQ), (11, RESOLVE_RSP), (12, NOTIFICATION), (15, ERRORRESPONSE),
      (16, SESSIONCHANGENOTIFICATION), (18, SESSIONINITIALSTATENOTIFICATION),
      (20, PING_REQ), (21, PING_RSP)]"

definition msg_code :: "machonet_type \<Rightarrow> int32" where
  "msg_code t =
     (case t of AUTHENTICATION_REQ \<Rightarrow> 0 | AUTHENTICATION_RSP \<Rightarrow> 1 | IDENTIFICATION_REQ \<Rightarrow> 2
      | IDENTIFICATION_RSP \<Rightarrow> 3 | Fake_Invalid_Type \<Rightarrow> 4 | CALL_REQ \<Rightarrow> 6 | CALL_RSP \<Rightarrow> 7
      | TRANSPORTCLOSED \<Rightarrow> 8 | RESOLVE_REQ \<Rightarrow> 10 | RESOLVE_RSP \<Rightarrow> 11 | NOTIFICATION \<Rightarrow> 12
      | ERRORRESPONSE \<Rightarrow> 15 | SESSIONCHANGENOTIFICATION \<Rightarrow> 16
      | SESSIONINITIALSTATENOTIFICATION \<Rightarrow> 18 | PING_REQ \<Rightarrow> 20 | PING_RSP \<Rightarrow> 21
      | MOVEMENTNOTIFICATION \<Rightarrow> 100)"

record packet =
  type_string :: bytes
  msg_type :: machonet_type
  source :: address
  dest :: address
  userid :: int32
  payload :: pyrep
  named_payload :: pyrep
  contextKey :: pyrep

definition PyPacket_new :: packet where
  "PyPacket_new =
     \<lparr>type_string = str ''none'', msg_type = Fake_Invalid_Type, source = PyAddress_new,
      dest = PyAddress_new, userid = 0, payload = PyNull, named_payload = PyNull,
      contextKey = PyNull\<rparr>"

text \<open>The checksummed stream and the substream a packet may be wrapped in.\<close>

definition unwrap_checksum :: "pyrep \<Rightarrow> pyrep" where
  "unwrap_checksum r = (case r of PyChecksumedStream r' _ \<Rightarrow> r' | _ \<Rightarrow> r)"

definition unwrap_stream :: "env \<Rightarrow> pyrep \<Rightarrow> pyrep result" where
  "unwrap_stream env r =
     (case r of
        PyNull \<Rightarrow> Inl Null_deref
      | PySubStream data decoded \<Rightarrow> decoded_stream env data decoded
      | _ \<Rightarrow> Inr r)"

definition decode_rest :: "env \<Rightarrow> pyrep list \<Rightarrow> packet \<Rightarrow> (bool \<times> packet) result" where
  "decode_rest env t p =
     ebind (PyAddress_Decode env (t ! 1) (source p)) (\<lambda>(ok1, src).
     let p1 = p\<lparr>source := src\<rparr> in
     if \<not> ok1 then Inr (False, p1) else
     ebind (PyAddress_Decode env (t ! 2) (dest p1)) (\<lambda>(ok2, dst).
     let p2 = p1\<lparr>dest := dst\<rparr> in
     if \<not> ok2 then Inr (False, p2) else
     let p3 = p2\<lparr>userid := ucast (IntegerValue env (t ! 3))\<rparr> in
     guard (test IsTuple (t ! 4)) p3
       (let p4 = p3\<lparr>payload := t ! 4\<rparr>
        in ebind (test IsNone (t ! 5)) (\<lambda>none.
           if none then Inr (True, p4)
           else if IsDict (t ! 5) then Inr (True, p4\<lparr>named_payload := t ! 5\<rparr>)
           else Inr (False, p4)))))"

definition PyPacket_Decode :: "env \<Rightarrow> pyrep \<Rightarrow> packet \<Rightarrow> (bool \<times> packet) result" where
  "PyPacket_Decode env in_packet p0 =
     (let p = p0\<lparr>payload := PyNull, named_payload := PyNull\<rparr>
      in if in_packet = PyNull then Inr (False, p) else
      ebind (unwrap_stream env (unwrap_checksum in_packet)) (\<lambda>r.
        case r of
          PyObject ty args \<Rightarrow>
            let p1 = p\<lparr>type_string := ty\<rparr>
            in guard (test IsTuple args) p1
              (let t = items_of args
               in if length t \<noteq> 7 then Inr (False, p1) else
                  guard (test IsInt (t ! 0)) p1
                   (case map_of msg_codes (ucast (IntegerValue env (t ! 0))) of
                      None \<Rightarrow> Inr (False, p1)
                    | Some mt \<Rightarrow> decode_rest env t (p1\<lparr>msg_type := mt\<rparr>)))
        | _ \<Rightarrow> Inr (False, p)))"

text \<open>The items are stored in the tuple directly: a null payload stays a null item.\<close>

definition PyPacket_Encode :: "packet \<Rightarrow> pyrep \<times> packet" where
  "PyPacket_Encode p =
     (PyObject (c_str (type_string p))
        (PyTuple [PyInt (msg_code (msg_type p)), PyAddress_Encode (source p),
                  PyAddress_Encode (dest p),
                  (if userid p = 0 then PyNone else PyInt (userid p)),
                  payload p,
                  (if named_payload p = PyNull then PyNone else named_payload p),
                  (if contextKey p = PyNull then PyNone else contextKey p)]),
      p\<lparr>payload := PyNull, named_payload := PyNull\<rparr>)"

section \<open>Call streams\<close>

record call_stream =
  remoteObject :: int32
  remoteObjectStr :: bytes
  method_name :: bytes
  arg_tuple :: pyrep
  arg_dict :: pyrep

definition PyCallStream_new :: call_stream where
  "PyCallStream_new =
     \<lparr>remoteObject = 0, remoteObjectStr = [], method_name = [], arg_tuple = PyNull, arg_dict = PyNull\<rparr>"

text \<open>The tuple in the substream at the second place of the inner payload tuple.\<close>

definition inner_stream :: "env \<Rightarrow> pyrep list \<Rightarrow> 'o \<Rightarrow> (pyrep list \<Rightarrow> (bool \<times> 'o) result) \<Rightarrow>
    (bool \<times> 'o) result" where
  "inner_stream env outer d k =
     guard (test IsTuple (outer ! 0)) d
       (let t = items_of (outer ! 0)
        in if length t \<noteq> 2 then Inr (False, d) else
           (case t ! 1 of
              PyNull \<Rightarrow> Inl Null_deref
            | PySubStream data decoded \<Rightarrow>
                ebind (decoded_stream env data decoded) (\<lambda>r.
                  case r of PyTuple m \<Rightarrow> k m | _ \<Rightarrow> Inr (False, d))
            | _ \<Rightarrow> Inr (False, d)))"

definition decode_call :: "env \<Rightarrow> pyrep list \<Rightarrow> call_stream \<Rightarrow> (bool \<times> call_stream) result" where
  "decode_call env m c =
     (if length m \<noteq> 4 then Inr (False, c) else
      ebind (case m ! 0 of
               PyNull \<Rightarrow> Inl Null_deref
             | PyInt i \<Rightarrow> Inr (True, c\<lparr>remoteObject := i, remoteObjectStr := []\<rparr>)
             | PyString s \<Rightarrow> Inr (True, c\<lparr>remoteObject := 0, remoteObjectStr := s\<rparr>)
             | _ \<Rightarrow> Inr (False, c)) (\<lambda>(ok, c1).
      if \<not> ok then Inr (False, c1) else
      guard (test IsString (m ! 1)) c1
       (let c2 = c1\<lparr>method_name := StringContent (m ! 1)\<rparr>
        in guard (test IsTuple (m ! 2)) c2
          (let c3 = c2\<lparr>arg_tuple := m ! 2\<rparr>
           in ebind (test IsNone (m ! 3)) (\<lambda>none.
              if none then Inr (True, c3)
              else if IsDict (m ! 3) then Inr (True, c3\<lparr>arg_dict := m ! 3\<rparr>)
              else Inr (False, c3))))))"

definition PyCallStream_Decode ::
    "env \<Rightarrow> bytes \<Rightarrow> pyrep \<Rightarrow> call_stream \<Rightarrow> (bool \<times> call_stream) result" where
  "PyCallStream_Decode env ty in_payload c0 =
     (let c = c0\<lparr>arg_tuple := PyNull, arg_dict := PyNull\<rparr>
      in case in_payload of
        PyTuple outer \<Rightarrow>
          if ty \<noteq> str ''macho.CallReq'' then Inr (False, c)
          else if length outer \<noteq> 1 then Inr (False, c)
          else inner_stream env outer c (\<lambda>m. decode_call env m c)
      | _ \<Rightarrow> Inr (False, c))"

definition PyCallStream_Encode :: "call_stream \<Rightarrow> pyrep" where
  "PyCallStream_Encode c =
     (let res = PyTuple [(if remoteObject c = 0 then PyString (c_str (remoteObjectStr c))
                          else PyInt (remoteObject c)),
                         PyString (c_str (method_name c)), arg_tuple c,
                         (if arg_dict c = PyNull then PyNone else arg_dict c)];
          it2 = PyTuple [PyInt (if remoteObject c = 0 then 1 else 0), PySubStream None (Some res)]
      in PyTuple [it2, PyNone])"

section \<open>Notification streams\<close>

record notification =
  notifyType :: bytes
  n_remoteObject :: int32
  n_remoteObjectStr :: bytes
  args :: pyrep

definition EVENotificationStream_new :: notification where
  "EVENotificationStream_new =
     \<lparr>notifyType = str ''NO TYPE SET'', n_remoteObject = 0, n_remoteObjectStr = [], args = PyNull\<rparr>"

definition decode_notification ::
    "bytes \<Rightarrow> pyrep list \<Rightarrow> notification \<Rightarrow> (bool \<times> notification) result" where
  "decode_notification notify_type m n =
     (if length m \<noteq> 2 then Inr (False, n) else
      ebind (case m ! 0 of
               PyNull \<Rightarrow> Inl Null_deref
             | PyInt i \<Rightarrow> Inr (True, n\<lparr>n_remoteObject := i, n_remoteObjectStr := []\<rparr>)
             | PyString s \<Rightarrow> Inr (True, n\<lparr>n_remoteObject := 0, n_remoteObjectStr := s\<rparr>)
             | _ \<Rightarrow> Inr (False, n)) (\<lambda>(ok, n1).
      if \<not> ok then Inr (False, n1) else
      guard (test IsTuple (m ! 1)) n1
       (let t = items_of (m ! 1)
        in if length t \<noteq> 2 then Inr (False, n1) else
           guard (test IsInt (t ! 0)) n1
            (guard (test IsTuple (t ! 1)) n1
              (Inr (True, n1\<lparr>args := t ! 1, notifyType := notify_type\<rparr>))))))"

definition EVENotificationStream_Decode ::
    "env \<Rightarrow> bytes \<Rightarrow> bytes \<Rightarrow> pyrep \<Rightarrow> notification \<Rightarrow> (bool \<times> notification) result" where
  "EVENotificationStream_Decode env pkt_type notify_type in_payload n0 =
     (let n = n0\<lparr>args := PyNull\<rparr>
      in case in_payload of
        PyTuple outer \<Rightarrow>
          if pkt_type \<noteq> str ''macho.Notification'' then Inr (False, n)
          else if length outer \<noteq> 2 then Inr (False, n)
          else inner_stream env outer n (\<lambda>m. decode_notification notify_type m n)
      | _ \<Rightarrow> Inr (False, n))"

definition EVENotificationStream_Encode :: "notification \<Rightarrow> pyrep" where
  "EVENotificationStream_Encode n =
     (let t4 = PyTuple [PyInt 1, (if args n = PyNull then PyNone else args n)];
          t3 = PyTuple [PyInt 0, t4];
          t2 = PyTuple [PyInt 0, PySubStream None (Some t3)]
      in PyTuple [t2])"

section \<open>Decoding what was encoded\<close>

definition no_zero :: "bytes \<Rightarrow> bool" where
  "no_zero s \<longleftrightarrow> list_all (\<lambda>c. c \<noteq> 0) s"

lemma c_str_no_zero [simp]: "no_zero s \<Longrightarrow> c_str s = s"
  by (simp add: no_zero_def c_str_def list_all_iff takeWhile_eq_all_conv)

text \<open>
  The addresses that survive: a broadcast needs a name, and an address of type \<open>Any\<close>
  keeps neither of its identifiers (see \<open>any_address\<close> below).
\<close>

definition address_ok :: "address \<Rightarrow> bool" where
  "address_ok a \<longleftrightarrow> no_zero (service a) \<and> no_zero (bcast_idtype a) \<and>
     (case addr_type a of
        Node \<Rightarrow> bcast_idtype a = []
      | Client \<Rightarrow> bcast_idtype a = []
      | Any \<Rightarrow> bcast_idtype a = [] \<and> objectID a = 0 \<and> callID a = 0
      | Broadcast \<Rightarrow> service a \<noteq> [] \<and> objectID a = 0 \<and> callID a = 0
      | Invalid \<Rightarrow> False)"

lemma string_or_none_content [simp]: "no_zero s \<Longrightarrow> StringContent (string_or_none s) = s"
  by (simp add: StringContent_def string_or_none_def)

lemma long_or_none_value [simp]: "IntegerValue env (long_or_none i) = i"
  by (simp add: IntegerValue_def long_or_none_def)

lemma address_cong:
  "addr_type a = t \<Longrightarrow> objectID a = o1 \<Longrightarrow> callID a = c \<Longrightarrow> service a = sv \<Longrightarrow> bcast_idtype a = b \<Longrightarrow>
   a = \<lparr>addr_type = t, objectID = o1, callID = c, service = sv, bcast_idtype = b\<rparr>"
  by simp

lemma IntegerValue_simps [simp]:
  "IntegerValue env (PyInt i) = scast i" "IntegerValue env (PyLong l) = l"
  by (simp_all add: IntegerValue_def)

lemmas address_simps = PyAddress_Decode_def PyAddress_Encode_def AsTuple_def test_def IsInt_def IsString_def
  addr_code_def decode_any_def decode_node_def decode_client_def decode_broadcast_def Let_def PyAddress_new_def

lemma PyAddress_any:
  assumes "addr_type a = Any" "no_zero (service a)"
  shows "PyAddress_Decode env (PyAddress_Encode a) PyAddress_new =
    Inr (True, PyAddress_new\<lparr>addr_type := Any, service := service a, callID := objectID a\<rparr>)"
  using assms by (simp add: address_simps)

lemma PyAddress_round_trip:
  assumes "address_ok a"
  shows "PyAddress_Decode env (PyAddress_Encode a) PyAddress_new = Inr (True, a)"
proof (cases "addr_type a")
  case Broadcast
  then show ?thesis
    using assms by (auto simp: address_ok_def address_simps string_or_none_def StringContent_def
        intro!: address_cong [symmetric])
qed (use assms in \<open>auto simp: address_ok_def address_simps intro!: address_cong [symmetric]\<close>)

definition packet_ok :: "packet \<Rightarrow> bool" where
  "packet_ok p \<longleftrightarrow> no_zero (type_string p) \<and> address_ok (source p) \<and> address_ok (dest p) \<and>
     msg_type p \<noteq> Fake_Invalid_Type \<and> msg_type p \<noteq> MOVEMENTNOTIFICATION \<and>
     IsTuple (payload p) \<and> (named_payload p = PyNull \<or> IsDict (named_payload p)) \<and>
     contextKey p = PyNull"

lemma msg_code_inverse:
  "t \<noteq> Fake_Invalid_Type \<Longrightarrow> t \<noteq> MOVEMENTNOTIFICATION \<Longrightarrow> map_of msg_codes (msg_code t) = Some t"
  by (cases t) (simp_all add: msg_codes_def msg_code_def)

lemma not_null: "IsTuple r \<Longrightarrow> r \<noteq> PyNull" "IsDict r \<Longrightarrow> r \<noteq> PyNull" "IsDict r \<Longrightarrow> \<not> IsNone r"
  by (auto simp: IsTuple_def IsDict_def IsNone_def split: pyrep.splits)

lemma userid_value [simp]:
  "ucast (IntegerValue env (if u = 0 then PyNone else PyInt u)) = (u :: int32)"
proof -
  have "(ucast (scast u :: int64) :: int32) = u"
    by (rule bit_word_eqI) (auto simp: bit_ucast_iff bit_word_scast_iff)
  then show ?thesis by (simp add: IntegerValue_def)
qed

lemma packet_cong:
  "type_string p = a \<Longrightarrow> msg_type p = b \<Longrightarrow> source p = c \<Longrightarrow> dest p = d \<Longrightarrow> userid p = e \<Longrightarrow>
   payload p = f \<Longrightarrow> named_payload p = g \<Longrightarrow> contextKey p = h \<Longrightarrow>
   p = \<lparr>type_string = a, msg_type = b, source = c, dest = d, userid = e, payload = f,
        named_payload = g, contextKey = h\<rparr>"
  by simp

lemma PyPacket_round_trip:
  assumes "packet_ok p"
  shows "PyPacket_Decode env (fst (PyPacket_Encode p)) PyPacket_new = Inr (True, p)"
proof -
  define t where "t = [PyInt (msg_code (msg_type p)), PyAddress_Encode (source p),
      PyAddress_Encode (dest p), (if userid p = 0 then PyNone else PyInt (userid p)), payload p,
      (if named_payload p = PyNull then PyNone else named_payload p),
      (if contextKey p = PyNull then PyNone else contextKey p)]"
  have ok: "packet_ok p" by (rule assms)
  have t: "length t = 7" "t ! 0 = PyInt (msg_code (msg_type p))" "t ! 1 = PyAddress_Encode (source p)"
      "t ! 2 = PyAddress_Encode (dest p)" "t ! 3 = (if userid p = 0 then PyNone else PyInt (userid p))"
      "t ! 4 = payload p" "t ! 5 = (if named_payload p = PyNull then PyNone else named_payload p)"
    by (simp_all add: t_def)
  have code: "(ucast (scast (msg_code (msg_type p)) :: int64) :: int32) = msg_code (msg_type p)"
    by (rule bit_word_eqI) (auto simp: bit_ucast_iff bit_word_scast_iff)
  define q where "q = PyPacket_new\<lparr>type_string := type_string p, msg_type := msg_type p\<rparr>"
  have q: "source q = PyAddress_new" "dest q = PyAddress_new" by (simp_all add: q_def PyPacket_new_def)
  have "decode_rest env t q = Inr (True, p)"
    unfolding decode_rest_def t q
    using ok not_null [of "payload p"] not_null [of "named_payload p"]
    by (auto simp: packet_ok_def PyAddress_round_trip test_def q_def PyPacket_new_def IsNone_def Let_def
        intro!: packet_cong [symmetric])
  moreover have "fst (PyPacket_Encode p) = PyObject (type_string p) (PyTuple t)"
    using ok by (simp add: PyPacket_Encode_def t_def packet_ok_def)
  moreover have "PyPacket_new\<lparr>payload := PyNull, named_payload := PyNull, type_string := type_string p,
      msg_type := msg_type p\<rparr> = q"
    by (simp add: q_def PyPacket_new_def)
  ultimately show ?thesis
    using ok by (simp add: PyPacket_Decode_def unwrap_checksum_def unwrap_stream_def test_def IsTuple_def
        IsInt_def t packet_ok_def Let_def code msg_code_inverse)
qed

text \<open>The whole path of a packet: encoded, marshalled, unmarshalled, decoded.\<close>

lemma wire_norm_address [simp]: "wire_norm (PyAddress_Encode a) = PyAddress_Encode a"
  by (cases "addr_type a") (simp_all add: PyAddress_Encode_def string_or_none_def long_or_none_def)

definition packet_norm :: "packet \<Rightarrow> packet" where
  "packet_norm p = p\<lparr>payload := wire_norm (payload p), named_payload := wire_norm (named_payload p)\<rparr>"

lemma IsTuple_norm [simp]: "IsTuple (wire_norm r) = IsTuple r" "IsDict (wire_norm r) = IsDict r"
  by (cases r; simp add: IsTuple_def IsDict_def)+

lemma packet_norm_Encode:
  assumes "packet_ok p"
  shows "packet_ok (packet_norm p)"
    and "wire_norm (fst (PyPacket_Encode p)) = fst (PyPacket_Encode (packet_norm p))"
  using assms by (auto simp: packet_ok_def packet_norm_def PyPacket_Encode_def)

lemma PyPacket_Decode_norm:
  assumes "packet_ok p"
  shows "PyPacket_Decode env (wire_norm (fst (PyPacket_Encode p))) PyPacket_new =
    Inr (True, packet_norm p)"
  using assms by (simp add: packet_norm_Encode PyPacket_round_trip)

lemma packet_over_wire:
  assumes ok: "packet_ok p" and wire: "wire_ok env 0 (fst (PyPacket_Encode p))"
  shows "\<exists>bs r. Marshal (fst (PyPacket_Encode p)) = Inr bs \<and> Unmarshal env bs = Inr r \<and>
    PyPacket_Decode env r PyPacket_new = Inr (True, packet_norm p)"
  using Unmarshal_Marshal [OF wire] PyPacket_Decode_norm [OF ok] by blast

section \<open>Main results\<close>

text \<open>C36. A packet survives the wire: encoded, marshalled, unmarshalled and decoded it is the packet
  that was sent, for every message type the decoder knows, when its addresses and payload are
  of the shape the protocol uses.\<close>

theorem packet_survives_wire:
  assumes "packet_ok p" "wire_ok env 0 (fst (PyPacket_Encode p))"
  shows "ebind (Marshal (fst (PyPacket_Encode p))) (\<lambda>bs. ebind (Unmarshal env bs) (\<lambda>r.
    PyPacket_Decode env r PyPacket_new)) = Inr (True, packet_norm p)"
  using packet_over_wire [OF assms] by auto

definition sample_address :: address where
  "sample_address = PyAddress_new\<lparr>addr_type := Client, objectID := 5, callID := 1\<rparr>"

definition sample_packet :: packet where
  "sample_packet = PyPacket_new\<lparr>type_string := str ''p'', msg_type := CALL_RSP, source := sample_address,
     dest := sample_address, userid := 7, payload := PyTuple [PyInt 3]\<rparr>"

lemma sample_packet_ok: "packet_ok sample_packet" "packet_norm sample_packet = sample_packet"
  by (simp_all add: packet_ok_def sample_packet_def sample_address_def address_ok_def PyAddress_new_def
      PyPacket_new_def no_zero_def IsTuple_def packet_norm_def)

lemma address_name: "string_ok (str ''macho.MachoAddress'')"
proof -
  have "s_mStringTable ! 47 = str ''macho.MachoAddress''"
    by (simp add: s_mStringTable_def table_names_def)
  then have "LookupString 48 = Some (str ''macho.MachoAddress'')"
    using LookupString_index [of 47] by simp
  then show ?thesis
    using LookupIndex_LookupString [of 48] by (simp add: string_ok_def table_exact_def)
qed

lemma c_str_Nil [simp]: "c_str [] = []"
  by (simp add: c_str_def)

lemma sample_packet_wire: "wire_ok env 0 (fst (PyPacket_Encode sample_packet))"
proof -
  have "integer_size 5 = 0" "integer_size 1 = 0" by (simp_all add: integer_size_def nth_le_bytes)
  then have long: "long_ok 5" "long_ok 1" by (simp_all add: long_ok_def)
  have "wire_ok env d (PyAddress_Encode sample_address)" if "d < 127" for d
    using that long address_name
    by (simp add: PyAddress_Encode_def sample_address_def PyAddress_new_def string_or_none_def
        long_or_none_def kMaxDepth_def del: str_Cons)
  then show ?thesis
    by (simp add: PyPacket_Encode_def sample_packet_def PyPacket_new_def kMaxDepth_def string_ok_def
        c_str_def)
qed

theorem packet_survives_wire_witness:
  "\<forall>env. ebind (Marshal (fst (PyPacket_Encode sample_packet))) (\<lambda>bs. ebind (Unmarshal env bs) (\<lambda>r.
    PyPacket_Decode env r PyPacket_new)) = Inr (True, sample_packet)"
proof (intro allI)
  fix env
  show "ebind (Marshal (fst (PyPacket_Encode sample_packet))) (\<lambda>bs. ebind (Unmarshal env bs) (\<lambda>r.
    PyPacket_Decode env r PyPacket_new)) = Inr (True, sample_packet)"
    using packet_survives_wire [OF sample_packet_ok(1) sample_packet_wire] by (simp add: sample_packet_ok(2))
qed

text \<open>An address comes back as it was sent, for nodes, clients and broadcasts and for an address of
  any destination without identifiers.\<close>

theorem address_round_trip:
  assumes "address_ok a"
  shows "PyAddress_Decode env (PyAddress_Encode a) PyAddress_new = Inr (True, a)"
  using PyAddress_round_trip [OF assms] .

theorem address_round_trip_witness:
  "\<forall>env. PyAddress_Decode env (PyAddress_Encode sample_address) PyAddress_new = Inr (True, sample_address)"
proof (intro allI)
  fix env
  show "PyAddress_Decode env (PyAddress_Encode sample_address) PyAddress_new = Inr (True, sample_address)"
    using address_round_trip [of sample_address env]
    by (simp add: address_ok_def sample_address_def PyAddress_new_def no_zero_def)
qed

text \<open>An address of any destination does not keep its object: the encoder writes the object where
  the decoder reads the call, so the decoded address has the object as its call and no object.\<close>

theorem any_address_loses_object:
  "PyAddress_Decode env (PyAddress_Encode (PyAddress_new\<lparr>addr_type := Any, objectID := i, callID := c\<rparr>)) PyAddress_new
    = Inr (True, PyAddress_new\<lparr>addr_type := Any, callID := i\<rparr>)"
  using PyAddress_any [of "PyAddress_new\<lparr>addr_type := Any, objectID := i, callID := c\<rparr>" env]
  by (simp add: PyAddress_new_def no_zero_def)

end
