(* ===== verification/Handshake.thy ===== *)
theory Handshake
  imports Connection PyPacket
begin

text \<open>
  The session of a client, \<open>eve-common/network/EVESession.cpp\<close>: the handshake as a state
  machine whose state is the handler of the next object, and the delivery of packets once
  it is done. The decoders of the handshake packets are generated from \<open>Crypto.xmlp\<close> when
  the server is built, and the verifications are virtual functions of the subclass; both
  are a record of functions here, over a state \<open>'w\<close> of the subclass.
\<close>

section \<open>State\<close>

datatype handler =
    HandleVersion
  | HandleCommand
  | HandleCrypto
  | HandleAuthentication
  | HandleFuncResult
  | HandlePacket

datatype exchange =
    VersionExchangeClient
  | NetCommand_QC
  | NetCommand_VK
  | CryptoRequestPacket
  | CryptoChallengePacket
  | CryptoHandshakeResult

text \<open>
  \<open>decodes\<close> tells whether the decoder of a packet accepts an object; \<open>get_version\<close> is
  \<open>_GetVersion\<close> and the encoding of its result; \<open>verify\<close> is \<open>_VerifyVersion\<close>,
  \<open>_VerifyVIPKey\<close>, \<open>_VerifyCrypto\<close>, \<open>_VerifyLogin\<close> or \<open>_VerifyFuncResult\<close>: its answer and
  the objects it queued, each with its flag for compression.
\<close>

record 'w hooks =
  decodes :: "exchange \<Rightarrow> pyrep \<Rightarrow> bool"
  get_version :: "'w \<Rightarrow> pyrep \<times> 'w"
  queue_position :: "'w \<Rightarrow> int32"
  verify :: "exchange \<Rightarrow> pyrep \<Rightarrow> 'w \<Rightarrow> (bool \<times> (pyrep \<times> bool) list \<times> 'w) result"

record session =
  mNet :: evetcp
  mPacketHandler :: "handler option"

definition EVEClientSession_new :: "evetcp \<Rightarrow> session" where
  "EVEClientSession_new n = \<lparr>mNet = n, mPacketHandler = None\<rparr>"

section \<open>Operations\<close>

definition queue_reps :: "zlib \<Rightarrow> (pyrep \<times> bool) list \<Rightarrow> session \<Rightarrow> session result" where
  "queue_reps z rs s =
     ebind (fold (\<lambda>(r, c) m. ebind m (QueueRep z r c)) rs (Inr (mNet s))) (\<lambda>n. Inr (s\<lparr>mNet := n\<rparr>))"

definition Reset :: "zlib \<Rightarrow> 'w hooks \<Rightarrow> session \<Rightarrow> 'w \<Rightarrow> (session \<times> 'w) result" where
  "Reset z H s w =
     (let s1 = s\<lparr>mPacketHandler := None\<rparr> in
      if mSockState (base (mNet s1)) \<noteq> STATE_CONNECTED then Inr (s1, w)
      else let (rep, w1) = get_version H w in
           ebind (queue_reps z [(rep, True)] s1) (\<lambda>s2.
             Inr (s2\<lparr>mPacketHandler := Some HandleVersion\<rparr>, w1)))"

definition QueuePacket :: "zlib \<Rightarrow> packet option \<Rightarrow> session \<Rightarrow> session result" where
  "QueuePacket z packet s =
     (case packet of
        None \<Rightarrow> Inr s
      | Some p \<Rightarrow>
          let res = fst (PyPacket_Encode p) in
          if res = PyNull then Inr s else queue_reps z [(res, True)] s)"

text \<open>
  A handler answers the packet that \<open>PopPacket\<close> returns, or \<open>None\<close> when it goes on with
  the next object. \<open>verify_step\<close> is what four of the handlers share.
\<close>

definition verify_step ::
    "zlib \<Rightarrow> 'w hooks \<Rightarrow> exchange \<Rightarrow> handler \<Rightarrow> pyrep \<Rightarrow> session \<Rightarrow> 'w
     \<Rightarrow> (packet option \<times> session \<times> 'w) result" where
  "verify_step z H k next rep s w =
     (if \<not> decodes H k rep then Inr (None, s, w)
      else ebind (verify H k rep w) (\<lambda>(ok, queued, w1).
           ebind (queue_reps z queued s) (\<lambda>s1.
             Inr (None, if ok then s1\<lparr>mPacketHandler := Some next\<rparr> else s1, w1))))"

definition HandleCommand_rep ::
    "zlib \<Rightarrow> 'w hooks \<Rightarrow> pyrep \<Rightarrow> session \<Rightarrow> 'w \<Rightarrow> (packet option \<times> session \<times> 'w) result" where
  "HandleCommand_rep z H rep s w =
     (case rep of
        PyNull \<Rightarrow> Inl Null_deref
      | PyTuple xs \<Rightarrow>
          if length xs = 2 then
            (if \<not> decodes H NetCommand_QC rep then Inr (None, s, w)
             else ebind (queue_reps z [(PyInt (queue_position H w), True)] s) (\<lambda>s1.
                  ebind (Reset z H s1 w) (\<lambda>(s2, w1). Inr (None, s2, w1))))
          else if length xs = 3 then verify_step z H NetCommand_VK HandleCrypto rep s w
          else Inr (None, s, w)
      | _ \<Rightarrow> Inr (None, s, w))"

definition HandlePacket_rep ::
    "env \<Rightarrow> pyrep \<Rightarrow> session \<Rightarrow> 'w \<Rightarrow> (packet option \<times> session \<times> 'w) result" where
  "HandlePacket_rep env rep s w =
     ebind (PyPacket_Decode env rep PyPacket_new) (\<lambda>(ok, p).
       Inr (if ok then Some p else None, s, w))"

definition handle ::
    "env \<Rightarrow> zlib \<Rightarrow> 'w hooks \<Rightarrow> handler \<Rightarrow> pyrep \<Rightarrow> session \<Rightarrow> 'w
     \<Rightarrow> (packet option \<times> session \<times> 'w) result" where
  "handle env z H h rep s w =
     (case h of
        HandleVersion \<Rightarrow> verify_step z H VersionExchangeClient HandleCommand rep s w
      | HandleCommand \<Rightarrow> HandleCommand_rep z H rep s w
      | HandleCrypto \<Rightarrow> verify_step z H CryptoRequestPacket HandleAuthentication rep s w
      | HandleAuthentication \<Rightarrow> verify_step z H CryptoChallengePacket HandleFuncResult rep s w
      | HandleFuncResult \<Rightarrow> verify_step z H CryptoHandshakeResult HandlePacket rep s w
      | HandlePacket \<Rightarrow> HandlePacket_rep env rep s w)"

text \<open>\<open>PopPacket\<close>, which the handlers call again; each call pops one packet of the connection.\<close>

primrec pop_loop ::
    "env \<Rightarrow> zlib \<Rightarrow> 'w hooks \<Rightarrow> nat \<Rightarrow> session \<Rightarrow> 'w \<Rightarrow> (packet option \<times> session \<times> 'w) result" where
  "pop_loop env z H 0 s w = Inl Diverge"
| "pop_loop env z H (Suc fuel) s w =
     ebind (PopRep env z (mNet s)) (\<lambda>(rep, n).
       let s1 = s\<lparr>mNet := n\<rparr> in
       case rep of
         None \<Rightarrow> Inr (None, s1, w)
       | Some r \<Rightarrow>
           if r = PyNull then Inr (None, s1, w) else
           (case mPacketHandler s1 of
              None \<Rightarrow> Inl Assert_fail
            | Some h \<Rightarrow>
                ebind (handle env z H h r s1 w) (\<lambda>(p, s2, w1).
                  case p of
                    Some pk \<Rightarrow> Inr (Some pk, s2, w1)
                  | None \<Rightarrow> pop_loop env z H fuel s2 w1)))"

definition Session_PopPacket ::
    "env \<Rightarrow> zlib \<Rightarrow> 'w hooks \<Rightarrow> session \<Rightarrow> 'w \<Rightarrow> (packet option \<times> session \<times> 'w) result" where
  "Session_PopPacket env z H s w =
     pop_loop env z H (Suc (length (mPackets (mInQueue (mNet s))))) s w"

section \<open>Termination\<close>

lemma total_put [total_intros]: "total (put bs)"
  by (simp add: put_def total_def)

lemma total_seq [total_intros]: "total m \<Longrightarrow> (\<And>bs. m = put bs \<Longrightarrow> total n) \<Longrightarrow> total (seq m n)"
  by (auto simp: seq_def put_def intro!: total_intros)

lemma total_seq_any [total_intros]: "total m \<Longrightarrow> total n \<Longrightarrow> total (seq_any m n)"
  by (auto simp: seq_any_def intro!: total_intros split: prod.split)

lemma total_visit_all [total_intros]: "(\<And>x. x \<in> set xs \<Longrightarrow> total (f x)) \<Longrightarrow> total (visit_all f xs)"
  by (induction xs) (auto intro!: total_intros)

lemma total_fields [total_intros]: "total (field_data t v)"
  by (auto simp: field_data_def long_field_def int_field_def real_field_def intro!: total_intros
      split: pyrep.split)

lemma total_set_bit [total_intros]: "total (set_bit_at bits n)"
  by (auto simp: set_bit_at_def intro!: total_intros)

lemma total_pack [total_intros]:
  "total (pack_fields types fs l cs rowData bitData)" "total (pack_bools fs l cs bitData)"
  by (induction cs arbitrary: rowData bitData) (auto intro!: total_intros split: pyrep.split)

lemma total_pack_row [total_intros]: "total (pack_row types fs)"
  by (auto simp: pack_row_def Let_def intro!: total_intros split: prod.split)

lemma total_SaveRLE [total_intros]: "total (SaveRLE inp)"
  by (simp add: SaveRLE_pack total_def)

lemma total_visit [total_intros]: "total (visit depth r)"
  by (induction depth r rule: visit.induct)
    (auto intro!: total_intros split: option.split prod.split)

lemma total_Marshal [total_intros]: "total (Marshal r)"
  by (auto simp: Marshal_def SaveStream_def intro!: total_intros split: prod.split)

lemma total_buf_get [total_intros]: "total (buf_get data i)"
  by (auto simp: buf_get_def intro!: total_intros)

lemma total_MarshalDeflate [total_intros]: "total (MarshalDeflate z r into lim)"
  using total_Marshal [of r]
  by (auto simp: MarshalDeflate_def DeflateData_def total_def [of "Marshal r"] intro!: total_intros
      split: sum.split option.split)

lemma total_QueueRep [total_intros]: "total (QueueRep z r c n)"
  by (auto simp: QueueRep_def Let_def intro!: total_intros split: prod.split)

lemma total_queue_reps [total_intros]: "total (queue_reps z rs s)"
proof -
  have "total (fold (\<lambda>(r, c) m. ebind m (QueueRep z r c)) rs m)" if "total m" for m :: "evetcp result"
    using that by (induction rs arbitrary: m) (auto intro!: total_intros)
  then show ?thesis by (auto simp: queue_reps_def intro!: total_intros)
qed

lemma total_Reset [total_intros]: "total (Reset z H s w)"
  by (auto simp: Reset_def Let_def intro!: total_intros split: prod.split)

text \<open>The verifications return.\<close>

definition hooks_return :: "'w hooks \<Rightarrow> bool" where
  "hooks_return H \<longleftrightarrow> (\<forall>k r w. total (verify H k r w))"

lemma total_verify_step [total_intros]: "hooks_return H \<Longrightarrow> total (verify_step z H k next rep s w)"
  by (auto simp: verify_step_def hooks_return_def Let_def intro!: total_intros split: prod.split)

lemma total_Unmarshal [total_intros]: "total (Unmarshal env data)"
  by (simp add: Unmarshal_def Load_total)

lemma total_test [total_intros]: "total (test p r)"
  by (simp add: test_def total_def)

lemma total_guard [total_intros]: "total c \<Longrightarrow> total m \<Longrightarrow> total (guard c d m)"
  by (auto simp: guard_def intro!: total_intros)

lemma total_decoded_stream [total_intros]: "total (decoded_stream env data decoded)"
proof (cases data)
  case (Some bs)
  then show ?thesis
    using total_Unmarshal [of env bs]
    by (auto simp: decoded_stream_def total_def split: option.split sum.split)
qed (auto simp: decoded_stream_def intro!: total_intros split: option.split)

lemma total_PyAddress_Decode [total_intros]: "total (PyAddress_Decode env r a)"
  by (auto simp: PyAddress_Decode_def decode_any_def decode_node_def decode_client_def
      decode_broadcast_def Let_def intro!: total_intros split: pyrep.split)

lemma total_PyPacket_Decode [total_intros]: "total (PyPacket_Decode env r p)"
  by (auto simp: PyPacket_Decode_def unwrap_stream_def decode_rest_def Let_def
      intro!: total_intros split: pyrep.split option.split prod.split)

lemma total_HandleCommand [total_intros]: "hooks_return H \<Longrightarrow> total (HandleCommand_rep z H rep s w)"
  by (auto simp: HandleCommand_rep_def intro!: total_intros split: pyrep.split prod.split)

lemma total_handle [total_intros]: "hooks_return H \<Longrightarrow> total (handle env z H h rep s w)"
  by (auto simp: handle_def HandlePacket_rep_def intro!: total_intros split: handler.split prod.split)

text \<open>What is left to pop.\<close>

abbreviation inbox :: "session \<Rightarrow> bytes list" where
  "inbox s \<equiv> mPackets (mInQueue (mNet s))"

lemma QueueRep_inbox: "QueueRep z r c n = Inr n' \<Longrightarrow> mInQueue n' = mInQueue n"
  by (auto simp: QueueRep_def Let_def ebind_Inr_conv split: if_splits)

lemma queue_reps_inbox:
  assumes "queue_reps z rs s = Inr s'"
  shows "mInQueue (mNet s') = mInQueue (mNet s)" "mPacketHandler s' = mPacketHandler s"
proof -
  have "mInQueue n' = mInQueue n"
    if "fold (\<lambda>(r, c) m. ebind m (QueueRep z r c)) rs (Inr n) = Inr n'" for n n'
    using that
  proof (induction rs arbitrary: n)
    case (Cons rc rs)
    obtain r c where rc: "rc = (r, c)" by fastforce
    have err: "fold (\<lambda>(r, c) m. ebind m (QueueRep z r c)) rs (Inl e) = Inl e" for e
      by (induction rs) auto
    show ?case
      using Cons err QueueRep_inbox by (cases "QueueRep z r c n") (auto simp: rc)
  qed simp
  then show "mInQueue (mNet s') = mInQueue (mNet s)" "mPacketHandler s' = mPacketHandler s"
    using assms by (auto simp: queue_reps_def ebind_Inr_conv)
qed

lemma Reset_inbox: "Reset z H s w = Inr (s', w') \<Longrightarrow> mInQueue (mNet s') = mInQueue (mNet s)"
  by (auto simp: Reset_def Let_def ebind_Inr_conv split: if_splits prod.splits dest: queue_reps_inbox)

lemma verify_step_inbox:
  "verify_step z H k next rep s w = Inr (p, s', w') \<Longrightarrow> mInQueue (mNet s') = mInQueue (mNet s)"
  by (auto simp: verify_step_def Let_def ebind_Inr_conv split: if_splits prod.splits
      dest: queue_reps_inbox)

lemma queue_Reset_inbox:
  "queue_reps z rs s = Inr s1 \<Longrightarrow> Reset z H s1 w = Inr (s', w') \<Longrightarrow>
   mInQueue (mNet s') = mInQueue (mNet s)"
  using Reset_inbox queue_reps_inbox(1) by metis

lemma handle_inbox:
  "handle env z H h rep s w = Inr (p, s', w') \<Longrightarrow> mInQueue (mNet s') = mInQueue (mNet s)"
  by (auto simp: handle_def HandleCommand_rep_def HandlePacket_rep_def ebind_Inr_conv
      split: handler.splits pyrep.splits if_splits
      dest: verify_step_inbox queue_Reset_inbox)

lemma PopRep_inbox:
  "PopRep env z n = Inr (Some r, n') \<Longrightarrow> Suc (length (mPackets (mInQueue n'))) = length (mPackets (mInQueue n))"
  by (auto simp: PopRep_def PopPacket_def Let_def split: list.splits if_splits sum.splits)

lemma total_PopRep [total_intros]: "total (PopRep env z n)"
proof -
  have "total (InflateUnmarshal env z data)" for data by (rule InflateUnmarshal_total)
  then show ?thesis
    by (auto simp: PopRep_def total_def Let_def split: prod.split option.split sum.split)
qed

lemma pop_loop_total: "hooks_return H \<Longrightarrow> length (inbox s) < fuel \<Longrightarrow> total (pop_loop env z H fuel s w)"
proof (induction fuel arbitrary: s w)
  case 0
  then show ?case by simp
next
  case (Suc fuel)
  have "total (pop_loop env z H fuel s2 w2)"
    if "PopRep env z (mNet s) = Inr (Some r, n)"
      "handle env z H h r (s\<lparr>mNet := n\<rparr>) w = Inr (p, s2, w2)" for r n h p s2 w2
    using Suc that PopRep_inbox [OF that(1)] handle_inbox [OF that(2)] by simp
  then show ?case
    by (simp only: pop_loop.simps Let_def, intro total_ebind total_PopRep)
      (auto intro!: total_intros Suc.prems(1) split: option.split prod.split)
qed

lemma PopPacket_total: "hooks_return H \<Longrightarrow> total (Session_PopPacket env z H s w)"
  unfolding Session_PopPacket_def by (rule pop_loop_total) simp_all

section \<open>The order of the handshake\<close>

text \<open>
  A log of what a subclass was asked: \<open>logged\<close> turns any hooks into hooks that also write
  it, so that statements about the order of the verifications need no change of the model.
\<close>

datatype event = Version_sent | Checked exchange bool

definition logged :: "'w hooks \<Rightarrow> ('w \<times> event list) hooks" where
  "logged H =
     \<lparr>decodes = decodes H,
      get_version = (\<lambda>(w, l). let (r, w') = get_version H w in (r, (w', l @ [Version_sent]))),
      queue_position = (\<lambda>(w, l). queue_position H w),
      verify = (\<lambda>k r (w, l). ebind (verify H k r w) (\<lambda>(ok, queued, w').
                             Inr (ok, queued, (w', l @ [Checked k ok]))))\<rparr>"

text \<open>The verifications that succeeded since the version was last sent, in order.\<close>

definition accepted_step :: "event \<Rightarrow> exchange list option \<Rightarrow> exchange list option" where
  "accepted_step e a =
     (case e of
        Version_sent \<Rightarrow> Some []
      | Checked k ok \<Rightarrow> if ok then map_option (\<lambda>ks. ks @ [k]) a else a)"

definition accepted :: "event list \<Rightarrow> exchange list option" where
  "accepted l = fold accepted_step l None"

lemma accepted_snoc [simp]: "accepted (l @ [e]) = accepted_step e (accepted l)"
  by (simp add: accepted_def)

definition required :: "handler \<Rightarrow> exchange list" where
  "required h =
     (case h of
        HandleVersion \<Rightarrow> []
      | HandleCommand \<Rightarrow> [VersionExchangeClient]
      | HandleCrypto \<Rightarrow> [VersionExchangeClient, NetCommand_VK]
      | HandleAuthentication \<Rightarrow> [VersionExchangeClient, NetCommand_VK, CryptoRequestPacket]
      | HandleFuncResult \<Rightarrow>
          [VersionExchangeClient, NetCommand_VK, CryptoRequestPacket, CryptoChallengePacket]
      | HandlePacket \<Rightarrow>
          [VersionExchangeClient, NetCommand_VK, CryptoRequestPacket, CryptoChallengePacket,
           CryptoHandshakeResult])"

definition in_order :: "session \<Rightarrow> event list \<Rightarrow> bool" where
  "in_order s l \<longleftrightarrow> (\<forall>h. mPacketHandler s = Some h \<longrightarrow> accepted l = Some (required h))"

lemma in_order_net [simp]: "in_order (s\<lparr>mNet := n\<rparr>) l = in_order s l"
  by (simp add: in_order_def)

lemma in_order_queue: "queue_reps z rs s = Inr s' \<Longrightarrow> in_order s' l = in_order s l"
  by (simp add: in_order_def queue_reps_inbox)

lemma in_order_Reset:
  "Reset z (logged H) s (w, l) = Inr (s', w', l') \<Longrightarrow> in_order s' l'"
  by (auto simp: Reset_def logged_def Let_def in_order_def required_def accepted_step_def
      ebind_Inr_conv split: if_splits prod.splits)

lemma in_order_verify_step:
  assumes "verify_step z (logged H) k next rep s (w, l) = Inr (p, s', w', l')"
    and "mPacketHandler s = Some h" "in_order s l" "required next = required h @ [k]"
  shows "in_order s' l'"
proof (cases "decodes H k rep")
  case False
  then show ?thesis using assms by (simp add: verify_step_def logged_def)
next
  case True
  obtain ok queued w1 s1 where v: "verify H k rep w = Inr (ok, queued, w1)" and s1: "queue_reps z queued s = Inr s1"
      "s' = (if ok then s1\<lparr>mPacketHandler := Some next\<rparr> else s1)" "l' = l @ [Checked k ok]"
    using assms(1) True by (auto simp: verify_step_def logged_def ebind_Inr_conv)
  show ?thesis
    using assms(2-4) s1 queue_reps_inbox(2) [OF s1(1)]
    by (auto simp: in_order_def accepted_step_def)
qed

lemma in_order_handle:
  assumes "handle env z (logged H) h rep s (w, l) = Inr (p, s', w', l')"
    and "mPacketHandler s = Some h" "in_order s l"
  shows "in_order s' l'"
  using assms(1)
proof (cases h)
  case HandleCommand
  then show ?thesis
    using assms in_order_queue
    by (auto simp: handle_def HandleCommand_rep_def ebind_Inr_conv required_def
        split: pyrep.splits if_splits dest: in_order_Reset in_order_verify_step)
qed (use assms in \<open>auto simp: handle_def required_def HandlePacket_rep_def ebind_Inr_conv
    dest: in_order_verify_step\<close>)

lemma handle_packet:
  "handle env z H h r s w = Inr (Some pk, s', w') \<Longrightarrow> h = HandlePacket \<and> s' = s"
  by (cases h) (auto simp: handle_def verify_step_def HandleCommand_rep_def HandlePacket_rep_def
      ebind_Inr_conv Let_def split: if_splits pyrep.splits prod.splits)

lemma pop_loop_in_order:
  "pop_loop env z (logged H) fuel s (w, l) = Inr (p, s', w', l') \<Longrightarrow> in_order s l \<Longrightarrow>
   in_order s' l' \<and> (p \<noteq> None \<longrightarrow> mPacketHandler s' = Some HandlePacket)"
proof (induction fuel arbitrary: s w l)
  case 0
  then show ?case by simp
next
  case (Suc fuel)
  obtain rep n where n: "PopRep env z (mNet s) = Inr (rep, n)"
    using Suc.prems(1) by (auto simp: ebind_Inr_conv)
  show ?case
  proof (cases "rep = None \<or> rep = Some PyNull")
    case True
    then show ?thesis using Suc.prems n by auto
  next
    case False
    then obtain r where r: "rep = Some r" "r \<noteq> PyNull" by auto
    then obtain h p1 s1 w1 l1 where h: "mPacketHandler s = Some h"
        "handle env z (logged H) h r (s\<lparr>mNet := n\<rparr>) (w, l) = Inr (p1, s1, w1, l1)"
      using Suc.prems(1) n by (auto simp: ebind_Inr_conv split: option.splits)
    have "in_order s1 l1" using in_order_handle [OF h(2)] h(1) Suc.prems(2) by simp
    moreover have "mPacketHandler s1 = Some HandlePacket" if "p1 = Some pk" for pk
      using handle_packet h that by fastforce
    ultimately show ?thesis
      using Suc.IH [of s1 w1 l1] Suc.prems(1) n r h by (cases p1) auto
  qed
qed

text \<open>
  The steps of a session: what the network does to the connection, and the calls of its
  owner. Any order of them keeps the order of the handshake.
\<close>

inductive session_step :: "env \<Rightarrow> zlib \<Rightarrow> 'w hooks \<Rightarrow> session \<times> 'w \<Rightarrow> session \<times> 'w \<Rightarrow> bool"
  for env :: env and z :: zlib and H :: "'w hooks" where
  net: "session_step env z H (s, w) (s\<lparr>mNet := n\<rparr>, w)"
| reset: "Reset z H s w = Inr (s', w') \<Longrightarrow> session_step env z H (s, w) (s', w')"
| queue: "QueuePacket z p s = Inr s' \<Longrightarrow> session_step env z H (s, w) (s', w)"
| pop: "Session_PopPacket env z H s w = Inr (p, s', w') \<Longrightarrow> session_step env z H (s, w) (s', w')"

inductive_cases session_stepE: "session_step env z H (s, w) (s', w')"

lemma session_step_in_order:
  "session_step env z (logged H) (s, w, l) (s', w', l') \<Longrightarrow> in_order s l \<Longrightarrow> in_order s' l'"
  by (elim session_stepE)
    (auto simp: QueuePacket_def Session_PopPacket_def in_order_queue Let_def simp del: pop_loop.simps
      split: option.splits if_splits dest: in_order_Reset pop_loop_in_order)

lemma session_steps_in_order:
  assumes "(session_step env z (logged H))\<^sup>*\<^sup>* (EVEClientSession_new n, w0, []) (s, w, l)"
  shows "in_order s l"
proof -
  have "in_order (fst x) (snd (snd x))"
    if "(session_step env z (logged H))\<^sup>*\<^sup>* (EVEClientSession_new n, w0, []) x" for x
    using that
  proof (induction rule: rtranclp_induct)
    case base
    then show ?case by (simp add: in_order_def EVEClientSession_new_def)
  next
    case (step y z)
    then show ?case using session_step_in_order by (metis prod.collapse)
  qed
  from this [OF assms] show ?thesis by simp
qed

section \<open>What a session was asked\<close>

text \<open>
  A fuller record of the same run: each object that was verified, with the state of the subclass
  that it found and the one that it left. Of two records of hooks, one is a view of the other when
  it answers the same on a projection of the state; then every run has the same view.
\<close>

datatype 'w asked = Version | Asked exchange pyrep 'w bool 'w

definition recorded :: "'w hooks \<Rightarrow> ('w \<times> 'w asked list) hooks" where
  "recorded H =
     \<lparr>decodes = decodes H,
      get_version = (\<lambda>(w, l). let (r, w') = get_version H w in (r, (w', l @ [Version]))),
      queue_position = (\<lambda>(w, l). queue_position H w),
      verify = (\<lambda>k r (w, l). ebind (verify H k r w) (\<lambda>(ok, queued, w').
                             Inr (ok, queued, (w', l @ [Asked k r w ok w']))))\<rparr>"

fun event_of :: "'w asked \<Rightarrow> event" where
  "event_of Version = Version_sent"
| "event_of (Asked k r w ok w') = Checked k ok"

locale hooks_view =
  fixes H :: "'w hooks" and V :: "'v hooks" and f :: "'w \<Rightarrow> 'v"
  assumes decodes: "decodes V = decodes H"
    and version: "get_version H w = (r, w') \<Longrightarrow> get_version V (f w) = (r, f w')"
    and position: "queue_position V (f w) = queue_position H w"
    and verify: "verify H k r w = Inr (ok, q, w') \<Longrightarrow> verify V k r (f w) = Inr (ok, q, f w')"
begin

lemma Reset: "Reset z H s w = Inr (s', w') \<Longrightarrow> Reset z V s (f w) = Inr (s', f w')"
  by (auto simp: Reset_def Let_def ebind_Inr_conv version split: if_splits prod.splits)

lemma verify_step:
  "verify_step z H k next r s w = Inr (p, s', w') \<Longrightarrow> verify_step z V k next r s (f w) = Inr (p, s', f w')"
  by (auto simp: verify_step_def decodes ebind_Inr_conv dest: verify split: if_splits)

lemma HandleCommand_rep:
  assumes "HandleCommand_rep z H r s w = Inr (p, s', w')"
  shows "HandleCommand_rep z V r s (f w) = Inr (p, s', f w')"
proof (cases r)
  case (PyTuple xs)
  show ?thesis
  proof (cases "length xs = 2 \<and> decodes H NetCommand_QC r")
    case True
    then obtain s1 where "queue_reps z [(PyInt (queue_position H w), True)] s = Inr s1"
        "Reset z H s1 w = Inr (s', w')" "p = None"
      using assms PyTuple by (auto simp: HandleCommand_rep_def ebind_Inr_conv)
    then show ?thesis
      using True PyTuple Reset by (simp add: HandleCommand_rep_def decodes position)
  next
    case other: False
    show ?thesis
    proof (cases "length xs = 3")
      case True
      then have "verify_step z H NetCommand_VK HandleCrypto r s w = Inr (p, s', w')"
        using assms PyTuple by (simp add: HandleCommand_rep_def)
      from verify_step [OF this] show ?thesis
        using True PyTuple by (simp add: HandleCommand_rep_def)
    next
      case False
      then show ?thesis
        using assms PyTuple other by (auto simp: HandleCommand_rep_def decodes split: if_splits)
    qed
  qed
qed (use assms in \<open>simp_all add: HandleCommand_rep_def\<close>)

lemma handle:
  assumes "handle env z H h r s w = Inr (p, s', w')"
  shows "handle env z V h r s (f w) = Inr (p, s', f w')"
proof (cases h)
  case HandlePacket
  then show ?thesis
    using assms by (cases "PyPacket_Decode env r PyPacket_new") (auto simp: handle_def HandlePacket_rep_def)
qed (use assms in \<open>simp_all add: handle_def verify_step HandleCommand_rep\<close>)

lemma pop_loop:
  "pop_loop env z H fuel s w = Inr (p, s', w') \<Longrightarrow> pop_loop env z V fuel s (f w) = Inr (p, s', f w')"
proof (induction fuel arbitrary: s w)
  case (Suc fuel)
  obtain rep n where n: "PopRep env z (mNet s) = Inr (rep, n)"
    using Suc.prems by (auto simp: ebind_Inr_conv)
  show ?case
  proof (cases "rep = None \<or> rep = Some PyNull")
    case True
    then show ?thesis using Suc.prems n by auto
  next
    case False
    then obtain r where r: "rep = Some r" "r \<noteq> PyNull" by auto
    then obtain h p1 s1 w1 where h: "mPacketHandler s = Some h"
        "handle env z H h r (s\<lparr>mNet := n\<rparr>) w = Inr (p1, s1, w1)"
      using Suc.prems n by (auto simp: ebind_Inr_conv split: option.splits)
    then show ?thesis
      using Suc.IH [of s1 w1] Suc.prems n r handle [OF h(2)] by (cases p1) auto
  qed
qed simp

lemma step: "session_step env z H (s, w) (s', w') \<Longrightarrow> session_step env z V (s, f w) (s', f w')"
  by (elim session_stepE)
    (auto simp: Session_PopPacket_def simp del: pop_loop.simps intro!: session_step.net session_step.queue
      intro: session_step.reset [OF Reset] session_step.pop [unfolded Session_PopPacket_def, OF pop_loop])

end

interpretation events: hooks_view "recorded H" "logged H" "\<lambda>(w, l). (w, map event_of l)" for H :: "'w hooks"
  by unfold_locales (auto simp: recorded_def logged_def Let_def ebind_Inr_conv split: prod.splits)

text \<open>Every entry of the record is what the subclass answered.\<close>

definition truthful :: "'w hooks \<Rightarrow> 'w asked list \<Rightarrow> bool" where
  "truthful H l \<longleftrightarrow>
     (\<forall>k r w ok w'. Asked k r w ok w' \<in> set l \<longrightarrow> decodes H k r \<and> (\<exists>q. verify H k r w = Inr (ok, q, w')))"

lemma truthful_verify_step:
  "verify_step z (recorded H) k next rep s (w, l) = Inr (p, s', w', l') \<Longrightarrow> truthful H l \<Longrightarrow> truthful H l'"
  by (auto simp: verify_step_def recorded_def ebind_Inr_conv truthful_def split: if_splits)

lemma truthful_Reset:
  "Reset z (recorded H) s (w, l) = Inr (s', w', l') \<Longrightarrow> truthful H l \<Longrightarrow> truthful H l'"
  by (auto simp: Reset_def recorded_def Let_def truthful_def ebind_Inr_conv split: if_splits prod.splits)

lemma truthful_handle:
  "handle env z (recorded H) h rep s (w, l) = Inr (p, s', w', l') \<Longrightarrow> truthful H l \<Longrightarrow> truthful H l'"
  by (cases h) (auto simp: handle_def HandleCommand_rep_def HandlePacket_rep_def ebind_Inr_conv
      split: pyrep.splits if_splits dest: truthful_verify_step truthful_Reset)

lemma truthful_pop_loop:
  "pop_loop env z (recorded H) fuel s (w, l) = Inr (p, s', w', l') \<Longrightarrow> truthful H l \<Longrightarrow> truthful H l'"
proof (induction fuel arbitrary: s w l)
  case (Suc fuel)
  obtain rep n where n: "PopRep env z (mNet s) = Inr (rep, n)"
    using Suc.prems(1) by (auto simp: ebind_Inr_conv)
  show ?case
  proof (cases "rep = None \<or> rep = Some PyNull")
    case True
    then show ?thesis using Suc.prems n by auto
  next
    case False
    then obtain r where r: "rep = Some r" "r \<noteq> PyNull" by auto
    then obtain h p1 s1 w1 l1 where h: "mPacketHandler s = Some h"
        "handle env z (recorded H) h r (s\<lparr>mNet := n\<rparr>) (w, l) = Inr (p1, s1, w1, l1)"
      using Suc.prems(1) n by (auto simp: ebind_Inr_conv split: option.splits)
    show ?thesis
      using Suc.IH [of s1 w1 l1] Suc.prems n r h truthful_handle [OF h(2)] by (cases p1) auto
  qed
qed simp

text \<open>The record of a session is in order and truthful, and every step keeps that.\<close>

definition good_record :: "'w hooks \<Rightarrow> session \<Rightarrow> 'w asked list \<Rightarrow> bool" where
  "good_record H s l \<longleftrightarrow> in_order s (map event_of l) \<and> truthful H l"

lemma good_record_new: "good_record H (EVEClientSession_new n) []"
  by (simp add: good_record_def in_order_def EVEClientSession_new_def truthful_def)

lemma good_record_step:
  assumes "session_step env z (recorded H) (s, w, l) (s', w', l')" "good_record H s l"
  shows "good_record H s' l'"
proof -
  have "session_step env z (logged H) (s, w, map event_of l) (s', w', map event_of l')"
    using events.step [OF assms(1)] by simp
  moreover have "truthful H l \<Longrightarrow> truthful H l'"
    using assms(1)
    by (elim session_stepE)
      (auto simp: Session_PopPacket_def simp del: pop_loop.simps dest: truthful_Reset truthful_pop_loop)
  ultimately show ?thesis
    using assms(2) session_step_in_order by (auto simp: good_record_def)
qed

text \<open>
  When a packet is delivered, each of the five verifications has succeeded after the version was
  last sent, and its entry of the record tells what was verified.
\<close>

lemma accepted_since:
  "accepted (map event_of l) = Some ks \<Longrightarrow> k \<in> set ks \<Longrightarrow>
   \<exists>l1 r w w' l2. l = l1 @ Asked k r w True w' # l2 \<and> Version \<notin> set l2"
proof (induction l arbitrary: ks rule: rev_induct)
  case (snoc e l)
  show ?case
  proof (cases e)
    case Version
    then show ?thesis using snoc.prems by (simp add: accepted_step_def)
  next
    case (Asked k' r w ok w')
    show ?thesis
    proof (cases "ok \<and> k' = k")
      case True
      then show ?thesis using Asked by fastforce
    next
      case False
      then obtain ks' where "accepted (map event_of l) = Some ks'" "k \<in> set ks'"
        using snoc.prems Asked by (cases "accepted (map event_of l)") (auto simp: accepted_step_def split: if_splits)
      from snoc.IH [OF this] show ?thesis using Asked by fastforce
    qed
  qed
qed (simp add: accepted_def)

lemma delivered_verified:
  assumes "good_record H s l" "Session_PopPacket env z (recorded H) s (w, l) = Inr (Some p, s', w', l')"
    and "k \<in> set (required HandlePacket)"
  obtains l1 r v v' l2 q where "l' = l1 @ Asked k r v True v' # l2" "Version \<notin> set l2"
    "decodes H k r" "verify H k r v = Inr (True, q, v')"
proof -
  have p: "pop_loop env z (logged H) (Suc (length (inbox s))) s (w, map event_of l) = Inr (Some p, s', w', map event_of l')"
    using events.pop_loop [OF assms(2) [unfolded Session_PopPacket_def]] by (simp del: pop_loop.simps)
  have "in_order s' (map event_of l') \<and> mPacketHandler s' = Some HandlePacket"
    using pop_loop_in_order [OF p] assms(1) by (simp add: good_record_def)
  then obtain l1 r v v' l2 where l: "l' = l1 @ Asked k r v True v' # l2" "Version \<notin> set l2"
    using accepted_since assms(3) by (fastforce simp: in_order_def)
  moreover have "truthful H l'"
    using truthful_pop_loop [OF assms(2) [unfolded Session_PopPacket_def]] assms(1) by (simp add: good_record_def)
  then have "decodes H k r \<and> (\<exists>q. verify H k r v = Inr (True, q, v'))"
    using l(1) by (auto simp: truthful_def)
  ultimately show thesis using that by blast
qed

section \<open>An honest client gets through\<close>

text \<open>Objects that the connection takes in any state.\<close>

definition queueable :: "zlib \<Rightarrow> (pyrep \<times> bool) list \<Rightarrow> bool" where
  "queueable z q \<longleftrightarrow> (\<forall>s. \<exists>s'. queue_reps z q s = Inr s')"

fun accepts :: "env \<Rightarrow> zlib \<Rightarrow> 'w hooks \<Rightarrow> 'w \<Rightarrow> (exchange \<times> pyrep) list \<Rightarrow> bool" where
  "accepts env z H w [] = True"
| "accepts env z H w ((k, r) # krs) =
     (decodes H k r \<and>
      (case verify H k r w of
         Inl _ \<Rightarrow> False
       | Inr (ok, q, w') \<Rightarrow> ok \<and> queueable z q \<and> accepts env z H w' krs))"

lemma accepts_ConsE:
  assumes "accepts env z H w ((k, r) # krs)"
  obtains q w' where "decodes H k r" "verify H k r w = Inr (True, q, w')"
    "queueable z q" "accepts env z H w' krs"
  using assms by (auto split: sum.splits prod.splits)

lemma queue_reps_sendable:
  assumes "list_all (\<lambda>(r, c). sendable env z c r) rs"
  shows "\<exists>s'. queue_reps z rs s = Inr s'"
proof -
  have "\<exists>n'. fold (\<lambda>(r, c) m. ebind m (QueueRep z r c)) rs (Inr n) = Inr n'" for n
    using assms by (induction rs arbitrary: n) (auto simp: QueueRep_sends)
  from this [of "mNet s"] show ?thesis by (auto simp: queue_reps_def)
qed

lemma queueable_small:
  assumes "\<forall>(r, c) \<in> set q. \<exists>bs. Marshal r = Inr bs \<and> length bs < 0x2000"
  shows "queueable z q"
proof -
  have step: "\<exists>n'. QueueRep z r c n = Inr n'" if "Marshal r = Inr bs" "length bs < 0x2000" for r c n bs
    using that by (simp add: QueueRep_def MarshalDeflate_def deflationLimit_default_def PACKET_SIZE_LIMIT_def)
  have "\<exists>n'. fold (\<lambda>(r, c) m. ebind m (QueueRep z r c)) q (Inr n) = Inr n'" for n
    using assms
  proof (induction q arbitrary: n)
    case (Cons rc q)
    obtain r c bs where rc: "rc = (r, c)" "Marshal r = Inr bs" "length bs < 0x2000"
      using Cons.prems by (cases rc) auto
    obtain n' where "QueueRep z r c n = Inr n'"
      using step rc by blast
    then show ?case
      using Cons rc(1) by simp
  qed simp
  then show ?thesis
    unfolding queueable_def queue_reps_def by (metis ebind_simps(2))
qed

lemma pop_loop_verify:
  assumes z: "zlib_ok z" "sendable env z c r"
    and s: "mPacketHandler s = Some h" "mInQueue (mNet s) = \<lparr>mBuffer = b, mPackets = packed z c r # ps\<rparr>"
    and h: "\<And>s. handle env z H h (wire_norm r) s w = verify_step z H k next (wire_norm r) s w"
    and H: "accepts env z H w ((k, wire_norm r) # krs)"
  obtains s' w' where "pop_loop env z H (Suc fuel) s w = pop_loop env z H fuel s' w'"
    "mPacketHandler s' = Some next" "mInQueue (mNet s') = \<lparr>mBuffer = b, mPackets = ps\<rparr>"
    "accepts env z H w' krs"
proof -
  define n where "n = (mNet s)\<lparr>mInQueue := \<lparr>mBuffer = b, mPackets = ps\<rparr>\<rparr>"
  have "PopRep env z (mNet s) = Inr (Some (wire_norm r), n)"
    using z s(2) InflateUnmarshal_packed [OF z] by (simp add: PopRep_def PopPacket_def n_def sendable_def)
  moreover have "wire_norm r \<noteq> PyNull" using z(2) by (auto simp: sendable_def)
  moreover obtain q w' where "decodes H k (wire_norm r)" "verify H k (wire_norm r) w = Inr (True, q, w')"
      "queueable z q" "accepts env z H w' krs"
    using accepts_ConsE [OF H] .
  moreover from this obtain s1 where "queue_reps z q (s\<lparr>mNet := n\<rparr>) = Inr s1"
    unfolding queueable_def by blast
  ultimately show thesis
    using s h queue_reps_inbox [of z q "s\<lparr>mNet := n\<rparr>" s1]
    by (intro that [of "s1\<lparr>mPacketHandler := Some next\<rparr>" w'])
      (simp_all add: verify_step_def n_def)
qed

text \<open>What the five objects of the client are checked as.\<close>

definition exchanges :: "pyrep \<Rightarrow> pyrep \<Rightarrow> pyrep \<Rightarrow> pyrep \<Rightarrow> pyrep \<Rightarrow> (exchange \<times> pyrep) list" where
  "exchanges v vk cr ch fr =
     [(VersionExchangeClient, wire_norm v), (NetCommand_VK, wire_norm vk), (CryptoRequestPacket, wire_norm cr),
      (CryptoChallengePacket, wire_norm ch), (CryptoHandshakeResult, wire_norm fr)]"

lemma handshake_delivers:
  assumes z: "zlib_ok z" and H: "accepts env z H w (exchanges v (PyTuple [x1, x2, x3]) cr ch fr)" and p: "packet_ok p"
    and s: "mPacketHandler s = Some HandleVersion"
      "mInQueue (mNet s) = \<lparr>mBuffer = b, mPackets =
         map (packed z c) [v, PyTuple [x1, x2, x3], cr, ch, fr, fst (PyPacket_Encode p)]\<rparr>"
    and reps: "list_all (sendable env z c) [v, PyTuple [x1, x2, x3], cr, ch, fr, fst (PyPacket_Encode p)]"
  shows "\<exists>s' w'. Session_PopPacket env z H s w = Inr (Some (packet_norm p), s', w')"
proof -
  let ?tail = "\<lambda>n. drop n (map (packed z c) [v, PyTuple [x1, x2, x3], cr, ch, fr, fst (PyPacket_Encode p)])"
  let ?ex = "\<lambda>n. drop n (exchanges v (PyTuple [x1, x2, x3]) cr ch fr)"
  note E = exchanges_def
  have reps': "sendable env z c v" "sendable env z c (PyTuple [x1, x2, x3])" "sendable env z c cr"
      "sendable env z c ch" "sendable env z c fr" "sendable env z c (fst (PyPacket_Encode p))"
    using reps by simp_all
  obtain s1 w1 where 1: "pop_loop env z H 7 s w = pop_loop env z H 6 s1 w1"
      "mPacketHandler s1 = Some HandleCommand" "mInQueue (mNet s1) = \<lparr>mBuffer = b, mPackets = ?tail 1\<rparr>"
      "accepts env z H w1 (?ex 1)"
    by (rule pop_loop_verify [of z env c "v" s HandleVersion b "?tail 1" H w VersionExchangeClient HandleCommand "?ex 1" 6])
      (use z H reps' s in \<open>simp_all add: handle_def HandleCommand_rep_def E\<close>)
  obtain s2 w2 where 2: "pop_loop env z H 6 s1 w1 = pop_loop env z H 5 s2 w2"
      "mPacketHandler s2 = Some HandleCrypto" "mInQueue (mNet s2) = \<lparr>mBuffer = b, mPackets = ?tail 2\<rparr>"
      "accepts env z H w2 (?ex 2)"
    by (rule pop_loop_verify [of z env c "PyTuple [x1, x2, x3]" s1 HandleCommand b "?tail 2" H w1 NetCommand_VK HandleCrypto "?ex 2" 5])
      (use z H reps' 1 in \<open>simp_all add: handle_def HandleCommand_rep_def E\<close>)
  obtain s3 w3 where 3: "pop_loop env z H 5 s2 w2 = pop_loop env z H 4 s3 w3"
      "mPacketHandler s3 = Some HandleAuthentication" "mInQueue (mNet s3) = \<lparr>mBuffer = b, mPackets = ?tail 3\<rparr>"
      "accepts env z H w3 (?ex 3)"
    by (rule pop_loop_verify [of z env c "cr" s2 HandleCrypto b "?tail 3" H w2 CryptoRequestPacket HandleAuthentication "?ex 3" 4])
      (use z H reps' 2 in \<open>simp_all add: handle_def HandleCommand_rep_def E\<close>)
  obtain s4 w4 where 4: "pop_loop env z H 4 s3 w3 = pop_loop env z H 3 s4 w4"
      "mPacketHandler s4 = Some HandleFuncResult" "mInQueue (mNet s4) = \<lparr>mBuffer = b, mPackets = ?tail 4\<rparr>"
      "accepts env z H w4 (?ex 4)"
    by (rule pop_loop_verify [of z env c "ch" s3 HandleAuthentication b "?tail 4" H w3 CryptoChallengePacket HandleFuncResult "?ex 4" 3])
      (use z H reps' 3 in \<open>simp_all add: handle_def HandleCommand_rep_def E\<close>)
  obtain s5 w5 where 5: "pop_loop env z H 3 s4 w4 = pop_loop env z H 2 s5 w5"
      "mPacketHandler s5 = Some HandlePacket" "mInQueue (mNet s5) = \<lparr>mBuffer = b, mPackets = ?tail 5\<rparr>"
      "accepts env z H w5 (?ex 5)"
    by (rule pop_loop_verify [of z env c "fr" s4 HandleFuncResult b "?tail 5" H w4 CryptoHandshakeResult HandlePacket "?ex 5" 2])
      (use z H reps' 4 in \<open>simp_all add: handle_def HandleCommand_rep_def E\<close>)
  obtain n where "PopRep env z (mNet s5) = Inr (Some (wire_norm (fst (PyPacket_Encode p))), n)"
    using reps'(6) 5(3) InflateUnmarshal_packed [OF z reps'(6)]
    by (simp add: PopRep_def PopPacket_def sendable_def)
  moreover have "wire_norm (fst (PyPacket_Encode p)) \<noteq> PyNull"
    using reps'(6) by (auto simp: sendable_def)
  ultimately have "pop_loop env z H 2 s5 w5 = Inr (Some (packet_norm p), s5\<lparr>mNet := n\<rparr>, w5)"
    using 5(2) PyPacket_Decode_norm [OF p]
    by (simp add: eval_nat_numeral handle_def HandlePacket_rep_def)
  then have "pop_loop env z H 7 s w = Inr (Some (packet_norm p), s5\<lparr>mNet := n\<rparr>, w5)"
    using 1(1) 2(1) 3(1) 4(1) 5(1) by simp
  then show ?thesis
    using s(2) by (simp add: Session_PopPacket_def eval_nat_numeral)
qed

section \<open>Main results\<close>

text \<open>C31. No packet reaches the server before the handshake is done: in every run of a session, whatever
  the client sends and however often the session is reset, a packet is delivered only when, since
  the server last sent its version, exactly the five verifications succeeded, each once and in
  order: version, VIP key, crypto request, login, handshake result.\<close>

theorem no_packet_before_login:
  assumes "(session_step env z (logged H))\<^sup>*\<^sup>* (EVEClientSession_new n, w0, []) (s, w, l)"
    and "Session_PopPacket env z (logged H) s (w, l) = Inr (Some p, s', w', l')"
  shows "accepted l' = Some [VersionExchangeClient, NetCommand_VK, CryptoRequestPacket,
    CryptoChallengePacket, CryptoHandshakeResult]"
proof -
  have "in_order s' l' \<and> mPacketHandler s' = Some HandlePacket"
    using pop_loop_in_order [OF assms(2) [unfolded Session_PopPacket_def] session_steps_in_order [OF assms(1)]]
    by simp
  then show ?thesis by (simp add: in_order_def required_def)
qed

text \<open>C34. A client that follows the protocol gets through: when its five handshake objects are decoded
  and verified, one call of \<open>PopPacket\<close> takes them and delivers the packet behind them, as it was
  encoded by the client.\<close>

theorem handshake_completes:
  assumes "zlib_ok z" "accepts env z H w (exchanges v (PyTuple [x1, x2, x3]) cr ch fr)" "packet_ok p"
    and "mPacketHandler s = Some HandleVersion" "mInQueue (mNet s) = \<lparr>mBuffer = b, mPackets =
      map (packed z c) [v, PyTuple [x1, x2, x3], cr, ch, fr, fst (PyPacket_Encode p)]\<rparr>"
    and "list_all (sendable env z c) [v, PyTuple [x1, x2, x3], cr, ch, fr, fst (PyPacket_Encode p)]"
  shows "\<exists>s' w'. Session_PopPacket env z H s w = Inr (Some (packet_norm p), s', w')"
  using handshake_delivers [OF assms] .

text \<open>Hooks that decode and accept everything, and a session that waits for the version.\<close>

definition open_hooks :: "unit hooks" where
  "open_hooks = \<lparr>decodes = (\<lambda>_ _. True), get_version = (\<lambda>w. (PyInt 5, w)), queue_position = (\<lambda>_. 1),
     verify = (\<lambda>_ _ w. Inr (True, [], w))\<rparr>"

definition waiting_inbox :: packetizer where
  "waiting_inbox = \<lparr>mBuffer = [], mPackets = map (packed plain_zlib True)
     [PyInt 5, PyTuple [PyInt 5, PyInt 5, PyInt 5], PyInt 5, PyInt 5, PyInt 5, fst (PyPacket_Encode sample_packet)]\<rparr>"

definition waiting_session :: session where
  "waiting_session = \<lparr>mNet = \<lparr>base = TCPConnection_accepted 1 2, mInQueue = waiting_inbox\<rparr>,
     mPacketHandler = Some HandleVersion\<rparr>"

lemma address_index: "LookupIndex (str ''macho.MachoAddress'') = 48"
proof -
  have "s_mStringTable ! 47 = str ''macho.MachoAddress''"
    by (simp add: s_mStringTable_def table_names_def)
  then show ?thesis
    using LookupString_index [of 47] by (intro LookupIndex_LookupString) simp
qed

lemma visit_address:
  assumes "d < 127"
  shows "visit d (PyAddress_Encode sample_address) =
    put ([0x17, 0x11, 48, 0x14, 4, 6, 2] @ SaveVarInteger 5 @ SaveVarInteger 1 @ [1])"
proof -
  have "VisitString (str ''macho.MachoAddress'') = [0x11, 48]"
    unfolding VisitString_def address_index by simp
  then show ?thesis
    using assms
    by (simp add: PyAddress_Encode_def sample_address_def PyAddress_new_def string_or_none_def
        long_or_none_def kMaxDepth_def tuple_header_def PutSizeEx_def VisitInteger_def addr_code_def
        le_bytes_4 del: str_Cons)
qed

lemma length_SaveVarInteger: "length (SaveVarInteger l) \<le> 20"
  by (simp add: SaveVarInteger_def PutSizeEx_def Let_def)

lemma length_VisitInteger: "length (VisitInteger i) \<le> 5"
  by (simp add: VisitInteger_def)

lemma Marshal_put: "visit 0 r = put bs \<Longrightarrow> Marshal r = Inr (stream_header @ bs)"
  by (simp add: Marshal_def SaveStream_def) (simp add: put_def)

lemma sample_Marshal:
  "\<exists>bs. Marshal (PyTuple [PyInt 5, PyInt 5, PyInt 5]) = Inr bs \<and> bs \<noteq> [] \<and> length bs < 0x2000"
  "\<exists>bs. Marshal (fst (PyPacket_Encode sample_packet)) = Inr bs \<and> bs \<noteq> [] \<and> length bs < 0x2000"
proof -
  have "visit 0 (PyTuple [PyInt 5, PyInt 5, PyInt 5]) = put [0x14, 3, 6, 5, 6, 5, 6, 5]"
    by (simp add: kMaxDepth_def tuple_header_def PutSizeEx_def VisitInteger_def le_bytes_4)
  then show "\<exists>bs. Marshal (PyTuple [PyInt 5, PyInt 5, PyInt 5]) = Inr bs \<and> bs \<noteq> [] \<and> length bs < 0x2000"
    using Marshal_put by (auto simp: stream_header_def)
  let ?v = "SaveVarInteger 5 @ SaveVarInteger 1"
  have "PyAddress_Encode sample_address \<noteq> PyNull" by (simp add: PyAddress_Encode_def)
  moreover have "c_str (str ''p'') = str ''p''" by (simp add: c_str_def)
  ultimately have "visit 0 (fst (PyPacket_Encode sample_packet)) =
      put ([0x17, 0x0F, 112, 0x14, 7] @ VisitInteger (msg_code CALL_RSP) @ [0x17, 0x11, 48, 0x14, 4, 6, 2] @ ?v @ [1] @
        [0x17, 0x11, 48, 0x14, 4, 6, 2] @ ?v @ [1] @ [6, 7, 0x25, 6, 3, 1, 1])"
    by (simp add: PyPacket_Encode_def sample_packet_def PyPacket_new_def kMaxDepth_def visit_address
        VisitString_def tuple_header_def PutSizeEx_def VisitInteger_def [of 7] VisitInteger_def [of 3])
  moreover note length_VisitInteger [of "msg_code CALL_RSP"] length_SaveVarInteger [of 5] length_SaveVarInteger [of 1]
  ultimately show "\<exists>bs. Marshal (fst (PyPacket_Encode sample_packet)) = Inr bs \<and> bs \<noteq> [] \<and> length bs < 0x2000"
    using Marshal_put by (auto simp: stream_header_def)
qed

lemma sendable_small:
  assumes "wire_ok env 0 r" "\<exists>bs. Marshal r = Inr bs \<and> bs \<noteq> [] \<and> length bs < 0x2000"
  shows "sendable env z c r"
proof -
  obtain bs where bs: "Marshal r = Inr bs" "bs \<noteq> []" "length bs < 0x2000" using assms(2) by blast
  then have "packed z c r = bs" using packed_small by blast
  then show ?thesis
    using assms(1) bs by (simp add: sendable_def PACKET_SIZE_LIMIT_def deflate_limit_def)
qed

lemma sample_sendable:
  "sendable env plain_zlib True (PyTuple [PyInt 5, PyInt 5, PyInt 5])"
  "sendable env plain_zlib True (fst (PyPacket_Encode sample_packet))"
  using sample_Marshal sample_packet_wire by (auto intro!: sendable_small simp: kMaxDepth_def)

lemma sample_list:
  "list_all (sendable env plain_zlib True) [PyInt 5, PyTuple [PyInt 5, PyInt 5, PyInt 5], PyInt 5, PyInt 5, PyInt 5,
     fst (PyPacket_Encode sample_packet)]"
  by (simp add: sendable_int sample_sendable)

theorem handshake_completes_witness:
  "\<forall>env w. \<exists>s' w'. Session_PopPacket env plain_zlib open_hooks waiting_session w = Inr (Some sample_packet, s', w')"
proof (intro allI)
  fix env w
  show "\<exists>s' w'. Session_PopPacket env plain_zlib open_hooks waiting_session w = Inr (Some sample_packet, s', w')"
  proof -
    have "accepts env plain_zlib open_hooks w (exchanges (PyInt 5) (PyTuple [PyInt 5, PyInt 5, PyInt 5]) (PyInt 5) (PyInt 5) (PyInt 5))"
      by (simp add: open_hooks_def exchanges_def queueable_def queue_reps_def)
    moreover have "mPacketHandler waiting_session = Some HandleVersion"
      "mInQueue (mNet waiting_session) = waiting_inbox" by (simp_all add: waiting_session_def)
    ultimately show ?thesis
      using handshake_completes [OF plain_zlib_ok _ sample_packet_ok(1) _ _ sample_list, of env open_hooks w
          waiting_session "[]"]
      by (simp add: waiting_inbox_def sample_packet_ok(2))
  qed
qed

lemma waiting_reachable:
  "(session_step env plain_zlib (logged open_hooks))\<^sup>*\<^sup>*
     (EVEClientSession_new (mNet waiting_session), (), []) (waiting_session, (), [Version_sent])"
proof -
  let ?H = "logged open_hooks" and ?s0 = "EVEClientSession_new (mNet waiting_session)"
  have conn: "mSockState (base (mNet ?s0)) = STATE_CONNECTED"
    by (simp add: EVEClientSession_new_def waiting_session_def TCPConnection_accepted_def)
  obtain s1 where s1: "queue_reps plain_zlib [(PyInt 5, True)] (?s0\<lparr>mPacketHandler := None\<rparr>) = Inr s1"
    using queue_reps_sendable [of env plain_zlib "[(PyInt 5, True)]"] by (auto simp: sendable_int)
  define s2 where "s2 = s1\<lparr>mPacketHandler := Some HandleVersion\<rparr>"
  have "Reset plain_zlib ?H ?s0 ((), []) = Inr (s2, (), [Version_sent])"
    using conn s1 by (simp add: Reset_def logged_def open_hooks_def s2_def)
  then have "session_step env plain_zlib ?H (?s0, (), []) (s2, (), [Version_sent])" by (rule session_step.reset)
  moreover have "s2\<lparr>mNet := mNet waiting_session\<rparr> = waiting_session"
    by (simp add: s2_def waiting_session_def)
  then have "session_step env plain_zlib ?H (s2, (), [Version_sent]) (waiting_session, (), [Version_sent])"
    using session_step.net [of env plain_zlib ?H s2 "((), [Version_sent])" "mNet waiting_session"] by simp
  ultimately show ?thesis by (rule converse_rtranclp_into_rtranclp [OF _ r_into_rtranclp])
qed

theorem no_packet_before_login_witness:
  "\<forall>env. \<exists>s' l'. Session_PopPacket env plain_zlib (logged open_hooks) waiting_session ((), [Version_sent]) =
     Inr (Some sample_packet, s', (), l') \<and>
     accepted l' = Some [VersionExchangeClient, NetCommand_VK, CryptoRequestPacket,
       CryptoChallengePacket, CryptoHandshakeResult]"
proof (intro allI)
  fix env
  show "\<exists>s' l'. Session_PopPacket env plain_zlib (logged open_hooks) waiting_session ((), [Version_sent]) =
     Inr (Some sample_packet, s', (), l') \<and>
     accepted l' = Some [VersionExchangeClient, NetCommand_VK, CryptoRequestPacket,
       CryptoChallengePacket, CryptoHandshakeResult]"
  proof -
    have "accepts env plain_zlib (logged open_hooks) ((), [Version_sent])
        (exchanges (PyInt 5) (PyTuple [PyInt 5, PyInt 5, PyInt 5]) (PyInt 5) (PyInt 5) (PyInt 5))"
      by (simp add: open_hooks_def logged_def exchanges_def queueable_def queue_reps_def)
    moreover have "mPacketHandler waiting_session = Some HandleVersion"
      "mInQueue (mNet waiting_session) = waiting_inbox" by (simp_all add: waiting_session_def)
    ultimately obtain s' w' where "Session_PopPacket env plain_zlib (logged open_hooks) waiting_session
        ((), [Version_sent]) = Inr (Some sample_packet, s', w')"
      using handshake_delivers [OF plain_zlib_ok _ sample_packet_ok(1) _ _ sample_list, of env "logged open_hooks"
          "((), [Version_sent])" waiting_session "[]"]
      by (auto simp: waiting_inbox_def sample_packet_ok(2))
    then have "Session_PopPacket env plain_zlib (logged open_hooks) waiting_session
        ((), [Version_sent]) = Inr (Some sample_packet, s', (), snd w')" by (cases w') simp
    from this no_packet_before_login [OF waiting_reachable this] show ?thesis by blast
  qed
qed

text \<open>Popping a packet always returns: each object is taken from the queue of the connection, so,
  if the verifications of the subclass return, the handlers, which call \<open>PopPacket\<close> again, recurse at most once for each packet received.\<close>

theorem pop_packet_returns:
  assumes "hooks_return H"
  shows "Session_PopPacket env z H s w \<noteq> Inl Diverge"
  using PopPacket_total [OF assms, of env z s w] by (simp add: total_def)

theorem pop_packet_returns_witness:
  "\<forall>env w. Session_PopPacket env plain_zlib open_hooks waiting_session w \<noteq> Inl Diverge"
proof (intro allI)
  fix env w
  show "Session_PopPacket env plain_zlib open_hooks waiting_session w \<noteq> Inl Diverge"
    by (rule pop_packet_returns) (simp add: hooks_return_def open_hooks_def total_def)
qed

text \<open>C39. An unauthenticated peer can stop the server: on a session in any state of the handshake, a
  frame of length zero makes \<open>PopPacket\<close> fail an assertion.\<close>

theorem empty_packet_stops_server:
  "Session_PopPacket env z H (s\<lparr>mNet := (mNet s)\<lparr>mInQueue := feed [[0, 0, 0, 0]] StreamPacketizer_new\<rparr>\<rparr>) w
     = Inl Assert_fail"
proof -
  have "PopRep env z ((mNet s)\<lparr>mInQueue := feed [[0, 0, 0, 0]] StreamPacketizer_new\<rparr>) = Inl Assert_fail"
    by (rule empty_frame_asserts)
  then show ?thesis by (simp add: Session_PopPacket_def)
qed

text \<open>A queue check that is answered after the connection was lost leaves the session without a
  handler, so the next object that is already in the queue fails the assertion in \<open>PopPacket\<close>.\<close>

theorem reset_of_lost_connection:
  assumes "mSockState (base (mNet s)) \<noteq> STATE_CONNECTED"
    and "mInQueue (mNet s) = \<lparr>mBuffer = b, mPackets = map (packed z c) [PyTuple [x1, x2], r]\<rparr>"
    and "mPacketHandler s = Some HandleCommand" "zlib_ok z"
    and "list_all (sendable env z c) [PyTuple [x1, x2], r]"
    and "decodes H NetCommand_QC (PyTuple [wire_norm x1, wire_norm x2])"
  shows "Session_PopPacket env z H s w = Inl Assert_fail"
proof -
  define n where "n = (mNet s)\<lparr>mInQueue := \<lparr>mBuffer = b, mPackets = [packed z c r]\<rparr>\<rparr>"
  define s1 where "s1 = s\<lparr>mNet := n\<rparr>"
  have pop1: "PopRep env z (mNet s) = Inr (Some (PyTuple [wire_norm x1, wire_norm x2]), n)"
    using assms(2,5) InflateUnmarshal_packed [OF assms(4), of env c "PyTuple [x1, x2]"]
    by (simp add: PopRep_def PopPacket_def n_def sendable_def)
  have r: "wire_norm r \<noteq> PyNull" using assms(5) by (auto simp: sendable_def)
  obtain m where pop2: "PopRep env z n = Inr (Some (wire_norm r), m)"
    using assms(5) InflateUnmarshal_packed [OF assms(4), of env c r]
    by (auto simp: PopRep_def PopPacket_def n_def sendable_def)
  have "sendable env z True (PyInt (queue_position H w))"
    using Marshal_put [of "PyInt (queue_position H w)" "VisitInteger (queue_position H w)"]
      length_VisitInteger [of "queue_position H w"]
    by (intro sendable_small) (auto simp: stream_header_def)
  then have "queue_reps z [(PyInt (queue_position H w), True)] s1 = Inr s1"
    using assms(1) by (simp add: queue_reps_def QueueRep_sends Send_def s1_def n_def)
  then have "handle env z H HandleCommand (PyTuple [wire_norm x1, wire_norm x2]) s1 w =
      Inr (None, s1\<lparr>mPacketHandler := None\<rparr>, w)"
    using assms(1,6) by (simp add: handle_def HandleCommand_rep_def Reset_def s1_def n_def)
  then show ?thesis
    using pop1 pop2 r assms(2,3) by (simp add: Session_PopPacket_def s1_def)
qed

definition lost_session :: session where
  "lost_session = \<lparr>mNet = \<lparr>base = Disconnect (TCPConnection_accepted 1 2), mInQueue = \<lparr>mBuffer = [],
     mPackets = map (packed plain_zlib True) [PyTuple [PyInt 5, PyInt 5], PyInt 5]\<rparr>\<rparr>,
     mPacketHandler = Some HandleCommand\<rparr>"

theorem reset_of_lost_connection_witness:
  "\<forall>env w. Session_PopPacket env plain_zlib open_hooks lost_session w = Inl Assert_fail"
proof (intro allI)
  fix env w
  show "Session_PopPacket env plain_zlib open_hooks lost_session w = Inl Assert_fail"
  proof -
    have "visit 0 (PyTuple [PyInt 5, PyInt 5]) = put [0x2C, 6, 5, 6, 5]"
      by (simp add: kMaxDepth_def tuple_header_def PutSizeEx_def VisitInteger_def le_bytes_4)
    then have "sendable env plain_zlib True (PyTuple [PyInt 5, PyInt 5])"
      using Marshal_put by (intro sendable_small) (auto simp: kMaxDepth_def stream_header_def)
    then show ?thesis
      using reset_of_lost_connection [of lost_session "[]" plain_zlib True "PyInt 5" "PyInt 5" "PyInt 5" env open_hooks w]
      by (simp add: lost_session_def Disconnect_def TCPConnection_accepted_def plain_zlib_ok sendable_int
          open_hooks_def)
  qed
qed

end
