(* ===== verification/Login.thy ===== *)
theory Login
  imports ClientSession Password Handshake
begin

text \<open>
  Logging in: the functions of \<open>eve-server/Client.cpp\<close> that the handshake calls
  (\<open>_GetVersion\<close>, \<open>_VerifyVersion\<close>, \<open>_VerifyVIPKey\<close>, \<open>_VerifyCrypto\<close>, \<open>_VerifyLogin\<close>,
  \<open>_VerifyFuncResult\<close>), with the account functions of \<open>eve-server/ServiceDB.cpp\<close>. The
  answers of the database, the encoders generated from the packet descriptions, the clock,
  the configuration and the list of connected clients are a record \<open>server\<close>; a query is a
  function on the state \<open>'db\<close> of the database.
\<close>

section \<open>What the functions read\<close>

record challenge =
  user_name :: bytes
  user_password :: bytes
  user_password_hash :: bytes
  user_languageid :: bytes

text \<open>A row of the query of \<open>GetAccountInformation\<close>; \<open>None\<close> is NULL.\<close>

record account_row =
  col_accountID :: int32
  col_clientID :: int32
  col_password :: "bytes option"
  col_hash :: "bytes option"
  col_role :: int64
  col_type :: byte
  col_online :: int32
  col_banned :: int32
  col_logonCount :: int32
  col_lastLogin :: "bytes option"

record account_data =
  acc_online :: bool
  acc_banned :: bool
  acc_type :: byte
  acc_id :: int32
  acc_visits :: int32
  acc_clientID :: int32
  acc_role :: int64
  acc_name :: bytes
  acc_hash :: bytes
  acc_password :: bytes
  acc_last_login :: bytes

text \<open>The members that \<open>_VerifyLogin\<close> sets before it encodes its answer.\<close>

record server_handshake =
  serverChallenge :: bytes
  func_marshaled_code :: bytes
  verification :: bool
  cluster_usercount :: int32
  proxy_nodeid :: int32
  user_logonqueueposition :: int32
  challenge_responsehash :: bytes
  imageserverurl :: bytes
  shake_macho_version :: int32
  shake_boot_version :: "64 word"
  shake_boot_build :: int32
  shake_boot_codename :: bytes
  shake_boot_region :: bytes

record handshake_ack =
  ack_jit :: bytes
  ack_userid :: int32
  ack_maxSessionTime :: pyrep
  ack_userType :: int32
  ack_role :: int64
  ack_address :: bytes
  ack_inDetention :: pyrep
  ack_client_hash :: pyrep
  ack_user_clientid :: int64
  ack_live_updates :: pyrep
  ack_sessionID :: int64

record 'db server =
  python :: env
  passwords :: pass_env
  escape_string :: "bytes \<Rightarrow> bytes"
  select_account :: "bytes \<Rightarrow> 'db \<Rightarrow> account_row option option"
  insert_account :: "bytes \<Rightarrow> bytes \<Rightarrow> bytes \<Rightarrow> int64 \<Rightarrow> int32 \<Rightarrow> 'db \<Rightarrow> (int32 \<times> 'db) option"
  bump_client_seed :: "'db \<Rightarrow> 'db"
  select_ban_reason :: "int32 \<Rightarrow> 'db \<Rightarrow> bytes option"
  set_account_online :: "int32 \<Rightarrow> bool \<Rightarrow> 'db \<Rightarrow> 'db"
  insert_login_history :: "int32 \<Rightarrow> bytes \<Rightarrow> 'db \<Rightarrow> 'db"
  select_premium_until :: "int32 \<Rightarrow> 'db \<Rightarrow> int64 option"
  count_other_online :: "int32 \<Rightarrow> bytes \<Rightarrow> 'db \<Rightarrow> int32 option"
  client_seed :: int32
  client_count :: int32
  live_connection :: "int32 \<Rightarrow> bool"
  autoAccountRole :: int64
  subscription_Enabled :: bool
  image_url :: bytes
  file_time :: int64
  node_id :: int64
  remote_address :: bytes
  live_updates :: pyrep
  encode_version :: "int32 \<Rightarrow> pyrep"
  encode_handshake :: "server_handshake \<Rightarrow> pyrep"
  encode_ack :: "handshake_ack \<Rightarrow> pyrep"
  encode_remote_message :: "bytes \<Rightarrow> entries \<Rightarrow> pyrep"
  encode_initial_state :: "entries \<Rightarrow> int64 \<Rightarrow> pyrep"
  decode_challenge :: "pyrep \<Rightarrow> challenge option"
  decode_crypto :: "pyrep \<Rightarrow> (bytes \<times> pyrep) option"
  decode_api_params :: "pyrep \<Rightarrow> bool"
  decode_others :: "exchange \<Rightarrow> pyrep \<Rightarrow> bool"

text \<open>What the functions change: the database and members of \<open>Client\<close>.\<close>

record 'db client =
  cl_db :: 'db
  pSession :: client_session
  m_nextNotifySequence :: int32

section \<open>Accounts\<close>

definition tolower_c :: "byte \<Rightarrow> byte" where
  "tolower_c c = (if 65 \<le> c \<and> c \<le> 90 then c + 32 else c)"

fun find_sub :: "bytes \<Rightarrow> bytes \<Rightarrow> bool" where
  "find_sub [] s = (s = [])"
| "find_sub (c # cs) s = (take (length s) (c # cs) = s \<or> find_sub cs s)"

definition icontains :: "bytes \<Rightarrow> bytes \<Rightarrow> bool" where
  "icontains data toSearch = find_sub (map tolower_c data) (map tolower_c toSearch)"

definition badChars :: "bytes list" where
  "badChars = map str ['';'', ''--'', ''#'', ''/*'', ''/0'', ''0x'', ''|'', [CHR 0x27, CHR '' ''], ''+'', ''@'',
     ''!'', ''$'', ''%'', ''^'', ''&'', ''*'', ''('', '')'']"

text \<open>\<open>None\<close> when the name is accepted, otherwise the message.\<close>

definition ValidateAccountName :: "bytes \<Rightarrow> bytes option" where
  "ValidateAccountName name =
     (if name = [] then Some (str ''Account Name is empty.'')
      else if length name < 3 then Some (str ''Account Name is too short.'')
      else if length name > 20 then Some (str ''Account Name is too long.'')
      else if list_ex (icontains name) badChars
        then Some (str ''Account Name contains invalid characters.'')
      else None)"

definition CreateNewAccount :: "'db server \<Rightarrow> bytes \<Rightarrow> bytes \<Rightarrow> bytes \<Rightarrow> int64 \<Rightarrow> 'db \<Rightarrow> int32 \<times> 'db" where
  "CreateNewAccount srv login pass passHash role d =
     (case insert_account srv (c_str login) (c_str pass) (c_str passHash) role (client_seed srv) d of
        None \<Rightarrow> (0, d)
      | Some (accountID, d) \<Rightarrow> (accountID, bump_client_seed srv d))"

text \<open>\<open>GetText\<close> is a C string; the hash is read by its length.\<close>

definition account_of_row :: "bytes \<Rightarrow> account_row \<Rightarrow> account_data" where
  "account_of_row login row =
     \<lparr>acc_online = (col_online row \<noteq> 0), acc_banned = (col_banned row \<noteq> 0), acc_type = col_type row,
      acc_id = col_accountID row, acc_visits = col_logonCount row, acc_clientID = col_clientID row,
      acc_role = col_role row, acc_name = login,
      acc_hash = (case col_hash row of None \<Rightarrow> [] | Some h \<Rightarrow> h),
      acc_password = (case col_password row of None \<Rightarrow> [] | Some p \<Rightarrow> c_str p),
      acc_last_login = (case col_lastLogin row of None \<Rightarrow> [] | Some l \<Rightarrow> c_str l)\<rparr>"

text \<open>
  The function calls itself after it created an account, so it returns only when the new
  account is found; \<open>fuel\<close> bounds the number of calls. \<open>Inl\<close> of the inner sum is the message.
\<close>

primrec GetAccountInformation ::
    "'db server \<Rightarrow> nat \<Rightarrow> challenge \<Rightarrow> 'db \<Rightarrow> ((bytes + account_data) \<times> 'db) result" where
  "GetAccountInformation srv 0 ccp d = Inl Diverge"
| "GetAccountInformation srv (Suc fuel) ccp d =
     (let eLogin = escape_string srv (user_name ccp) in
      case select_account srv (c_str eLogin) d of
        None \<Rightarrow> Inr (Inl (str ''Error in DB Query: Account not found for '' @ eLogin), d)
      | Some None \<Rightarrow>
          if sint (autoAccountRole srv) > 0 then
            (let (accountID, d) =
               CreateNewAccount srv eLogin (escape_string srv (user_password ccp))
                 (escape_string srv (user_password_hash ccp)) (autoAccountRole srv) d
             in if accountID > 0 then GetAccountInformation srv fuel ccp d
                else Inr (Inl (str ''Failed to create a new account.''), d))
          else Inr (Inl (str ''That account doesn't exist and AutoAccount is disabled.''), d)
      | Some (Some row) \<Rightarrow> Inr (Inr (account_of_row eLogin row), d))"

section \<open>Refusals\<close>

definition EVEVersionNumber :: "64 word" where "EVEVersionNumber = 0x401D3D70A3D70A3D"

definition MachoNetVersion :: int32 where "MachoNetVersion = 320"

definition EVEBuildVersion :: int32 where "EVEBuildVersion = 360229"

definition EVEProjectRegion :: bytes where "EVEProjectRegion = str ''ccp''"

definition EVEProjectCodename :: bytes where "EVEProjectCodename = str ''EVE-EVE-TRANQUILITY''"

text \<open>\<open>SetItemString\<close> of one keyword after the other.\<close>

definition set_strings :: "env \<Rightarrow> (string \<times> pyrep) list \<Rightarrow> entries result" where
  "set_strings env kvs =
     fold (\<lambda>(k, v) m. ebind m (\<lambda>d. Dict_SetItem env d (PyString (str k)) v)) kvs (Inr [])"

definition GPSTransportClosed :: "'db server \<Rightarrow> bytes \<Rightarrow> pyrep result" where
  "GPSTransportClosed srv reason =
     ebind (set_strings (python srv)
       [(''reasonArgs'', PyDict []), (''clock'', PyLong (file_time srv)),
        (''region'', PyString EVEProjectRegion), (''reason'', PyWString (c_str reason)),
        (''version'', PyFloat EVEVersionNumber), (''build'', PyInt EVEBuildVersion),
        (''codename'', PyString EVEProjectCodename), (''machoVersion'', PyInt MachoNetVersion)]) (\<lambda>keywords.
     Inr (PyObjectEx False
       (PyTuple [PyToken (str ''exceptions.GPSTransportClosed''), PyTuple [PyWString (c_str reason)],
                 PyDict keywords]) [] []))"

text \<open>What a verification answers: accepted or not, the objects it queued, the client after it.\<close>

type_synonym 'db answer = "bool \<times> (pyrep \<times> bool) list \<times> 'db client"

definition LoginFail ::
    "'db server \<Rightarrow> bytes \<Rightarrow> (pyrep \<times> bool) list \<Rightarrow> 'db client \<Rightarrow> 'db answer result" where
  "LoginFail srv fail_msg q cl =
     ebind (GPSTransportClosed srv fail_msg) (\<lambda>except. Inr (False, q @ [(except, True)], cl))"

definition ban_message :: "'db server \<Rightarrow> int32 \<Rightarrow> 'db \<Rightarrow> bytes" where
  "ban_message srv accountID d =
     (let reason = (case select_ban_reason srv accountID d of None \<Rightarrow> [] | Some r \<Rightarrow> c_str r)
      in if reason \<noteq> [] then str ''Your account is banned. Reason: '' @ reason
         else str ''Your account is banned. Contact support for further assistance.'')"

section \<open>Checking the password\<close>

text \<open>\<open>strcmp\<close> of the plain password, or \<open>memcmp\<close> of the hash or of the hash computed afresh.\<close>

definition check_hash :: "'db server \<Rightarrow> challenge \<Rightarrow> account_data \<Rightarrow> bool result" where
  "check_hash srv ccp aData =
     (let hashOk = (acc_hash aData \<noteq> [] \<and> length (acc_hash aData) = length (user_password_hash ccp)
                    \<and> acc_hash aData = user_password_hash ccp)
      in if \<not> hashOk \<and> acc_hash aData = [] \<and> acc_password aData \<noteq> [] then
           ebind (GeneratePassHash (passwords srv) (user_name ccp) (acc_password aData)) (\<lambda>computed.
             Inr (length computed = length (user_password_hash ccp) \<and> computed = user_password_hash ccp))
         else Inr hashOk)"

text \<open>The message of a refusal, or \<open>None\<close>.\<close>

definition check_password :: "'db server \<Rightarrow> challenge \<Rightarrow> account_data \<Rightarrow> bytes option result" where
  "check_password srv ccp aData =
     (if user_password ccp \<noteq> [] then
        Inr (if c_str (acc_password aData) \<noteq> c_str (user_password ccp)
             then Some (str ''The plain Password you entered is incorrect for this account.'') else None)
      else ebind (check_hash srv ccp aData) (\<lambda>hashOk.
        Inr (if \<not> hashOk then Some (str ''The Password you entered is incorrect for this account.'')
             else None)))"

section \<open>The login itself\<close>

definition ip_of :: "bytes \<Rightarrow> bytes" where
  "ip_of addr = takeWhile (\<lambda>c. c \<noteq> 58) addr"

definition record_login :: "'db server \<Rightarrow> int32 \<Rightarrow> 'db \<Rightarrow> 'db" where
  "record_login srv accountID d =
     (let addr = ip_of (remote_address srv) in
      if addr \<noteq> [] \<and> addr \<noteq> str ''0.0.0.0'' \<and> addr \<noteq> str ''127.0.0.1''
      then insert_login_history srv accountID (c_str (escape_string srv addr)) d else d)"

text \<open>An alpha account with another client online from the same address.\<close>

definition alpha_blocked :: "'db server \<Rightarrow> int32 \<Rightarrow> 'db \<Rightarrow> bool" where
  "alpha_blocked srv accountID d =
     (subscription_Enabled srv \<and>
      (let ip = ip_of (remote_address srv) in
       ip \<noteq> [] \<and> ip \<noteq> str ''0.0.0.0'' \<and>
       sint (case select_premium_until srv accountID d of None \<Rightarrow> 0 | Some t \<Rightarrow> t) \<le> sint (file_time srv) \<and>
       (case count_other_online srv accountID (c_str (escape_string srv ip)) d of
          None \<Rightarrow> False | Some n \<Rightarrow> n > 0)))"

definition marshaledNone :: bytes where
  "marshaledNone = [0x74, 0x04, 0x00, 0x00, 0x00, 0x4E, 0x6F, 0x6E, 0x65]"

definition GetQueuePosition :: "'db client \<Rightarrow> int32" where
  "GetQueuePosition cl = 1"

definition server_shake :: "'db server \<Rightarrow> 'db client \<Rightarrow> server_handshake" where
  "server_shake srv cl =
     \<lparr>serverChallenge = [], func_marshaled_code = marshaledNone, verification = False,
      cluster_usercount = client_count srv, proxy_nodeid = 0xFFAA,
      user_logonqueueposition = GetQueuePosition cl, challenge_responsehash = str ''55087'',
      imageserverurl = image_url srv, shake_macho_version = MachoNetVersion,
      shake_boot_version = EVEVersionNumber, shake_boot_build = EVEBuildVersion,
      shake_boot_codename = EVEProjectCodename, shake_boot_region = EVEProjectRegion\<rparr>"

definition Mammon :: int32 where "Mammon = 30"

definition setup_session :: "'db server \<Rightarrow> challenge \<Rightarrow> account_data \<Rightarrow> client_session \<Rightarrow> client_session result" where
  "setup_session srv ccp aData s =
     (let e = python srv in
      ebind (SetString e (str ''address'') (c_str (remote_address srv)) s) (\<lambda>s.
      ebind (SetString e (str ''languageID'') (c_str (user_languageid ccp)) s) (\<lambda>s.
      ebind (SetInt e (str ''userType'') Mammon s) (\<lambda>s.
      ebind (SetInt e (str ''userid'') (acc_id aData) s) (\<lambda>s.
      ebind (SetLong e (str ''role'') (acc_role aData) s) (\<lambda>s.
      ebind (SetLong e (str ''clientID'') (1000000 * ucast (acc_clientID aData) + 888444) s) (\<lambda>s.
      SetLong e (str ''sessionID'') 0 s)))))))"

definition VerifyLogin :: "'db server \<Rightarrow> nat \<Rightarrow> challenge \<Rightarrow> 'db client \<Rightarrow> 'db answer result" where
  "VerifyLogin srv fuel ccp cl =
     (let q = [(PyInt 2, True)] in
      case ValidateAccountName (user_name ccp) of
        Some failMsg \<Rightarrow> LoginFail srv failMsg q cl
      | None \<Rightarrow>
        ebind (GetAccountInformation srv fuel ccp (cl_db cl)) (\<lambda>(account, d).
          let cl = cl\<lparr>cl_db := d\<rparr> in
          case account of
            Inl failMsg \<Rightarrow> LoginFail srv failMsg q cl
          | Inr aData \<Rightarrow>
            if acc_banned aData then LoginFail srv (ban_message srv (acc_id aData) d) q cl
            else if acc_online aData \<and> live_connection srv (acc_id aData)
              then LoginFail srv (str ''This account is currently online.'') q cl
            else
              let d = (if acc_online aData then set_account_online srv (acc_id aData) False d else d);
                  cl = cl\<lparr>cl_db := d\<rparr> in
              ebind (check_password srv ccp aData) (\<lambda>refused.
                case refused of
                  Some failMsg \<Rightarrow> LoginFail srv failMsg q cl
                | None \<Rightarrow>
                  let d = record_login srv (acc_id aData) d; cl = cl\<lparr>cl_db := d\<rparr> in
                  if alpha_blocked srv (acc_id aData) d
                  then LoginFail srv (str ''Alpha accounts may run only one client at a time. Close the other client or activate Omega (PLEX).'') q cl
                  else ebind (setup_session srv ccp aData (pSession cl)) (\<lambda>s.
                    Inr (True, q @ [(encode_handshake srv (server_shake srv cl), True)], cl\<lparr>pSession := s\<rparr>)))))"

section \<open>The other verifications\<close>

definition GetVersion :: "'db server \<Rightarrow> 'db client \<Rightarrow> pyrep \<times> 'db client" where
  "GetVersion srv cl = (encode_version srv (client_count srv), cl)"

definition VerifyVersion :: "'db client \<Rightarrow> 'db answer" where
  "VerifyVersion cl = (True, [], cl)"

definition VerifyVIPKey :: "'db client \<Rightarrow> 'db answer" where
  "VerifyVIPKey cl = (True, [], cl)"

definition Client_GetUserID :: "'db server \<Rightarrow> 'db client \<Rightarrow> int32 result" where
  "Client_GetUserID srv cl = GetCurrentInt (python srv) (pSession cl) (str ''userid'')"

definition Client_GetClientID :: "'db server \<Rightarrow> 'db client \<Rightarrow> int64 result" where
  "Client_GetClientID srv cl = GetCurrentLong (python srv) (pSession cl) (str ''clientID'')"

text \<open>\<open>SendNotification\<close> with the sequence number, as the packet that \<open>QueuePacket\<close> encodes.\<close>

definition SendNotification ::
    "'db server \<Rightarrow> address \<Rightarrow> notification \<Rightarrow> bool \<Rightarrow> 'db client \<Rightarrow> ((pyrep \<times> bool) list \<times> 'db client) result" where
  "SendNotification srv dst noti sequenced cl =
     ebind (Client_GetUserID srv cl) (\<lambda>uid.
       let p = PyPacket_new\<lparr>type_string := str ''macho.Notification'', msg_type := NOTIFICATION,
                 source := PyAddress_new\<lparr>addr_type := Node, objectID := node_id srv\<rparr>, dest := dst,
                 userid := uid, payload := EVENotificationStream_Encode noti\<rparr>;
           n = m_nextNotifySequence cl + 1 in
       if sequenced then
         ebind (Dict_SetItem (python srv) [] (PyString (str ''sn'')) (PyInt n)) (\<lambda>d.
           Inr ([(fst (PyPacket_Encode (p\<lparr>named_payload := PyDict d\<rparr>)), True)],
                cl\<lparr>m_nextNotifySequence := n\<rparr>))
       else Inr ([(fst (PyPacket_Encode p), True)], cl))"

definition SendErrorMsg :: "'db server \<Rightarrow> bytes \<Rightarrow> 'db client \<Rightarrow> ((pyrep \<times> bool) list \<times> 'db client) result" where
  "SendErrorMsg srv msg cl =
     (let tmp = encode_remote_message srv (str ''CustomError'') [(PyString (str ''error''), PyString (c_str msg))] in
      if tmp = PyNull then Inr ([], cl) else
      ebind (Client_GetClientID srv cl) (\<lambda>cid.
        SendNotification srv
          (PyAddress_new\<lparr>addr_type := Broadcast, service := str ''OnRemoteMessage'',
                         bcast_idtype := str ''charid'', objectID := cid\<rparr>)
          (EVENotificationStream_new\<lparr>notifyType := str ''OnRemoteMessage'', n_remoteObject := 1, args := tmp\<rparr>)
          True cl))"

definition VerifyCrypto :: "'db server \<Rightarrow> bytes \<times> pyrep \<Rightarrow> 'db client \<Rightarrow> 'db answer result" where
  "VerifyCrypto srv cr cl =
     (let (keyVersion, keyParams) = cr in
      if keyVersion \<noteq> str ''placebo'' then
        (if \<not> decode_api_params srv keyParams then Inr (False, [], cl)
         else ebind (SendErrorMsg srv (str ''Invalid CryptoAPI request - You must change your client to use Placebo crypto in common.ini to talk to this server.'') cl)
                (\<lambda>(q, cl). Inr (False, q, cl)))
      else Inr (True, [(PyString (str ''OK CC''), True)], cl))"

definition SendInitialSessionStatus :: "'db server \<Rightarrow> 'db client \<Rightarrow> ((pyrep \<times> bool) list \<times> 'db client) result" where
  "SendInitialSessionStatus srv cl =
     ebind (EncodeInitialState (python srv) (pSession cl) []) (\<lambda>(s, initialstate).
       let cl = cl\<lparr>pSession := s\<rparr> in
       ebind (Client_GetClientID srv cl) (\<lambda>cid.
       ebind (Client_GetUserID srv cl) (\<lambda>uid.
         let p = PyPacket_new\<lparr>type_string := str ''macho.SessionInitialStateNotification'',
                   msg_type := SESSIONINITIALSTATENOTIFICATION,
                   source := PyAddress_new\<lparr>addr_type := Node, objectID := node_id srv, callID := 0\<rparr>,
                   dest := PyAddress_new\<lparr>addr_type := Client, objectID := cid, callID := 0\<rparr>,
                   userid := uid, payload := encode_initial_state srv initialstate (m_sessionID s)\<rparr>
         in Inr ([(fst (PyPacket_Encode p), True)], cl))))"

definition VerifyFuncResult :: "'db server \<Rightarrow> 'db client \<Rightarrow> 'db answer result" where
  "VerifyFuncResult srv cl =
     ebind (GetCurrentString (python srv) (pSession cl) (str ''languageID'')) (\<lambda>jit.
     ebind (Client_GetUserID srv cl) (\<lambda>uid.
     ebind (GetCurrentString (python srv) (pSession cl) (str ''address'')) (\<lambda>addr.
     ebind (Client_GetClientID srv cl) (\<lambda>cid.
     ebind (SendInitialSessionStatus srv cl) (\<lambda>(q, cl).
       Inr (True, (encode_ack srv
         \<lparr>ack_jit = jit, ack_userid = uid, ack_maxSessionTime = PyNone, ack_userType = Mammon,
          ack_role = Role_PLAYER OR Role_NEWBIE OR 4611686018427387904,
          ack_address = addr, ack_inDetention = PyNone, ack_client_hash = PyNone,
          ack_user_clientid = cid, ack_live_updates = live_updates srv, ack_sessionID = 0\<rparr>, False) # q, cl))))))"

section \<open>As hooks of the handshake\<close>

definition login_decodes :: "'db server \<Rightarrow> exchange \<Rightarrow> pyrep \<Rightarrow> bool" where
  "login_decodes srv k rep =
     (case k of
        CryptoRequestPacket \<Rightarrow> decode_crypto srv rep \<noteq> None
      | CryptoChallengePacket \<Rightarrow> decode_challenge srv rep \<noteq> None
      | _ \<Rightarrow> decode_others srv k rep)"

text \<open>\<open>verify\<close> is asked only for what was decoded.\<close>

definition login_verify :: "'db server \<Rightarrow> nat \<Rightarrow> exchange \<Rightarrow> pyrep \<Rightarrow> 'db client \<Rightarrow> 'db answer result" where
  "login_verify srv fuel k rep cl =
     (case k of
        VersionExchangeClient \<Rightarrow> Inr (VerifyVersion cl)
      | NetCommand_QC \<Rightarrow> Inr (False, [], cl)
      | NetCommand_VK \<Rightarrow> Inr (VerifyVIPKey cl)
      | CryptoRequestPacket \<Rightarrow>
          (case decode_crypto srv rep of None \<Rightarrow> Inr (False, [], cl) | Some cr \<Rightarrow> VerifyCrypto srv cr cl)
      | CryptoChallengePacket \<Rightarrow>
          (case decode_challenge srv rep of None \<Rightarrow> Inr (False, [], cl) | Some ccp \<Rightarrow> VerifyLogin srv fuel ccp cl)
      | CryptoHandshakeResult \<Rightarrow> VerifyFuncResult srv cl)"

definition client_hooks :: "'db server \<Rightarrow> nat \<Rightarrow> 'db client hooks" where
  "client_hooks srv fuel =
     \<lparr>decodes = login_decodes srv, get_version = GetVersion srv, queue_position = GetQueuePosition,
      verify = login_verify srv fuel\<rparr>"

section \<open>Who gets in\<close>

text \<open>The credentials that an account accepts.\<close>

definition credentials_match :: "'db server \<Rightarrow> challenge \<Rightarrow> account_data \<Rightarrow> bool" where
  "credentials_match srv ccp a \<longleftrightarrow>
     (if user_password ccp \<noteq> [] then c_str (acc_password a) = c_str (user_password ccp)
      else if acc_hash a \<noteq> [] then user_password_hash ccp = acc_hash a
      else acc_password a \<noteq> [] \<and>
           GeneratePassHash (passwords srv) (user_name ccp) (acc_password a) = Inr (user_password_hash ccp))"

lemma check_password_match:
  "check_password srv ccp a = Inr None \<longleftrightarrow> credentials_match srv ccp a"
  by (auto simp: check_password_def check_hash_def credentials_match_def ebind_Inr_conv)

text \<open>The account of a name in the database, where it is a row of it.\<close>

definition account_in :: "'db server \<Rightarrow> challenge \<Rightarrow> 'db \<Rightarrow> account_data \<Rightarrow> bool" where
  "account_in srv ccp d a \<longleftrightarrow>
     (\<exists>row. select_account srv (c_str (escape_string srv (user_name ccp))) d = Some (Some row) \<and>
        a = account_of_row (escape_string srv (user_name ccp)) row)"

lemma GetAccountInformation_account:
  "GetAccountInformation srv fuel ccp d = Inr (Inr a, d') \<Longrightarrow> account_in srv ccp d' a"
  by (induction fuel arbitrary: d) (auto simp: account_in_def Let_def split: option.splits if_splits prod.splits)

lemma LoginFail_refuses: "LoginFail srv m q cl = Inr (ok, q', cl') \<Longrightarrow> \<not> ok \<and> cl' = cl"
  by (auto simp: LoginFail_def ebind_Inr_conv)

text \<open>Everything that a successful login has passed.\<close>

definition admitted :: "'db server \<Rightarrow> challenge \<Rightarrow> account_data \<Rightarrow> 'db \<Rightarrow> bool" where
  "admitted srv ccp a d \<longleftrightarrow>
     ValidateAccountName (user_name ccp) = None \<and> account_in srv ccp d a \<and>
     \<not> acc_banned a \<and> (acc_online a \<longrightarrow> \<not> live_connection srv (acc_id a)) \<and> credentials_match srv ccp a \<and>
     (let d1 = (if acc_online a then set_account_online srv (acc_id a) False d else d)
      in \<not> alpha_blocked srv (acc_id a) (record_login srv (acc_id a) d1))"

lemma VerifyLogin_admits:
  assumes "VerifyLogin srv fuel ccp cl = Inr (True, q, cl')"
  obtains a d s where "GetAccountInformation srv fuel ccp (cl_db cl) = Inr (Inr a, d)" "admitted srv ccp a d"
    "setup_session srv ccp a (pSession cl) = Inr s"
    "cl' = cl\<lparr>cl_db := record_login srv (acc_id a) (if acc_online a then set_account_online srv (acc_id a) False d else d),
       pSession := s\<rparr>"
    "q = [(PyInt 2, True), (encode_handshake srv (server_shake srv cl), True)]"
proof -
  have v: "ValidateAccountName (user_name ccp) = None"
    using assms by (auto simp: VerifyLogin_def Let_def dest: LoginFail_refuses split: option.splits)
  then obtain account d where g: "GetAccountInformation srv fuel ccp (cl_db cl) = Inr (account, d)"
    using assms by (auto simp: VerifyLogin_def Let_def ebind_Inr_conv)
  then obtain a where a: "account = Inr a"
    using assms v by (cases account) (auto simp: VerifyLogin_def Let_def dest: LoginFail_refuses)
  have b: "\<not> acc_banned a" "\<not> (acc_online a \<and> live_connection srv (acc_id a))"
    using assms v g a by (auto simp: VerifyLogin_def Let_def dest: LoginFail_refuses split: if_splits)
  define d1 where "d1 = (if acc_online a then set_account_online srv (acc_id a) False d else d)"
  obtain refused where r: "check_password srv ccp a = Inr refused"
    using assms v g a b by (auto simp: VerifyLogin_def Let_def ebind_Inr_conv split: if_splits)
  have n: "refused = None"
    using assms v g a b r by (cases refused) (auto simp: VerifyLogin_def Let_def dest: LoginFail_refuses split: if_splits)
  have al: "\<not> alpha_blocked srv (acc_id a) (record_login srv (acc_id a) d1)"
    using assms v g a b r n d1_def by (auto simp: VerifyLogin_def Let_def dest: LoginFail_refuses split: if_splits)
  then obtain s where s: "setup_session srv ccp a (pSession cl) = Inr s"
    "cl' = cl\<lparr>cl_db := record_login srv (acc_id a) d1, pSession := s\<rparr>"
    "q = [(PyInt 2, True), (encode_handshake srv (server_shake srv (cl\<lparr>cl_db := record_login srv (acc_id a) d1\<rparr>)), True)]"
    using assms v g a b r n d1_def
    by (auto simp: VerifyLogin_def Let_def ebind_Inr_conv split: if_splits)
  have "credentials_match srv ccp a"
    using r n check_password_match by blast
  then have "admitted srv ccp a d"
    using v GetAccountInformation_account g a b al
    by (auto simp: admitted_def Let_def d1_def)
  with s g a show thesis
    using that by (auto simp: d1_def server_shake_def GetQueuePosition_def)
qed

lemma VerifyLogin_accepts:
  assumes "GetAccountInformation srv fuel ccp (cl_db cl) = Inr (Inr a, d)" "admitted srv ccp a d"
    and "setup_session srv ccp a (pSession cl) = Inr s"
  shows "\<exists>q cl'. VerifyLogin srv fuel ccp cl = Inr (True, q, cl') \<and> pSession cl' = s"
proof -
  have "check_password srv ccp a = Inr None"
    using assms(2) check_password_match by (auto simp: admitted_def)
  then show ?thesis
    using assms by (auto simp: admitted_def VerifyLogin_def Let_def)
qed

text \<open>The variables that a login sets, with their values.\<close>

definition login_variables :: "'db server \<Rightarrow> challenge \<Rightarrow> account_data \<Rightarrow> (bytes \<times> pyrep) list" where
  "login_variables srv ccp a =
     [(str ''address'', PyString (c_str (c_str (remote_address srv)))),
      (str ''languageID'', PyString (c_str (c_str (user_languageid ccp)))),
      (str ''userType'', PyInt Mammon), (str ''userid'', PyInt (acc_id a)), (str ''role'', PyLong (acc_role a)),
      (str ''clientID'', PyLong (1000000 * ucast (acc_clientID a) + 888444)), (str ''sessionID'', PyLong 0)]"

lemma setup_session_vars: "setup_session srv ccp a s = Session_Set_all (python srv) (login_variables srv ccp a) s"
  by (simp add: setup_session_def login_variables_def SetString_def SetInt_def SetLong_def Let_def
      Session_Set_all_fun del: str_Cons Session_Set_all.simps)

text \<open>Names that the hash keeps apart, none of them with the hash of an unhashable object.\<close>

definition names_apart :: "env \<Rightarrow> bytes list \<Rightarrow> bool" where
  "names_apart env names \<longleftrightarrow>
     list_all (usable env) names \<and> distinct (map (\<lambda>n. string_hash env (c_str n)) names)"

definition login_names :: "bytes list" where
  "login_names = map str [''address'', ''languageID'', ''userType'', ''userid'', ''role'', ''clientID'', ''sessionID'']"

lemma setup_session_ok:
  assumes "session_ok (python srv) s" "names_apart (python srv) login_names"
  shows "\<exists>s'. setup_session srv ccp a s = Inr s' \<and> session_ok (python srv) s'"
proof -
  have "list_all (\<lambda>(n, v). usable (python srv) n \<and> session_value (python srv) v) (login_variables srv ccp a)"
    using assms(2) by (simp add: names_apart_def login_names_def login_variables_def del: str_Cons)
  then show ?thesis
    using Session_Set_all_ok [OF assms(1)] unfolding setup_session_vars by blast
qed

lemma narrow_int: "(ucast (scast (i :: int32) :: int64) :: int32) = i"
proof (rule bit_word_eqI)
  fix n
  assume "n < LENGTH(32)"
  then show "bit (ucast (scast i :: int64) :: int32) n = bit i n"
    by (cases "n = 31") (auto simp: bit_simps min_def)
qed

lemma setup_session_userid:
  assumes "session_ok (python srv) s" "names_apart (python srv) login_names"
    and "setup_session srv ccp a s = Inr s'" "GetCurrent (python srv) s (str ''userid'') = Inr (PyInt j)"
    and "acc_id a \<noteq> - 1" "acc_id a \<noteq> - 2"
  shows "GetCurrentInt (python srv) s' (str ''userid'') = Inr (acc_id a)"
proof -
  let ?vs = "login_variables srv ccp a" and ?e = "python srv"
  have ok: "list_all (\<lambda>(n, v). usable ?e n \<and> session_value ?e v) ?vs"
    using assms(2) by (simp add: names_apart_def login_names_def login_variables_def del: str_Cons)
  have split: "?vs = take 3 ?vs @ (str ''userid'', PyInt (acc_id a)) # drop 4 ?vs"
    by (simp add: login_variables_def del: str_Cons)
  have other: "\<forall>(n, v) \<in> set (take 3 ?vs) \<union> set (drop 4 ?vs). string_hash ?e (c_str n) \<noteq> string_hash ?e (c_str (str ''userid''))"
    using assms(2) by (auto simp: names_apart_def login_names_def login_variables_def simp del: str_Cons)
  have "GetCurrent ?e s' (str ''userid'') = Inr (PyInt (acc_id a))"
    using Session_Set_all_int [OF assms(1) ok [unfolded split [symmetric]] split other assms(3) [unfolded setup_session_vars] assms(4-6)] .
  then show ?thesis
    by (simp add: GetCurrentInt_def IntegerValue_def narrow_int)
qed

section \<open>Runs of a client\<close>

text \<open>The steps of a session of the server, and what others do to the database meanwhile.\<close>

inductive client_step ::
    "env \<Rightarrow> zlib \<Rightarrow> 'db server \<Rightarrow> nat \<Rightarrow> session \<times> 'db client \<times> 'db client asked list
     \<Rightarrow> session \<times> 'db client \<times> 'db client asked list \<Rightarrow> bool"
  for env :: env and z :: zlib and srv :: "'db server" and fuel :: nat where
  own: "session_step env z (recorded (client_hooks srv fuel)) (s, cl, l) (s', cl', l') \<Longrightarrow>
    client_step env z srv fuel (s, cl, l) (s', cl', l')"
| database: "client_step env z srv fuel (s, cl, l) (s, cl\<lparr>cl_db := d\<rparr>, l)"

inductive_cases client_stepE: "client_step env z srv fuel (s, cl, l) (s', cl', l')"

lemma client_steps_record:
  assumes "(client_step env z srv fuel)\<^sup>*\<^sup>* (EVEClientSession_new n, cl0, []) (s, cl, l)"
  shows "good_record (client_hooks srv fuel) s l"
proof -
  have "good_record (client_hooks srv fuel) (fst x) (snd (snd x))"
    if "(client_step env z srv fuel)\<^sup>*\<^sup>* (EVEClientSession_new n, cl0, []) x" for x
    using that
  proof (induction rule: rtranclp_induct)
    case base
    then show ?case by (simp add: good_record_new)
  next
    case (step y x)
    then show ?case
      by (cases y; cases x) (auto elim!: client_stepE intro: good_record_step)
  qed
  from this [OF assms] show ?thesis by simp
qed

section \<open>Main results\<close>


text \<open>A registered client gets in: when the account is found and passes every check, the login is
  accepted, and the session of the client carries the account.\<close>

theorem registered_client_logs_in:
  assumes "GetAccountInformation srv fuel ccp (cl_db cl) = Inr (Inr a, d)" "admitted srv ccp a d"
    and "session_ok (python srv) (pSession cl)" "names_apart (python srv) login_names"
    and "GetCurrent (python srv) (pSession cl) (str ''userid'') = Inr (PyInt j)" "acc_id a \<noteq> - 1" "acc_id a \<noteq> - 2"
  shows "\<exists>q cl'. VerifyLogin srv fuel ccp cl = Inr (True, q, cl') \<and> Client_GetUserID srv cl' = Inr (acc_id a) \<and>
    session_ok (python srv) (pSession cl')"
proof -
  obtain s where s: "setup_session srv ccp a (pSession cl) = Inr s" "session_ok (python srv) s"
    using setup_session_ok [OF assms(3,4)] by blast
  obtain q cl' where "VerifyLogin srv fuel ccp cl = Inr (True, q, cl')" "pSession cl' = s"
    using VerifyLogin_accepts [OF assms(1,2) s(1)] by blast
  then show ?thesis
    using s setup_session_userid [OF assms(3,4) s(1) assms(5-7)] by (auto simp: Client_GetUserID_def)
qed

text \<open>The plain password is compared as a C string: an account that stores no plain password, as every
  account does that was made by a client that sends hashes, is entered with a password of one NUL
  character, whatever its hash.\<close>

theorem nul_password_logs_in:
  assumes "user_password ccp = [0]" "acc_password a = []" "account_in srv ccp d a"
    and "ValidateAccountName (user_name ccp) = None" "\<not> acc_banned a" "\<not> acc_online a" "\<not> subscription_Enabled srv"
    and "cl_db cl = d" "session_ok (python srv) (pSession cl)" "names_apart (python srv) login_names"
  shows "\<exists>q cl'. VerifyLogin srv (Suc fuel) ccp cl = Inr (True, q, cl')"
proof -
  have "GetAccountInformation srv (Suc fuel) ccp (cl_db cl) = Inr (Inr a, d)"
    using assms(3,8) by (auto simp: account_in_def)
  moreover have "admitted srv ccp a d"
    using assms by (simp add: admitted_def credentials_match_def alpha_blocked_def c_str_def)
  moreover obtain s where "setup_session srv ccp a (pSession cl) = Inr s"
    using setup_session_ok [OF assms(9,10)] by blast
  ultimately show ?thesis
    using VerifyLogin_accepts [of srv "Suc fuel" ccp cl a d s] by auto
qed

text \<open>A server with one account \<open>bob\<close>, created by a client that sends hashes.\<close>

definition bob_row :: account_row where
  "bob_row = \<lparr>col_accountID = 140000000, col_clientID = 5, col_password = Some [], col_hash = Some [1, 2, 3],
     col_role = 0, col_type = 0, col_online = 0, col_banned = 0, col_logonCount = 7, col_lastLogin = None\<rparr>"

definition bob_python :: env where
  "bob_python = \<lparr>str_hash = (\<lambda>s. word_of_nat (length s) + ucast (last s)), none_address = 16, nan_hash = 0,
     wide_real = (\<lambda>_. 0), utf16to8 = (\<lambda>_. None)\<rparr>"

definition bob_challenge :: "bytes \<Rightarrow> bytes \<Rightarrow> challenge" where
  "bob_challenge pass hash = \<lparr>user_name = str ''bob'', user_password = pass, user_password_hash = hash,
     user_languageid = str ''EN''\<rparr>"

definition bob_server :: "unit server" where
  "bob_server = \<lparr>python = bob_python, passwords = ascii_env, escape_string = (\<lambda>s. s),
     select_account = (\<lambda>n d. Some (if n = str ''bob'' then Some bob_row else None)),
     insert_account = (\<lambda>_ _ _ _ _ _. None), bump_client_seed = (\<lambda>d. d), select_ban_reason = (\<lambda>_ _. None),
     set_account_online = (\<lambda>_ _ d. d), insert_login_history = (\<lambda>_ _ d. d),
     select_premium_until = (\<lambda>_ _. None), count_other_online = (\<lambda>_ _ _. None), client_seed = 3,
     client_count = 2, live_connection = (\<lambda>_. False), autoAccountRole = 0, subscription_Enabled = False,
     image_url = [], file_time = 9, node_id = 1, remote_address = str ''10.0.0.1:26000'', live_updates = PyNone,
     encode_version = (\<lambda>n. PyInt n), encode_handshake = (\<lambda>_. PyNone), encode_ack = (\<lambda>_. PyNone),
     encode_remote_message = (\<lambda>_ _. PyNone), encode_initial_state = (\<lambda>_ _. PyNone),
     decode_challenge = (\<lambda>_. Some (bob_challenge [] [1, 2, 3])), decode_crypto = (\<lambda>_. Some (str ''placebo'', PyNone)), decode_api_params = (\<lambda>_. False),
     decode_others = (\<lambda>_ _. True)\<rparr>"

definition bob_client :: "unit client" where
  "bob_client = \<lparr>cl_db = (), pSession = \<lparr>mSession = [(PyString (str ''userid''), fresh_entry (PyInt 0))],
     mDirty = False, m_sessionID = 3\<rparr>, m_nextNotifySequence = 0\<rparr>"

lemma bob_names: "names_apart (python bob_server) login_names"
  by (simp add: names_apart_def login_names_def bob_server_def bob_python_def usable_def string_hash_def c_str_def)

lemma bob_session: "session_ok (python bob_server) (pSession bob_client)"
  "GetCurrent (python bob_server) (pSession bob_client) (str ''userid'') = Inr (PyInt 0)"
  by (auto simp: session_ok_def dict_ok_def entry_ok_def bob_client_def fresh_entry_def bob_server_def bob_python_def
      string_hash_def is_new_def GetCurrent_def GetValueTuple_def Dict_GetItemString_def Dict_GetItem_def AsTuple_def
      vec_at_def c_str_def)

lemma bob_name: "ValidateAccountName (str ''bob'') = None"
  by (simp add: ValidateAccountName_def badChars_def icontains_def tolower_c_def)

lemma bob_account: "account_in bob_server (bob_challenge pass hash) () (account_of_row (str ''bob'') bob_row)"
  by (simp add: account_in_def bob_server_def bob_challenge_def c_str_def)

lemma bob_admitted:
  "admitted bob_server (bob_challenge [] [1, 2, 3]) (account_of_row (str ''bob'') bob_row) ()"
  using bob_account bob_name
  by (simp add: admitted_def bob_server_def bob_challenge_def account_of_row_def bob_row_def credentials_match_def
      alpha_blocked_def del: str_Cons)

lemma bob_found:
  "GetAccountInformation bob_server 1 (bob_challenge pass hash) () = Inr (Inr (account_of_row (str ''bob'') bob_row), ())"
  by (simp add: bob_server_def bob_challenge_def c_str_def)

theorem registered_client_logs_in_witness:
  "\<exists>q cl'. VerifyLogin bob_server 1 (bob_challenge [] [1, 2, 3]) bob_client = Inr (True, q, cl') \<and>
    Client_GetUserID bob_server cl' = Inr 140000000 \<and> session_ok (python bob_server) (pSession cl')"
  using registered_client_logs_in [of bob_server 1 "bob_challenge [] [1, 2, 3]" bob_client
      "account_of_row (str ''bob'') bob_row" "()" 0] bob_found bob_admitted bob_session bob_names
  by (simp add: bob_client_def account_of_row_def bob_row_def)

theorem nul_password_logs_in_witness:
  "\<exists>q cl'. VerifyLogin bob_server (Suc 0) (bob_challenge [0] []) bob_client = Inr (True, q, cl')"
proof (rule nul_password_logs_in [of _ "account_of_row (str ''bob'') bob_row"])
  show "session_ok (python bob_server) (pSession bob_client)" and "names_apart (python bob_server) login_names"
    by (rule bob_session bob_names)+
  show "account_in bob_server (bob_challenge [0] []) () (account_of_row (str ''bob'') bob_row)"
    by (rule bob_account)
  show "ValidateAccountName (user_name (bob_challenge [0] [])) = None"
    using bob_name by (simp add: bob_challenge_def)
qed (simp_all add: bob_challenge_def account_of_row_def bob_row_def bob_server_def bob_client_def c_str_def)


end
