(* ===== verification/Calls.thy ===== *)
theory Calls
  imports Login
begin

text \<open>
  Calls of service methods, \<open>eve-server/services/Callable.h\<close> and \<open>Callable.cpp\<close>: the
  arguments of a call, the signatures under which C++ methods are registered, the validation and
  conversion of the arguments of a call against a signature, the choice among the handlers of one
  name, and the exceptions that a call ends with. What a method does with the state of the server
  is a parameter here.
\<close>

section \<open>Calls with exceptions\<close>

text \<open>
  A C++ exception leaves the state as it was when it was thrown, unlike the faults, which end
  the server. \<open>Py_exception\<close> stands for the exceptions that are sent to the client.
\<close>

datatype thrown =
    Invalid_argument
  | Method_not_found
  | Service_not_found bytes
  | Py_exception pyrep

type_synonym ('s, 'a) comp = "'s \<Rightarrow> ((thrown + 'a) \<times> 's) result"

definition cret :: "'a \<Rightarrow> ('s, 'a) comp" where
  "cret x s = Inr (Inr x, s)"

definition cthrow :: "thrown \<Rightarrow> ('s, 'a) comp" where
  "cthrow e s = Inr (Inl e, s)"

definition cbind :: "('s, 'a) comp \<Rightarrow> ('a \<Rightarrow> ('s, 'b) comp) \<Rightarrow> ('s, 'b) comp" where
  "cbind m f s = ebind (m s) (\<lambda>(r, s). case r of Inl e \<Rightarrow> Inr (Inl e, s) | Inr x \<Rightarrow> f x s)"

definition ccatch :: "('s, 'a) comp \<Rightarrow> (thrown \<Rightarrow> ('s, 'a) comp) \<Rightarrow> ('s, 'a) comp" where
  "ccatch m h s = ebind (m s) (\<lambda>(r, s). case r of Inl e \<Rightarrow> h e s | Inr x \<Rightarrow> Inr (Inr x, s))"

definition clift :: "'a result \<Rightarrow> ('s, 'a) comp" where
  "clift r s = ebind r (\<lambda>x. Inr (Inr x, s))"

definition cget :: "('s, 's) comp" where
  "cget s = Inr (Inr s, s)"

definition cput :: "'s \<Rightarrow> ('s, unit) comp" where
  "cput s' s = Inr (Inr (), s')"

lemma comp_simps [simp]:
  "cret x s = Inr (Inr x, s)"
  "cthrow e s = Inr (Inl e, s)"
  "clift (Inr x) s = Inr (Inr x, s)"
  "clift (Inl f) s = Inl f"
  "cget s = Inr (Inr s, s)"
  "cput s' s = Inr (Inr (), s')"
  by (simp_all add: cret_def cthrow_def clift_def cget_def cput_def)

lemma cbind_simps [simp]:
  "m s = Inl f \<Longrightarrow> cbind m k s = Inl f"
  "m s = Inr (Inl e, s') \<Longrightarrow> cbind m k s = Inr (Inl e, s')"
  "m s = Inr (Inr x, s') \<Longrightarrow> cbind m k s = k x s'"
  by (simp_all add: cbind_def)

lemma ccatch_simps [simp]:
  "m s = Inl f \<Longrightarrow> ccatch m h s = Inl f"
  "m s = Inr (Inl e, s') \<Longrightarrow> ccatch m h s = h e s'"
  "m s = Inr (Inr x, s') \<Longrightarrow> ccatch m h s = Inr (Inr x, s')"
  by (simp_all add: ccatch_def)

lemma cbind_Inr_conv:
  "cbind m f s = Inr (r, t) \<longleftrightarrow>
     (\<exists>e. r = Inl e \<and> m s = Inr (Inl e, t)) \<or> (\<exists>x s'. m s = Inr (Inr x, s') \<and> f x s' = Inr (r, t))"
  by (cases "m s") (auto simp: cbind_def split: sum.splits prod.splits)

lemma ccatch_Inr_conv:
  "ccatch m h s = Inr (r, t) \<longleftrightarrow>
     (\<exists>x. r = Inr x \<and> m s = Inr (Inr x, t)) \<or> (\<exists>e s'. m s = Inr (Inl e, s') \<and> h e s' = Inr (r, t))"
  by (cases "m s") (auto simp: ccatch_def split: sum.splits prod.splits)

lemma clift_Inr_conv: "clift m s = Inr (r, t) \<longleftrightarrow> (\<exists>x. m = Inr x \<and> r = Inr x \<and> t = s)"
  by (cases m) auto

lemmas comp_convs = cbind_Inr_conv ccatch_Inr_conv clift_Inr_conv

section \<open>Exceptions that are sent to the client\<close>

text \<open>\<open>UserError\<close> with its keywords, and the \<open>CustomError\<close> that shows a message.\<close>

definition UserError :: "env \<Rightarrow> bytes \<Rightarrow> entries \<Rightarrow> pyrep result" where
  "UserError env exceptionType keywords =
     ebind (set_strings env [(''msg'', PyString (c_str exceptionType)), (''dict'', PyDict keywords)]) (\<lambda>kw.
     Inr (PyObjectEx False
       (PyTuple [PyToken (str ''ccp_exceptions.UserError''),
                 PyTuple [PyString (c_str exceptionType), PyDict keywords], PyDict kw]) [] []))"

definition CustomError :: "env \<Rightarrow> bytes \<Rightarrow> pyrep result" where
  "CustomError env message =
     ebind (set_strings env [(''error'', PyString (c_str message))]) (\<lambda>kw.
     UserError env (str ''CustomError'') kw)"

definition throw_CustomError :: "env \<Rightarrow> bytes \<Rightarrow> ('s, 'a) comp" where
  "throw_CustomError env message = cbind (clift (CustomError env message)) (\<lambda>r. cthrow (Py_exception r))"

section \<open>Arguments and results of a call\<close>

text \<open>Clients are named by numbers, which stand for the pointers of the code.\<close>

type_synonym client_ref = nat

record call_args =
  ca_client :: client_ref
  ca_tuple :: "pyrep list"
  ca_byname :: "bytes \<Rightarrow> pyrep option"

text \<open>
  The constructor walks over the dictionary of named arguments, which a null pointer does not
  have, and takes a reference to each value; keys that are no strings are skipped.
\<close>

fun named_args :: "entries \<Rightarrow> (bytes \<Rightarrow> pyrep option) \<Rightarrow> (bytes \<Rightarrow> pyrep option) result" where
  "named_args [] m = Inr m"
| "named_args ((k, v) # es) m =
     (case k of
        PyNull \<Rightarrow> Inl Null_deref
      | PyString s \<Rightarrow> if v = PyNull then Inl Null_deref else named_args es (m(s \<mapsto> v))
      | _ \<Rightarrow> named_args es m)"

definition PyCallArgs :: "client_ref \<Rightarrow> pyrep \<Rightarrow> pyrep \<Rightarrow> call_args result" where
  "PyCallArgs c tup dict =
     (case dict of
        PyDict es \<Rightarrow> ebind (named_args es Map.empty) (\<lambda>m.
          Inr \<lparr>ca_client = c, ca_tuple = items_of tup, ca_byname = m\<rparr>)
      | _ \<Rightarrow> Inl Null_deref)"

record py_result =
  ssResult :: pyrep
  ssNamedResult :: pyrep

definition PyResult_empty :: py_result where
  "PyResult_empty = \<lparr>ssResult = PyNull, ssNamedResult = PyNull\<rparr>"

definition PyResult :: "pyrep \<Rightarrow> pyrep \<Rightarrow> py_result" where
  "PyResult result namedResult =
     \<lparr>ssResult = (if result \<noteq> PyNull then result else PyNone), ssNamedResult = namedResult\<rparr>"

text \<open>The copy constructor and the assignment, which turn a null result into a \<open>None\<close>.\<close>

definition PyResult_copy :: "py_result \<Rightarrow> py_result" where
  "PyResult_copy oth =
     \<lparr>ssResult = (if ssResult oth \<noteq> PyNull then ssResult oth else PyNone), ssNamedResult = ssNamedResult oth\<rparr>"

section \<open>Signatures\<close>

datatype param =
    P_Rep | P_Bool | P_Int | P_Long | P_Float | P_Buffer | P_String | P_WString | P_Token
  | P_Tuple | P_List | P_Dict | P_None | P_SubStruct | P_SubStream | P_ChecksumedStream
  | P_Object | P_ObjectEx | P_PackedRow
  | P_Optional param

text \<open>The type tag of an object, as the parameter that asks for it.\<close>

primrec class_of :: "pyrep \<Rightarrow> param" where
  "class_of PyNull = P_Rep"
| "class_of (PyInt i) = P_Int"
| "class_of (PyLong i) = P_Long"
| "class_of (PyFloat d) = P_Float"
| "class_of (PyBool b) = P_Bool"
| "class_of PyNone = P_None"
| "class_of (PyBuffer bs) = P_Buffer"
| "class_of (PyString s) = P_String"
| "class_of (PyWString s) = P_WString"
| "class_of (PyToken s) = P_Token"
| "class_of (PyTuple xs) = P_Tuple"
| "class_of (PyList xs) = P_List"
| "class_of (PyDict es) = P_Dict"
| "class_of (PyObject ty a) = P_Object"
| "class_of (PyObjectEx b h l d) = P_ObjectEx"
| "class_of (PyPackedRow h fs) = P_PackedRow"
| "class_of (PySubStruct r) = P_SubStruct"
| "class_of (PySubStream d r) = P_SubStream"
| "class_of (PyChecksumedStream r c) = P_ChecksumedStream"

definition of_class :: "param \<Rightarrow> pyrep \<Rightarrow> bool" where
  "of_class t r \<longleftrightarrow> class_of r = t"

text \<open>
  Whether an argument fits a parameter. The test of a class reads the type tag of the object.
\<close>

fun validateArg :: "param \<Rightarrow> nat \<Rightarrow> pyrep list \<Rightarrow> bool result" where
  "validateArg (P_Optional t) index tup =
     (if length tup \<le> index then Inr True else
      ebind (test IsNone (tup ! index)) (\<lambda>none. if none then Inr True else validateArg t index tup))"
| "validateArg P_Rep index tup = Inr (index < length tup)"
| "validateArg t index tup = (if length tup \<le> index then Inr False else test (of_class t) (tup ! index))"

text \<open>Every parameter is looked at, also when an earlier one does not fit.\<close>

definition validateArgs :: "param list \<Rightarrow> pyrep list \<Rightarrow> bool result" where
  "validateArgs ps tup =
     (if length ps < length tup then Inr False else
      ebind (emap (\<lambda>(i, p). validateArg p i tup) (enumerate 0 ps)) (\<lambda>bs. Inr (list_all id bs)))"

text \<open>
  The value handed to a method: nothing for an optional parameter that is left out. A position
  past the end of the tuple throws a \<open>runtime_error\<close>, which nothing catches, and a cast
  asserts the class.
\<close>

definition As_class :: "param \<Rightarrow> pyrep \<Rightarrow> pyrep option result" where
  "As_class t r = (if r = PyNull then Inl Null_deref else if of_class t r then Inr (Some r) else Inl Assert_fail)"

fun getAs :: "param \<Rightarrow> nat \<Rightarrow> pyrep list \<Rightarrow> pyrep option result" where
  "getAs (P_Optional t) index tup =
     (if length tup \<le> index then Inr None else
      ebind (test IsNone (tup ! index)) (\<lambda>none. if none then Inr None else getAs t index tup))"
| "getAs P_Rep index tup = (if length tup \<le> index then Inl Lib_throw else Inr (Some (tup ! index)))"
| "getAs t index tup = (if length tup \<le> index then Inl Lib_throw else As_class t (tup ! index))"

section \<open>Handlers\<close>

text \<open>A registered handler: its name, the parameters of the method, and which method it is.\<close>

record 'h handler =
  h_name :: bytes
  h_params :: "param list"
  h_method :: 'h

text \<open>
  What a method does, given who it belongs to, the call and the converted arguments; its
  methods and the objects they belong to are named by the caller of these functions.
\<close>

type_synonym ('h, 's) methods = "'h \<Rightarrow> call_args \<Rightarrow> pyrep option list \<Rightarrow> ('s, py_result) comp"

definition CallHandler :: "('h, 's) methods \<Rightarrow> 'h handler \<Rightarrow> call_args \<Rightarrow> ('s, py_result) comp" where
  "CallHandler run h call =
     (if h_params h = [] then
        (if ca_tuple call \<noteq> [] then cthrow Invalid_argument else run (h_method h) call [])
      else
        cbind (clift (validateArgs (h_params h) (ca_tuple call))) (\<lambda>ok.
          if \<not> ok then cthrow Invalid_argument else
          cbind (clift (emap (\<lambda>(i, p). getAs p i (ca_tuple call)) (enumerate 0 (h_params h))))
            (run (h_method h) call)))"

text \<open>
  The loop of both dispatchers: handlers of another name are passed over, and an
  \<open>invalid_argument\<close> moves on to the next handler.
\<close>

fun dispatch_loop :: "('h, 's) methods \<Rightarrow> bytes \<Rightarrow> 'h handler list \<Rightarrow> call_args \<Rightarrow> ('s, py_result) comp" where
  "dispatch_loop run name [] call = cthrow Method_not_found"
| "dispatch_loop run name (h # hs) call =
     (if h_name h \<noteq> name then dispatch_loop run name hs call
      else ccatch (CallHandler run h call) (\<lambda>e.
             if e = Invalid_argument then dispatch_loop run name hs call else cthrow e))"

section \<open>The signatures in the log\<close>

primrec translateParameter :: "param \<Rightarrow> bytes" where
  "translateParameter (P_Optional t) = str ''std::optional<'' @ translateParameter t @ str ''>''"
| "translateParameter P_Rep = str ''PyRep*''"
| "translateParameter P_Bool = str ''PyBool*''"
| "translateParameter P_Int = str ''PyInt*''"
| "translateParameter P_Long = str ''PyLong*''"
| "translateParameter P_Float = str ''PyFloat*''"
| "translateParameter P_Buffer = str ''PyBuffer*''"
| "translateParameter P_String = str ''PyString*''"
| "translateParameter P_WString = str ''PyWString*''"
| "translateParameter P_Token = str ''PyToken*''"
| "translateParameter P_Tuple = str ''PyTuple*''"
| "translateParameter P_List = str ''PyList*''"
| "translateParameter P_Dict = str ''PyDict*''"
| "translateParameter P_None = str ''PyNone*''"
| "translateParameter P_SubStruct = str ''PySubStruct*''"
| "translateParameter P_SubStream = str ''PySubStream*''"
| "translateParameter P_ChecksumedStream = str ''PyChecksumedStream*''"
| "translateParameter P_Object = str ''PyObject*''"
| "translateParameter P_ObjectEx = str ''PyObjectEx*''"
| "translateParameter P_PackedRow = str ''PyPackedRow*''"

fun joined :: "bytes list \<Rightarrow> bytes" where
  "joined [] = []"
| "joined [s] = s"
| "joined (s # ss) = s @ str '','' @ joined ss"

definition generateSignature :: "param list \<Rightarrow> bytes" where
  "generateSignature ps = joined (map translateParameter ps)"

definition pyRepToString :: "pyrep \<Rightarrow> bytes result" where
  "pyRepToString v = (if v = PyNull then Inl Null_deref else Inr (translateParameter (class_of v)))"

definition newline :: bytes where "newline = [10]"

definition tab :: bytes where "tab = [9]"

text \<open>What the debug log of a test server prints: the candidates of a name, and the arguments.\<close>

definition handler_candidates :: "bytes \<Rightarrow> bytes \<Rightarrow> 'h handler list \<Rightarrow> bytes" where
  "handler_candidates title name hs =
     title @ str '' candidates: '' @ newline @
     concat (map (\<lambda>h. tab @ str ''('' @ generateSignature (h_params h) @ str '')'' @ newline)
                 (filter (\<lambda>h. h_name h = name) hs))"

definition mismatch_message :: "bytes \<Rightarrow> pyrep list \<Rightarrow> bytes result" where
  "mismatch_message found tup =
     ebind (emap pyRepToString tup) (\<lambda>ts.
       Inr (found @ newline @ newline @ str ''Does not match parameters: '' @ newline @ tab @ str ''('' @
            joined ts @ str '')''))"

section \<open>Arguments that were validated\<close>

text \<open>What a value handed to a method promises, and when an argument fits.\<close>

fun well_typed :: "param \<Rightarrow> pyrep option \<Rightarrow> bool" where
  "well_typed (P_Optional t) v \<longleftrightarrow> v = None \<or> well_typed t v"
| "well_typed P_Rep v \<longleftrightarrow> v \<noteq> None"
| "well_typed t v \<longleftrightarrow> (\<exists>r. v = Some r \<and> class_of r = t)"

fun fits :: "param \<Rightarrow> nat \<Rightarrow> pyrep list \<Rightarrow> bool" where
  "fits (P_Optional t) index tup \<longleftrightarrow> length tup \<le> index \<or> tup ! index = PyNone \<or> fits t index tup"
| "fits P_Rep index tup \<longleftrightarrow> index < length tup"
| "fits t index tup \<longleftrightarrow> index < length tup \<and> class_of (tup ! index) = t"

definition accepts_args :: "param list \<Rightarrow> pyrep list \<Rightarrow> bool" where
  "accepts_args ps tup \<longleftrightarrow>
     (if ps = [] then tup = [] else
      length tup \<le> length ps \<and> (\<forall>i < length ps. fits (ps ! i) i tup))"

lemma IsNone_iff: "IsNone r \<longleftrightarrow> r = PyNone"
  by (cases r) (simp_all add: IsNone_def)

lemma test_None_conv: "test IsNone r = Inr b \<longleftrightarrow> r \<noteq> PyNull \<and> b = (r = PyNone)"
  by (auto simp: test_def IsNone_iff)

lemma validateArg_getAs:
  "validateArg t i tup = Inr True \<Longrightarrow> \<exists>v. getAs t i tup = Inr v \<and> well_typed t v"
  by (induction t i tup rule: validateArg.induct)
    (auto simp: As_class_def of_class_def test_def ebind_Inr_conv IsNone_iff split: if_splits)

lemma fits_validateArg:
  "PyNull \<notin> set tup \<Longrightarrow> validateArg t i tup = Inr (fits t i tup)"
  by (induction t i tup rule: validateArg.induct)
    (auto simp: test_def of_class_def IsNone_iff not_le dest: nth_mem)

lemma validateArgs_getAs:
  assumes "validateArgs ps tup = Inr True"
  shows "\<exists>vs. emap (\<lambda>(i, p). getAs p i tup) (enumerate 0 ps) = Inr vs \<and> list_all2 well_typed ps vs"
proof -
  obtain bs where bs: "emap (\<lambda>(i, p). validateArg p i tup) (enumerate 0 ps) = Inr bs" "list_all id bs"
    using assms by (auto simp: validateArgs_def ebind_Inr_conv split: if_splits)
  have v: "validateArg (ps ! i) i tup = Inr True" if "i < length ps" for i
  proof -
    have "list_all2 (\<lambda>x b. (case x of (i, p) \<Rightarrow> validateArg p i tup) = Inr b) (enumerate 0 ps) bs"
      using bs(1) by (simp add: emap_Inr_list_all2)
    then have "validateArg (ps ! i) i tup = Inr (bs ! i)" "i < length bs"
      using that by (auto simp: list_all2_conv_all_nth nth_enumerate_eq)
    then show ?thesis
      using bs(2) by (simp add: list_all_length)
  qed
  define vs where "vs = map (\<lambda>i. SOME v. getAs (ps ! i) i tup = Inr v \<and> well_typed (ps ! i) v) [0..<length ps]"
  have "getAs (ps ! i) i tup = Inr (vs ! i) \<and> well_typed (ps ! i) (vs ! i)" if "i < length ps" for i
    using someI_ex [OF validateArg_getAs [OF v [OF that]]] that by (simp add: vs_def)
  then have "emap (\<lambda>(i, p). getAs p i tup) (enumerate 0 ps) = Inr vs" "list_all2 well_typed ps vs"
    by (auto simp: emap_Inr_list_all2 list_all2_conv_all_nth nth_enumerate_eq vs_def)
  then show ?thesis by blast
qed

lemma accepts_validateArgs:
  assumes "PyNull \<notin> set tup" "ps \<noteq> []"
  shows "validateArgs ps tup = Inr (accepts_args ps tup)"
proof (cases "length ps < length tup")
  case True
  then show ?thesis
    using assms by (auto simp: validateArgs_def accepts_args_def)
next
  case False
  have "emap (\<lambda>(i, p). validateArg p i tup) (enumerate 0 ps) =
      Inr (map (\<lambda>(i, p). fits p i tup) (enumerate 0 ps))"
    using assms(1) by (auto simp: emap_Inr_list_all2 list_all2_conv_all_nth nth_enumerate_eq fits_validateArg)
  moreover have "list_all id (map (\<lambda>(i, p). fits p i tup) (enumerate 0 ps)) \<longleftrightarrow>
      (\<forall>i < length ps. fits (ps ! i) i tup)"
    by (auto simp: list_all_length nth_enumerate_eq)
  ultimately show ?thesis
    using False assms(2) by (simp add: validateArgs_def accepts_args_def)
qed

section \<open>The choice of a handler\<close>

text \<open>The handlers that a call fits, in the order of their registration.\<close>

definition fitting :: "bytes \<Rightarrow> 'h handler list \<Rightarrow> pyrep list \<Rightarrow> 'h handler list" where
  "fitting name hs tup = filter (\<lambda>h. h_name h = name \<and> accepts_args (h_params h) tup) hs"

definition converted :: "'h handler \<Rightarrow> pyrep list \<Rightarrow> pyrep option list result" where
  "converted h tup = emap (\<lambda>(i, p). getAs p i tup) (enumerate 0 (h_params h))"

lemma CallHandler_accepts:
  assumes "PyNull \<notin> set (ca_tuple call)" "accepts_args (h_params h) (ca_tuple call)"
  shows "\<exists>vs. converted h (ca_tuple call) = Inr vs \<and> list_all2 well_typed (h_params h) vs \<and>
    CallHandler run h call = run (h_method h) call vs"
proof (cases "h_params h = []")
  case True
  then show ?thesis
    using assms by (auto simp: CallHandler_def accepts_args_def converted_def)
next
  case False
  then have v: "validateArgs (h_params h) (ca_tuple call) = Inr True"
    using assms accepts_validateArgs by auto
  then obtain vs where "converted h (ca_tuple call) = Inr vs" "list_all2 well_typed (h_params h) vs"
    using validateArgs_getAs by (auto simp: converted_def)
  then show ?thesis
    using False v by (auto simp: CallHandler_def converted_def)
qed

lemma CallHandler_rejects:
  assumes "PyNull \<notin> set (ca_tuple call)" "\<not> accepts_args (h_params h) (ca_tuple call)"
  shows "CallHandler run h call = cthrow Invalid_argument"
  using assms accepts_validateArgs [of "ca_tuple call" "h_params h"]
  by (auto simp: CallHandler_def accepts_args_def fun_eq_iff)

text \<open>
  The first handler that fits is called. An \<open>invalid_argument\<close> of the method itself is caught
  like one of the validation, after whatever the method did.
\<close>

lemma dispatch_fitting:
  assumes "PyNull \<notin> set (ca_tuple call)"
  shows "case fitting name hs (ca_tuple call) of
      [] \<Rightarrow> dispatch_loop run name hs call s = Inr (Inl Method_not_found, s)
    | h # _ \<Rightarrow> \<exists>hs' vs. converted h (ca_tuple call) = Inr vs \<and> list_all2 well_typed (h_params h) vs \<and>
        fitting name hs (ca_tuple call) = h # fitting name hs' (ca_tuple call) \<and>
        dispatch_loop run name hs call s =
          ccatch (run (h_method h) call vs)
            (\<lambda>e. if e = Invalid_argument then dispatch_loop run name hs' call else cthrow e) s"
proof (induction hs)
  case Nil
  then show ?case by (simp add: fitting_def)
next
  case (Cons h hs)
  show ?case
  proof (cases "h_name h = name \<and> accepts_args (h_params h) (ca_tuple call)")
    case True
    then obtain vs where "converted h (ca_tuple call) = Inr vs" "list_all2 well_typed (h_params h) vs"
        "CallHandler run h call = run (h_method h) call vs"
      using CallHandler_accepts [OF assms] by metis
    moreover from True have "fitting name (h # hs) (ca_tuple call) = h # fitting name hs (ca_tuple call)"
      by (simp add: fitting_def)
    ultimately show ?thesis
      using True by (fastforce simp del: fun_upd_apply)
  next
    case False
    then have skip: "fitting name (h # hs) (ca_tuple call) = fitting name hs (ca_tuple call)"
        "dispatch_loop run name (h # hs) call s = dispatch_loop run name hs call s"
      using CallHandler_rejects [OF assms, of h run] by (auto simp: fitting_def ccatch_def)
    show ?thesis
      unfolding skip by (rule Cons.IH)
  qed
qed

lemma dispatch_only_fitting:
  assumes "PyNull \<notin> set (ca_tuple call)"
  shows "dispatch_loop run name hs call = dispatch_loop run name (fitting name hs (ca_tuple call)) call"
proof (induction hs)
  case (Cons h hs)
  show ?case
  proof (cases "h_name h = name \<and> accepts_args (h_params h) (ca_tuple call)")
    case True
    then show ?thesis
      using Cons.IH by (simp add: fitting_def cong: if_cong)
  next
    case False
    then have "dispatch_loop run name (h # hs) call = dispatch_loop run name hs call"
      using CallHandler_rejects [OF assms, of h run] by (auto simp: ccatch_def fun_eq_iff)
    then show ?thesis
      using Cons.IH False by (auto simp: fitting_def simp del: dispatch_loop.simps)
  qed
qed (simp add: fitting_def)

text \<open>What the log prints tells apart the calls that fit from those that do not.\<close>

definition plain :: "param \<Rightarrow> bool" where
  "plain t \<longleftrightarrow> (\<forall>t'. t \<noteq> P_Optional t') \<and> t \<noteq> P_Rep"

lemma fits_plain: "plain t \<Longrightarrow> fits t i tup \<longleftrightarrow> i < length tup \<and> class_of (tup ! i) = t"
  by (cases t) (simp_all add: plain_def)

lemma accepts_plain:
  assumes "\<forall>t \<in> set ps. plain t"
  shows "accepts_args ps tup \<longleftrightarrow> map class_of tup = ps"
proof -
  have "(\<forall>i < length ps. fits (ps ! i) i tup) \<longleftrightarrow> (\<forall>i < length ps. i < length tup \<and> class_of (tup ! i) = ps ! i)"
    using assms by (simp add: fits_plain)
  moreover have "length ps \<le> length tup" if "ps \<noteq> []" "\<forall>i < length ps. i < length tup \<and> class_of (tup ! i) = ps ! i"
    using that by (metis Suc_le_eq diff_less length_greater_0_conv less_one Suc_diff_1)
  ultimately have "accepts_args ps tup \<longleftrightarrow> length tup = length ps \<and> (\<forall>i < length ps. class_of (tup ! i) = ps ! i)"
    unfolding accepts_args_def by auto
  also have "\<dots> \<longleftrightarrow> map class_of tup = ps"
    by (auto simp: list_eq_iff_nth_eq)
  finally show ?thesis .
qed

section \<open>Main results\<close>

text \<open>C2. Overload resolution, for a call none of whose arguments is a null pointer: of the registered
  handlers of the name that fit the arguments (an optional parameter also fits nothing and
  \<open>None\<close>), the first is called, with its arguments converted to the classes that it asked for, and
  the call ends as the method does, with one exception: an \<open>invalid_argument\<close> that the method
  itself lets out is taken for a mismatch, what the method did stays done, and the call goes on
  with the next handler that fits. When none fits, no method is called and the call ends with
  \<open>method_not_found\<close>.\<close>

theorem overload_resolution:
  assumes "PyNull \<notin> set (ca_tuple call)"
  shows "case fitting name hs (ca_tuple call) of
      [] \<Rightarrow> dispatch_loop run name hs call s = Inr (Inl Method_not_found, s)
    | h # hs' \<Rightarrow> \<exists>vs. converted h (ca_tuple call) = Inr vs \<and> list_all2 well_typed (h_params h) vs \<and>
        dispatch_loop run name hs call s =
          (case run (h_method h) call vs s of
             Inr (Inl Invalid_argument, t) \<Rightarrow> dispatch_loop run name hs' call t
           | r \<Rightarrow> r)"
proof (cases "fitting name hs (ca_tuple call)")
  case Nil
  then show ?thesis
    using dispatch_fitting [OF assms, where name = name and hs = hs and run = run and s = s] by simp
next
  case (Cons h hs1)
  then obtain hs' vs where v: "converted h (ca_tuple call) = Inr vs" "list_all2 well_typed (h_params h) vs"
      "hs1 = fitting name hs' (ca_tuple call)"
      "dispatch_loop run name hs call s = ccatch (run (h_method h) call vs)
         (\<lambda>e. if e = Invalid_argument then dispatch_loop run name hs' call else cthrow e) s"
    using dispatch_fitting [OF assms, where name = name and hs = hs and run = run and s = s] by auto
  then have "dispatch_loop run name hs1 call = dispatch_loop run name hs' call"
    using dispatch_only_fitting [OF assms, of run name hs'] by simp
  then show ?thesis
    using Cons v by (auto simp: ccatch_def cthrow_def split: sum.splits prod.splits thrown.splits)
qed

text \<open>The two overloads of \<open>Activate\<close> in \<open>dogmaim/DogmaIMService.cpp\<close>.\<close>

definition activate_handlers :: "nat handler list" where
  "activate_handlers =
     [\<lparr>h_name = str ''Activate'', h_params = [P_Int, P_Int], h_method = 1\<rparr>,
      \<lparr>h_name = str ''Activate'', h_params = [P_Int, P_WString, P_Optional P_Int, P_Int], h_method = 2\<rparr>]"

definition remember_method :: "(nat, nat) methods" where
  "remember_method m call vs s = Inr (Inr PyResult_empty, m)"

theorem overload_resolution_witness:
  "dispatch_loop remember_method (str ''Activate'') activate_handlers
     \<lparr>ca_client = 1, ca_tuple = [PyInt 1, PyWString [], PyNone, PyInt 7], ca_byname = Map.empty\<rparr> 0 = Inr (Inr PyResult_empty, 2) \<and>
   dispatch_loop remember_method (str ''Activate'') activate_handlers
     \<lparr>ca_client = 1, ca_tuple = [PyInt 1], ca_byname = Map.empty\<rparr> 0 = Inr (Inl Method_not_found, 0)"
proof
  let ?c = "\<lparr>ca_client = 1, ca_tuple = [PyInt 1, PyWString [], PyNone, PyInt 7], ca_byname = Map.empty\<rparr>"
  let ?d = "\<lparr>ca_client = 1, ca_tuple = [PyInt 1], ca_byname = Map.empty\<rparr>"
  have c: "fitting (str ''Activate'') activate_handlers (ca_tuple ?c) = [activate_handlers ! 1]"
    by (simp add: fitting_def activate_handlers_def accepts_args_def All_less_Suc numeral_eq_Suc)
  have d: "fitting (str ''Activate'') activate_handlers (ca_tuple ?d) = []"
    by (simp add: fitting_def activate_handlers_def accepts_args_def All_less_Suc numeral_eq_Suc)
  show "dispatch_loop remember_method (str ''Activate'') activate_handlers ?c 0 = Inr (Inr PyResult_empty, 2)"
    using overload_resolution [where call = ?c and name = "str ''Activate''" and hs = activate_handlers
      and run = remember_method and s = 0] c
    by (auto simp del: str_Cons dispatch_loop.simps simp: remember_method_def activate_handlers_def)
  show "dispatch_loop remember_method (str ''Activate'') activate_handlers ?d 0 = Inr (Inl Method_not_found, 0)"
    using overload_resolution [where call = ?d and name = "str ''Activate''" and hs = activate_handlers
      and run = remember_method and s = 0] d
    by (simp del: str_Cons dispatch_loop.simps)
qed

text \<open>A method that was called and did its work is reported as not found when it lets an
  \<open>invalid_argument\<close> out, as \<open>stoi\<close> does in the commands of a game master for the argument \<open>.\<close>,
  which \<open>isNumber\<close> takes for a number (\<open>admin/GMCommands.cpp\<close>).\<close>

theorem method_exception_is_a_mismatch:
  assumes "PyNull \<notin> set (ca_tuple call)" "accepts_args (h_params h) (ca_tuple call)" "h_name h = name"
    and "\<And>vs. run (h_method h) call vs s = Inr (Inl Invalid_argument, t)"
  shows "dispatch_loop run name [h] call s = Inr (Inl Method_not_found, t)"
  using CallHandler_accepts [OF assms(1,2), of run] assms(3,4) by (auto simp: ccatch_def cthrow_def)

end
