(* ===== verification/Binding.thy ===== *)
theory Binding
  imports Calls
begin

text \<open>
  Bound objects, \<open>eve-server/services/BoundService.h\<close> and \<open>ServiceManager.cpp\<close>: objects
  that a service makes for clients, the table of bound ids, the references that clients hold, and
  the release of an object with its last reference. Pointers are explicit: an object lives in a
  heap, deleting it takes it out, and using a pointer to an object that is gone is a fault. The
  methods of the services are a parameter.
\<close>

section \<open>State\<close>

type_synonym ptr = nat

text \<open>
  The parent of a bound object, whose \<open>BoundReleased\<close> is called in the end: a service, or
  another bound object, as the registry of a corporation is for its list of offices.
\<close>

datatype parent = Of_service bytes | Of_object ptr

record 'h bound =
  mParent :: parent
  mKey :: int32
  mBoundId :: int32
  mIdString :: bytes
  mOID :: pyrep
  mClients :: "client_ref set"
  bo_handlers :: "'h handler list"

text \<open>
  What the layer keeps of a client, with the objects it queued for sending. \<open>cl_char\<close> is the
  name of the character, \<open>None\<close> until one is selected.
\<close>

record peer =
  m_bindSet :: "int32 set"
  m_canThrow :: bool
  m_loaded :: bool
  m_locationID :: int32
  cl_char :: "bytes option"
  cl_session :: client_session
  cl_sequence :: int32
  m_lastNetTime :: int64
  cl_out :: "(pyrep \<times> bool) list"

datatype access_level =
    Access_None | Access_Location | Access_LocationPreferred | Access_SolarSystem
  | Access_SolarSystem2 | Access_Station | Access_Character | Access_Corporation | Access_User

text \<open>A method of a service is one of the two of every bindable service, or one of its own.\<close>

datatype 'h service_method = MachoResolve | MachoBind | Own 'h

record 'h service =
  mAccessLevel :: access_level
  mHandlers :: "'h service_method handler list"

text \<open>
  \<open>m_instances\<close> gathers the members of that name of all services, with \<open>m_instance\<close> of
  the keeper and \<open>m_offices\<close> of a corporation registry under the key 0. Objects are numbered
  in the order of their construction and numbers are not reused.
\<close>

record ('h, 'w) world =
  mServices :: "bytes \<Rightarrow> 'h service option"
  mBound :: "int32 \<Rightarrow> ptr option"
  mLastBoundId :: int32
  objects :: "ptr \<Rightarrow> 'h bound option"
  constructed :: nat
  m_instances :: "parent \<times> int32 \<Rightarrow> ptr option"
  peers :: "client_ref \<Rightarrow> peer option"
  game_state :: 'w

definition new_peer :: "client_session \<Rightarrow> peer" where
  "new_peer s = \<lparr>m_bindSet = {}, m_canThrow = False, m_loaded = False, m_locationID = 0,
     cl_char = None, cl_session = s, cl_sequence = 0, m_lastNetTime = 0,
     cl_out = []\<rparr>"

definition EVEServiceManager_new :: "'w \<Rightarrow> ('h, 'w) world" where
  "EVEServiceManager_new g =
     \<lparr>mServices = Map.empty, mBound = Map.empty, mLastBoundId = 1, objects = Map.empty, constructed = 0,
      m_instances = Map.empty, peers = Map.empty, game_state = g\<rparr>"

text \<open>\<open>std::map::insert\<close> keeps the service that was registered first under a name.\<close>

definition Register :: "bytes \<Rightarrow> 'h service \<Rightarrow> ('h, 'w) world \<Rightarrow> ('h, 'w) world" where
  "Register name svc w =
     (if mServices w name = None then w\<lparr>mServices := (mServices w)(name \<mapsto> svc)\<rparr> else w)"

section \<open>Decimal numbers\<close>

fun decimal :: "nat \<Rightarrow> bytes" where
  "decimal n = (if n < 10 then [word_of_nat (48 + n)] else decimal (n div 10) @ [word_of_nat (48 + n mod 10)])"

declare decimal.simps [simp del]

definition id_string :: "int32 \<Rightarrow> int32 \<Rightarrow> bytes" where
  "id_string node bound_id = str ''N='' @ decimal (unat node) @ str '':'' @ decimal (unat bound_id)"

section \<open>Construction and references\<close>

text \<open>\<open>insert\<close> leaves an entry that is already there.\<close>

definition RegisterBoundService :: "ptr \<Rightarrow> ('h, 'w) world \<Rightarrow> int32 \<times> ('h, 'w) world" where
  "RegisterBoundService p w =
     (let newBoundId = mLastBoundId w
      in (newBoundId,
          w\<lparr>mLastBoundId := newBoundId + 1,
            mBound := (if mBound w newBoundId = None then (mBound w)(newBoundId \<mapsto> p) else mBound w)\<rparr>))"

definition EVEBoundObject ::
    "int32 \<Rightarrow> int64 \<Rightarrow> parent \<Rightarrow> int32 \<Rightarrow> 'h handler list \<Rightarrow> ('h, 'w) world \<Rightarrow> ptr \<times> ('h, 'w) world" where
  "EVEBoundObject node now par key hs w =
     (let p = constructed w;
          (bound_id, w) = RegisterBoundService p w;
          s = id_string node bound_id;
          ob = \<lparr>mParent = par, mKey = key, mBoundId = bound_id, mIdString = s,
                mOID = PyTuple [PyString s, PyLong now], mClients = {}, bo_handlers = hs\<rparr>
      in (p, w\<lparr>objects := (objects w)(p \<mapsto> ob), constructed := Suc p\<rparr>))"

definition AddBindID :: "client_ref \<Rightarrow> int32 \<Rightarrow> ('h, 'w) world \<Rightarrow> ('h, 'w) world result" where
  "AddBindID c bound_id w =
     (case peers w c of
        None \<Rightarrow> Inl Undefined_behaviour
      | Some pr \<Rightarrow> Inr (w\<lparr>peers := (peers w)(c \<mapsto> pr\<lparr>m_bindSet := insert bound_id (m_bindSet pr)\<rparr>)\<rparr>))"

definition NewReference :: "client_ref \<Rightarrow> ptr \<Rightarrow> ('h, 'w) world \<Rightarrow> ('h, 'w) world result" where
  "NewReference c p w =
     (case objects w p of
        None \<Rightarrow> Inl Undefined_behaviour
      | Some ob \<Rightarrow>
          if c \<in> mClients ob then Inr w
          else AddBindID c (mBoundId ob)
                 (w\<lparr>objects := (objects w)(p \<mapsto> ob\<lparr>mClients := insert c (mClients ob)\<rparr>)\<rparr>))"

text \<open>
  \<open>BoundReleased\<close> of the services: those that keep an instance per key forget it. The broker
  of planetary orbitals keeps instances too, and its \<open>BoundReleased\<close> is empty.
\<close>

definition forgetting_services :: "bytes list" where
  "forgetting_services =
     map str [''fleetObjectHandler'', ''corpRegistry'', ''corpStationMgr'', ''planetMgr'', ''agentMgr'',
       ''allianceRegistry'', ''repairSvc'', ''entity'', ''ship'', ''warRegistry'', ''aggressionMgr'',
       ''posMgr'', ''keeper'', ''voucher'']"

definition BoundReleased :: "'h bound \<Rightarrow> ('h, 'w) world \<Rightarrow> ('h, 'w) world result" where
  "BoundReleased ob w =
     (case mParent ob of
        Of_service name \<Rightarrow>
          Inr (if name \<in> set forgetting_services
               then w\<lparr>m_instances := (m_instances w)((Of_service name, mKey ob) := None)\<rparr> else w)
      | Of_object q \<Rightarrow>
          if objects w q = None then Inl Undefined_behaviour
          else Inr (w\<lparr>m_instances := (m_instances w)((Of_object q, mKey ob) := None)\<rparr>))"

definition Release :: "client_ref \<Rightarrow> ptr \<Rightarrow> ('h, 'w) world \<Rightarrow> (bool \<times> ('h, 'w) world) result" where
  "Release c p w =
     (case objects w p of
        None \<Rightarrow> Inl Undefined_behaviour
      | Some ob \<Rightarrow>
          if c \<notin> mClients ob then Inr (False, w)
          else
            let ob = ob\<lparr>mClients := mClients ob - {c}\<rparr>; w = w\<lparr>objects := (objects w)(p \<mapsto> ob)\<rparr>
            in if mClients ob = {} then
                 ebind (BoundReleased ob w) (\<lambda>w. Inr (True, w\<lparr>objects := (objects w)(p := None)\<rparr>))
               else Inr (False, w))"

definition ClearBoundObject :: "int32 \<Rightarrow> client_ref \<Rightarrow> ('h, 'w) world \<Rightarrow> ('h, 'w) world result" where
  "ClearBoundObject bound_id c w =
     (case mBound w bound_id of
        None \<Rightarrow> Inr w
      | Some p \<Rightarrow> ebind (Release c p w) (\<lambda>(gone, w).
          Inr (if gone then w\<lparr>mBound := (mBound w)(bound_id := None)\<rparr> else w)))"

text \<open>An element of the notification \<open>ClientHasReleasedTheseObjects\<close>.\<close>

definition release_bound :: "client_ref \<Rightarrow> int32 \<Rightarrow> ('h, 'w) world \<Rightarrow> ('h, 'w) world result" where
  "release_bound c bound_id w =
     (case peers w c of
        None \<Rightarrow> Inl Undefined_behaviour
      | Some pr \<Rightarrow>
          ClearBoundObject bound_id c
            (w\<lparr>peers := (peers w)(c \<mapsto> pr\<lparr>m_bindSet := m_bindSet pr - {bound_id}\<rparr>)\<rparr>))"

text \<open>
  The destructor of a client: nothing is released when no character was loaded; otherwise its
  references are, from the newest to the oldest.
\<close>

primrec clear_all :: "client_ref \<Rightarrow> int32 list \<Rightarrow> ('h, 'w) world \<Rightarrow> ('h, 'w) world result" where
  "clear_all c [] w = Inr w"
| "clear_all c (i # is) w = ebind (ClearBoundObject i c w) (clear_all c is)"

definition Client_delete :: "client_ref \<Rightarrow> ('h, 'w) world \<Rightarrow> ('h, 'w) world result" where
  "Client_delete c w =
     (case peers w c of
        None \<Rightarrow> Inl Undefined_behaviour
      | Some pr \<Rightarrow>
          ebind (if m_loaded pr then clear_all c (rev (sorted_list_of_set (m_bindSet pr))) w else Inr w)
            (\<lambda>w. Inr (w\<lparr>peers := (peers w)(c := None)\<rparr>)))"

section \<open>What the services bind\<close>

text \<open>
  \<open>BindObject\<close> of a service decides what the bind parameters stand for. \<open>Bind k r\<close>: the object of
  the key \<open>k\<close>; when it has to be made and \<open>r\<close> is a refusal, the service refuses.
\<close>

datatype refusal = Silently | With_message bytes | With_exception bytes | By_fault fault

datatype decision = Refuse refusal | Bind int32 "refusal option"

text \<open>
  What the decisions ask for: static data, the entities of the running systems, the ship of a
  client, and the decoders that are generated from the packet descriptions.
\<close>

datatype planet_lookup = No_system | No_entity | Other_entity | Planet_entity

record statics =
  is_station :: "int32 \<Rightarrow> bool"
  is_solar_system :: "int32 \<Rightarrow> bool"
  has_agent :: "int32 \<Rightarrow> bool"
  find_planet :: "int32 \<Rightarrow> planet_lookup"
  ship_of :: "client_ref \<Rightarrow> int32 option"
  decode_two_integers :: "pyrep \<Rightarrow> (int32 \<times> int32) option"
  decode_location_group :: "pyrep \<Rightarrow> bool"
  decode_trade_bind :: "pyrep \<Rightarrow> bool"

type_synonym bind_rule = "env \<Rightarrow> statics \<Rightarrow> client_ref \<Rightarrow> peer \<Rightarrow> pyrep \<Rightarrow> decision result"

text \<open>The shape that most of them share: an integer is the key, anything else is refused.\<close>

definition int_or :: "refusal \<Rightarrow> pyrep \<Rightarrow> (int32 \<Rightarrow> decision result) \<Rightarrow> decision result" where
  "int_or ref r k =
     (case r of PyNull \<Rightarrow> Inl Null_deref | PyInt i \<Rightarrow> k i | _ \<Rightarrow> Inr (Refuse ref))"

definition bind_fleet :: bind_rule where
  "bind_fleet env st c pr r = int_or Silently r (\<lambda>i. Inr (Bind i None))"

definition first_item_or :: "env \<Rightarrow> bytes \<Rightarrow> pyrep \<Rightarrow> decision result" where
  "first_item_or env msg r =
     (case r of
        PyNull \<Rightarrow> Inl Null_deref
      | PyTuple xs \<Rightarrow> ebind (vec_at xs 0) (\<lambda>x. Inr (Bind (ucast (IntegerValue env x)) None))
      | _ \<Rightarrow> Inr (Refuse (With_message msg)))"

definition bind_corp_registry :: bind_rule where
  "bind_corp_registry env st c pr r =
     first_item_or env (str ''Could not bind object for Corp Registry.  Ref: ServerError 02808.'') r"

definition bind_alliance :: bind_rule where
  "bind_alliance env st c pr r =
     first_item_or env (str ''Could not bind object for Ally Registry.  Ref: ServerError 02808.'') r"

definition bind_corp_station :: bind_rule where
  "bind_corp_station env st c pr r =
     int_or Silently r (\<lambda>i.
       ebind (GetCurrentInt env (cl_session pr) (str ''stationid2'')) (\<lambda>here.
         Inr (if here \<noteq> i then Refuse Silently else Bind i None)))"

definition bind_planet :: bind_rule where
  "bind_planet env st c pr r =
     int_or Silently r (\<lambda>i.
       Inr (Bind i (case find_planet st i of
                      No_system \<Rightarrow> Some (With_message (str ''system boot failure''))
                    | Planet_entity \<Rightarrow> None
                    | No_entity \<Rightarrow> Some (By_fault Null_deref)
                    | Other_entity \<Rightarrow> Some Silently)))"

definition bind_agent :: bind_rule where
  "bind_agent env st c pr r =
     int_or Silently r (\<lambda>i. Inr (if has_agent st i then Bind i None else Refuse Silently))"

definition bind_repair :: bind_rule where
  "bind_repair env st c pr r =
     (case r of PyNull \<Rightarrow> Inl Null_deref | PyInt i \<Rightarrow> Inr (Bind i None) | _ \<Rightarrow> Inl Assert_fail)"

definition bind_entity :: bind_rule where
  "bind_entity env st c pr r =
     int_or Silently r (\<lambda>i. Inr (if is_solar_system st i then Bind i None else Refuse Silently))"

definition bind_ship :: bind_rule where
  "bind_ship env st c pr r =
     (case ship_of st c of None \<Rightarrow> Inl Assert_fail | Some i \<Rightarrow> Inr (Bind i None))"

definition bind_war_registry :: bind_rule where
  "bind_war_registry env st c pr r =
     Inr (case decode_two_integers st r of None \<Rightarrow> Refuse Silently | Some (a, b) \<Rightarrow> Bind a None)"

definition bind_system :: bind_rule where
  "bind_system env st c pr r =
     int_or (With_exception (str ''Cannot bind service'')) r (\<lambda>i. Inr (Bind i None))"

definition bind_pos :: bind_rule where
  "bind_pos env st c pr r = int_or Silently r (\<lambda>i. Inr (Bind i None))"

definition bind_reprocessing :: bind_rule where
  "bind_reprocessing env st c pr r =
     int_or Silently r (\<lambda>i. Inr (if is_station st i then Bind i None else Refuse Silently))"

definition bind_location_group :: bind_rule where
  "bind_location_group env st c pr r =
     Inr (if decode_location_group st r then Bind 0 None else Refuse Silently)"

definition bind_char_mgr :: bind_rule where
  "bind_char_mgr env st c pr r =
     Inr (case decode_two_integers st r of None \<Rightarrow> Refuse Silently | Some (a, b) \<Rightarrow> Bind a None)"

definition bind_trade :: bind_rule where
  "bind_trade env st c pr r =
     Inr (if decode_trade_bind st r then Bind 0 None else Refuse Silently)"

definition bind_always :: bind_rule where
  "bind_always env st c pr r = Inr (Bind 0 None)"

text \<open>
  The bindable services: the rule of each, and whether it keeps one instance per key or makes a
  new object for every client that binds.
\<close>

definition bind_table :: "(bytes \<times> bind_rule \<times> bool) list" where
  "bind_table = map (\<lambda>(n, r, b). (str n, r, b))
     [(''fleetObjectHandler'', bind_fleet, True), (''corpRegistry'', bind_corp_registry, True),
      (''corpStationMgr'', bind_corp_station, True), (''planetMgr'', bind_planet, True),
      (''agentMgr'', bind_agent, True), (''allianceRegistry'', bind_alliance, True),
      (''repairSvc'', bind_repair, True), (''entity'', bind_entity, True), (''ship'', bind_ship, True),
      (''warRegistry'', bind_war_registry, True), (''aggressionMgr'', bind_system, True),
      (''posMgr'', bind_pos, True), (''planetOrbitalRegistryBroker'', bind_system, True),
      (''reprocessingSvc'', bind_reprocessing, False), (''invbroker'', bind_location_group, False),
      (''dogmaIM'', bind_location_group, False), (''charMgr'', bind_char_mgr, False),
      (''trademgr'', bind_trade, False), (''insuranceSvc'', bind_always, False),
      (''jumpCloneSvc'', bind_always, False), (''beyonce'', bind_always, False),
      (''skillMgr'', bind_always, False)]"

section \<open>Binding and calling\<close>

text \<open>
  The rest of the server: the configuration that \<open>Login\<close> takes too (with the clock, the node
  and the packet encoders), the static data, the methods of services and of bound objects, the
  handlers that a service gives its bound objects, the configuration flag of test servers, the
  station and the system of a character, the notifications of the incursion manager, and the
  generated decoders and encoders of packets.
\<close>

datatype receiver = Service_method bytes | Object_method ptr

record ('h, 'w) game =
  g_server :: "'w server"
  g_statics :: statics
  g_methods :: "receiver \<Rightarrow> ('h, ('h, 'w) world) methods"
  g_bound_handlers :: "bytes \<Rightarrow> 'h handler list"
  g_test_server :: bool
  g_char_location :: "client_ref \<Rightarrow> 'w \<Rightarrow> int32 \<times> int32"
  g_notify_incursions :: "(('h, 'w) world, unit) comp"
  g_decode_call :: "pyrep \<Rightarrow> (bytes \<times> pyrep \<times> pyrep) option"
  g_decode_notification :: "pyrep \<Rightarrow> (pyrep list \<times> bytes) option"
  g_decode_release :: "pyrep \<Rightarrow> bytes option"
  g_decode_other :: "machonet_type \<Rightarrow> pyrep \<Rightarrow> bool"
  g_encode_session_change :: "entries \<Rightarrow> int32 \<Rightarrow> pyrep"
  g_encode_error :: "int32 \<Rightarrow> int32 \<Rightarrow> pyrep \<Rightarrow> pyrep"

definition g_env :: "('h, 'w) game \<Rightarrow> env" where
  "g_env g = python (g_server g)"

definition GetNodeID :: "('h, 'w) game \<Rightarrow> int32" where
  "GetNodeID g = ucast (node_id (g_server g))"

text \<open>A member function of the client, run on the part of the client that \<open>Login\<close> models.\<close>

definition on_client ::
    "client_ref \<Rightarrow> ('w client \<Rightarrow> ((pyrep \<times> bool) list \<times> 'w client) result) \<Rightarrow> (('h, 'w) world, unit) comp" where
  "on_client c f w =
     (case peers w c of
        None \<Rightarrow> Inl Undefined_behaviour
      | Some pr \<Rightarrow>
          ebind (f \<lparr>cl_db = game_state w, pSession = cl_session pr, m_nextNotifySequence = cl_sequence pr\<rparr>)
            (\<lambda>(q, cl).
              Inr (Inr (), w\<lparr>game_state := cl_db cl,
                             peers := (peers w)(c \<mapsto> pr\<lparr>cl_session := pSession cl,
                                cl_sequence := m_nextNotifySequence cl, cl_out := cl_out pr @ q\<rparr>)\<rparr>)))"

definition refuse :: "('h, 'w) game \<Rightarrow> client_ref \<Rightarrow> refusal \<Rightarrow> (('h, 'w) world, ptr option) comp" where
  "refuse g c ref =
     (case ref of
        Silently \<Rightarrow> cret None
      | With_message msg \<Rightarrow> cbind (on_client c (SendErrorMsg (g_server g) msg)) (\<lambda>_. cret None)
      | With_exception msg \<Rightarrow> throw_CustomError (g_env g) msg
      | By_fault f \<Rightarrow> clift (Inl f))"

definition make_object :: "('h, 'w) game \<Rightarrow> bytes \<Rightarrow> int32 \<Rightarrow> bool \<Rightarrow> (('h, 'w) world, ptr option) comp" where
  "make_object g name k keep w =
     (let (p, w) = EVEBoundObject (GetNodeID g) (file_time (g_server g)) (Of_service name) k
                     (g_bound_handlers g name) w
      in cret (Some p)
           (if keep then w\<lparr>m_instances := (m_instances w)((Of_service name, k) \<mapsto> p)\<rparr> else w))"

definition BindObject ::
    "('h, 'w) game \<Rightarrow> bytes \<Rightarrow> client_ref \<Rightarrow> pyrep \<Rightarrow> (('h, 'w) world, ptr option) comp" where
  "BindObject g name c r w =
     (case (peers w c, map_of bind_table name) of
        (Some pr, Some (rule, keep)) \<Rightarrow>
          (case rule (g_env g) (g_statics g) c pr r of
             Inl f \<Rightarrow> Inl f
           | Inr (Refuse ref) \<Rightarrow> refuse g c ref w
           | Inr (Bind k unless) \<Rightarrow>
               (case if keep then m_instances w (Of_service name, k) else None of
                  Some p \<Rightarrow> cret (Some p) w
                | None \<Rightarrow>
                    (case unless of
                       Some ref \<Rightarrow> refuse g c ref w
                     | None \<Rightarrow> make_object g name k keep w)))
      | _ \<Rightarrow> Inl Undefined_behaviour)"

text \<open>\<open>Dispatch\<close> of a bound object: only clients that hold a reference are let through.\<close>

definition Bound_Dispatch ::
    "('h, 'w) game \<Rightarrow> ptr \<Rightarrow> bytes \<Rightarrow> call_args \<Rightarrow> (('h, 'w) world, py_result) comp" where
  "Bound_Dispatch g p name call w =
     (case objects w p of
        None \<Rightarrow> Inl Undefined_behaviour
      | Some ob \<Rightarrow>
          if ca_client call \<notin> mClients ob then
            throw_CustomError (g_env g) (str ''This client is not allowed to call this bound service'') w
          else dispatch_loop (g_methods g (Object_method p)) name (bo_handlers ob) call w)"

definition live :: "ptr \<Rightarrow> (('h, 'w) world, 'h bound) comp" where
  "live p w = (case objects w p of None \<Rightarrow> Inl Undefined_behaviour | Some ob \<Rightarrow> Inr (Inr ob, w))"

definition cdo :: "('s \<Rightarrow> 's result) \<Rightarrow> ('s, unit) comp" where
  "cdo f s = ebind (f s) (\<lambda>s. Inr (Inr (), s))"

definition MachoBindObject ::
    "('h, 'w) game \<Rightarrow> bytes \<Rightarrow> call_args \<Rightarrow> pyrep \<Rightarrow> pyrep option \<Rightarrow> (('h, 'w) world, py_result) comp" where
  "MachoBindObject g name macho bindParameters call =
     cbind (BindObject g name (ca_client macho) bindParameters) (\<lambda>bound.
       case bound of
         None \<Rightarrow> cret (PyResult PyNull PyNull)
       | Some p \<Rightarrow>
           cbind (cdo (NewReference (ca_client macho) p)) (\<lambda>_.
           cbind (live p) (\<lambda>ob.
           cbind (clift (Dict_SetItem (g_env g) [] (PyString (str ''OID+'')) (mOID ob))) (\<lambda>byName.
             let rsp = (\<lambda>second. PyResult (PyTuple [PySubStruct (PySubStream None (Some (mOID ob))), second])
                                          (PyDict byName))
             in case call of
                  None \<Rightarrow> cret (rsp PyNone)
                | Some c \<Rightarrow>
                    (case g_decode_call g c of
                       None \<Rightarrow> cret (PyResult PyNull PyNull)
                     | Some (method, arguments, dict_arguments) \<Rightarrow>
                         cbind (clift (PyCallArgs (ca_client macho) arguments dict_arguments)) (\<lambda>subArgs.
                         cbind (Bound_Dispatch g p method subArgs) (\<lambda>result.
                           cret (rsp (if ssResult result = PyNull then PyNone else ssResult result)))))))))"

text \<open>The methods of a service, those of every bindable service among them.\<close>

definition service_methods :: "('h, 'w) game \<Rightarrow> bytes \<Rightarrow> ('h service_method, ('h, 'w) world) methods" where
  "service_methods g name m call vs =
     (case m of
        MachoResolve \<Rightarrow> cret (PyResult (PyInt (GetNodeID g)) PyNull)
      | MachoBind \<Rightarrow>
          (case vs of
             [Some bindParameters, c] \<Rightarrow> MachoBindObject g name call bindParameters c
           | _ \<Rightarrow> clift (Inl Lib_throw))
      | Own h \<Rightarrow> g_methods g (Service_method name) h call vs)"

definition bindable_handlers :: "'h service_method handler list" where
  "bindable_handlers =
     [\<lparr>h_name = str ''MachoResolveObject'', h_params = [P_Rep, P_Rep], h_method = MachoResolve\<rparr>,
      \<lparr>h_name = str ''MachoBindObject'', h_params = [P_Rep, P_Optional P_Tuple], h_method = MachoBind\<rparr>]"

section \<open>The service manager\<close>

text \<open>
  The session variable that an access level asks for. The levels \<open>LocationPreferred\<close> and
  \<open>Station\<close> are not looked at.
\<close>

primrec required_variable :: "access_level \<Rightarrow> bytes option" where
  "required_variable Access_None = None"
| "required_variable Access_Location = Some (str ''locationid'')"
| "required_variable Access_LocationPreferred = None"
| "required_variable Access_SolarSystem = Some (str ''solarsystemid'')"
| "required_variable Access_SolarSystem2 = Some (str ''solarsystemid2'')"
| "required_variable Access_Station = None"
| "required_variable Access_Character = Some (str ''charid'')"
| "required_variable Access_Corporation = Some (str ''corpid'')"
| "required_variable Access_User = Some (str ''userid'')"

definition access_allowed :: "env \<Rightarrow> access_level \<Rightarrow> client_session \<Rightarrow> bool result" where
  "access_allowed env level s =
     (case required_variable level of None \<Rightarrow> Inr True | Some v \<Rightarrow> HasValue env s v)"

definition DebugDispatch_service :: "bytes \<Rightarrow> bytes \<Rightarrow> call_args \<Rightarrow> ('h, 'w) world \<Rightarrow> bytes result" where
  "DebugDispatch_service name method call w =
     (case mServices w name of
        None \<Rightarrow> Inr (str ''Service not found'')
      | Some svc \<Rightarrow>
          mismatch_message (handler_candidates (name @ str ''::'' @ method) method (mHandlers svc)) (ca_tuple call))"

definition DebugDispatch_bound :: "int32 \<Rightarrow> bytes \<Rightarrow> call_args \<Rightarrow> ('h, 'w) world \<Rightarrow> bytes result" where
  "DebugDispatch_bound bound_id method call w =
     (case mBound w bound_id of
        None \<Rightarrow> Inr (str ''Service not found'')
      | Some p \<Rightarrow>
          (case objects w p of
             None \<Rightarrow> Inl Undefined_behaviour
           | Some ob \<Rightarrow> mismatch_message (handler_candidates method method (bo_handlers ob)) (ca_tuple call)))"

definition Dispatch_service ::
    "('h, 'w) game \<Rightarrow> bytes \<Rightarrow> bytes \<Rightarrow> call_args \<Rightarrow> (('h, 'w) world, py_result) comp" where
  "Dispatch_service g name method call w =
     (case mServices w name of
        None \<Rightarrow> Inr (Inl (Service_not_found name), w)
      | Some svc \<Rightarrow>
          (case peers w (ca_client call) of
             None \<Rightarrow> Inl Undefined_behaviour
           | Some pr \<Rightarrow>
               cbind (clift (access_allowed (g_env g) (mAccessLevel svc) (cl_session pr))) (\<lambda>ok.
                 if \<not> ok then throw_CustomError (g_env g) (str (''You'' @ [CHR 0x27] @ ''re not allowed to access this service''))
                 else dispatch_loop (service_methods g name) method (mHandlers svc) call) w))"

definition Dispatch_bound ::
    "('h, 'w) game \<Rightarrow> int32 \<Rightarrow> bytes \<Rightarrow> call_args \<Rightarrow> (('h, 'w) world, py_result) comp" where
  "Dispatch_bound g bound_id method call w =
     (case mBound w bound_id of
        None \<Rightarrow> Inr (Inl (Service_not_found (str ''Bound '' @ decimal (unat bound_id))), w)
      | Some p \<Rightarrow> Bound_Dispatch g p method call w)"

end
