(* ===== verification/References.thy ===== *)
theory References
  imports Binding
begin

text \<open>
  What the layer of bound objects guarantees: the table of ids, the objects, their client lists and
  the id sets of the clients agree in every reachable state, the layer implements a reference
  monitor over pairs of a client and an id, and releasing references in the order of the destructor
  never uses a deleted object. Then the ways around these guarantees that the code leaves open.
\<close>

section \<open>The invariant\<close>

text \<open>The ids that the clients hold, and the invariant of the layer relative to them.\<close>

definition held :: "('h, 'w) world \<Rightarrow> client_ref \<Rightarrow> int32 set" where
  "held w c = (case peers w c of None \<Rightarrow> {} | Some pr \<Rightarrow> m_bindSet pr)"

definition object_ok :: "('h, 'w) world \<Rightarrow> (client_ref \<Rightarrow> int32 set) \<Rightarrow> ptr \<Rightarrow> 'h bound \<Rightarrow> bool" where
  "object_ok w B p ob \<longleftrightarrow>
     p < constructed w \<and> mBoundId ob = word_of_nat (Suc p) \<and> mBound w (mBoundId ob) = Some p \<and>
     (\<forall>c. c \<in> mClients ob \<longleftrightarrow> mBoundId ob \<in> B c)"

definition remembers :: "parent \<Rightarrow> bool" where
  "remembers par \<longleftrightarrow> (case par of Of_service n \<Rightarrow> n \<in> set forgetting_services | Of_object q \<Rightarrow> True)"

definition layer_inv :: "('h, 'w) world \<Rightarrow> (client_ref \<Rightarrow> int32 set) \<Rightarrow> bool" where
  "layer_inv w B \<longleftrightarrow>
     (\<forall>p ob. objects w p = Some ob \<longrightarrow> object_ok w B p ob) \<and>
     (\<forall>i p. mBound w i = Some p \<longrightarrow> (\<exists>ob. objects w p = Some ob \<and> mBoundId ob = i)) \<and>
     (\<forall>c. finite (B c) \<and> (\<forall>i \<in> B c. mBound w i \<noteq> None)) \<and>
     mLastBoundId w = word_of_nat (Suc (constructed w)) \<and>
     (\<forall>par k p. m_instances w (par, k) = Some p \<longrightarrow>
        remembers par \<and> (\<exists>ob. objects w p = Some ob \<and> mParent ob = par \<and> mKey ob = k))"

definition layer_ok :: "('h, 'w) world \<Rightarrow> bool" where
  "layer_ok w \<longleftrightarrow> layer_inv w (held w)"

lemma layer_invD:
  assumes "layer_inv w B"
  shows "objects w p = Some ob \<Longrightarrow> object_ok w B p ob"
    and "mBound w i = Some p \<Longrightarrow> \<exists>ob. objects w p = Some ob \<and> mBoundId ob = i"
    and "finite (B c)" "i \<in> B c \<Longrightarrow> mBound w i \<noteq> None"
    and "mLastBoundId w = word_of_nat (Suc (constructed w))"
    and "m_instances w (par, k) = Some p \<Longrightarrow>
      remembers par \<and> (\<exists>ob. objects w p = Some ob \<and> mParent ob = par \<and> mKey ob = k)"
  using assms unfolding layer_inv_def by blast+

lemma layer_inv_ids:
  assumes "layer_inv w B" "objects w p = Some ob" "mBoundId ob = i" "mBound w i = Some p'"
  shows "p' = p"
  using layer_invD(1) [OF assms(1,2)] assms(3,4) by (auto simp: object_ok_def)

lemma held_simps [simp]:
  "held (w\<lparr>objects := X\<rparr>) = held w" "held (w\<lparr>mBound := Y\<rparr>) = held w"
  "held (w\<lparr>m_instances := Z\<rparr>) = held w" "held (w\<lparr>constructed := n\<rparr>) = held w"
  "held (w\<lparr>mLastBoundId := i\<rparr>) = held w" "held (w\<lparr>game_state := g\<rparr>) = held w"
  "held (w\<lparr>mServices := s\<rparr>) = held w"
  by (simp_all add: held_def fun_eq_iff)

lemma held_peers [simp]:
  "held (w\<lparr>peers := (peers w)(c \<mapsto> pr)\<rparr>) = (held w)(c := m_bindSet pr)"
  "held (w\<lparr>peers := (peers w)(c := None)\<rparr>) = (held w)(c := {})"
  by (simp_all add: held_def fun_eq_iff)

lemma layer_inv_peers [simp]: "layer_inv (w\<lparr>peers := P\<rparr>) B = layer_inv w B"
  by (simp add: layer_inv_def object_ok_def)

section \<open>The operations keep it\<close>

lemma bound_id_distinct:
  "p \<noteq> q \<Longrightarrow> p < 2 ^ 32 - 1 \<Longrightarrow> q < 2 ^ 32 - 1 \<Longrightarrow> (word_of_nat (Suc p) :: int32) \<noteq> word_of_nat (Suc q)"
  by (simp del: of_nat_Suc add: word_of_nat_eq_iff take_bit_nat_eq_self)

lemma layer_inv_new:
  assumes "layer_inv w B" "constructed w < 2 ^ 32 - 1" "keep \<longrightarrow> remembers par"
    and "EVEBoundObject node now par k hs w = (p, w')"
  shows "layer_inv (if keep then w'\<lparr>m_instances := (m_instances w')((par, k) \<mapsto> p)\<rparr> else w') B"
    and "held w' = held w" "constructed w' = Suc (constructed w)" "p = constructed w"
    and "objects w' p \<noteq> None" "peers w' = peers w" "m_instances w' = m_instances w"
proof -
  let ?i = "word_of_nat (Suc (constructed w)) :: int32"
  have last: "mLastBoundId w = ?i"
    using assms(1) by (rule layer_invD)
  have fresh: "word_of_nat (Suc q) \<noteq> ?i" if "q < constructed w" for q
    using that assms(2) by (intro bound_id_distinct) auto
  have free: "mBound w ?i = None"
  proof (rule ccontr)
    assume "mBound w ?i \<noteq> None"
    then obtain q ob where "objects w q = Some ob" "mBoundId ob = ?i"
      using layer_invD(2) [OF assms(1)] by blast
    then show False
      using layer_invD(1) [OF assms(1)] fresh by (auto simp: object_ok_def)
  qed
  have none: "objects w (constructed w) = None"
    using layer_invD(1) [OF assms(1), of "constructed w"] by (cases "objects w (constructed w)") (auto simp: object_ok_def)
  have unheld: "?i \<notin> B c" for c
    using layer_invD(4) [OF assms(1), of ?i c] free by auto
  show "held w' = held w" "constructed w' = Suc (constructed w)" "p = constructed w"
      "objects w' p \<noteq> None" "peers w' = peers w" "m_instances w' = m_instances w"
    using assms(4) by (auto simp: EVEBoundObject_def RegisterBoundService_def Let_def)
  define w2 where "w2 = (if keep then w'\<lparr>m_instances := (m_instances w')((par, k) \<mapsto> p)\<rparr> else w')"
  obtain ob' where ob': "objects w2 = (objects w)(constructed w \<mapsto> ob')" "mBoundId ob' = ?i" "mClients ob' = {}"
      "mParent ob' = par" "mKey ob' = k"
    and bound': "mBound w2 = (mBound w)(?i \<mapsto> constructed w)"
    and rest': "constructed w2 = Suc (constructed w)" "mLastBoundId w2 = ?i + 1"
      "m_instances w2 = (if keep then (m_instances w)((par, k) \<mapsto> constructed w) else m_instances w)"
    using assms(4) last free by (auto simp: w2_def EVEBoundObject_def RegisterBoundService_def Let_def)
  have "object_ok w2 B q ob" if "objects w2 q = Some ob" for q ob
  proof (cases "q = constructed w")
    case True
    then show ?thesis
      using that ob' bound' rest'(1) unheld by (auto simp: object_ok_def)
  next
    case False
    then have "object_ok w B q ob"
      using that ob'(1) layer_invD(1) [OF assms(1), of q ob] by simp
    then show ?thesis
      using bound' rest'(1) fresh [of q] by (auto simp: object_ok_def)
  qed
  moreover have "\<exists>ob. objects w2 q = Some ob \<and> mBoundId ob = i" if "mBound w2 i = Some q" for i q
    using that bound' ob' none layer_invD(2) [OF assms(1), of i q]
    by (cases "i = ?i") (auto simp del: of_nat_Suc)
  moreover have "finite (B c) \<and> (\<forall>i \<in> B c. mBound w2 i \<noteq> None)" for c
    using layer_invD(3,4) [OF assms(1)] bound' by (auto simp del: of_nat_Suc)
  moreover have "mLastBoundId w2 = word_of_nat (Suc (constructed w2))"
    using rest' by simp
  moreover have "remembers par' \<and> (\<exists>ob. objects w2 q = Some ob \<and> mParent ob = par' \<and> mKey ob = k')"
    if "m_instances w2 (par', k') = Some q" for par' k' q
  proof (cases "keep \<and> (par', k') = (par, k)")
    case True
    then show ?thesis
      using that rest'(3) ob' assms(3) by auto
  next
    case False
    then have "remembers par' \<and> (\<exists>ob. objects w q = Some ob \<and> mParent ob = par' \<and> mKey ob = k')"
      using that rest'(3) by (intro layer_invD(6) [OF assms(1)]) (auto split: if_splits)
    then show ?thesis
      using ob'(1) none by auto
  qed
  ultimately have "layer_inv w2 B"
    unfolding layer_inv_def by blast
  then show "layer_inv (if keep then w'\<lparr>m_instances := (m_instances w')((par, k) \<mapsto> p)\<rparr> else w') B"
    by (simp add: w2_def)
qed

lemma layer_inv_reference:
  assumes "layer_inv w (held w)" "NewReference c p w = Inr w'"
  shows "layer_inv w' (held w')"
    and "\<exists>ob. objects w p = Some ob \<and> held w' = (held w)(c := insert (mBoundId ob) (held w c))"
    and "constructed w' = constructed w"
proof -
  obtain ob where ob: "objects w p = Some ob"
    using assms(2) by (auto simp: NewReference_def split: option.splits)
  have ok: "object_ok w (held w) p ob"
    using layer_invD(1) [OF assms(1) ob] .
  show held: "\<exists>ob. objects w p = Some ob \<and> held w' = (held w)(c := insert (mBoundId ob) (held w c))"
  proof (cases "c \<in> mClients ob")
    case True
    then show ?thesis
      using assms(2) ob ok by (auto simp: NewReference_def object_ok_def fun_eq_iff)
  next
    case False
    then show ?thesis
      using assms(2) ob by (auto simp: NewReference_def AddBindID_def held_def fun_eq_iff split: option.splits)
  qed
  have rest: "mBound w' = mBound w" "constructed w' = constructed w" "mLastBoundId w' = mLastBoundId w"
      "m_instances w' = m_instances w"
      "objects w' = (objects w)(p \<mapsto> ob\<lparr>mClients := insert c (mClients ob)\<rparr>)"
    using assms(2) ob by (auto simp: NewReference_def AddBindID_def insert_absorb fun_eq_iff split: if_splits option.splits)
  then show "constructed w' = constructed w" by simp
  have held': "held w' = (held w)(c := insert (mBoundId ob) (held w c))"
    using held ob by auto
  have "object_ok w' (held w') q ob'" if "objects w' q = Some ob'" for q ob'
  proof (cases "q = p")
    case True
    then show ?thesis
      using that ok rest held' by (auto simp: object_ok_def)
  next
    case False
    then have "object_ok w (held w) q ob'"
      using that rest(5) layer_invD(1) [OF assms(1), of q ob'] by simp
    moreover have "mBoundId ob' \<noteq> mBoundId ob"
      using calculation ok False by (auto simp: object_ok_def)
    ultimately show ?thesis
      using rest held' by (auto simp: object_ok_def)
  qed
  moreover have "\<exists>ob. objects w' q = Some ob \<and> mBoundId ob = i" if "mBound w' i = Some q" for i q
    using that rest layer_invD(2) [OF assms(1), of i q] ob by auto
  moreover have "finite (held w' d) \<and> (\<forall>i \<in> held w' d. mBound w' i \<noteq> None)" for d
    using layer_invD(3,4) [OF assms(1)] ok rest(1) held' by (auto simp: object_ok_def)
  moreover have "remembers par' \<and> (\<exists>ob. objects w' q = Some ob \<and> mParent ob = par' \<and> mKey ob = k')"
    if "m_instances w' (par', k') = Some q" for par' k' q
    using layer_invD(6) [OF assms(1), of par' k' q] that rest ob by auto
  ultimately show "layer_inv w' (held w')"
    using layer_invD(5) [OF assms(1)] rest(2,3) unfolding layer_inv_def by auto
qed

text \<open>What releasing a reference does to the layer, when it returns.\<close>

definition released :: "client_ref \<Rightarrow> int32 \<Rightarrow> ('h, 'w) world \<Rightarrow> ('h, 'w) world" where
  "released c i w =
     (case mBound w i of
        None \<Rightarrow> w
      | Some p \<Rightarrow>
          (case objects w p of
             None \<Rightarrow> w
           | Some ob \<Rightarrow>
               if c \<notin> mClients ob then w
               else if mClients ob = {c} then
                 w\<lparr>objects := (objects w)(p := None), mBound := (mBound w)(i := None),
                   m_instances := (if remembers (mParent ob)
                     then (m_instances w)((mParent ob, mKey ob) := None) else m_instances w)\<rparr>
               else w\<lparr>objects := (objects w)(p \<mapsto> ob\<lparr>mClients := mClients ob - {c}\<rparr>)\<rparr>))"

lemma subset_single: "c \<in> A \<Longrightarrow> A \<subseteq> {c} \<longleftrightarrow> A = {c}"
  by auto

lemma Release_cases:
  assumes "Release c p w = Inr (gone, w')" "objects w p = Some ob"
  shows "c \<notin> mClients ob \<Longrightarrow> \<not> gone \<and> w' = w"
    and "c \<in> mClients ob \<Longrightarrow> mClients ob \<noteq> {c} \<Longrightarrow>
      \<not> gone \<and> w' = w\<lparr>objects := (objects w)(p \<mapsto> ob\<lparr>mClients := mClients ob - {c}\<rparr>)\<rparr>"
    and "mClients ob = {c} \<Longrightarrow>
      gone \<and> w' = w\<lparr>objects := (objects w)(p := None), m_instances := (if remembers (mParent ob)
        then (m_instances w)((mParent ob, mKey ob) := None) else m_instances w)\<rparr>"
proof -
  show "c \<notin> mClients ob \<Longrightarrow> \<not> gone \<and> w' = w"
    using assms by (simp add: Release_def)
  show "c \<in> mClients ob \<Longrightarrow> mClients ob \<noteq> {c} \<Longrightarrow>
      \<not> gone \<and> w' = w\<lparr>objects := (objects w)(p \<mapsto> ob\<lparr>mClients := mClients ob - {c}\<rparr>)\<rparr>"
    using assms by (auto simp: Release_def Let_def subset_single)
  show "mClients ob = {c} \<Longrightarrow>
      gone \<and> w' = w\<lparr>objects := (objects w)(p := None), m_instances := (if remembers (mParent ob)
        then (m_instances w)((mParent ob, mKey ob) := None) else m_instances w)\<rparr>"
    using assms
    by (auto simp: Release_def Let_def ebind_Inr_conv BoundReleased_def remembers_def
        split: parent.splits if_splits)
qed

lemma ClearBoundObject_released:
  assumes "ClearBoundObject i c w = Inr w'"
  shows "w' = released c i w"
proof (cases "mBound w i")
  case None
  then show ?thesis
    using assms by (simp add: ClearBoundObject_def released_def)
next
  case (Some p)
  then obtain gone v where v: "Release c p w = Inr (gone, v)"
      "w' = (if gone then v\<lparr>mBound := (mBound v)(i := None)\<rparr> else v)"
    using assms by (auto simp: ClearBoundObject_def ebind_Inr_conv)
  obtain ob where ob: "objects w p = Some ob"
    using v(1) by (auto simp: Release_def split: option.splits)
  show ?thesis
    using Release_cases [OF v(1) ob] v(2) Some ob by (cases "mClients ob = {c}") (auto simp: released_def)
qed

lemma layer_inv_released:
  assumes "layer_inv w B"
  shows "layer_inv (released c i w) (B(c := B c - {i}))"
proof (cases "i \<in> B c")
  case False
  have "released c i w = w"
    using layer_invD(1,2) [OF assms] False
    by (fastforce simp: released_def object_ok_def split: option.splits)
  then show ?thesis
    using assms False by (simp add: fun_upd_idem)
next
  case True
  then obtain p where p: "mBound w i = Some p"
    using layer_invD(4) [OF assms] by fastforce
  then obtain ob where ob: "objects w p = Some ob" "mBoundId ob = i"
    using layer_invD(2) [OF assms] by blast
  have ok: "object_ok w B p ob"
    using layer_invD(1) [OF assms ob(1)] .
  then have c: "c \<in> mClients ob"
    using True ob(2) by (simp add: object_ok_def)
  let ?B = "B(c := B c - {i})"
  have other: "object_ok w B q ob' \<and> mBoundId ob' \<noteq> i" if "objects w q = Some ob'" "q \<noteq> p" for q ob'
    using layer_invD(1) [OF assms that(1)] p that(2) by (auto simp: object_ok_def)
  show ?thesis
  proof (cases "mClients ob = {c}")
    case single: True
    then have w': "released c i w = w\<lparr>objects := (objects w)(p := None), mBound := (mBound w)(i := None),
        m_instances := (if remembers (mParent ob)
          then (m_instances w)((mParent ob, mKey ob) := None) else m_instances w)\<rparr>" (is "_ = ?w")
      using p ob by (simp add: released_def)
    have alone: "i \<notin> B d" if "d \<noteq> c" for d
      using that single ok ob(2) by (auto simp: object_ok_def)
    have "object_ok ?w ?B q ob'" if "objects ?w q = Some ob'" for q ob'
      using that other [of q ob'] by (auto simp: object_ok_def split: if_splits)
    moreover have "\<exists>ob. objects ?w q = Some ob \<and> mBoundId ob = j" if "mBound ?w j = Some q" for j q
    proof -
      have j: "j \<noteq> i" "mBound w j = Some q"
        using that by (simp_all split: if_splits)
      then obtain ob' where "objects w q = Some ob'" "mBoundId ob' = j"
        using layer_invD(2) [OF assms] by blast
      moreover have "q \<noteq> p"
        using calculation ob j(1) by auto
      ultimately show ?thesis by simp
    qed
    moreover have "finite (?B d) \<and> (\<forall>j \<in> ?B d. mBound ?w j \<noteq> None)" for d
      using layer_invD(3,4) [OF assms] alone by (cases "d = c") auto
    moreover have "remembers par' \<and> (\<exists>ob. objects ?w q = Some ob \<and> mParent ob = par' \<and> mKey ob = k')"
      if "m_instances ?w (par', k') = Some q" for par' k' q
    proof -
      have m: "m_instances w (par', k') = Some q" "remembers (mParent ob) \<Longrightarrow> (par', k') \<noteq> (mParent ob, mKey ob)"
        using that by (simp_all split: if_splits)
      then obtain ob' where ob': "remembers par'" "objects w q = Some ob'" "mParent ob' = par'" "mKey ob' = k'"
        using layer_invD(6) [OF assms] by blast
      moreover have "q \<noteq> p"
        using ob' ob(1) m(2) by auto
      ultimately show ?thesis by simp
    qed
    moreover have "mLastBoundId ?w = word_of_nat (Suc (constructed ?w))"
      using layer_invD(5) [OF assms] by simp
    ultimately have "layer_inv ?w ?B"
      unfolding layer_inv_def by blast
    then show ?thesis by (simp only: w')
  next
    case several: False
    then have w': "released c i w = w\<lparr>objects := (objects w)(p \<mapsto> ob\<lparr>mClients := mClients ob - {c}\<rparr>)\<rparr>" (is "_ = ?w")
      using p ob c by (simp add: released_def)
    have "object_ok ?w ?B q ob'" if "objects ?w q = Some ob'" for q ob'
      using that other [of q ob'] ok ob(2) by (auto simp: object_ok_def split: if_splits)
    moreover have "\<exists>ob. objects ?w q = Some ob \<and> mBoundId ob = j" if "mBound ?w j = Some q" for j q
      using that layer_invD(2) [OF assms, of j q] ob by auto
    moreover have "finite (?B d) \<and> (\<forall>j \<in> ?B d. mBound ?w j \<noteq> None)" for d
      using layer_invD(3,4) [OF assms] by (cases "d = c") auto
    moreover have "remembers par' \<and> (\<exists>ob. objects ?w q = Some ob \<and> mParent ob = par' \<and> mKey ob = k')"
      if "m_instances ?w (par', k') = Some q" for par' k' q
      using that layer_invD(6) [OF assms, of par' k' q] ob by auto
    moreover have "mLastBoundId ?w = word_of_nat (Suc (constructed ?w))"
      using layer_invD(5) [OF assms] by simp
    ultimately have "layer_inv ?w ?B"
      unfolding layer_inv_def by blast
    then show ?thesis by (simp only: w')
  qed
qed

lemma released_simps [simp]:
  "peers (released c i w) = peers w" "constructed (released c i w) = constructed w"
  "held (released c i w) = held w"
  by (auto simp: released_def split: option.splits)

lemma layer_inv_clear_all:
  assumes "clear_all c is w = Inr w'" "layer_inv w B"
  shows "layer_inv w' (B(c := B c - set is)) \<and> peers w' = peers w \<and> constructed w' = constructed w"
  using assms
proof (induction "is" arbitrary: w B)
  case Nil
  then show ?case by (simp add: fun_upd_idem)
next
  case (Cons i js)
  then obtain v where v: "ClearBoundObject i c w = Inr v" "clear_all c js v = Inr w'"
    by (auto simp: ebind_Inr_conv)
  have "v = released c i w"
    using v(1) by (rule ClearBoundObject_released)
  then have "layer_inv v (B(c := B c - {i}))" "peers v = peers w" "constructed v = constructed w"
    using layer_inv_released [OF Cons.prems(2)] by simp_all
  moreover have "B c - {i} - set js = B c - set (i # js)"
    by auto
  ultimately show ?case
    using Cons.IH [OF v(2) \<open>layer_inv v (B(c := B c - {i}))\<close>] by (simp cong: if_cong)
qed

lemma layer_inv_release_bound:
  assumes "release_bound c i w = Inr w'" "layer_inv w (held w)"
  shows "layer_inv w' (held w')" "held w' = (held w)(c := held w c - {i})" "constructed w' = constructed w"
proof -
  obtain pr where pr: "peers w c = Some pr"
      "w' = released c i (w\<lparr>peers := (peers w)(c \<mapsto> pr\<lparr>m_bindSet := m_bindSet pr - {i}\<rparr>)\<rparr>)" (is "_ = released c i ?v")
    using assms(1) by (auto simp: release_bound_def split: option.splits dest: ClearBoundObject_released)
  have c: "held w c = m_bindSet pr"
    using pr(1) by (simp add: held_def)
  show held: "held w' = (held w)(c := held w c - {i})" and "constructed w' = constructed w"
    using pr(2) c by simp_all
  have "layer_inv ?v (held w)"
    using assms(2) by simp
  from layer_inv_released [OF this, of c i] show "layer_inv w' (held w')"
    using pr(2) held by simp
qed

lemma layer_inv_delete:
  assumes "Client_delete c w = Inr w'" "layer_inv w (held w)" "m_loaded (the (peers w c))"
  shows "layer_inv w' (held w')" "held w' = (held w)(c := {})" "constructed w' = constructed w"
proof -
  obtain pr v where pr: "peers w c = Some pr" "clear_all c (rev (sorted_list_of_set (m_bindSet pr))) w = Inr v"
      "w' = v\<lparr>peers := (peers v)(c := None)\<rparr>"
    using assms(1,3) by (auto simp: Client_delete_def ebind_Inr_conv split: option.splits)
  have "held w c = m_bindSet pr"
    using pr(1) by (simp add: held_def)
  moreover have "finite (held w c)"
    by (rule layer_invD(3) [OF assms(2)])
  ultimately have "layer_inv v ((held w)(c := {}))" and v: "peers v = peers w" "constructed v = constructed w"
    using layer_inv_clear_all [OF pr(2) assms(2)] by simp_all
  moreover show "held w' = (held w)(c := {})" "constructed w' = constructed w"
    using pr(3) v by (auto simp: held_def fun_eq_iff)
  ultimately show "layer_inv w' (held w')"
    using pr(3) by simp
qed

section \<open>The layer as a state machine\<close>

text \<open>
  What a step does to the grants, the pairs of a client and the id of an object it holds: a
  construction and everything outside the layer leave them alone.
\<close>

datatype grant_event = Quiet | Grant client_ref int32 | Revoke client_ref int32 | Revoke_all client_ref

type_synonym grant_set = "(client_ref \<times> int32) set"

primrec monitor :: "grant_event \<Rightarrow> grant_set \<Rightarrow> grant_set" where
  "monitor Quiet G = G"
| "monitor (Grant c i) G = insert (c, i) G"
| "monitor (Revoke c i) G = G - {(c, i)}"
| "monitor (Revoke_all c) G = {(d, i) \<in> G. d \<noteq> c}"

definition grants :: "('h, 'w) world \<Rightarrow> grant_set" where
  "grants w = {(c, i). i \<in> held w c}"

definition same_layer :: "('h, 'w) world \<Rightarrow> ('h, 'w) world \<Rightarrow> bool" where
  "same_layer w w' \<longleftrightarrow>
     mBound w' = mBound w \<and> mLastBoundId w' = mLastBoundId w \<and> objects w' = objects w \<and>
     constructed w' = constructed w \<and> m_instances w' = m_instances w \<and> held w' = held w"

lemma same_layer_ok: "same_layer w w' \<Longrightarrow> layer_ok w' = layer_ok w"
  by (simp only: same_layer_def layer_ok_def layer_inv_def object_ok_def)

text \<open>
  The members of the layer are private, so these are the steps that any code of the server can
  make: a construction that the parent may remember, a reference for a client, a release
  that a client asks for, the end of a client that had a character loaded, and whatever leaves the
  layer alone.
\<close>

inductive layer_step :: "('h, 'w) world \<Rightarrow> grant_event \<Rightarrow> ('h, 'w) world \<Rightarrow> bool" where
  frame: "same_layer w w' \<Longrightarrow> layer_step w Quiet w'"
| make: "EVEBoundObject node now par k hs w = (p, w') \<Longrightarrow> keep \<longrightarrow> remembers par \<Longrightarrow>
    layer_step w Quiet (if keep then w'\<lparr>m_instances := (m_instances w')((par, k) \<mapsto> p)\<rparr> else w')"
| refer: "NewReference c p w = Inr w' \<Longrightarrow> objects w p = Some ob \<Longrightarrow>
    layer_step w (Grant c (mBoundId ob)) w'"
| drop: "release_bound c i w = Inr w' \<Longrightarrow> layer_step w (Revoke c i) w'"
| leave: "Client_delete c w = Inr w' \<Longrightarrow> m_loaded (the (peers w c)) \<Longrightarrow> layer_step w (Revoke_all c) w'"

lemma layer_step_keep:
  "EVEBoundObject node now par k hs w = (p, w') \<Longrightarrow> remembers par \<Longrightarrow>
     \<exists>e. layer_step w e (w'\<lparr>m_instances := (m_instances w')((par, k) \<mapsto> p)\<rparr>)"
  using layer_step.make [of node now par k hs w p w' True] by auto

lemma layer_step_make: "EVEBoundObject node now par k hs w = (p, w') \<Longrightarrow> \<exists>e. layer_step w e w'"
  using layer_step.make [of node now par k hs w p w' False] by auto

lemma layer_step_constructed: "layer_step w e w' \<Longrightarrow> constructed w \<le> constructed w'"
proof (induction rule: layer_step.induct)
  case (refer c p w w' ob)
  then show ?case
    by (auto simp: NewReference_def AddBindID_def split: option.splits if_splits)
next
  case (drop c i w w')
  then show ?case
    by (auto simp: release_bound_def split: option.splits dest!: ClearBoundObject_released)
next
  case (leave c w w')
  have "constructed v = constructed u" if "clear_all c is u = Inr v" for "is" u v
    using that by (induction "is" arbitrary: u) (auto simp: ebind_Inr_conv dest!: ClearBoundObject_released)
  then show ?case
    using leave by (fastforce simp: Client_delete_def ebind_Inr_conv split: option.splits if_splits)
qed (auto simp: same_layer_def EVEBoundObject_def RegisterBoundService_def Let_def)

lemma layer_step_ok:
  assumes "layer_step w e w'" "layer_ok w" "constructed w' < 2 ^ 32"
  shows "layer_ok w'" and "grants w' = monitor e (grants w)"
  using assms
proof (induction rule: layer_step.induct)
  case (frame w w')
  {
    case 1
    then show ?case
      using frame by (simp add: same_layer_ok)
  next
    case 2
    then show ?case
      using frame by (simp add: same_layer_def grants_def)
  }
next
  case (make node now par k hs w p w' keep)
  have c: "constructed (if keep then w'\<lparr>m_instances := (m_instances w')((par, k) \<mapsto> p)\<rparr> else w') = Suc (constructed w)"
    using make(1) by (auto simp: EVEBoundObject_def RegisterBoundService_def Let_def)
  {
    case 1
    then show ?case
      using c layer_inv_new(1,2) [OF _ _ make(2,1)] by (simp add: layer_ok_def)
  next
    case 2
    then show ?case
      using c layer_inv_new(2) [OF _ _ make(2,1)] by (simp add: layer_ok_def grants_def)
  }
next
  case (refer c p w w' ob)
  {
    case 1
    then show ?case
      using layer_inv_reference(1) [OF _ refer(1)] by (simp add: layer_ok_def)
  next
    case 2
    then show ?case
      using layer_inv_reference(2) [OF _ refer(1)] refer(2) by (auto simp: layer_ok_def grants_def split: if_splits)
  }
next
  case (drop c i w w')
  {
    case 1
    then show ?case
      using layer_inv_release_bound(1) [OF drop] by (simp add: layer_ok_def)
  next
    case 2
    then show ?case
      using layer_inv_release_bound(2) [OF drop] by (auto simp: layer_ok_def grants_def split: if_splits)
  }
next
  case (leave c w w')
  {
    case 1
    then show ?case
      using layer_inv_delete(1) [OF leave(1) _ leave(2)] by (simp add: layer_ok_def)
  next
    case 2
    then show ?case
      using layer_inv_delete(2) [OF leave(1) _ leave(2)] by (auto simp: layer_ok_def grants_def split: if_splits)
  }
qed

interpretation layer: bounded_system "\<lambda>w w'. \<exists>e. layer_step w e w'" constructed "2 ^ 32" layer_ok
  by unfold_locales (blast dest: layer_step_constructed layer_step_ok)+

text \<open>Runs, with the events in their order.\<close>

inductive layer_run :: "('h, 'w) world \<Rightarrow> grant_event list \<Rightarrow> ('h, 'w) world \<Rightarrow> bool" where
  stop: "layer_run w [] w"
| go: "layer_step w e v \<Longrightarrow> layer_run v es w' \<Longrightarrow> layer_run w (e # es) w'"

lemma layer_run_steps: "layer_run w es w' \<Longrightarrow> (\<lambda>w w'. \<exists>e. layer_step w e w')\<^sup>*\<^sup>* w w'"
  by (induction rule: layer_run.induct) (auto intro: converse_rtranclp_into_rtranclp)

lemmas layer_run_ok = layer.inv_steps [OF layer_run_steps]
  and layer_run_constructed = layer.used_steps [OF layer_run_steps]

lemma layer_run_append: "layer_run w es v \<Longrightarrow> layer_run v es' w' \<Longrightarrow> layer_run w (es @ es') w'"
  by (induction rule: layer_run.induct) (auto intro: layer_run.intros)

lemma layer_run_step: "layer_step w e w' \<Longrightarrow> layer_run w [e] w'"
  by (blast intro: layer_run.intros)

lemma layer_run_grants:
  "layer_run w es w' \<Longrightarrow> layer_ok w \<Longrightarrow> constructed w' < 2 ^ 32 \<Longrightarrow> grants w' = fold monitor es (grants w)"
proof (induction rule: layer_run.induct)
  case (stop w)
  then show ?case by simp
next
  case (go w e v es w')
  have "constructed v < 2 ^ 32"
    using go.prems(2) layer_run_constructed [OF go.hyps(2)] by simp
  then show ?case
    using go.IH go.prems layer_step_ok [OF go.hyps(1)] by simp
qed

section \<open>Calls are runs of the layer\<close>

definition layered :: "(('h, 'w) world, 'a) comp \<Rightarrow> bool" where
  "layered m \<longleftrightarrow> (\<forall>w r w'. m w = Inr (r, w') \<longrightarrow> (\<exists>es. layer_run w es w'))"

named_theorems layering \<open>computations that are runs of the layer\<close>

lemma layeredD: "layered m \<Longrightarrow> m w = Inr (r, w') \<Longrightarrow> \<exists>es. layer_run w es w'"
  by (auto simp: layered_def)

lemma layered_pure [layering]: "layered (cret x)" "layered (cthrow e)" "layered (clift m)"
  by (auto simp: layered_def clift_Inr_conv intro: layer_run.stop)

lemma layered_bind [layering]: "layered m \<Longrightarrow> (\<And>x. layered (f x)) \<Longrightarrow> layered (cbind m f)"
  unfolding layered_def cbind_Inr_conv by (blast intro: layer_run_append)

lemma layered_catch [layering]: "layered m \<Longrightarrow> (\<And>e. layered (h e)) \<Longrightarrow> layered (ccatch m h)"
  unfolding layered_def ccatch_Inr_conv by (blast intro: layer_run_append)

lemma layered_stepI:
  "(\<And>w r w'. m w = Inr (r, w') \<Longrightarrow> \<exists>e. layer_step w e w') \<Longrightarrow> layered m"
  unfolding layered_def by (blast intro: layer_run_step)

lemma layered_frameI: "(\<And>w r w'. m w = Inr (r, w') \<Longrightarrow> same_layer w w') \<Longrightarrow> layered m"
  by (rule layered_stepI) (blast intro: layer_step.frame)

lemma same_layer_refl [simp]: "same_layer w w"
  by (simp add: same_layer_def)

lemma same_layer_peer:
  "peers w c = Some pr \<Longrightarrow> m_bindSet pr' = m_bindSet pr \<Longrightarrow>
     same_layer w (w\<lparr>game_state := x, peers := (peers w)(c \<mapsto> pr')\<rparr>)"
  by (auto simp: same_layer_def held_def fun_eq_iff)

lemma layered_throw_CustomError [layering]: "layered (throw_CustomError env msg)"
  unfolding throw_CustomError_def by (intro layering)

lemma layered_on_client [layering]: "layered (on_client c f)"
  by (rule layered_frameI)
    (auto simp: on_client_def ebind_Inr_conv intro!: same_layer_peer split: option.splits)

lemma layered_refuse [layering]: "layered (refuse g c ref)"
  by (cases ref) (auto simp: refuse_def intro: layering)

lemma layered_reference [layering]: "layered (cdo (NewReference c p))"
proof (rule layered_stepI)
  fix w r w'
  assume "cdo (NewReference c p) w = Inr (r, w')"
  then have n: "NewReference c p w = Inr w'"
    by (auto simp: cdo_def ebind_Inr_conv)
  then obtain ob where "objects w p = Some ob"
    by (auto simp: NewReference_def split: option.splits)
  then show "\<exists>e. layer_step w e w'"
    using n by (blast intro: layer_step.refer)
qed

lemma layered_live [layering]: "layered (live p)"
  by (rule layered_frameI) (auto simp: live_def split: option.splits)

lemma kept_services:
  "map_of bind_table name = Some (rule, True) \<Longrightarrow> name \<noteq> str ''planetOrbitalRegistryBroker'' \<Longrightarrow>
     name \<in> set forgetting_services"
  by (auto simp: bind_table_def forgetting_services_def split: if_splits)

lemma layered_make_object:
  "keep \<longrightarrow> remembers (Of_service name) \<Longrightarrow> layered (make_object g name k keep)"
  by (rule layered_stepI)
    (auto simp: make_object_def Let_def split: prod.splits intro: layer_step_keep layer_step_make)

lemma BindObject_cases:
  assumes "BindObject g name c r w = Inr (x, w')"
  obtains (refused) ref where "refuse g c ref w = Inr (x, w')"
  | (found) k p where "m_instances w (Of_service name, k) = Some p" "x = Inr (Some p)" "w' = w"
  | (made) rule keep k where "map_of bind_table name = Some (rule, keep)" "make_object g name k keep w = Inr (x, w')"
proof -
  obtain pr rule keep where pr: "peers w c = Some pr" "map_of bind_table name = Some (rule, keep)"
    using assms unfolding BindObject_def by (cases "peers w c"; cases "map_of bind_table name") auto
  consider (Refuse) ref where "rule (g_env g) (g_statics g) c pr r = Inr (Refuse ref)"
    | (Bind) k unless where "rule (g_env g) (g_statics g) c pr r = Inr (Bind k unless)"
    using assms pr unfolding BindObject_def
    by (cases "rule (g_env g) (g_statics g) c pr r"; simp) (metis decision.exhaust)
  then show ?thesis
  proof cases
    case Refuse
    then show ?thesis
      using assms pr refused [of ref] by (simp add: BindObject_def)
  next
    case Bind
    show ?thesis
    proof (cases "if keep then m_instances w (Of_service name, k) else None")
      case None
      then have "BindObject g name c r w =
          (case unless of Some ref \<Rightarrow> refuse g c ref w | None \<Rightarrow> make_object g name k keep w)"
        using pr Bind by (simp add: BindObject_def)
      then show ?thesis
        using assms by (cases unless) (simp_all add: refused made [OF pr(2), of k])
    next
      case (Some p)
      then have b: "BindObject g name c r w = Inr (Inr (Some p), w)" "m_instances w (Of_service name, k) = Some p"
        using pr Bind by (simp_all add: BindObject_def split: if_splits)
      show ?thesis
        by (rule found [OF b(2)]) (use assms b(1) in simp_all)
    qed
  qed
qed

lemma layered_BindObject:
  assumes "name \<noteq> str ''planetOrbitalRegistryBroker''"
  shows "layered (BindObject g name c r)"
  unfolding layered_def
proof (intro allI impI)
  fix w x w'
  assume "BindObject g name c r w = Inr (x, w')"
  then show "\<exists>es. layer_run w es w'"
  proof (cases rule: BindObject_cases)
    case refused
    then show ?thesis by (rule layeredD [OF layered_refuse])
  next
    case found
    then show ?thesis by (auto intro: layer_run.stop)
  next
    case (made rule keep k)
    have "keep \<longrightarrow> remembers (Of_service name)"
      using kept_services [of name rule] made(1) assms by (auto simp: remembers_def)
    then show ?thesis
      using made(2) by (rule layeredD [OF layered_make_object])
  qed
qed

text \<open>The methods of the game act on the layer only by its steps.\<close>

definition methods_layered :: "('h, 'w) game \<Rightarrow> bool" where
  "methods_layered g \<longleftrightarrow>
     (\<forall>rcv h call vs. layered (g_methods g rcv h call vs)) \<and> layered (g_notify_incursions g)"

lemma layered_handler: "(\<And>m call vs. layered (run m call vs)) \<Longrightarrow> layered (CallHandler run h call)"
  by (auto simp: CallHandler_def intro!: layering)

lemma layered_dispatch:
  assumes "\<And>m call vs. layered (run m call vs)"
  shows "layered (dispatch_loop run name hs call)"
proof (induction hs)
  case Nil
  show ?case
    unfolding dispatch_loop.simps by (rule layering)
next
  case (Cons h hs)
  show ?case
    unfolding dispatch_loop.simps using Cons.IH
    by (cases "h_name h = name") (auto intro!: layering layered_handler assms)
qed

lemma layered_Bound_Dispatch:
  assumes "methods_layered g"
  shows "layered (Bound_Dispatch g p name call)"
proof -
  have "layered (dispatch_loop (g_methods g (Object_method p)) name hs call)" for hs
    using assms by (intro layered_dispatch) (simp add: methods_layered_def)
  then show ?thesis
    using layeredD [OF layered_throw_CustomError] layeredD
    unfolding layered_def [of "Bound_Dispatch g p name call"]
    by (auto simp: Bound_Dispatch_def split: option.splits if_splits) blast+
qed

lemma layered_option:
  "layered f \<Longrightarrow> (\<And>x. layered (g x)) \<Longrightarrow> layered (case v of None \<Rightarrow> f | Some x \<Rightarrow> g x)"
  by (cases v) auto

lemma layered_MachoBindObject:
  assumes "methods_layered g" "name \<noteq> str ''planetOrbitalRegistryBroker''"
  shows "layered (MachoBindObject g name call r c)"
  unfolding MachoBindObject_def Let_def split_def
  by (intro layering layered_option layered_BindObject layered_Bound_Dispatch assms)

section \<open>Who is let through\<close>

lemma CustomError_returns: "\<exists>r. CustomError env msg = Inr r"
  by (auto simp: CustomError_def UserError_def set_strings_def Dict_SetItem_def ebind_def
      split: sum.splits option.splits if_splits)

lemma throw_CustomError_returns: "\<exists>e. throw_CustomError env msg w = Inr (Inl (Py_exception e), w)"
  using CustomError_returns [of env msg] by (auto simp: throw_CustomError_def)

lemma layer_ok_new: "layer_ok (EVEServiceManager_new x)"
  by (simp add: layer_ok_def layer_inv_def EVEServiceManager_new_def held_def)

lemma grants_new [simp]: "grants (EVEServiceManager_new x) = {}"
  by (simp add: grants_def EVEServiceManager_new_def held_def)

lemma Dispatch_bound_granted:
  assumes "layer_ok w" "(ca_client call, i) \<in> grants w"
  shows "\<exists>p ob. mBound w i = Some p \<and> objects w p = Some ob \<and>
    Dispatch_bound g i name call w = dispatch_loop (g_methods g (Object_method p)) name (bo_handlers ob) call w"
proof -
  have i: "i \<in> held w (ca_client call)"
    using assms(2) by (simp add: grants_def)
  then obtain p where p: "mBound w i = Some p"
    using layer_invD(4) [OF assms(1) [unfolded layer_ok_def]] by blast
  then obtain ob where ob: "objects w p = Some ob" "mBoundId ob = i"
    using layer_invD(2) [OF assms(1) [unfolded layer_ok_def]] by blast
  then have "ca_client call \<in> mClients ob"
    using layer_invD(1) [OF assms(1) [unfolded layer_ok_def] ob(1)] i by (simp add: object_ok_def)
  then show ?thesis
    using p ob by (auto simp: Dispatch_bound_def Bound_Dispatch_def)
qed

lemma Dispatch_bound_refused:
  assumes "layer_ok w" "(ca_client call, i) \<notin> grants w"
  shows "\<exists>e. Dispatch_bound g i name call w = Inr (Inl e, w)"
proof (cases "mBound w i")
  case None
  then show ?thesis by (simp add: Dispatch_bound_def)
next
  case (Some p)
  then obtain ob where ob: "objects w p = Some ob" "mBoundId ob = i"
    using layer_invD(2) [OF assms(1) [unfolded layer_ok_def]] by blast
  then have "ca_client call \<notin> mClients ob"
    using layer_invD(1) [OF assms(1) [unfolded layer_ok_def] ob(1)] assms(2)
    by (simp add: object_ok_def grants_def)
  then show ?thesis
    using Some ob throw_CustomError_returns [of "g_env g" _ w]
    by (auto simp del: str_Cons simp: Dispatch_bound_def Bound_Dispatch_def)
qed

section \<open>The end of a client\<close>

text \<open>
  Objects that belong to another object are younger than it, and their clients hold it too: this is
  how the list of offices of a corporation comes to be.
\<close>

definition nested :: "('h, 'w) world \<Rightarrow> bool" where
  "nested w \<longleftrightarrow>
     (\<forall>p ob q. objects w p = Some ob \<longrightarrow> mParent ob = Of_object q \<longrightarrow>
        q < p \<and> (\<forall>c \<in> mClients ob. \<exists>ob'. objects w q = Some ob' \<and> c \<in> mClients ob'))"

lemma bound_id_less:
  "p < q \<Longrightarrow> q < 2 ^ 32 - 1 \<Longrightarrow> (word_of_nat (Suc p) :: int32) < word_of_nat (Suc q)"
  by (simp del: of_nat_Suc add: word_less_nat_alt unat_of_nat)

lemma mBound_released:
  assumes "layer_inv w B"
  shows "mBound (released c i w) j =
    (if j = i \<and> i \<in> B c \<and> (\<forall>d. i \<in> B d \<longrightarrow> d = c) then None else mBound w j)"
proof (cases "mBound w i")
  case None
  then show ?thesis
    using layer_invD(4) [OF assms] by (auto simp: released_def)
next
  case (Some p)
  then obtain ob where ob: "objects w p = Some ob" "mBoundId ob = i"
    using layer_invD(2) [OF assms] by blast
  have cl: "d \<in> mClients ob \<longleftrightarrow> i \<in> B d" for d
    using layer_invD(1) [OF assms ob(1)] ob(2) by (simp add: object_ok_def)
  then have "mClients ob = {c} \<longleftrightarrow> i \<in> B c \<and> (\<forall>d. i \<in> B d \<longrightarrow> d = c)"
    by blast
  then show ?thesis
    using Some ob(1) cl by (cases "mClients ob = {c}") (simp_all add: released_def)
qed

lemma mBound_clear_all:
  assumes "clear_all c is w = Inr w'" "layer_inv w B"
  shows "mBound w' j =
    (if j \<in> set is \<and> j \<in> B c \<and> (\<forall>d. j \<in> B d \<longrightarrow> d = c) then None else mBound w j)"
  using assms
proof (induction "is" arbitrary: w B)
  case Nil
  then show ?case by simp
next
  case (Cons i js)
  then obtain v where v: "ClearBoundObject i c w = Inr v" "clear_all c js v = Inr w'"
    by (auto simp: ebind_Inr_conv)
  have v': "v = released c i w"
    using v(1) by (rule ClearBoundObject_released)
  have "layer_inv v (B(c := B c - {i}))"
    using layer_inv_released [OF Cons.prems(2)] v' by simp
  from Cons.IH [OF v(2) this]
  have v'': "mBound w' j = (if j \<in> set js \<and> j \<in> (B(c := B c - {i})) c \<and> (\<forall>d. j \<in> (B(c := B c - {i})) d \<longrightarrow> d = c)
      then None else mBound v j)" .
  show ?case
  proof (cases "j = i")
    case True
    then show ?thesis
      using v'' mBound_released [OF Cons.prems(2), of c i j] v' by simp
  next
    case False
    then have "j \<in> (B(c := B c - {i})) d \<longleftrightarrow> j \<in> B d" for d
      by simp
    then show ?thesis
      using v'' mBound_released [OF Cons.prems(2), of c i j] v' False by (simp del: fun_upd_apply) auto
  qed
qed

lemma ClearBoundObject_returns:
  assumes "layer_inv w B" "nested w" "i \<in> B c" "constructed w < 2 ^ 32" "\<forall>j \<in> B c. j \<le> i"
  shows "ClearBoundObject i c w = Inr (released c i w)" "nested (released c i w)"
proof -
  obtain p where p: "mBound w i = Some p"
    using layer_invD(4) [OF assms(1,3)] by blast
  obtain ob where ob: "objects w p = Some ob" "mBoundId ob = i"
    using layer_invD(2) [OF assms(1) p] by blast
  have ok: "object_ok w B p ob"
    using layer_invD(1) [OF assms(1) ob(1)] .
  have c: "c \<in> mClients ob"
    using ok ob(2) assms(3) by (simp add: object_ok_def)
  have "BoundReleased (ob\<lparr>mClients := {}\<rparr>) (w\<lparr>objects := (objects w)(p \<mapsto> ob\<lparr>mClients := {}\<rparr>)\<rparr>) \<noteq> Inl f" for f
    using assms(2) ob(1) c by (fastforce simp: nested_def BoundReleased_def split: parent.splits)
  then have "\<exists>w'. ClearBoundObject i c w = Inr w'"
    using p ob c
    by (cases "BoundReleased (ob\<lparr>mClients := {}\<rparr>) (w\<lparr>objects := (objects w)(p \<mapsto> ob\<lparr>mClients := {}\<rparr>)\<rparr>)")
      (auto simp: ClearBoundObject_def Release_def Let_def subset_single)
  then show "ClearBoundObject i c w = Inr (released c i w)"
    using ClearBoundObject_released by metis
  have young: "c \<notin> mClients ob'" if "objects w q = Some ob'" "mParent ob' = Of_object p" for q ob'
  proof
    assume "c \<in> mClients ob'"
    moreover have ok': "object_ok w B q ob'"
      using layer_invD(1) [OF assms(1) that(1)] .
    moreover have "p < q"
      using assms(2) that by (auto simp: nested_def)
    ultimately have "i < mBoundId ob'"
      using bound_id_less [of p q] ok ob(2) assms(4) by (simp add: object_ok_def)
    moreover have "mBoundId ob' \<in> B c"
      using \<open>c \<in> mClients ob'\<close> ok' by (simp add: object_ok_def)
    ultimately show False
      using assms(5) by (simp add: leD)
  qed
  show "nested (released c i w)"
  proof (cases "mClients ob = {c}")
    case True
    have "objects (released c i w) = (objects w)(p := None)"
      using p ob True by (simp add: released_def)
    moreover have "mClients ob' = {}" if "objects w q = Some ob'" "mParent ob' = Of_object p" for q ob'
      using assms(2) that ob(1) True young [OF that] by (fastforce simp: nested_def)
    ultimately show ?thesis
      using assms(2) by (fastforce simp: nested_def split: if_splits)
  next
    case False
    then have "objects (released c i w) = (objects w)(p \<mapsto> ob\<lparr>mClients := mClients ob - {c}\<rparr>)"
      using p ob c by (simp add: released_def)
    then show ?thesis
      using assms(2) ob(1) young by (fastforce simp: nested_def split: if_splits)
  qed
qed

lemma clear_all_returns:
  assumes "layer_inv w B" "nested w" "B c = set is" "sorted_wrt (>) is" "constructed w < 2 ^ 32"
  shows "\<exists>w'. clear_all c is w = Inr w' \<and> nested w'"
  using assms
proof (induction "is" arbitrary: w B)
  case Nil
  then show ?case by simp
next
  case (Cons i js)
  have le: "\<forall>j \<in> B c. j \<le> i" and i: "i \<in> B c" "i \<notin> set js"
    using Cons.prems(3,4) by auto
  have "layer_inv (released c i w) (B(c := B c - {i}))"
    using Cons.prems(1) by (rule layer_inv_released)
  moreover have "nested (released c i w)"
    by (rule ClearBoundObject_returns(2) [OF Cons.prems(1,2) i(1) Cons.prems(5) le])
  moreover have "B c - {i} = set js"
    using Cons.prems(3) i(2) by auto
  moreover have "sorted_wrt (>) js" "constructed (released c i w) < 2 ^ 32"
    using Cons.prems(4,5) by simp_all
  ultimately have "\<exists>w'. clear_all c js (released c i w) = Inr w' \<and> nested w'"
    by (intro Cons.IH) (assumption | simp only: fun_upd_same)+
  then show ?case
    using ClearBoundObject_returns(1) [OF Cons.prems(1,2) i(1) Cons.prems(5) le] by simp
qed

lemma Client_delete_returns:
  assumes "layer_ok w" "nested w" "peers w c = Some pr" "m_loaded pr" "constructed w < 2 ^ 32"
  shows "\<exists>w'. Client_delete c w = Inr w' \<and> nested w' \<and>
    (\<forall>i. mBound w' i = (if (c, i) \<in> grants w \<and> (\<forall>d. (d, i) \<in> grants w \<longrightarrow> d = c) then None else mBound w i))"
proof -
  have inv: "layer_inv w (held w)" and h: "held w c = m_bindSet pr"
    using assms(1,3) by (simp_all add: layer_ok_def held_def)
  have fin: "finite (m_bindSet pr)"
    using layer_invD(3) [OF inv, of c] h by simp
  let ?is = "rev (sorted_list_of_set (m_bindSet pr))"
  have "sorted_wrt (>) ?is" "held w c = set ?is"
    using fin h by (simp_all add: sorted_wrt_rev)
  then obtain v where v: "clear_all c ?is w = Inr v" "nested v"
    using clear_all_returns [OF inv assms(2) _ _ assms(5)] by blast
  have "mBound v i = (if (c, i) \<in> grants w \<and> (\<forall>d. (d, i) \<in> grants w \<longrightarrow> d = c) then None else mBound w i)" for i
    using mBound_clear_all [OF v(1) inv, of i] fin h by (auto simp: grants_def)
  then show ?thesis
    using v assms(3,4) by (simp add: Client_delete_def nested_def)
qed

section \<open>Objects of objects\<close>

text \<open>
  \<open>GetOffices\<close> of a corporation registry makes the list of offices the first time, as an object
  that belongs to the registry, and gives the client a reference.
\<close>

definition GetOffices :: "('h, 'w) game \<Rightarrow> 'h handler list \<Rightarrow> ptr \<Rightarrow> client_ref \<Rightarrow> ('h, 'w) world \<Rightarrow> ('h, 'w) world result" where
  "GetOffices g hs reg c w =
     (case m_instances w (Of_object reg, 0) of
        Some p \<Rightarrow> NewReference c p w
      | None \<Rightarrow>
          let (p, w) = EVEBoundObject (GetNodeID g) (file_time (g_server g)) (Of_object reg) 0 hs w
          in NewReference c p (w\<lparr>m_instances := (m_instances w)((Of_object reg, 0) \<mapsto> p)\<rparr>))"

text \<open>A server with one client that has a character loaded.\<close>

definition one_client :: "client_session \<Rightarrow> 'w \<Rightarrow> ('h, 'w) world" where
  "one_client s x = (EVEServiceManager_new x)\<lparr>peers := [1 \<mapsto> (new_peer s)\<lparr>m_loaded := True\<rparr>]\<rparr>"

lemmas layer_evals = one_client_def EVEServiceManager_new_def new_peer_def GetOffices_def EVEBoundObject_def
  RegisterBoundService_def NewReference_def AddBindID_def release_bound_def ClearBoundObject_def Release_def
  BoundReleased_def Client_delete_def Let_def

lemma Dict_SetItem_string: "\<exists>d. Dict_SetItem env [] (PyString s) v = Inr d"
  by (auto simp: Dict_SetItem_def)

lemma MachoBindObject_new:
  assumes "peers w (ca_client call) = Some pr" "map_of bind_table name = Some (rule, keep)"
    and "rule (g_env g) (g_statics g) (ca_client call) pr r = Inr (Bind k None)"
    and "keep \<longrightarrow> m_instances w (Of_service name, k) = None"
    and "make_object g name k keep w = Inr (Inr (Some p), w1)" "NewReference (ca_client call) p w1 = Inr w2"
  shows "\<exists>res. MachoBindObject g name call r None w = Inr (Inr res, w2)"
proof -
  have b: "BindObject g name (ca_client call) r w = Inr (Inr (Some p), w1)"
    using assms(1-5) by (cases keep) (simp_all add: BindObject_def)
  obtain ob where ob: "objects w2 p = Some ob"
    using assms(6) by (auto simp: NewReference_def AddBindID_def split: option.splits if_splits)
  obtain d where "Dict_SetItem (g_env g) [] (PyString (str ''OID+'')) (mOID ob) = Inr d"
    using Dict_SetItem_string by blast
  then show ?thesis
    using b assms(6) ob by (simp del: str_Cons add: MachoBindObject_def cdo_def live_def Let_def)
qed

lemma MachoBindObject_dangling:
  assumes "peers w (ca_client call) = Some pr" "map_of bind_table name = Some (rule, True)"
    and "rule (g_env g) (g_statics g) (ca_client call) pr r = Inr (Bind k ref)"
    and "m_instances w (Of_service name, k) = Some p" "objects w p = None"
  shows "MachoBindObject g name call r c w = Inl Undefined_behaviour"
proof -
  have "BindObject g name (ca_client call) r w = Inr (Inr (Some p), w)"
    using assms(1-4) by (simp add: BindObject_def)
  then show ?thesis
    using assms(5) by (simp add: MachoBindObject_def cdo_def NewReference_def)
qed

text \<open>One object is made and the client 1 gets a reference to it.\<close>

definition granted_once :: "(unit, unit) world" where
  "granted_once =
     (let (p, w) = EVEBoundObject 5 0 (Of_service (str ''posMgr'')) 7 [] (one_client \<lparr>mSession = [], mDirty = False, m_sessionID = 0\<rparr> ())
      in case NewReference 1 p w of Inr w \<Rightarrow> w | Inl _ \<Rightarrow> w)"

lemma granted_once_run: "layer_run (EVEServiceManager_new ()) [Quiet, Quiet, Grant 1 1] granted_once"
proof -
  let ?w0 = "one_client \<lparr>mSession = [], mDirty = False, m_sessionID = 0\<rparr> () :: (unit, unit) world"
  obtain p w1 where w1: "EVEBoundObject 5 0 (Of_service (str ''posMgr'')) 7 [] ?w0 = (p, w1)" by fastforce
  then have p: "p = 0" "\<exists>ob. objects w1 0 = Some ob \<and> mBoundId ob = 1" "NewReference 1 0 w1 = Inr granted_once"
    by (auto simp del: str_Cons simp: granted_once_def layer_evals)
  have "layer_step (EVEServiceManager_new ()) Quiet ?w0"
    by (rule layer_step.frame) (auto simp: same_layer_def held_def fun_eq_iff layer_evals)
  moreover have "layer_step ?w0 Quiet w1"
    using layer_step.make [OF w1, of False] by simp
  moreover have "layer_step w1 (Grant 1 1) granted_once"
    using layer_step.refer [OF p(3)] p(2) by auto
  ultimately show ?thesis
    by (blast intro: layer_run.intros)
qed

lemma granted_once_ok:
  "layer_ok granted_once" "grants granted_once = {(1, 1)}" "constructed granted_once < 2 ^ 32" "nested granted_once"
  "\<exists>pr. peers granted_once 1 = Some pr \<and> m_loaded pr"
proof -
  show c: "constructed granted_once < 2 ^ 32"
    by (simp add: granted_once_def layer_evals)
  show "layer_ok granted_once"
    by (rule layer_run_ok [OF granted_once_run layer_ok_new c])
  show "grants granted_once = {(1, 1)}"
    using layer_run_grants [OF granted_once_run layer_ok_new c] by simp
  show "nested granted_once" "\<exists>pr. peers granted_once 1 = Some pr \<and> m_loaded pr"
    by (auto simp del: str_Cons simp: nested_def granted_once_def layer_evals split: if_splits)
qed

section \<open>Main results\<close>

text \<open>C3. The layer is a reference monitor, for runs of the operations of the layer (\<open>layer_run\<close>: objects made,
  references given and released, clients that end, and anything that leaves the layer alone) in which every client
  that ends had a character loaded, no object is made for the broker of planetary orbitals, and fewer than \<open>2 ^ 32\<close>
  objects are made. After such a run from the start of the server, the pairs of a client and an id that the layer
  grants are those that the events of the run leave, a grant adding a pair and a revocation or the end of a
  client taking it away. A call of a client to a bound id reaches the handlers of the object of that id when the
  pair is granted, and otherwise ends in an exception that changes nothing. Both provisos are needed: a client that
  ends without a character leaves its references, by which a later client at the same address is let through
  (\<open>unloaded_client_leaves_reference\<close>), and the broker hands out a deleted object (\<open>orbital_broker_dangles\<close>).\<close>

theorem bound_calls_follow_grants:
  assumes "layer_run (EVEServiceManager_new x) es w" "constructed w < 2 ^ 32"
  shows "grants w = fold monitor es {} \<and>
    (if (ca_client call, i) \<in> fold monitor es {}
     then \<exists>p ob. objects w p = Some ob \<and> mBoundId ob = i \<and>
            Dispatch_bound g i name call w = dispatch_loop (g_methods g (Object_method p)) name (bo_handlers ob) call w
     else \<exists>e. Dispatch_bound g i name call w = Inr (Inl e, w))"
proof -
  have g: "grants w = fold monitor es {}"
    using layer_run_grants [OF assms(1) layer_ok_new assms(2)] by simp
  have ok: "layer_ok w"
    using layer_run_ok [OF assms(1) layer_ok_new assms(2)] .
  then have "mBound w i = Some p \<Longrightarrow> objects w p = Some ob \<Longrightarrow> mBoundId ob = i" for p ob
    using layer_invD(2) [of w "held w" i p] by (auto simp: layer_ok_def)
  then show ?thesis
    using g Dispatch_bound_granted [OF ok, of call i g name] Dispatch_bound_refused [OF ok, of call i g name]
    by auto
qed

theorem bound_calls_follow_grants_witness:
  "\<forall>g name. (\<exists>p ob. objects granted_once p = Some ob \<and>
      Dispatch_bound g 1 name \<lparr>ca_client = 1, ca_tuple = [], ca_byname = Map.empty\<rparr> granted_once =
        dispatch_loop (g_methods g (Object_method p)) name (bo_handlers ob)
          \<lparr>ca_client = 1, ca_tuple = [], ca_byname = Map.empty\<rparr> granted_once) \<and>
   (\<exists>e. Dispatch_bound g 1 name \<lparr>ca_client = 2, ca_tuple = [], ca_byname = Map.empty\<rparr> granted_once =
      Inr (Inl e, granted_once))"
proof (intro allI, goal_cases)
  case (1 g name)
  note c = granted_once_ok(3)
  show ?case
    using bound_calls_follow_grants [OF granted_once_run c, of "\<lparr>ca_client = 1, ca_tuple = [], ca_byname = Map.empty\<rparr>" 1 g name]
      bound_calls_follow_grants [OF granted_once_run c, of "\<lparr>ca_client = 2, ca_tuple = [], ca_byname = Map.empty\<rparr>" 1 g name]
    by auto
qed

text \<open>C6. The end of a client is clean: as long as the objects that belong to other objects are younger
  than those and their clients hold those too, releasing the references of a loaded client from the
  newest to the oldest uses no deleted object. Afterwards the other clients hold what they held, the
  objects that only this client held are gone, and all others are still registered.\<close>

theorem logout_releases_everything:
  assumes "layer_ok w" "nested w" "peers w c = Some pr" "m_loaded pr" "constructed w < 2 ^ 32"
  shows "\<exists>w'. Client_delete c w = Inr w' \<and> layer_ok w' \<and> nested w' \<and>
    grants w' = {(d, i) \<in> grants w. d \<noteq> c} \<and>
    (\<forall>i. mBound w' i = (if (c, i) \<in> grants w \<and> (\<forall>d. (d, i) \<in> grants w \<longrightarrow> d = c) then None else mBound w i))"
proof -
  obtain w' where w': "Client_delete c w = Inr w'" "nested w'"
      "\<forall>i. mBound w' i = (if (c, i) \<in> grants w \<and> (\<forall>d. (d, i) \<in> grants w \<longrightarrow> d = c) then None else mBound w i)"
    using Client_delete_returns [OF assms] by blast
  have "layer_step w (Revoke_all c) w'"
    using w'(1) assms(3,4) by (intro layer_step.leave) simp_all
  moreover have "constructed w' < 2 ^ 32"
    using layer_inv_delete(3) [OF w'(1)] assms(1,3,4,5) by (simp add: layer_ok_def)
  ultimately show ?thesis
    using w' layer_step_ok [of w "Revoke_all c" w'] assms(1) by auto
qed

theorem logout_releases_everything_witness:
  "\<exists>w'. Client_delete 1 granted_once = Inr w' \<and> grants w' = {} \<and> mBound w' 1 = None"
proof -
  obtain pr where pr: "peers granted_once 1 = Some pr" "m_loaded pr"
    using granted_once_ok(5) by blast
  from logout_releases_everything [OF granted_once_ok(1,4) pr granted_once_ok(3)] show ?thesis
    unfolding granted_once_ok(2) by (auto split: if_splits)
qed

text \<open>The order matters: a client that holds a corporation registry and its list of offices may end
  at once, but when it first tells the server that it has released the registry, its end uses the
  deleted registry.\<close>

theorem registry_released_first:
  "\<exists>w1 w2 w3 w4. EVEBoundObject (GetNodeID g) (file_time (g_server g)) (Of_service (str ''corpRegistry'')) 98 hs
        (one_client s x) = (0, w1) \<and>
     NewReference 1 0 w1 = Inr w2 \<and> GetOffices g hs' 0 1 w2 = Inr w3 \<and>
     (\<exists>w. Client_delete 1 w3 = Inr w) \<and>
     release_bound 1 1 w3 = Inr w4 \<and> Client_delete 1 w4 = Inl Undefined_behaviour"
  by (simp del: str_Cons add: layer_evals forgetting_services_def insert_Diff_if word_le_nat_alt)

text \<open>The broker of planetary orbitals keeps the objects it hands out and never forgets them: a client
  that binds one, releases it and binds it again makes the server use the deleted object.\<close>

theorem orbital_broker_dangles:
  "\<exists>r w1 w2. MachoBindObject g (str ''planetOrbitalRegistryBroker'') call (PyInt k) None
        ((one_client s x)\<lparr>peers := [ca_client call \<mapsto> new_peer s]\<rparr>) = Inr (Inr r, w1) \<and>
     release_bound (ca_client call) 1 w1 = Inr w2 \<and>
     MachoBindObject g (str ''planetOrbitalRegistryBroker'') call (PyInt k) None w2 = Inl Undefined_behaviour"
proof -
  let ?n = "str ''planetOrbitalRegistryBroker''" and ?w = "(one_client s x)\<lparr>peers := [ca_client call \<mapsto> new_peer s]\<rparr>"
  have t: "map_of bind_table ?n = Some (bind_system, True)" "?n \<notin> set forgetting_services"
    by (simp_all add: bind_table_def forgetting_services_def)
  have rule: "bind_system (g_env g) (g_statics g) (ca_client call) pr (PyInt k) = Inr (Bind k None)" for pr
    by (simp add: bind_system_def int_or_def)
  obtain w0 w1 where m: "make_object g ?n k True ?w = Inr (Inr (Some 0), w0)" "NewReference (ca_client call) 0 w0 = Inr w1"
    by (simp del: str_Cons add: make_object_def layer_evals)
  then obtain r where r: "MachoBindObject g ?n call (PyInt k) None ?w = Inr (Inr r, w1)"
    using MachoBindObject_new [of ?w call "new_peer s" ?n bind_system True g "PyInt k" k 0 w0 w1] t(1) rule
    by (auto simp del: str_Cons simp: one_client_def EVEServiceManager_new_def)
  obtain w2 where w2: "release_bound (ca_client call) 1 w1 = Inr w2" "objects w2 0 = None"
      "m_instances w2 (Of_service ?n, k) = Some 0" "peers w2 (ca_client call) \<noteq> None"
    using m t(2) by (auto simp del: str_Cons simp: make_object_def layer_evals)
  then show ?thesis
    using r MachoBindObject_dangling [of w2 call _ ?n bind_system g "PyInt k" k None 0] t(1) rule by blast
qed

text \<open>A client that ends before a character is loaded leaves its references behind: the object stays,
  and a later client whose object has the address of the old one is let through without a grant.\<close>

theorem unloaded_client_leaves_reference:
  "\<exists>r w1 w2 ob. MachoBindObject g (str ''posMgr'') call (PyInt k) None
        ((one_client s x)\<lparr>peers := [ca_client call \<mapsto> new_peer s]\<rparr>) = Inr (Inr r, w1) \<and>
     Client_delete (ca_client call) w1 = Inr w2 \<and> objects w2 0 = Some ob \<and>
     (let w3 = w2\<lparr>peers := (peers w2)(ca_client call \<mapsto> new_peer s')\<rparr> in
        (ca_client call, 1) \<notin> grants w3 \<and>
        Dispatch_bound g 1 name call w3 = dispatch_loop (g_methods g (Object_method 0)) name (bo_handlers ob) call w3)"
proof -
  let ?n = "str ''posMgr''" and ?w = "(one_client s x)\<lparr>peers := [ca_client call \<mapsto> new_peer s]\<rparr>"
  have t: "map_of bind_table ?n = Some (bind_pos, True)"
    by (simp add: bind_table_def)
  have rule: "bind_pos (g_env g) (g_statics g) (ca_client call) pr (PyInt k) = Inr (Bind k None)" for pr
    by (simp add: bind_pos_def int_or_def)
  obtain w0 w1 where m: "make_object g ?n k True ?w = Inr (Inr (Some 0), w0)" "NewReference (ca_client call) 0 w0 = Inr w1"
    by (simp del: str_Cons add: make_object_def layer_evals)
  then obtain r where r: "MachoBindObject g ?n call (PyInt k) None ?w = Inr (Inr r, w1)"
    using MachoBindObject_new [of ?w call "new_peer s" ?n bind_pos True g "PyInt k" k 0 w0 w1] t rule
    by (auto simp del: str_Cons simp: one_client_def EVEServiceManager_new_def)
  obtain w2 ob where w2: "Client_delete (ca_client call) w1 = Inr w2" "objects w2 0 = Some ob"
      "ca_client call \<in> mClients ob" "mBound w2 1 = Some 0"
    using m by (auto simp del: str_Cons simp: make_object_def layer_evals)
  have "Dispatch_bound g 1 name call (w2\<lparr>peers := P\<rparr>) =
      dispatch_loop (g_methods g (Object_method 0)) name (bo_handlers ob) call (w2\<lparr>peers := P\<rparr>)" for P
    using w2(2,3,4) by (simp add: Dispatch_bound_def Bound_Dispatch_def)
  then show ?thesis
    using r w2 by (auto simp: grants_def held_def new_peer_def)
qed

text \<open>Two bind requests that stop the server, from any client that is logged in: the repair service
  asserts that its parameter is an integer, and the corporation registry reads the first item of an
  empty tuple.\<close>

theorem bind_requests_stop_server:
  assumes "peers w (ca_client call) \<noteq> None"
  shows "MachoBindObject g (str ''repairSvc'') call PyNone c w = Inl Assert_fail \<and>
    MachoBindObject g (str ''corpRegistry'') call (PyTuple []) c w = Inl Out_of_range"
  using assms by (auto simp: MachoBindObject_def cbind_def BindObject_def bind_table_def bind_repair_def
      bind_corp_registry_def first_item_or_def vec_at_def)

theorem bind_requests_stop_server_witness:
  "\<forall>g. MachoBindObject g (str ''repairSvc'') \<lparr>ca_client = 1, ca_tuple = [], ca_byname = Map.empty\<rparr> PyNone None granted_once
     = Inl Assert_fail"
proof (intro allI, goal_cases)
  case (1 g)
  have "peers granted_once (ca_client \<lparr>ca_client = 1, ca_tuple = [], ca_byname = Map.empty\<rparr>) \<noteq> None"
    using granted_once_ok(5) by auto
  from bind_requests_stop_server [OF this] show ?case by blast
qed

end
