(* ===== verification/Dispatch.thy ===== *)
theory Dispatch
  imports References
begin

text \<open>
  The packets of a client that is logged in: \<open>EVEPacketDispatcher::DispatchPacket\<close> of
  \<open>eve-common/network/EVEPktDispatch.cpp\<close> with the handlers and answers of
  \<open>eve-server/Client.cpp\<close>. A call is sent to a service by its name or to a bound object by the
  string \<open>N=node:id\<close>, and what comes back, a result or an exception, is queued for the client.
\<close>

section \<open>The strings that name bound objects\<close>

text \<open>
  \<open>sscanf\<close> with the format \<open>N=%u:%u\<close>, as the GNU library reads it: white space and a sign
  may stand before a number, a number past 64 bits is read as the largest one, and the 64-bit
  value is cut to 32 bits.
\<close>

definition is_space :: "byte \<Rightarrow> bool" where
  "is_space b \<longleftrightarrow> b = 32 \<or> 9 \<le> b \<and> b \<le> 13"

definition is_digit :: "byte \<Rightarrow> bool" where
  "is_digit b \<longleftrightarrow> 48 \<le> b \<and> b \<le> 57"

fun scan_digits :: "nat \<Rightarrow> bytes \<Rightarrow> nat \<times> bytes" where
  "scan_digits v [] = (v, [])"
| "scan_digits v (b # bs) = (if is_digit b then scan_digits (v * 10 + unat (b - 48)) bs else (v, b # bs))"

definition scan_unsigned :: "bytes \<Rightarrow> (int32 \<times> bytes) option" where
  "scan_unsigned s =
     (let s = dropWhile is_space s;
          neg = (s \<noteq> [] \<and> hd s = 45);
          s = (if s \<noteq> [] \<and> (hd s = 45 \<or> hd s = 43) then tl s else s)
      in if s = [] \<or> \<not> is_digit (hd s) then None
         else let (v, r) = scan_digits 0 s;
                  m = (if 2 ^ 64 \<le> v then 2 ^ 64 - 1 else if neg then (2 ^ 64 - v) mod 2 ^ 64 else v)
              in Some (word_of_nat m, r))"

definition scan_bind :: "bytes \<Rightarrow> (int32 \<times> int32) option" where
  "scan_bind s =
     (let s = c_str s
      in if take 2 s \<noteq> str ''N='' then None
         else case scan_unsigned (drop 2 s) of
                None \<Rightarrow> None
              | Some (node, r) \<Rightarrow>
                  if r = [] \<or> hd r \<noteq> 58 then None
                  else map_option (\<lambda>(bound_id, _). (node, bound_id)) (scan_unsigned (tl r)))"

section \<open>Answers\<close>

definition SendCallReturn ::
    "('h, 'w) game \<Rightarrow> client_ref \<Rightarrow> address \<Rightarrow> int64 \<Rightarrow> py_result \<Rightarrow> (('h, 'w) world, unit) comp" where
  "SendCallReturn g c src call_id rsp =
     on_client c (\<lambda>cl.
       ebind (Client_GetClientID (g_server g) cl) (\<lambda>cid.
       ebind (Client_GetUserID (g_server g) cl) (\<lambda>uid.
         Inr ([(fst (PyPacket_Encode (PyPacket_new\<lparr>type_string := str ''macho.CallRsp'', msg_type := CALL_RSP,
                  source := src, dest := PyAddress_new\<lparr>addr_type := Client, objectID := cid, callID := call_id\<rparr>,
                  userid := uid, payload := PyTuple [PySubStream None (Some (ssResult rsp))],
                  named_payload := ssNamedResult rsp\<rparr>)), True)], cl))))"

definition WRAPPEDEXCEPTION :: int32 where "WRAPPEDEXCEPTION = 2"

definition SendException ::
    "('h, 'w) game \<Rightarrow> client_ref \<Rightarrow> address \<Rightarrow> int64 \<Rightarrow> machonet_type \<Rightarrow> int32 \<Rightarrow> pyrep \<Rightarrow> (('h, 'w) world, unit) comp"
  where
  "SendException g c src call_id mt err r =
     on_client c (\<lambda>cl.
       ebind (Client_GetClientID (g_server g) cl) (\<lambda>cid.
       ebind (Client_GetUserID (g_server g) cl) (\<lambda>uid.
         Inr ([(fst (PyPacket_Encode (PyPacket_new\<lparr>type_string := str ''macho.ErrorResponse'', msg_type := ERRORRESPONSE,
                  source := src, dest := PyAddress_new\<lparr>addr_type := Client, objectID := cid, callID := call_id\<rparr>,
                  userid := uid, payload := g_encode_error g (msg_code mt) err r\<rparr>)), True)], cl))))"

text \<open>The clock does not move while a packet is handled.\<close>

definition ping_times :: "int64 \<Rightarrow> pyrep list" where
  "ping_times now =
     map (\<lambda>s. PyTuple [PyLong (now - 20), PyLong now, PyString (str s)])
       [''proxy::handle_message'', ''proxy::writing'', ''server::handle_message'', ''server::turnaround'',
        ''proxy::handle_message'', ''proxy::writing'']"

definition SendPingResponse ::
    "('h, 'w) game \<Rightarrow> client_ref \<Rightarrow> address \<Rightarrow> int64 \<Rightarrow> (('h, 'w) world, unit) comp" where
  "SendPingResponse g c src call_id =
     on_client c (\<lambda>cl.
       ebind (Client_GetClientID (g_server g) cl) (\<lambda>cid.
       ebind (Client_GetUserID (g_server g) cl) (\<lambda>uid.
         Inr ([(fst (PyPacket_Encode (PyPacket_new\<lparr>type_string := str ''macho.PingRsp'', msg_type := PING_RSP,
                  source := src, dest := PyAddress_new\<lparr>addr_type := Client, objectID := cid, callID := call_id\<rparr>,
                  userid := uid, payload := PyTuple [PyList (ping_times (file_time (g_server g)))]\<rparr>)), True)], cl))))"

text \<open>The changes of the session variables, sent before the answer of the call that made them.\<close>

definition fix_location :: "('h, 'w) game \<Rightarrow> client_ref \<Rightarrow> 'w \<Rightarrow> peer \<Rightarrow> peer result" where
  "fix_location g c gs pr =
     (if m_locationID pr = 0 \<and> cl_char pr \<noteq> None then
        let (station, system) = g_char_location g c gs;
            loc = (if is_station (g_statics g) station then station else system)
        in ebind (SetInt (g_env g) (str ''locationid'') loc (cl_session pr)) (\<lambda>s.
             Inr (pr\<lparr>m_locationID := loc, cl_session := s\<rparr>))
      else Inr pr)"

definition SendSessionChange :: "('h, 'w) game \<Rightarrow> client_ref \<Rightarrow> (('h, 'w) world, unit) comp" where
  "SendSessionChange g c w =
     (case peers w c of
        None \<Rightarrow> Inl Undefined_behaviour
      | Some pr \<Rightarrow>
          if \<not> mDirty (cl_session pr) then cret () w
          else
            ebind (fix_location g c (game_state w) pr) (\<lambda>pr.
            ebind (EncodeChanges (g_env g) (cl_session pr) []) (\<lambda>(s, changes).
              let w = w\<lparr>peers := (peers w)(c \<mapsto> pr\<lparr>cl_session := s\<rparr>)\<rparr>
              in if changes = [] then cret () w
                 else
                   cbind (on_client c (\<lambda>cl.
                     ebind (Client_GetClientID (g_server g) cl) (\<lambda>cid.
                     ebind (Client_GetUserID (g_server g) cl) (\<lambda>uid.
                       Inr ([(fst (PyPacket_Encode (PyPacket_new\<lparr>type_string := str ''macho.SessionChangeNotification'',
                                msg_type := SESSIONCHANGENOTIFICATION,
                                source := PyAddress_new\<lparr>addr_type := Node, objectID := ucast (GetNodeID g), callID := 0\<rparr>,
                                dest := PyAddress_new\<lparr>addr_type := Client, objectID := cid, callID := 0\<rparr>,
                                userid := uid, payload := g_encode_session_change g changes (GetNodeID g)\<rparr>)), True)], cl)))))
                     (\<lambda>_. g_notify_incursions g) w)))"

section \<open>Calls\<close>

definition set_can_throw :: "client_ref \<Rightarrow> bool \<Rightarrow> (('h, 'w) world, unit) comp" where
  "set_can_throw c b w =
     (case peers w c of
        None \<Rightarrow> Inl Undefined_behaviour
      | Some pr \<Rightarrow> Inr (Inr (), w\<lparr>peers := (peers w)(c \<mapsto> pr\<lparr>m_canThrow := b\<rparr>)\<rparr>))"

definition throwing :: "client_ref \<Rightarrow> (('h, 'w) world, py_result) comp \<Rightarrow> (('h, 'w) world, py_result option) comp" where
  "throwing c m =
     cbind (set_can_throw c True) (\<lambda>_. cbind m (\<lambda>r.
     cbind (set_can_throw c False) (\<lambda>_. cret (Some (PyResult_copy r)))))"

definition dispatch_request ::
    "('h, 'w) game \<Rightarrow> client_ref \<Rightarrow> packet \<Rightarrow> call_stream \<Rightarrow> call_args \<Rightarrow> (('h, 'w) world, py_result option) comp" where
  "dispatch_request g c p req call =
     (if service (dest p) = [] then
        (case scan_bind (remoteObjectStr req) of
           None \<Rightarrow> cret None
         | Some (node, bound_id) \<Rightarrow>
             if node \<noteq> GetNodeID g then cret None
             else throwing c (Dispatch_bound g bound_id (method_name req) call))
      else throwing c (Dispatch_service g (service (dest p)) (method_name req) call))"

text \<open>
  On a test server the candidates of a method are logged, and the text is the format string of
  the log function: a conversion in it reads an argument that was not passed.
\<close>

fun format_ok :: "bytes \<Rightarrow> bool" where
  "format_ok [] \<longleftrightarrow> True"
| "format_ok (b # bs) \<longleftrightarrow>
     (if b \<noteq> 37 then format_ok bs else bs \<noteq> [] \<and> hd bs = 37 \<and> format_ok (tl bs))"

definition log_candidates ::
    "('h, 'w) game \<Rightarrow> packet \<Rightarrow> call_stream \<Rightarrow> call_args \<Rightarrow> (('h, 'w) world, unit) comp" where
  "log_candidates g p req call w =
     (if \<not> g_test_server g then cret () w
      else ebind (if service (dest p) = [] then
                    DebugDispatch_bound (case scan_bind (remoteObjectStr req) of None \<Rightarrow> 0 | Some (_, i) \<Rightarrow> i)
                      (method_name req) call w
                  else DebugDispatch_service (service (dest p)) (method_name req) call w)
             (\<lambda>s. if format_ok (c_str s) then cret () w else Inl Undefined_behaviour))"

definition request_failed ::
    "('h, 'w) game \<Rightarrow> packet \<Rightarrow> call_stream \<Rightarrow> call_args \<Rightarrow> thrown \<Rightarrow> (('h, 'w) world, py_result option) comp" where
  "request_failed g p req call e =
     (case e of
        Method_not_found \<Rightarrow> cbind (log_candidates g p req call) (\<lambda>_. cret (Some (PyResult PyNull PyNull)))
      | Service_not_found _ \<Rightarrow>
          cbind (clift (UserError (g_env g) (str ''ServiceNotFound'') [])) (\<lambda>r. cthrow (Py_exception r))
      | _ \<Rightarrow> cthrow e)"

definition Handle_CallReq ::
    "('h, 'w) game \<Rightarrow> client_ref \<Rightarrow> packet \<Rightarrow> call_stream \<Rightarrow> (('h, 'w) world, bool) comp" where
  "Handle_CallReq g c p req =
     cbind (clift (PyCallArgs c (arg_tuple req) (arg_dict req))) (\<lambda>call.
     cbind (ccatch (dispatch_request g c p req call) (request_failed g p req call)) (\<lambda>res.
       case res of
         None \<Rightarrow> cret False
       | Some r \<Rightarrow>
           cbind (SendSessionChange g c) (\<lambda>_.
           cbind (SendCallReturn g c (dest p) (callID (source p)) r) (\<lambda>_. cret True))))"

section \<open>Notifications\<close>

text \<open>A log line with the name of the character, which has to be selected.\<close>

definition log_name :: "client_ref \<Rightarrow> (('h, 'w) world, unit) comp" where
  "log_name c w =
     (case peers w c of
        None \<Rightarrow> Inl Undefined_behaviour
      | Some pr \<Rightarrow> if cl_char pr = None then Inl Assert_fail else cret () w)"

definition release_element :: "('h, 'w) game \<Rightarrow> client_ref \<Rightarrow> pyrep \<Rightarrow> (('h, 'w) world, unit) comp" where
  "release_element g c r =
     (case g_decode_release g r of
        None \<Rightarrow> log_name c
      | Some s \<Rightarrow>
          (case scan_bind s of
             None \<Rightarrow> log_name c
           | Some (node, bound_id) \<Rightarrow>
               if node \<noteq> GetNodeID g then log_name c else cdo (release_bound c bound_id)))"

primrec release_elements :: "('h, 'w) game \<Rightarrow> client_ref \<Rightarrow> pyrep list \<Rightarrow> (('h, 'w) world, unit) comp" where
  "release_elements g c [] = cret ()"
| "release_elements g c (r # rs) = cbind (release_element g c r) (\<lambda>_. release_elements g c rs)"

definition Handle_Notify :: "('h, 'w) game \<Rightarrow> client_ref \<Rightarrow> packet \<Rightarrow> (('h, 'w) world, bool) comp" where
  "Handle_Notify g c p =
     (case g_decode_notification g (payload p) of
        None \<Rightarrow> cret False
      | Some (elements, method) \<Rightarrow>
          if method = str ''ClientHasReleasedTheseObjects''
          then cbind (release_elements g c elements) (\<lambda>_. cret True)
          else cbind (log_name c) (\<lambda>_. cret False))"

section \<open>Packets\<close>

text \<open>
  The types that clients do not send are decoded and reported as unhandled.
\<close>

definition unhandled :: "('h, 'w) game \<Rightarrow> packet \<Rightarrow> bytes \<Rightarrow> (('h, 'w) world, bool) comp" where
  "unhandled g p expected =
     (if type_string p \<noteq> expected then cret False
      else if \<not> g_decode_other g (msg_type p) (payload p) then cret False
      else cret False)"

definition DispatchPacket :: "('h, 'w) game \<Rightarrow> client_ref \<Rightarrow> packet \<Rightarrow> (('h, 'w) world, bool) comp" where
  "DispatchPacket g c p =
     (case msg_type p of
        AUTHENTICATION_REQ \<Rightarrow> unhandled g p (str ''macho.AuthenticationReq'')
      | AUTHENTICATION_RSP \<Rightarrow> unhandled g p (str ''macho.AuthenticationRsp'')
      | CALL_REQ \<Rightarrow>
          if type_string p \<noteq> str ''macho.CallReq'' then cret False
          else cbind (clift (PyCallStream_Decode (g_env g) (type_string p) (payload p) PyCallStream_new)) (\<lambda>(ok, req).
                 if \<not> ok then cret False else Handle_CallReq g c p req)
      | CALL_RSP \<Rightarrow> cret (type_string p = str ''macho.CallRsp'')
      | NOTIFICATION \<Rightarrow> if type_string p \<noteq> str ''macho.Notification'' then cret False else Handle_Notify g c p
      | ERRORRESPONSE \<Rightarrow> unhandled g p (str ''macho.ErrorResponse'')
      | SESSIONCHANGENOTIFICATION \<Rightarrow> unhandled g p (str ''macho.SessionChangeNotification'')
      | PING_REQ \<Rightarrow>
          if type_string p \<noteq> str ''macho.PingReq'' then cret False
          else cbind (SendPingResponse g c (dest p) (callID (source p))) (\<lambda>_. cret True)
      | PING_RSP \<Rightarrow> cret (type_string p = str ''macho.PingRsp'')
      | _ \<Rightarrow> cret False)"

definition packet_came :: "('h, 'w) game \<Rightarrow> client_ref \<Rightarrow> (('h, 'w) world, unit) comp" where
  "packet_came g c w =
     (case peers w c of
        None \<Rightarrow> Inl Undefined_behaviour
      | Some pr \<Rightarrow>
          Inr (Inr (), w\<lparr>peers := (peers w)(c \<mapsto> pr\<lparr>m_lastNetTime := file_time (g_server g)\<rparr>)\<rparr>))"

text \<open>
  One turn of the loop of \<open>ProcessNet\<close>. Only exceptions that can be sent are caught there.
\<close>

definition process_packet :: "('h, 'w) game \<Rightarrow> client_ref \<Rightarrow> packet \<Rightarrow> (('h, 'w) world, unit) comp" where
  "process_packet g c p =
     cbind (packet_came g c) (\<lambda>_.
     ccatch (cbind (DispatchPacket g c p) (\<lambda>ok. if ok then cret () else log_name c)) (\<lambda>e.
       case e of
         Py_exception r \<Rightarrow> SendException g c (dest p) (callID (source p)) (msg_type p) WRAPPEDEXCEPTION r
       | _ \<Rightarrow> clift (Inl Lib_throw)))"

primrec process_packets :: "('h, 'w) game \<Rightarrow> client_ref \<Rightarrow> packet list \<Rightarrow> (('h, 'w) world, unit) comp" where
  "process_packets g c [] = cret ()"
| "process_packets g c (p # ps) = cbind (process_packet g c p) (\<lambda>_. process_packets g c ps)"

section \<open>Reading what was printed\<close>

lemma digit_simps:
  assumes "d < 10"
  shows "is_digit (word_of_nat (48 + d))" "unat (word_of_nat (48 + d) - 48 :: byte) = d"
    "\<not> is_space (word_of_nat (48 + d))" "(word_of_nat (48 + d) :: byte) \<noteq> 0"
    "(word_of_nat (48 + d) :: byte) \<noteq> 45" "(word_of_nat (48 + d) :: byte) \<noteq> 43"
proof -
  have u: "unat (word_of_nat (48 + d) :: byte) = 48 + d"
    using assms by (simp del: of_nat_add add: unat_of_nat)
  show "unat (word_of_nat (48 + d) - 48 :: byte) = d"
    using assms by (simp add: unat_of_nat)
  show "is_digit (word_of_nat (48 + d))" "\<not> is_space (word_of_nat (48 + d))"
    "(word_of_nat (48 + d) :: byte) \<noteq> 0" "(word_of_nat (48 + d) :: byte) \<noteq> 45" "(word_of_nat (48 + d) :: byte) \<noteq> 43"
    unfolding is_digit_def is_space_def word_le_nat_alt word_unat_eq_iff u using assms by simp_all
qed

lemma decimal_digits: "b \<in> set (decimal n) \<Longrightarrow> \<exists>d < 10. b = word_of_nat (48 + d)"
proof (induction n rule: decimal.induct)
  case (1 n)
  show ?case
  proof (cases "n < 10")
    case True
    then show ?thesis
      using 1(2) by (subst (asm) decimal.simps) auto
  next
    case False
    then have "b \<in> set (decimal (n div 10)) \<or> b = word_of_nat (48 + n mod 10)"
      using 1(2) by (subst (asm) decimal.simps) auto
    then show ?thesis
      using 1(1) [OF False] by (metis mod_less_divisor zero_less_numeral)
  qed
qed

lemma decimal_Nil [simp]: "decimal n \<noteq> []"
  by (subst decimal.simps) simp

lemma scan_digits_decimal:
  "(r = [] \<or> \<not> is_digit (hd r)) \<Longrightarrow> scan_digits v (decimal n @ r) = (v * 10 ^ length (decimal n) + n, r)"
proof (induction n arbitrary: v r rule: decimal.induct)
  case (1 n)
  have stop: "scan_digits v r = (v, r)" for v
    using 1(2) by (cases r) auto
  show ?case
  proof (cases "n < 10")
    case True
    then have "decimal n = [word_of_nat (48 + n)]"
      by (subst decimal.simps) simp
    then show ?thesis
      using digit_simps [OF True] stop by simp
  next
    case False
    let ?d = "n mod 10"
    have d: "?d < 10" by simp
    have dec: "decimal n = decimal (n div 10) @ [word_of_nat (48 + ?d)]"
      using False by (subst decimal.simps) simp
    have more: "scan_digits u (bs @ cs) = scan_digits (fst (scan_digits u bs)) cs"
      if "\<forall>b \<in> set bs. is_digit b" for u bs cs
      using that by (induction bs arbitrary: u) auto
    have all: "\<forall>b \<in> set (decimal (n div 10)). is_digit b"
      using decimal_digits digit_simps(1) by fastforce
    have "scan_digits v (decimal (n div 10)) = (v * 10 ^ length (decimal (n div 10)) + n div 10, [])"
      using 1(1) [OF False, of "[]" v] by simp
    then have "scan_digits v (decimal n @ r) =
        ((v * 10 ^ length (decimal (n div 10)) + n div 10) * 10 + ?d, r)"
      using more [OF all, of v "word_of_nat (48 + ?d) # r"] digit_simps(1,2) [OF d] stop by (simp add: dec)
    moreover have "(v * 10 ^ length (decimal (n div 10)) + n div 10) * 10 + ?d = v * 10 ^ length (decimal n) + n"
      by (simp add: dec algebra_simps)
    ultimately show ?thesis by simp
  qed
qed

lemma scan_unsigned_decimal:
  assumes "r = [] \<or> \<not> is_digit (hd r)"
  shows "scan_unsigned (decimal (unat (w :: int32)) @ r) = Some (w, r)"
proof -
  define t where "t = decimal (unat w) @ r"
  have ne: "t \<noteq> []" by (simp add: t_def)
  obtain d where d: "d < 10" "hd t = word_of_nat (48 + d)"
    using decimal_digits [of "hd (decimal (unat w))" "unat w"] by (auto simp del: of_nat_add simp: t_def)
  have hd: "\<not> is_space (hd t)" "is_digit (hd t)" "hd t \<noteq> 45" "hd t \<noteq> 43"
    unfolding d(2) by (rule digit_simps [OF d(1)])+
  have "scan_unsigned t = (let (v, r) = scan_digits 0 t;
      m = (if 2 ^ 64 \<le> v then 2 ^ 64 - 1 else v) in Some (word_of_nat m, r))"
    using hd ne by (simp add: scan_unsigned_def Let_def dropWhile_eq_self_iff [THEN iffD2] split: prod.split)
  moreover have "scan_digits 0 t = (unat w, r)"
    using scan_digits_decimal [OF assms, of 0 "unat w"] by (simp add: t_def)
  moreover have "\<not> 2 ^ 64 \<le> unat w"
    using unsigned_less [where ?'a = nat, of w] by simp
  ultimately have "scan_unsigned t = Some (word_of_nat (unat w), r)"
    by (simp only: Let_def prod.case if_False)
  then show ?thesis
    by (simp add: t_def)
qed

lemma scan_id_string: "scan_bind (id_string node i) = Some (node, i)"
proof -
  have nz: "b \<noteq> 0" if b: "b \<in> set (decimal n)" for b n
  proof -
    obtain d where "d < 10" "b = word_of_nat (48 + d)"
      using decimal_digits [OF b] by blast
    then show ?thesis
      using digit_simps(4) [of d] by simp
  qed
  let ?r = "58 # decimal (unat i)"
  have t: "id_string node i = 78 # 61 # decimal (unat node) @ ?r"
    by (simp add: id_string_def)
  have "\<forall>b \<in> set (id_string node i). b \<noteq> 0"
    unfolding t using nz by auto
  then have "c_str (id_string node i) = id_string node i"
    by (simp add: c_str_def takeWhile_eq_all_conv)
  moreover have "scan_unsigned (decimal (unat node) @ ?r) = Some (node, ?r)"
    by (rule scan_unsigned_decimal) (simp add: is_digit_def)
  moreover have "scan_unsigned (decimal (unat i)) = Some (i, [])"
    using scan_unsigned_decimal [of "[]" i] by simp
  ultimately show ?thesis
    by (simp add: scan_bind_def t)
qed

section \<open>Packets are runs of the layer\<close>

lemma same_layer_one_peer:
  "peers w c = Some pr \<Longrightarrow> m_bindSet pr' = m_bindSet pr \<Longrightarrow> same_layer w (w\<lparr>peers := (peers w)(c \<mapsto> pr')\<rparr>)"
  using same_layer_peer [of w c pr pr' "game_state w"] by simp

lemma layered_set_can_throw [layering]: "layered (set_can_throw c b)"
  by (rule layered_frameI) (auto simp: set_can_throw_def intro!: same_layer_one_peer split: option.splits)

lemma layered_packet_came [layering]: "layered (packet_came g c)"
  by (rule layered_frameI) (auto simp: packet_came_def intro!: same_layer_one_peer split: option.splits)

lemma layered_log_name [layering]: "layered (log_name c)"
  by (rule layered_frameI) (auto simp: log_name_def split: option.splits if_splits)

lemma layered_log_candidates [layering]: "layered (log_candidates g p req call)"
  by (rule layered_frameI) (auto simp: log_candidates_def ebind_Inr_conv split: if_splits)

lemma layered_if [layering]: "layered m \<Longrightarrow> layered m' \<Longrightarrow> layered (if b then m else m')"
  by simp

lemma layered_sends [layering]:
  "layered (SendCallReturn g c src i r)" "layered (SendException g c src i mt err x)" "layered (SendPingResponse g c src i)"
  unfolding SendCallReturn_def SendException_def SendPingResponse_def by (rule layered_on_client)+

lemma fix_location_bindSet: "fix_location g c gs pr = Inr pr' \<Longrightarrow> m_bindSet pr' = m_bindSet pr"
  by (auto simp: fix_location_def ebind_Inr_conv Let_def split: if_splits prod.splits)

lemma layered_SendSessionChange:
  assumes "methods_layered g"
  shows "layered (SendSessionChange g c)"
  unfolding layered_def
proof (intro allI impI)
  fix w r w'
  assume sent: "SendSessionChange g c w = Inr (r, w')"
  obtain pr where pr: "peers w c = Some pr"
    using sent by (auto simp: SendSessionChange_def split: option.splits)
  show "\<exists>es. layer_run w es w'"
  proof (cases "mDirty (cl_session pr)")
    case False
    then show ?thesis
      using sent pr by (auto simp: SendSessionChange_def intro: layer_run.stop)
  next
    case True
    then obtain pr' s changes where p: "fix_location g c (game_state w) pr = Inr pr'"
        "EncodeChanges (g_env g) (cl_session pr') [] = Inr (s, changes)"
      using sent pr by (auto simp: SendSessionChange_def ebind_Inr_conv)
    let ?w = "w\<lparr>peers := (peers w)(c \<mapsto> pr'\<lparr>cl_session := s\<rparr>)\<rparr>"
    have first: "layer_run w [Quiet] ?w"
      using pr fix_location_bindSet [OF p(1)]
      by (intro layer_run_step layer_step.frame same_layer_one_peer) simp_all
    have "layered (cbind (on_client c f) (\<lambda>_. g_notify_incursions g))" for f
      using assms by (intro layering) (simp add: methods_layered_def)
    then have "\<exists>es. layer_run ?w es w'"
      using sent pr True p layeredD
      by (cases "changes = []") (fastforce simp: SendSessionChange_def Let_def intro: layer_run.stop)+
    then show ?thesis
      using first by (blast intro: layer_run_append)
  qed
qed

lemma layered_service_methods:
  assumes "methods_layered g" "name \<noteq> str ''planetOrbitalRegistryBroker''"
  shows "layered (service_methods g name m call vs)"
  using assms
  by (auto simp del: str_Cons simp: service_methods_def methods_layered_def
      intro!: layering layered_MachoBindObject split: service_method.split list.split option.split)

lemma layered_Dispatch_service:
  assumes "methods_layered g" "name \<noteq> str ''planetOrbitalRegistryBroker''"
  shows "layered (Dispatch_service g name method call)"
  unfolding layered_def
proof (intro allI impI)
  fix w r w'
  assume d: "Dispatch_service g name method call w = Inr (r, w')"
  have l: "layered (dispatch_loop (service_methods g name) method hs call)" for hs
    by (intro layered_dispatch layered_service_methods assms)
  show "\<exists>es. layer_run w es w'"
  proof (cases "mServices w name")
    case None
    then show ?thesis
      using d by (auto simp: Dispatch_service_def intro: layer_run.stop)
  next
    case (Some svc)
    obtain pr where pr: "peers w (ca_client call) = Some pr"
      using d Some by (auto simp: Dispatch_service_def split: option.splits)
    have "layered (cbind (clift (access_allowed (g_env g) (mAccessLevel svc) (cl_session pr))) (\<lambda>ok.
        if \<not> ok then throw_CustomError (g_env g) msg
        else dispatch_loop (service_methods g name) method (mHandlers svc) call))" for msg
      by (intro layering l)
    then show ?thesis
      using d Some pr layeredD unfolding Dispatch_service_def by fastforce
  qed
qed

lemma layered_Dispatch_bound:
  assumes "methods_layered g"
  shows "layered (Dispatch_bound g i method call)"
  using layered_Bound_Dispatch [OF assms] unfolding layered_def Dispatch_bound_def
  by (auto split: option.splits intro: layer_run.stop)

lemma layered_release_element [layering]: "layered (release_element g c r)"
proof -
  have "layered (cdo (release_bound c i))" for i
    by (rule layered_stepI) (auto simp: cdo_def ebind_Inr_conv intro: layer_step.drop)
  then show ?thesis
    by (auto simp: release_element_def intro!: layering split: option.split)
qed

lemma layered_release_elements [layering]: "layered (release_elements g c rs)"
  by (induction rs) (auto simp del: comp_simps intro!: layering)

lemma layered_throwing [layering]: "layered m \<Longrightarrow> layered (throwing c m)"
  unfolding throwing_def by (intro layering)

lemma layered_request_failed [layering]: "layered (request_failed g p req call e)"
  by (cases e) (auto simp del: comp_simps str_Cons simp: request_failed_def intro!: layering)

text \<open>
  The orbital broker, whose instances outlive their objects, is left out.
\<close>

definition no_orbitals :: "packet \<Rightarrow> bool" where
  "no_orbitals p \<longleftrightarrow> service (dest p) \<noteq> str ''planetOrbitalRegistryBroker''"

lemma layered_Handle_CallReq:
  assumes "methods_layered g" "no_orbitals p"
  shows "layered (Handle_CallReq g c p req)"
proof -
  have "layered (dispatch_request g c p req call)" for call
    using assms layered_Dispatch_service layered_Dispatch_bound
    by (auto simp del: comp_simps str_Cons simp: dispatch_request_def no_orbitals_def intro!: layering split: option.split)
  then show ?thesis
    unfolding Handle_CallReq_def
    by (intro layering layered_option layered_SendSessionChange assms)
qed

lemma layered_Handle_Notify [layering]: "layered (Handle_Notify g c p)"
  unfolding Handle_Notify_def split_def by (intro layering layered_option)

lemma layered_unhandled [layering]: "layered (unhandled g p s)"
  unfolding unhandled_def by (intro layering)

lemma layered_DispatchPacket:
  assumes "methods_layered g" "no_orbitals p"
  shows "layered (DispatchPacket g c p)"
  unfolding DispatchPacket_def split_def
  by (cases "msg_type p"; simp only: machonet_type.case; intro layering layered_Handle_CallReq assms)

lemma layered_process_packet:
  assumes "methods_layered g" "no_orbitals p"
  shows "layered (process_packet g c p)"
proof -
  have "layered (case e of Py_exception r \<Rightarrow> SendException g c a i mt err r | _ \<Rightarrow> clift (Inl Lib_throw))" for e a i mt err
    by (cases e; simp only: thrown.case; rule layering)
  then show ?thesis
    unfolding process_packet_def by (intro layering layered_DispatchPacket assms)
qed

lemma layered_process_packets:
  assumes "methods_layered g" "\<forall>p \<in> set ps. no_orbitals p"
  shows "layered (process_packets g c ps)"
  using assms(2)
proof (induction ps)
  case Nil
  show ?case
    unfolding process_packets.simps by (rule layering)
next
  case (Cons p ps)
  then show ?case
    unfolding process_packets.simps by (intro layering layered_process_packet assms(1)) auto
qed

section \<open>Calls are answered\<close>

definition is_answer :: "packet \<Rightarrow> pyrep \<times> bool \<Rightarrow> bool" where
  "is_answer p x \<longleftrightarrow>
     (\<exists>q. x = (fst (PyPacket_Encode q), True) \<and> (msg_type q = CALL_RSP \<or> msg_type q = ERRORRESPONSE) \<and>
          source q = dest p \<and> addr_type (dest q) = Client \<and> callID (dest q) = callID (source p))"

definition answered :: "packet \<Rightarrow> client_ref \<Rightarrow> ('h, 'w) world \<Rightarrow> bool" where
  "answered p c w \<longleftrightarrow> (\<exists>pr. peers w c = Some pr \<and> cl_out pr \<noteq> [] \<and> is_answer p (last (cl_out pr)))"

lemma on_client_sends:
  assumes "on_client c f w = Inr (r, w')" "\<And>cl q cl'. f cl = Inr (q, cl') \<Longrightarrow> q \<noteq> [] \<and> is_answer p (last q)"
  shows "r = Inr () \<and> answered p c w'"
  using assms by (fastforce simp: on_client_def ebind_Inr_conv answered_def split: option.splits)

lemma is_answerI:
  "msg_type q = CALL_RSP \<or> msg_type q = ERRORRESPONSE \<Longrightarrow> source q = dest p \<Longrightarrow>
     addr_type (dest q) = Client \<Longrightarrow> callID (dest q) = callID (source p) \<Longrightarrow>
     is_answer p (fst (PyPacket_Encode q), True)"
  unfolding is_answer_def by blast

lemma sends_answer:
  "SendCallReturn g c (dest p) (callID (source p)) rsp w = Inr (r, w') \<Longrightarrow> r = Inr () \<and> answered p c w'"
  "SendException g c (dest p) (callID (source p)) mt err y w = Inr (r, w') \<Longrightarrow> r = Inr () \<and> answered p c w'"
  unfolding SendCallReturn_def SendException_def
  by (erule on_client_sends; clarsimp simp: ebind_Inr_conv; rule is_answerI; simp)+

lemma dispatch_request_some:
  assumes "dispatch_request g c p req call w = Inr (Inr x, w')"
    and "service (dest p) \<noteq> [] \<or> (\<exists>i. scan_bind (remoteObjectStr req) = Some (GetNodeID g, i))"
  shows "x \<noteq> None"
  using assms by (auto simp: dispatch_request_def throwing_def cbind_Inr_conv split: if_splits)

lemma request_failed_some: "request_failed g p req call e w = Inr (Inr x, w') \<Longrightarrow> x \<noteq> None"
  by (cases e) (auto simp del: str_Cons simp: request_failed_def cbind_Inr_conv clift_Inr_conv)

lemma Handle_CallReq_answers:
  assumes "Handle_CallReq g c p req w = Inr (Inr b, w')"
    and "service (dest p) \<noteq> [] \<or> (\<exists>i. scan_bind (remoteObjectStr req) = Some (GetNodeID g, i))"
  shows "b \<and> answered p c w'"
proof -
  obtain call where call: "PyCallArgs c (arg_tuple req) (arg_dict req) = Inr call"
    using assms(1) by (cases "PyCallArgs c (arg_tuple req) (arg_dict req)") (simp_all add: Handle_CallReq_def cbind_def)
  let ?m = "ccatch (dispatch_request g c p req call) (request_failed g p req call)"
  let ?k = "\<lambda>res. case res of None \<Rightarrow> cret False
        | Some r \<Rightarrow> cbind (SendSessionChange g c) (\<lambda>_.
            cbind (SendCallReturn g c (dest p) (callID (source p)) r) (\<lambda>_. cret True))"
  have "cbind ?m ?k w = Inr (Inr b, w')"
    using assms(1) call by (simp add: Handle_CallReq_def)
  then obtain x v where v: "?m w = Inr (Inr x, v)" "?k x v = Inr (Inr b, w')"
    unfolding cbind_Inr_conv by blast
  have "x \<noteq> None"
    using v(1) dispatch_request_some [OF _ assms(2)] request_failed_some unfolding ccatch_Inr_conv by blast
  then show ?thesis
    using v(2) by (cases x) (auto simp: cbind_Inr_conv dest: sends_answer(1))
qed

text \<open>
  The other way round: the ids of a client that an answer carries can be read, and a call ends when its
  arguments can be built, the method comes back or throws what can be sent, and the changes of
  the session that it made can be sent.
\<close>

definition ids_readable :: "('h, 'w) game \<Rightarrow> client_ref \<Rightarrow> ('h, 'w) world \<Rightarrow> bool" where
  "ids_readable g c w \<longleftrightarrow>
     (\<exists>pr cid uid. peers w c = Some pr \<and>
        GetCurrentLong (python (g_server g)) (cl_session pr) (str ''clientID'') = Inr cid \<and>
        GetCurrentInt (python (g_server g)) (cl_session pr) (str ''userid'') = Inr uid)"

definition call_ends :: "('h, 'w) game \<Rightarrow> client_ref \<Rightarrow> packet \<Rightarrow> call_stream \<Rightarrow> ('h, 'w) world \<Rightarrow> bool" where
  "call_ends g c p req w \<longleftrightarrow>
     (\<exists>w1 call x v. packet_came g c w = Inr (Inr (), w1) \<and> PyCallArgs c (arg_tuple req) (arg_dict req) = Inr call \<and>
        ccatch (dispatch_request g c p req call) (request_failed g p req call) w1 = Inr (x, v) \<and>
        (case x of
           Inl e \<Rightarrow> (\<exists>y. e = Py_exception y) \<and> ids_readable g c v
         | Inr _ \<Rightarrow> \<exists>v'. SendSessionChange g c v = Inr (Inr (), v') \<and> ids_readable g c v'))"

lemma process_call_answers:
  assumes "process_packet g c p w = Inr (r, w')" "DispatchPacket g c p = Handle_CallReq g c p req"
    and "service (dest p) \<noteq> [] \<or> (\<exists>i. scan_bind (remoteObjectStr req) = Some (GetNodeID g, i))"
  shows "r = Inr () \<and> answered p c w'"
proof -
  obtain w1 where w1: "packet_came g c w = Inr (Inr (), w1)"
    using assms(1) by (auto simp: process_packet_def packet_came_def cbind_def split: option.splits)
  note d = assms(2)
  obtain v x where v: "Handle_CallReq g c p req w1 = Inr (x, v)"
    using assms(1) w1 d by (cases "Handle_CallReq g c p req w1") (auto simp: process_packet_def cbind_def ccatch_def)
  show ?thesis
  proof (cases x)
    case (Inr b)
    then have "b" "answered p c v"
      using Handle_CallReq_answers [OF _ assms(3)] v by blast+
    then show ?thesis
      using assms(1) w1 d v Inr by (auto simp: process_packet_def cbind_def ccatch_def answered_def)
  next
    case (Inl e)
    then obtain y where e: "e = Py_exception y"
      using assms(1) w1 d v by (cases e) (auto simp: process_packet_def cbind_def ccatch_def)
    then have "SendException g c (dest p) (callID (source p)) (msg_type p) WRAPPEDEXCEPTION y v = Inr (r, w')"
      using assms(1) w1 d v Inl by (simp add: process_packet_def cbind_def ccatch_def)
    then show ?thesis
      using sends_answer(2) by fastforce
  qed
qed

lemma readable_sends:
  assumes "ids_readable g c w"
  shows "\<exists>w'. SendCallReturn g c src i rsp w = Inr (Inr (), w')"
    "\<exists>w'. SendException g c src i mt err y w = Inr (Inr (), w')"
  using assms
  by (auto simp del: str_Cons simp: ids_readable_def SendCallReturn_def SendException_def on_client_def
      Client_GetClientID_def Client_GetUserID_def)

lemma call_ends_returns:
  assumes "call_ends g c p req w" "DispatchPacket g c p = Handle_CallReq g c p req"
    and "service (dest p) \<noteq> [] \<or> (\<exists>i. scan_bind (remoteObjectStr req) = Some (GetNodeID g, i))"
  shows "\<exists>w'. process_packet g c p w = Inr (Inr (), w')"
proof -
  obtain w1 call x v where c: "packet_came g c w = Inr (Inr (), w1)" "PyCallArgs c (arg_tuple req) (arg_dict req) = Inr call"
      "ccatch (dispatch_request g c p req call) (request_failed g p req call) w1 = Inr (x, v)"
      "case x of Inl e \<Rightarrow> (\<exists>y. e = Py_exception y) \<and> ids_readable g c v
         | Inr _ \<Rightarrow> \<exists>v'. SendSessionChange g c v = Inr (Inr (), v') \<and> ids_readable g c v'"
    using assms(1) unfolding call_ends_def by blast
  show ?thesis
  proof (cases x)
    case (Inl e)
    then obtain y where y: "e = Py_exception y" "ids_readable g c v"
      using c(4) by auto
    then have "Handle_CallReq g c p req w1 = Inr (Inl (Py_exception y), v)"
      using c(2,3) Inl by (simp add: Handle_CallReq_def cbind_def)
    then show ?thesis
      using readable_sends(2) [OF y(2)] c(1) assms(2) by (simp add: process_packet_def cbind_def ccatch_def)
  next
    case (Inr res)
    then obtain v' where v': "SendSessionChange g c v = Inr (Inr (), v')" "ids_readable g c v'"
      using c(4) by auto
    obtain r where r: "res = Some r"
      using c(3) Inr dispatch_request_some [OF _ assms(3)] request_failed_some unfolding ccatch_Inr_conv by blast
    obtain w' where "SendCallReturn g c (dest p) (callID (source p)) r v' = Inr (Inr (), w')"
      using readable_sends(1) [OF v'(2)] by blast
    then have "Handle_CallReq g c p req w1 = Inr (Inr True, w')"
      using c(2,3) Inr r v'(1) by (simp add: Handle_CallReq_def cbind_def cret_def)
    then show ?thesis
      using c(1) assms(2) by (simp add: process_packet_def cbind_def ccatch_def cret_def)
  qed
qed

section \<open>The log of a test server\<close>

lemma format_bad:
  assumes "{0, 37} \<inter> set pre = {}" "rest \<noteq> []" "hd rest \<noteq> 37"
  shows "\<not> format_ok (c_str (pre @ 37 # rest))"
  using assms by (induction pre) (cases rest, auto simp: c_str_def)

lemma pyRepToString_all: "PyNull \<notin> set xs \<Longrightarrow> \<exists>ts. emap pyRepToString xs = Inr ts"
  by (induction xs) (auto simp: pyRepToString_def)

lemma dispatch_no_handler: "name \<notin> h_name ` set hs \<Longrightarrow> dispatch_loop run name hs call = cthrow Method_not_found"
  by (induction hs) auto

section \<open>Main results\<close>

text \<open>The string that names a bound object on the wire, \<open>N=node:id\<close>, is read back by the
  handlers as the node and the id it was printed from, for all 32-bit values.\<close>

theorem bind_string_round_trip: "scan_bind (id_string node i) = Some (node, i)"
  by (rule scan_id_string)

text \<open>C5. The table of bound objects stays consistent: whatever packets a client sends, calls, bind
  requests, releases, malformed ones, the ids, the objects, their lists of clients and the id
  sets of the clients agree afterwards when they agreed before, provided that the methods of the services use
  the layer through its operations and that nothing is sent to the broker of planetary orbitals.\<close>

theorem packets_keep_layer:
  assumes "process_packets g c ps w = Inr (r, w')" "layer_ok w" "methods_layered g"
    and "\<forall>p \<in> set ps. no_orbitals p" "constructed w' < 2 ^ 32"
  shows "layer_ok w'"
proof -
  obtain es where "layer_run w es w'"
    using layeredD [OF layered_process_packets [OF assms(3,4)] assms(1)] by blast
  then show ?thesis
    using assms(2,5) by (rule layer_run_ok)
qed

text \<open>The server of \<open>Login\<close> with a notification that releases the object 1, and a client of the
  position manager.\<close>

definition sample_game :: "(unit, unit) game" where
  "sample_game =
     \<lparr>g_server = bob_server,
      g_statics = \<lparr>is_station = (\<lambda>_. False), is_solar_system = (\<lambda>_. False), has_agent = (\<lambda>_. False),
        find_planet = (\<lambda>_. No_system), ship_of = (\<lambda>_. None), decode_two_integers = (\<lambda>_. None),
        decode_location_group = (\<lambda>_. False), decode_trade_bind = (\<lambda>_. False)\<rparr>,
      g_methods = (\<lambda>_ _ _ _. cret PyResult_empty), g_bound_handlers = (\<lambda>_. []), g_test_server = False,
      g_char_location = (\<lambda>_ _. (0, 0)), g_notify_incursions = cret (), g_decode_call = (\<lambda>_. None),
      g_decode_notification = (\<lambda>_. Some ([PyNone], str ''ClientHasReleasedTheseObjects'')),
      g_decode_release = (\<lambda>_. Some (id_string 1 1)), g_decode_other = (\<lambda>_ _. True),
      g_encode_session_change = (\<lambda>_ _. PyNone), g_encode_error = (\<lambda>_ _ r. PyTuple [r])\<rparr>"

definition release_packet :: packet where
  "release_packet = PyPacket_new\<lparr>msg_type := NOTIFICATION, type_string := str ''macho.Notification''\<rparr>"

lemma sample_game_layered: "methods_layered sample_game"
  unfolding methods_layered_def sample_game_def game.simps by (intro conjI allI layering)

lemma process_packet_ok:
  assumes "peers w c = Some pr"
    and "DispatchPacket g c p (w\<lparr>peers := (peers w)(c \<mapsto> pr\<lparr>m_lastNetTime := file_time (g_server g)\<rparr>)\<rparr>) = Inr (Inr True, w')"
  shows "process_packet g c p w = Inr (Inr (), w')"
  using assms by (simp add: process_packet_def packet_came_def cbind_def ccatch_def cret_def)

theorem packets_keep_layer_witness:
  "\<exists>w'. process_packets sample_game 1 [release_packet] granted_once = Inr (Inr (), w') \<and>
     mBound w' 1 = None \<and> layer_ok w'"
proof -
  have node: "GetNodeID sample_game = 1"
    by (simp add: GetNodeID_def sample_game_def bob_server_def)
  have dec: "g_decode_notification sample_game r = Some ([PyNone], str ''ClientHasReleasedTheseObjects'')"
      "g_decode_release sample_game x = Some (id_string 1 1)" for r x
    by (simp_all add: sample_game_def)
  have d: "DispatchPacket sample_game 1 release_packet v = ebind (release_bound 1 1 v) (\<lambda>v. Inr (Inr True, v))" for v
    by (cases "release_bound 1 1 v") (simp_all del: str_Cons add: DispatchPacket_def release_packet_def Handle_Notify_def
        release_element_def node dec scan_id_string cbind_def cdo_def PyPacket_new_def)
  obtain pr where pr: "peers granted_once 1 = Some pr" and one: "mBound granted_once 1 = Some 0"
    using granted_once_ok(5) by (auto simp del: str_Cons simp: granted_once_def layer_evals)
  let ?w = "granted_once\<lparr>peers := (peers granted_once)(1 \<mapsto> pr\<lparr>m_lastNetTime := 9\<rparr>)\<rparr>"
  obtain w' where w': "release_bound 1 1 ?w = Inr w'" "mBound w' 1 = None" "constructed w' = 1"
    by (auto simp del: str_Cons simp: granted_once_def layer_evals)
  have "file_time (g_server sample_game) = 9"
    by (simp add: sample_game_def bob_server_def)
  then have "process_packet sample_game 1 release_packet granted_once = Inr (Inr (), w')"
    by (intro process_packet_ok [OF pr]) (use w'(1) in \<open>simp del: One_nat_def add: d\<close>)
  then have "process_packets sample_game 1 [release_packet] granted_once = Inr (Inr (), w')"
    by (simp add: cbind_def cret_def)
  moreover from this have "layer_ok w'"
    by (rule packets_keep_layer [OF _ granted_once_ok(1) sample_game_layered])
      (simp_all add: w'(3) no_orbitals_def release_packet_def PyPacket_new_def PyAddress_new_def)
  ultimately show ?thesis
    using w'(2) by blast
qed

text \<open>C4. A call that could be decoded and names a service, or a bound object of this node, is answered: whenever
  the server comes back from the packet, the last object that it queued for the client is a result or an
  exception that carries the number of the call and comes from where the call went. And the server does
  come back when the arguments of the call can be built, its method ends or throws an exception that can be sent, the
  changes that it made to the session can be sent, and the ids of the client can be read. The calls that
  fall outside stop the server, so that nobody is answered any more: those without a dictionary of named
  arguments (\<open>call_without_keywords\<close>), with a method name that the log takes for a format
  (\<open>method_name_is_a_format\<close>), with bind parameters of a wrong type (\<open>bind_requests_stop_server\<close>).\<close>

theorem calls_are_answered:
  assumes "msg_type p = CALL_REQ" "type_string p = str ''macho.CallReq''"
    and "PyCallStream_Decode (g_env g) (type_string p) (payload p) PyCallStream_new = Inr (True, req)"
    and "service (dest p) \<noteq> [] \<or> (\<exists>i. scan_bind (remoteObjectStr req) = Some (GetNodeID g, i))"
  shows "(\<forall>r w'. process_packet g c p w = Inr (r, w') \<longrightarrow>
      r = Inr () \<and> (\<exists>pr. peers w' c = Some pr \<and> cl_out pr \<noteq> [] \<and> is_answer p (last (cl_out pr)))) \<and>
    (call_ends g c p req w \<longrightarrow> (\<exists>w'. process_packet g c p w = Inr (Inr (), w')))"
proof (intro conjI allI impI)
  have d: "DispatchPacket g c p = Handle_CallReq g c p req"
    using assms(1-3) by (simp del: str_Cons add: DispatchPacket_def cbind_def fun_eq_iff)
  show "\<exists>w'. process_packet g c p w = Inr (Inr (), w')" if "call_ends g c p req w"
    using call_ends_returns [OF that d assms(4)] .
  fix r w'
  assume "process_packet g c p w = Inr (r, w')"
  then show "r = Inr ()" and "\<exists>pr. peers w' c = Some pr \<and> cl_out pr \<noteq> [] \<and> is_answer p (last (cl_out pr))"
    using process_call_answers [OF _ d assms(4)] by (auto simp: answered_def)
qed

lemma UserError_returns: "\<exists>r. UserError env t d = Inr r"
  by (auto simp: UserError_def set_strings_def Dict_SetItem_def ebind_def split: sum.splits option.splits if_splits)

lemma empty_session_ids:
  assumes "mSession s = []"
  shows "\<exists>r. GetCurrentLong env s name = Inr r" "\<exists>r. GetCurrentInt env s name = Inr r"
  using assms
  by (auto simp: GetCurrentLong_def GetCurrentInt_def GetCurrent_def GetValueTuple_def Dict_GetItemString_def
      Dict_GetItem_def ebind_def split: sum.splits option.splits)

text \<open>A call of a service that is not there.\<close>

definition sample_call :: "pyrep \<Rightarrow> packet" where
  "sample_call kw = PyPacket_new\<lparr>msg_type := CALL_REQ, type_string := str ''macho.CallReq'',
     dest := PyAddress_new\<lparr>addr_type := Node, service := str ''nobody''\<rparr>,
     payload := PyTuple [PyTuple [PyInt 0, PySubStream None (Some (PyTuple [PyString [], PyString [], PyTuple [], kw]))]]\<rparr>"

theorem calls_are_answered_witness:
  "\<exists>w' pr. process_packet sample_game 1 (sample_call (PyDict [])) granted_once = Inr (Inr (), w') \<and>
     peers w' 1 = Some pr \<and> is_answer (sample_call (PyDict [])) (last (cl_out pr))"
proof -
  let ?p = "sample_call (PyDict [])"
  let ?req = "\<lparr>remoteObject = 0, remoteObjectStr = [], method_name = [], arg_tuple = PyTuple [], arg_dict = PyDict []\<rparr>"
  have req: "PyCallStream_Decode (g_env sample_game) (type_string ?p) (payload ?p) PyCallStream_new = Inr (True, ?req)"
    by (simp del: str_Cons add: sample_call_def PyCallStream_Decode_def inner_stream_def decode_call_def decoded_stream_def
        test_def IsTuple_def IsString_def IsNone_def IsDict_def StringContent_def PyCallStream_new_def)
  have s: "service (dest ?p) = str ''nobody''" "msg_type ?p = CALL_REQ" "type_string ?p = str ''macho.CallReq''"
    by (simp_all add: sample_call_def PyPacket_new_def)
  obtain pr where pr: "peers granted_once 1 = Some pr" "mSession (cl_session pr) = []"
    by (auto simp del: str_Cons simp: granted_once_def layer_evals)
  have svc: "mServices granted_once (str ''nobody'') = None"
    by (simp del: str_Cons add: granted_once_def layer_evals)
  have ne: "str ''nobody'' \<noteq> []"
    by simp
  obtain err where err: "UserError (g_env sample_game) (str ''ServiceNotFound'') [] = Inr err"
    using UserError_returns by blast
  let ?call = "\<lparr>ca_client = 1, ca_tuple = [], ca_byname = Map.empty\<rparr>"
  let ?w1 = "granted_once\<lparr>peers := (peers granted_once)(1 \<mapsto> pr\<lparr>m_lastNetTime := file_time (g_server sample_game)\<rparr>)\<rparr>"
  let ?v = "?w1\<lparr>peers := (peers ?w1)(1 \<mapsto> pr\<lparr>m_lastNetTime := file_time (g_server sample_game), m_canThrow := True\<rparr>)\<rparr>"
  have "dispatch_request sample_game 1 ?p ?req ?call ?w1 = Inr (Inl (Service_not_found (str ''nobody'')), ?v)"
    using svc s(1) ne by (simp del: str_Cons add: dispatch_request_def throwing_def set_can_throw_def Dispatch_service_def
        cbind_def)
  then have ends: "ccatch (dispatch_request sample_game 1 ?p ?req ?call) (request_failed sample_game ?p ?req ?call) ?w1 =
      Inr (Inl (Py_exception err), ?v)"
    using err by (simp del: str_Cons add: cbind_def ccatch_def clift_def cthrow_def request_failed_def)
  obtain cid uid where ids: "GetCurrentLong (python (g_server sample_game)) (cl_session pr) (str ''clientID'') = Inr cid"
      "GetCurrentInt (python (g_server sample_game)) (cl_session pr) (str ''userid'') = Inr uid"
    using empty_session_ids [OF pr(2)] by blast
  then have "ids_readable sample_game 1 ?v"
    by (simp del: str_Cons add: ids_readable_def)
  then have "call_ends sample_game 1 ?p ?req granted_once"
    unfolding call_ends_def using ends pr(1)
    by (intro exI [of _ ?w1] exI [of _ ?call] exI [of _ "Inl (Py_exception err)"] exI [of _ ?v])
      (simp del: str_Cons add: packet_came_def PyCallArgs_def)
  then show ?thesis
    using calls_are_answered [OF s(2,3) req, of 1 granted_once] s(1) ne by fastforce
qed

text \<open>A call with \<open>None\<close> in the place of its named arguments stops the server: the decoder leaves a
  null pointer for them, and the arguments of the call are built from it without a test.\<close>

theorem call_without_keywords:
  assumes "msg_type p = CALL_REQ" "type_string p = str ''macho.CallReq''" "peers w c \<noteq> None"
    and "payload p = PyTuple [PyTuple [flag, PySubStream data (Some (PyTuple [PyString obj, PyString m, PyTuple xs, PyNone]))]]"
  shows "process_packet g c p w = Inl Null_deref"
proof -
  have "PyCallStream_Decode (g_env g) (type_string p) (payload p) PyCallStream_new =
      Inr (True, \<lparr>remoteObject = 0, remoteObjectStr = obj, method_name = m, arg_tuple = PyTuple xs, arg_dict = PyNull\<rparr>)"
    unfolding assms(2,4)
    by (simp del: str_Cons add: PyCallStream_Decode_def inner_stream_def decode_call_def decoded_stream_def test_def
        IsTuple_def IsString_def IsNone_def StringContent_def PyCallStream_new_def)
  then have "DispatchPacket g c p v = Inl Null_deref" for v
    using assms(1,2) by (simp del: str_Cons add: DispatchPacket_def Handle_CallReq_def PyCallArgs_def cbind_def)
  then show ?thesis
    using assms(3) by (auto simp: process_packet_def packet_came_def cbind_def ccatch_def)
qed

theorem call_without_keywords_witness:
  "process_packet sample_game 1 (sample_call PyNone) granted_once = Inl Null_deref"
  by (rule call_without_keywords) (use granted_once_ok(5) in \<open>auto simp: sample_call_def PyPacket_new_def\<close>)

text \<open>Before a character is selected, any packet that is not dispatched stops the server, because the
  log line names the character; an error response is such a packet.\<close>

theorem packet_before_character:
  assumes "peers w c = Some pr" "cl_char pr = None" "msg_type p = ERRORRESPONSE"
  shows "process_packet g c p w = Inl Assert_fail"
  using assms by (simp add: process_packet_def packet_came_def DispatchPacket_def unhandled_def log_name_def cbind_def ccatch_def)
theorem packet_before_character_witness:
  "process_packet sample_game 1 (PyPacket_new\<lparr>msg_type := ERRORRESPONSE\<rparr>) granted_once = Inl Assert_fail"
proof -
  obtain pr where "peers granted_once 1 = Some pr" "cl_char pr = None"
    by (auto simp del: str_Cons simp: granted_once_def layer_evals)
  then show ?thesis
    by (rule packet_before_character) simp
qed

text \<open>C40. On a test server, which is the default configuration, a client that is logged in controls a format
  string: a call of a method that a service does not have, with a conversion such as \<open>%n\<close> in the name of the
  method, makes the log function read an argument that was not passed.\<close>

theorem method_name_is_a_format:
  assumes "g_test_server g" "peers w c = Some pr"
    and "msg_type p = CALL_REQ" "type_string p = str ''macho.CallReq''" "service (dest p) \<noteq> []"
    and "PyCallStream_Decode (g_env g) (type_string p) (payload p) PyCallStream_new = Inr (True, req)"
    and "arg_tuple req = PyTuple xs" "PyNull \<notin> set xs" "arg_dict req = PyDict []"
    and "mServices w (service (dest p)) = Some svc"
    and "access_allowed (g_env g) (mAccessLevel svc) (cl_session pr) = Inr True"
    and "method_name req \<notin> h_name ` set (mHandlers svc)"
    and "method_name req = pre @ 37 # rest" "rest = [] \<or> hd rest \<noteq> 37"
    and "{0, 37} \<inter> set (service (dest p) @ pre) = {}"
  shows "process_packet g c p w = Inl Undefined_behaviour"
proof -
  let ?name = "service (dest p)" and ?call = "\<lparr>ca_client = c, ca_tuple = xs, ca_byname = Map.empty\<rparr>"
  have call: "PyCallArgs c (arg_tuple req) (arg_dict req) = Inr ?call"
    using assms(7,9) by (simp add: PyCallArgs_def)
  let ?v = "w\<lparr>peers := (peers w)(c \<mapsto> pr\<lparr>m_lastNetTime := file_time (g_server g)\<rparr>)\<rparr>"
  let ?u = "?v\<lparr>peers := (peers ?v)(c \<mapsto> pr\<lparr>m_lastNetTime := file_time (g_server g), m_canThrow := True\<rparr>)\<rparr>"
  have "dispatch_request g c p req ?call ?v = Inr (Inl Method_not_found, ?u)"
    using assms(2,5,10,11)
    by (simp add: dispatch_no_handler [OF assms(12)] dispatch_request_def throwing_def set_can_throw_def cbind_def Dispatch_service_def clift_def)
  moreover have "log_candidates g p req ?call ?u = Inl Undefined_behaviour"
  proof -
    obtain ts where ts: "emap pyRepToString xs = Inr ts"
      using assms(8) pyRepToString_all by blast
    obtain more where "handler_candidates (?name @ str ''::'' @ method_name req) (method_name req) (mHandlers svc)
        = (?name @ str ''::'' @ pre) @ 37 # rest @ [32] @ more"
      by (simp add: handler_candidates_def assms(13))
    then obtain more where m: "mismatch_message (handler_candidates (?name @ str ''::'' @ method_name req) (method_name req)
        (mHandlers svc)) xs = Inr ((?name @ str ''::'' @ pre) @ 37 # rest @ [32] @ more)"
      by (simp add: mismatch_message_def ts)
    have "\<not> format_ok (c_str ((?name @ str ''::'' @ pre) @ 37 # rest @ [32] @ more))"
      by (rule format_bad) (use assms(14,15) in \<open>auto simp: hd_append\<close>)
    then show ?thesis
      using assms(1,5,10) m by (simp del: str_Cons append_assoc add: log_candidates_def DebugDispatch_service_def)
  qed
  ultimately have "Handle_CallReq g c p req ?v = Inl Undefined_behaviour"
    using call by (simp add: Handle_CallReq_def cbind_def ccatch_def clift_def request_failed_def)
  then have "DispatchPacket g c p ?v = Inl Undefined_behaviour"
    using assms(3,4,6) by (simp del: str_Cons add: DispatchPacket_def cbind_def)
  then show ?thesis
    using assms(2) by (simp add: process_packet_def packet_came_def cbind_def ccatch_def)
qed

theorem method_name_is_a_format_witness:
  "process_packet (sample_game\<lparr>g_test_server := True\<rparr>) 1
     (PyPacket_new\<lparr>msg_type := CALL_REQ, type_string := str ''macho.CallReq'',
        dest := PyAddress_new\<lparr>addr_type := Node, service := str ''config''\<rparr>,
        payload := PyTuple [PyTuple [PyInt 0, PySubStream None (Some (PyTuple [PyString [], PyString (str ''%n''), PyTuple [], PyDict []]))]]\<rparr>)
     (granted_once\<lparr>mServices := [str ''config'' \<mapsto> \<lparr>mAccessLevel = Access_None, mHandlers = bindable_handlers\<rparr>]\<rparr>)
   = Inl Undefined_behaviour"
proof -
  obtain pr where pr: "peers granted_once 1 = Some pr"
    using granted_once_ok(5) by blast
  show ?thesis
    by (rule method_name_is_a_format [where pr = pr and xs = "[]" and pre = "[]" and rest = "[110]"
          and req = "\<lparr>remoteObject = 0, remoteObjectStr = [], method_name = str ''%n'', arg_tuple = PyTuple [], arg_dict = PyDict []\<rparr>"
          and svc = "\<lparr>mAccessLevel = Access_None, mHandlers = bindable_handlers\<rparr>"])
      (auto simp: pr [unfolded One_nat_def] access_allowed_def bindable_handlers_def PyPacket_new_def PyAddress_new_def PyCallStream_Decode_def
        inner_stream_def decode_call_def decoded_stream_def test_def IsTuple_def IsString_def IsNone_def IsDict_def
        StringContent_def PyCallStream_new_def)
qed

end
