(* ===== verification/Floats.thy ===== *)
theory Floats
  imports PyRep
begin

text \<open>
  The floating point numbers of the code: the values of \<open>double\<close> and \<open>float\<close>, rounding to nearest with ties to
  even, and the operations that accounts use. A finite value is an integer number of units of
  \<open>2\<^sup>-\<^sup>1\<^sup>0\<^sup>7\<^sup>4\<close>, the smallest positive \<open>double\<close>; the sign of zero is left out, which no
  comparison sees.
\<close>

section \<open>Values and rounding\<close>

datatype fval = Fin int | Inf bool | NaN

text \<open>To a multiple of \<open>2 ^ k\<close>; then to \<open>p\<close> significant bits above the smallest quantum \<open>2 ^ q\<close>.\<close>

definition round_at :: "nat \<Rightarrow> int \<Rightarrow> int" where
  "round_at k x =
     (let d = x div 2 ^ k; r = x mod 2 ^ k
      in (if 2 * r < 2 ^ k \<or> 2 * r = 2 ^ k \<and> even d then d else d + 1) * 2 ^ k)"

definition round_to :: "nat \<Rightarrow> nat \<Rightarrow> int \<Rightarrow> int" where
  "round_to p q x = round_at (max q (bit_length (nat \<bar>x\<bar>) - p)) x"

definition finite_below :: "nat \<Rightarrow> int \<Rightarrow> fval" where
  "finite_below limit x = (if \<bar>x\<bar> < 2 ^ limit then Fin x else Inf (x < 0))"

definition to_double :: "int \<Rightarrow> fval" where
  "to_double x = finite_below 2098 (round_to 53 0 x)"

definition to_float :: "int \<Rightarrow> fval" where
  "to_float x = finite_below 1202 (round_to 24 925 x)"

fun float_of :: "fval \<Rightarrow> fval" where
  "float_of (Fin x) = to_float x"
| "float_of v = v"

fun add_with :: "(int \<Rightarrow> fval) \<Rightarrow> fval \<Rightarrow> fval \<Rightarrow> fval" where
  "add_with rnd (Fin x) (Fin y) = rnd (x + y)"
| "add_with rnd (Fin x) v = v"
| "add_with rnd NaN v = NaN"
| "add_with rnd (Inf s) NaN = NaN"
| "add_with rnd (Inf s) (Fin y) = Inf s"
| "add_with rnd (Inf s) (Inf t) = (if s = t then Inf s else NaN)"

text \<open>The product of two doubles; a product that is no whole number of units is rounded as it is.\<close>

definition mult_units :: "int \<Rightarrow> int \<Rightarrow> fval" where
  "mult_units x y = finite_below 2098 (round_to 53 1074 (x * y) div 2 ^ 1074)"

fun mult :: "fval \<Rightarrow> fval \<Rightarrow> fval" where
  "mult (Fin x) (Fin y) = mult_units x y"
| "mult NaN v = NaN"
| "mult v NaN = NaN"
| "mult (Inf s) (Inf t) = Inf (s \<noteq> t)"
| "mult (Inf s) (Fin y) = (if y = 0 then NaN else Inf (s \<noteq> (y < 0)))"
| "mult (Fin x) (Inf t) = (if x = 0 then NaN else Inf ((x < 0) \<noteq> t))"

fun fless :: "fval \<Rightarrow> fval \<Rightarrow> bool" where
  "fless (Fin x) (Fin y) \<longleftrightarrow> x < y"
| "fless (Fin x) (Inf t) \<longleftrightarrow> \<not> t"
| "fless (Inf s) (Fin y) \<longleftrightarrow> s"
| "fless (Inf s) (Inf t) \<longleftrightarrow> s \<and> \<not> t"
| "fless _ _ \<longleftrightarrow> False"

fun fneg :: "fval \<Rightarrow> fval" where
  "fneg (Fin x) = Fin (- x)"
| "fneg (Inf s) = Inf (\<not> s)"
| "fneg NaN = NaN"

text \<open>The operators of \<open>double\<close>, so that the code below reads as it does in C++.\<close>

instantiation fval :: "{zero, plus, uminus, ord}"
begin

definition zero_fval where "0 = Fin 0"
definition plus_fval where "a + b = add_with to_double a b"
definition uminus_fval where "- a = fneg a"
definition less_fval where "a < b \<longleftrightarrow> fless a b"
definition less_eq_fval where "a \<le> b \<longleftrightarrow> fless a b \<or> a = b \<and> a \<noteq> NaN"

instance ..

end

text \<open>What a \<open>double\<close> is, from its bits.\<close>

definition value_of :: "64 word \<Rightarrow> fval" where
  "value_of d =
     (if dbl_nan d then NaN
      else if dbl_infinite d then Inf (dbl_negative d)
      else let m = int (dbl_mantissa d * 2 ^ (max (dbl_field d) 1 - 1)) in Fin (if dbl_negative d then - m else m))"

text \<open>A whole number, as of ISK.\<close>

definition whole_units :: "int \<Rightarrow> int" where
  "whole_units n = n * 2 ^ 1074"

abbreviation of_whole :: "int \<Rightarrow> fval" where
  "of_whole n \<equiv> Fin (whole_units n)"

section \<open>Laws of rounding\<close>

lemma round_at_exact: "2 ^ k dvd x \<Longrightarrow> round_at k x = x"
  by (auto simp: round_at_def Let_def)

lemma round_at_ge:
  assumes "2 ^ k dvd m" "m \<le> x"
  shows "m \<le> round_at k x"
proof -
  have "m div 2 ^ k \<le> x div 2 ^ k"
    by (rule zdiv_mono1 [OF assms(2)]) simp
  then have "m div 2 ^ k * 2 ^ k \<le> x div 2 ^ k * 2 ^ k"
    by (rule mult_right_mono) simp
  then show ?thesis
    using assms(1) by (auto simp: round_at_def Let_def algebra_simps intro: order_trans)
qed

lemma round_at_le:
  assumes "2 ^ k dvd m" "x \<le> m"
  shows "round_at k x \<le> m"
proof (cases "x = m")
  case True
  then show ?thesis
    using round_at_exact [OF assms(1)] by simp
next
  case False
  obtain c where c: "m = 2 ^ k * c"
    using assms(1) by blast
  have "x div 2 ^ k < c"
  proof (rule ccontr)
    assume "\<not> x div 2 ^ k < c"
    then have "c * 2 ^ k \<le> x div 2 ^ k * 2 ^ k"
      by (intro mult_right_mono) auto
    also have "\<dots> = x - x mod 2 ^ k"
      by (simp add: minus_mod_eq_div_mult)
    also have "\<dots> \<le> x"
      by simp
    finally show False
      using c False assms(2) by (simp add: mult.commute)
  qed
  then have "n * 2 ^ k \<le> c * 2 ^ k" if "n \<le> x div 2 ^ k + 1" for n
    using that by (intro mult_right_mono) auto
  then show ?thesis
    using c by (auto simp: round_at_def Let_def mult.commute [of "2 ^ k" c])
qed

lemma bit_length_less: "n < 2 ^ bit_length n"
proof (induction n rule: bit_length.induct)
  case (1 n)
  then show ?case
    by (cases "n = 0") (auto simp: bit_length.simps [of n])
qed

lemma bit_length_ge:
  assumes "n \<noteq> 0"
  shows "2 ^ (bit_length n - 1) \<le> n"
proof (rule ccontr)
  assume "\<not> 2 ^ (bit_length n - 1) \<le> n"
  then have "bit_length n \<le> bit_length n - 1"
    by (intro bit_length_le) simp
  moreover have "0 < bit_length n"
    using assms by (subst bit_length.simps) simp
  ultimately show False
    by simp
qed

text \<open>A number with few enough bits is kept.\<close>

definition fits_bits :: "nat \<Rightarrow> nat \<Rightarrow> int \<Rightarrow> bool" where
  "fits_bits p q x \<longleftrightarrow> (\<exists>j. q \<le> j \<and> 2 ^ j dvd x \<and> \<bar>x\<bar> < 2 ^ (p + j))"

lemma round_to_exact: "fits_bits p q x \<Longrightarrow> round_to p q x = x"
proof -
  assume "fits_bits p q x"
  then obtain j where j: "q \<le> j" "2 ^ j dvd x" "\<bar>x\<bar> < 2 ^ (p + j)"
    by (auto simp: fits_bits_def)
  then have "nat \<bar>x\<bar> < 2 ^ (p + j)"
    by (simp add: nat_less_iff)
  then have "max q (bit_length (nat \<bar>x\<bar>) - p) \<le> j"
    using bit_length_le j(1) by fastforce
  then have "2 ^ max q (bit_length (nat \<bar>x\<bar>) - p) dvd x"
    using j(2) by (meson dvd_trans le_imp_power_dvd)
  then show ?thesis
    by (simp add: round_to_def round_at_exact)
qed

lemma abs_ge_power:
  assumes "1 \<le> p" "2 ^ q dvd x" "x \<noteq> 0"
  shows "2 ^ max q (bit_length (nat \<bar>x\<bar>) - p) \<le> \<bar>x\<bar>"
proof (cases "bit_length (nat \<bar>x\<bar>) - p \<le> q")
  case True
  then show ?thesis
    using assms(2,3) dvd_imp_le_int [of x "2 ^ q"] by (simp add: max_def)
next
  case False
  have "(2 :: int) ^ (bit_length (nat \<bar>x\<bar>) - p) \<le> 2 ^ (bit_length (nat \<bar>x\<bar>) - 1)"
    using assms(1) by (intro power_increasing) auto
  also have "\<dots> \<le> \<bar>x\<bar>"
    using bit_length_ge [of "nat \<bar>x\<bar>"] assms(3) by (simp add: le_nat_iff)
  finally show ?thesis
    using False by (simp add: max_def)
qed

text \<open>Rounding keeps the sign of what is a multiple of the quantum.\<close>

lemma round_to_sign:
  assumes "1 \<le> p" "2 ^ q dvd x"
  shows "round_to p q x < 0 \<longleftrightarrow> x < 0" "0 < round_to p q x \<longleftrightarrow> 0 < x"
proof -
  let ?k = "max q (bit_length (nat \<bar>x\<bar>) - p)"
  have neg: "round_to p q x < 0" if "x < 0"
  proof -
    have "x \<le> - (2 ^ ?k)"
      using abs_ge_power [OF assms] that by simp
    then have "round_to p q x \<le> - (2 ^ ?k)"
      unfolding round_to_def by (intro round_at_le) simp_all
    then show ?thesis
      by (smt (verit) zero_less_power)
  qed
  have pos: "0 < round_to p q x" if "0 < x"
  proof -
    have "2 ^ ?k \<le> x"
      using abs_ge_power [OF assms] that by simp
    then have "2 ^ ?k \<le> round_to p q x"
      unfolding round_to_def by (intro round_at_ge) simp_all
    then show ?thesis
      by (smt (verit) zero_less_power)
  qed
  have "round_to p q 0 = 0"
    by (simp add: round_to_def round_at_exact)
  then show "round_to p q x < 0 \<longleftrightarrow> x < 0" "0 < round_to p q x \<longleftrightarrow> 0 < x"
    using neg pos by (cases x "0 :: int" rule: linorder_cases; force)+
qed

lemma round_to_fits:
  assumes "1 \<le> p"
  shows "fits_bits p q (round_to p q x)"
proof -
  let ?k = "max q (bit_length (nat \<bar>x\<bar>) - p)" and ?r = "round_to p q x"
  have "\<bar>x\<bar> < 2 ^ bit_length (nat \<bar>x\<bar>)"
    using bit_length_less [of "nat \<bar>x\<bar>"] by (simp add: nat_less_iff)
  also have "(2 :: int) ^ bit_length (nat \<bar>x\<bar>) \<le> 2 ^ (p + ?k)"
    by (intro power_increasing) auto
  finally have b: "x \<le> 2 ^ (p + ?k)" "- (2 ^ (p + ?k)) \<le> x"
    by auto
  have "?r \<le> 2 ^ (p + ?k)" "- (2 ^ (p + ?k)) \<le> ?r"
    unfolding round_to_def using b by (auto intro!: round_at_le round_at_ge simp: power_add)
  moreover have d: "2 ^ ?k dvd ?r"
    by (simp add: round_to_def round_at_def Let_def)
  ultimately consider "\<bar>?r\<bar> < 2 ^ (p + ?k)" | "\<bar>?r\<bar> = 2 ^ (p + ?k)"
    by linarith
  then show ?thesis
  proof cases
    case 1
    then show ?thesis
      using d unfolding fits_bits_def by (intro exI [of _ ?k]) simp
  next
    case 2
    have "(2 :: int) ^ Suc ?k dvd 2 ^ (p + ?k)"
      using assms by (intro le_imp_power_dvd) simp
    then have "2 ^ Suc ?k dvd ?r"
      using 2 by (metis dvd_abs_iff)
    moreover have "\<bar>?r\<bar> < 2 ^ (p + Suc ?k)"
      using 2 by simp
    ultimately show ?thesis
      unfolding fits_bits_def by (intro exI [of _ "Suc ?k"]) simp
  qed
qed

lemma fits_bits_dvd: "fits_bits p q x \<Longrightarrow> 2 ^ q dvd x"
  by (auto simp: fits_bits_def intro: power_le_dvd)

text \<open>Whole numbers below \<open>2\<^sup>2\<^sup>4\<close> are \<open>float\<close>s.\<close>

definition float_value :: "int \<Rightarrow> bool" where
  "float_value x \<longleftrightarrow> fits_bits 24 925 x \<and> \<bar>x\<bar> < 2 ^ 1202"

lemma whole_float: "\<bar>n\<bar> < 2 ^ 24 \<Longrightarrow> float_value (whole_units n)"
proof -
  assume n: "\<bar>n\<bar> < 2 ^ 24"
  have a: "\<bar>whole_units n\<bar> = \<bar>n\<bar> * 2 ^ 1074"
    by (simp add: whole_units_def abs_mult)
  also have "\<dots> < 2 ^ 24 * 2 ^ 1074"
    using n by (intro mult_strict_right_mono) simp_all
  also have "(2 :: int) ^ 24 * 2 ^ 1074 = 2 ^ (24 + 1074)"
    by (rule power_add [symmetric])
  finally have "\<bar>whole_units n\<bar> < 2 ^ (24 + 1074)" .
  moreover have "(2 :: int) ^ (24 + 1074) \<le> 2 ^ 1202"
    by (rule power_increasing) simp_all
  moreover have "2 ^ 1074 dvd whole_units n"
    unfolding whole_units_def by (rule dvd_triv_right)
  ultimately show ?thesis
    unfolding float_value_def fits_bits_def by (intro conjI exI [of _ 1074]) simp_all
qed

lemma to_float_exact: "float_value x \<Longrightarrow> to_float x = Fin x"
  using round_to_exact [of 24 925 x] by (simp add: to_float_def finite_below_def float_value_def)

lemma to_float_cases: "(\<exists>y. to_float x = Fin y \<and> y = round_to 24 925 x \<and> float_value y) \<or> to_float x = Inf (round_to 24 925 x < 0)"
  using round_to_fits [of 24 925 x] by (auto simp: to_float_def finite_below_def float_value_def)

lemma float_value_dvd: "float_value x \<Longrightarrow> 2 ^ 925 dvd x"
  unfolding float_value_def by (blast dest: fits_bits_dvd)

lemma to_float_sign: "2 ^ 925 dvd x \<Longrightarrow> to_float x < 0 \<longleftrightarrow> x < 0"
  using round_to_sign [of 24 925 x] by (simp add: to_float_def finite_below_def less_fval_def zero_fval_def)

text \<open>A \<open>double\<close> with an integral value, as every \<open>int\<close> becomes.\<close>

lemma value_of_integral:
  assumes "dbl_integral d" "dbl_field d < 2047"
  shows "value_of d = of_whole (dbl_trunc d)"
proof -
  let ?m = "dbl_mantissa d" and ?f = "max (dbl_field d) 1" and ?e = "dbl_exponent d"
  have e: "?e = int ?f - 1075"
    by (simp add: dbl_exponent_def)
  define a where "a = (if 0 \<le> ?e then ?m * 2 ^ nat ?e else ?m div 2 ^ nat (- ?e))"
  have "?m * 2 ^ (?f - 1) = a * 2 ^ 1074"
  proof (cases "0 \<le> ?e")
    case True
    then have "?f - 1 = nat ?e + 1074"
      using e by linarith
    then show ?thesis
      using True by (simp only: a_def power_add if_True mult.assoc)
  next
    case False
    then have "?m = a * 2 ^ nat (- ?e)"
      using assms(1) by (auto simp: a_def dbl_integral_def)
    moreover have "nat (- ?e) + (?f - 1) = 1074"
      using False e by linarith
    ultimately show ?thesis
      by (metis power_add mult.assoc)
  qed
  moreover have "dbl_trunc d = (if dbl_negative d then - int a else int a)"
    by (simp add: dbl_trunc_def a_def Let_def)
  ultimately show ?thesis
    using assms(2) by (simp add: value_of_def dbl_nan_def dbl_infinite_def whole_units_def)
qed

lemma value_of_int: "\<bar>i\<bar> < 2 ^ 53 \<Longrightarrow> value_of (dbl_of_int i) = of_whole i"
  using value_of_integral dbl_of_int_exact by metis

end
