(* ===== verification/Items.thy ===== *)
theory Items
  imports Calls
begin

text \<open>
  Items and inventories, \<open>eve-server/inventory/InventoryItem.cpp\<close>, \<open>Inventory.cpp\<close> and
  \<open>ItemFactory.cpp\<close>: the objects that stand for items, the cache of the factory, the contents
  of containers with their index by flag, and the operations that move, split, merge, hand over
  and delete items, with the rows they write and the changes they announce. References are counted,
  so an object that is referred to is never gone; objects are numbered as they are made. Attributes,
  positions and names are left out, and of the classes of items only the base class is modelled:
  what loads an item that is not in the cache is a parameter.
\<close>

section \<open>Ranges of ids and flags\<close>

text \<open>The macros of \<open>eve-common/EVE_Defines.h\<close>.\<close>

abbreviation "minAgent \<equiv> 3000000 :: int32"
abbreviation "flagNone \<equiv> 0 :: int32"
abbreviation "flagHangar \<equiv> 4 :: int32"
abbreviation "flagCargoHold \<equiv> 5 :: int32"
abbreviation "flagSkill \<equiv> 7 :: int32"
abbreviation "flagStructureActive \<equiv> 144 :: int32"
abbreviation "locTemp \<equiv> 5 :: int32"
abbreviation "locJunkyard \<equiv> 10 :: int32"
abbreviation "locRAMItems \<equiv> 2003 :: int32"
abbreviation "category_Charge \<equiv> 8 :: 8 word"
abbreviation "category_Skill \<equiv> 16 :: 8 word"
abbreviation "category_Drone \<equiv> 18 :: 8 word"
abbreviation "type_InfrastructureHub \<equiv> 32458 :: int16"

definition IsRegionID :: "int32 \<Rightarrow> bool" where
  "IsRegionID i \<longleftrightarrow> 10000000 \<le> i \<and> i < 20000000"

definition IsSolarSystemID :: "int32 \<Rightarrow> bool" where
  "IsSolarSystemID i \<longleftrightarrow> 30000000 \<le> i \<and> i < 31999999"

definition IsStationID :: "int32 \<Rightarrow> bool" where
  "IsStationID i \<longleftrightarrow> 60000000 \<le> i \<and> i < 64000000"

definition IsTrading :: "int32 \<Rightarrow> bool" where
  "IsTrading i \<longleftrightarrow> 64000000 \<le> i \<and> i < 66000000"

definition IsCharacterID :: "int32 \<Rightarrow> bool" where
  "IsCharacterID i \<longleftrightarrow> 90000000 \<le> i \<and> i \<le> 97999999"

definition IsPlayerCorp :: "int32 \<Rightarrow> bool" where
  "IsPlayerCorp i \<longleftrightarrow> 98000000 \<le> i \<and> i < 99000000"

definition IsNPCCorp :: "int32 \<Rightarrow> bool" where
  "IsNPCCorp i \<longleftrightarrow> 1000000 \<le> i \<and> i < 1100000"

definition IsFaction :: "int32 \<Rightarrow> bool" where
  "IsFaction i \<longleftrightarrow> 500000 \<le> i \<and> i < 999999"

definition IsOfficeID :: "int32 \<Rightarrow> bool" where
  "IsOfficeID i \<longleftrightarrow> 100000000 \<le> i \<and> i < 110000000"

definition IsTempItem :: "int32 \<Rightarrow> bool" where
  "IsTempItem i \<longleftrightarrow> 110000000 \<le> i \<and> i < 130000000"

definition IsPlayerItem :: "int32 \<Rightarrow> bool" where
  "IsPlayerItem i \<longleftrightarrow> 140000000 < i \<and> i < 300000000"

definition IsNPC :: "int32 \<Rightarrow> bool" where
  "IsNPC i \<longleftrightarrow> 750000000 \<le> i \<and> i \<le> 760000000"

definition IsStaticMapItem :: "int32 \<Rightarrow> bool" where
  "IsStaticMapItem i \<longleftrightarrow> 10000000 \<le> i \<and> i < 89999999"

definition IsValidLocationID :: "int32 \<Rightarrow> bool" where
  "IsValidLocationID i \<longleftrightarrow>
     IsSolarSystemID i \<or> IsRegionID i \<or> IsStationID i \<or> IsPlayerItem i \<or> IsCharacterID i"

definition IsValidOwner :: "int32 \<Rightarrow> bool" where
  "IsValidOwner i \<longleftrightarrow>
     i = 1 \<or> 1000000 \<le> i \<and> i \<le> 1100000 \<or> 98000000 \<le> i \<and> i < 99000000 \<or> IsCharacterID i"

definition IsModuleSlot :: "int32 \<Rightarrow> bool" where
  "IsModuleSlot f \<longleftrightarrow> 11 \<le> f \<and> f \<le> 34 \<or> 92 \<le> f \<and> f \<le> 99 \<or> 125 \<le> f \<and> f \<le> 132"

definition IsCargoHoldFlag :: "int32 \<Rightarrow> bool" where
  "IsCargoHoldFlag f \<longleftrightarrow> f = 5 \<or> f = 122 \<or> f = 90 \<or> 133 \<le> f \<and> f \<le> 143"

section \<open>Items, inventories and the factory\<close>

type_synonym item_ref = nat

record item_type =
  type_id :: int16
  type_group :: int16
  type_category :: int8

text \<open>
  \<open>mContents\<close> is a \<open>std::map\<close>, in the order of the ids, and \<open>m_contentsByFlag\<close> a
  \<open>std::multimap\<close>, in the order of its keys and, for one key, of insertion. The key is the flag cut to
  a byte.
\<close>

record inventory =
  mContents :: "(int32 \<times> item_ref) list"
  m_contentsByFlag :: "(int8 \<times> item_ref) list"
  mContentsLoaded :: bool

record item =
  m_itemID :: int32
  m_type :: item_type
  i_owner :: int32
  i_location :: int32
  i_flag :: int32
  i_singleton :: bool
  i_quantity :: int32
  m_delete :: bool
  pInventory :: "inventory option"

text \<open>A row of the table \<open>entity\<close>.\<close>

record entity_row =
  r_type :: int16
  r_owner :: int32
  r_location :: int32
  r_flag :: int16
  r_singleton :: bool
  r_quantity :: int32

text \<open>
  \<open>item_log\<close> holds the notifications \<open>OnItemChange\<close>: to whom, about which item, and the old values
  by the numbers of \<open>Inv::Update\<close>.
\<close>

datatype item_change = Changed_owner int32 | Changed_location int32 | Changed_flag int32
  | Changed_stack int32 | Changed_singleton bool

record store =
  heap :: "item_ref \<Rightarrow> item option"
  made :: nat
  m_items :: "int32 \<Rightarrow> item_ref option"
  entity :: "int32 \<Rightarrow> entity_row option"
  next_entity :: int32
  item_log :: "(int32 \<times> int32 \<times> item_change list) list"

text \<open>
  What the code asks the rest of the server: the loader of items that are not in the cache, whether a
  new item can be made of a type, the configuration, and whether the console is shutting down.
\<close>

record item_server =
  load_item :: "int32 \<Rightarrow> store \<Rightarrow> item_ref option \<times> store"
  spawnable :: "item_type \<Rightarrow> bool"
  saveOnUpdate :: bool
  IsShutdown :: bool

definition deref :: "item_ref \<Rightarrow> store \<Rightarrow> item result" where
  "deref p st = (case heap st p of None \<Rightarrow> Inl Null_deref | Some it \<Rightarrow> Inr it)"

definition put_item :: "item_ref \<Rightarrow> item \<Rightarrow> store \<Rightarrow> store" where
  "put_item p it st = st\<lparr>heap := (heap st)(p \<mapsto> it)\<rparr>"

definition modify :: "item_ref \<Rightarrow> (item \<Rightarrow> item) \<Rightarrow> store \<Rightarrow> store result" where
  "modify p f st = ebind (deref p st) (\<lambda>it. Inr (put_item p (f it) st))"

section \<open>The factory and the database\<close>

definition GetItemRef :: "item_server \<Rightarrow> int32 \<Rightarrow> store \<Rightarrow> item_ref option \<times> store" where
  "GetItemRef env i st =
     (case m_items st i of
        Some p \<Rightarrow> (Some p, st)
      | None \<Rightarrow>
          if i < minAgent then (None, st)
          else
            (case load_item env i st of
               (None, st) \<Rightarrow> (None, st)
             | (Some p, st) \<Rightarrow>
                 (case m_items st i of
                    Some q \<Rightarrow> (Some q, st)
                  | None \<Rightarrow> (Some p, st\<lparr>m_items := (m_items st)(i \<mapsto> p)\<rparr>))))"

definition Factory_AddItem :: "item_ref \<Rightarrow> store \<Rightarrow> store result" where
  "Factory_AddItem p st =
     ebind (deref p st) (\<lambda>it.
       Inr (if IsTempItem (m_itemID it) \<or> m_itemID it < minAgent \<or> m_items st (m_itemID it) \<noteq> None then st
            else st\<lparr>m_items := (m_items st)(m_itemID it \<mapsto> p)\<rparr>))"

definition Factory_RemoveItem :: "int32 \<Rightarrow> store \<Rightarrow> store" where
  "Factory_RemoveItem i st = st\<lparr>m_items := (m_items st)(i := None)\<rparr>"

text \<open>The queries of \<open>ItemDB.cpp\<close>, as they change the table when they succeed.\<close>

definition UpdateLocation :: "int32 \<Rightarrow> int32 \<Rightarrow> int32 \<Rightarrow> store \<Rightarrow> store" where
  "UpdateLocation i loc flag st =
     st\<lparr>entity := (entity st)(i := map_option (\<lambda>r. r\<lparr>r_location := loc, r_flag := ucast flag\<rparr>) (entity st i))\<rparr>"

definition SaveItem :: "item \<Rightarrow> store \<Rightarrow> store" where
  "SaveItem it st =
     (if IsStaticMapItem (m_itemID it) then st
      else st\<lparr>entity := (entity st)(m_itemID it := map_option (\<lambda>r. r\<lparr>r_owner := i_owner it, r_location := i_location it,
                r_flag := ucast (i_flag it), r_singleton := i_singleton it, r_quantity := i_quantity it\<rparr>)
              (entity st (m_itemID it)))\<rparr>)"

definition DeleteItem :: "int32 \<Rightarrow> store \<Rightarrow> store" where
  "DeleteItem i st = (if IsStaticMapItem i then st else st\<lparr>entity := (entity st)(i := None)\<rparr>)"

definition NewItem :: "item \<Rightarrow> store \<Rightarrow> int32 \<times> store" where
  "NewItem it st =
     (next_entity st,
      st\<lparr>entity := (entity st)(next_entity st \<mapsto> \<lparr>r_type = type_id (m_type it), r_owner = i_owner it,
           r_location = i_location it, r_flag = ucast (i_flag it), r_singleton = i_singleton it,
           r_quantity = i_quantity it\<rparr>),
         next_entity := next_entity st + 1\<rparr>)"

definition SendItemChange :: "item_server \<Rightarrow> int32 \<Rightarrow> int32 \<Rightarrow> item_change list \<Rightarrow> store \<Rightarrow> store" where
  "SendItemChange env toID i changes st =
     (if IsNPCCorp toID \<or> toID = 1 \<or> IsFaction toID \<or> IsShutdown env \<or> changes = [] then st
      else if IsCharacterID toID \<or> IsPlayerCorp toID then st\<lparr>item_log := item_log st @ [(toID, i, changes)]\<rparr>
      else st)"

section \<open>Contents of a container\<close>

fun map_insert :: "int32 \<Rightarrow> item_ref \<Rightarrow> (int32 \<times> item_ref) list \<Rightarrow> (int32 \<times> item_ref) list" where
  "map_insert i p [] = [(i, p)]"
| "map_insert i p ((j, q) # xs) =
     (if j < i then (j, q) # map_insert i p xs else if j = i then (j, q) # xs else (i, p) # (j, q) # xs)"

fun multimap_emplace :: "int8 \<Rightarrow> item_ref \<Rightarrow> (int8 \<times> item_ref) list \<Rightarrow> (int8 \<times> item_ref) list" where
  "multimap_emplace k p [] = [(k, p)]"
| "multimap_emplace k p ((l, q) # xs) =
     (if l \<le> k then (l, q) # multimap_emplace k p xs else (k, p) # (l, q) # xs)"

definition SetFlag :: "item_server \<Rightarrow> item_ref \<Rightarrow> int32 \<Rightarrow> bool \<Rightarrow> store \<Rightarrow> store result" where
  "SetFlag env p flag notify st =
     ebind (deref p st) (\<lambda>it.
       if i_flag it = flag then Inr st
       else
         let st = UpdateLocation (m_itemID it) (i_location it) flag (put_item p (it\<lparr>i_flag := flag\<rparr>) st)
         in Inr (if notify then SendItemChange env (i_owner it) (m_itemID it) [Changed_flag (i_flag it)] st else st))"

text \<open>
  The skills of a character are all filed under one flag. What is put into an infrastructure hub is
  switched on.
\<close>

definition flag_key :: "item \<Rightarrow> item \<Rightarrow> int8" where
  "flag_key self it =
     ucast (if IsCharacterID (m_itemID self) \<and> type_category (m_type it) = category_Skill then flagSkill else i_flag it)"

definition AddItem :: "item_server \<Rightarrow> item_ref \<Rightarrow> item_ref \<Rightarrow> store \<Rightarrow> store result" where
  "AddItem env c p st =
     ebind (deref c st) (\<lambda>self.
       case pInventory self of
         None \<Rightarrow> Inr st
       | Some box \<Rightarrow>
           ebind (deref p st) (\<lambda>it.
             let box = box\<lparr>mContents := map_insert (m_itemID it) p (mContents box),
                           m_contentsByFlag := multimap_emplace (flag_key self it) p (m_contentsByFlag box)\<rparr>
             in ebind (modify c (\<lambda>self. self\<lparr>pInventory := Some box\<rparr>) st) (\<lambda>st.
                  if type_id (m_type self) = type_InfrastructureHub then SetFlag env p flagStructureActive True st
                  else Inr st)))"

definition RemoveItem :: "item_ref \<Rightarrow> item_ref \<Rightarrow> store \<Rightarrow> store result" where
  "RemoveItem c p st =
     ebind (deref c st) (\<lambda>self.
       case pInventory self of
         None \<Rightarrow> Inr st
       | Some box \<Rightarrow>
           ebind (deref p st) (\<lambda>it.
             let box = box\<lparr>mContents := filter (\<lambda>(i, _). i \<noteq> m_itemID it) (mContents box),
                           m_contentsByFlag := remove1 (ucast (i_flag it), p) (m_contentsByFlag box)\<rparr>
             in modify c (\<lambda>self. self\<lparr>pInventory := Some box\<rparr>) st))"

section \<open>Moving\<close>

text \<open>The location that an item is taken out of, or put into, when the id of the location is one that holds items.\<close>

definition at_location ::
    "item_server \<Rightarrow> (item_ref \<Rightarrow> item_ref \<Rightarrow> store \<Rightarrow> store result) \<Rightarrow> item_ref \<Rightarrow> store \<Rightarrow> store result" where
  "at_location env f p st =
     ebind (deref p st) (\<lambda>it.
       if IsValidLocationID (i_location it) then
         (case GetItemRef env (i_location it) st of
            (None, st) \<Rightarrow> Inr st
          | (Some c, st) \<Rightarrow> f c p st)
       else Inr st)"

text \<open>Taken out, altered, and put back, when the place changes.\<close>

definition replace ::
    "item_server \<Rightarrow> item_ref \<Rightarrow> bool \<Rightarrow> (item \<Rightarrow> item) \<Rightarrow> store \<Rightarrow> store result" where
  "replace env p moves f st =
     ebind (if moves then at_location env RemoveItem p st else Inr st) (\<lambda>st.
     ebind (modify p f st) (\<lambda>st.
       if moves then at_location env (AddItem env) p st else Inr st))"

definition moved_changes :: "item \<Rightarrow> item \<Rightarrow> item_change list" where
  "moved_changes old new =
     (if i_location new \<noteq> i_location old then [Changed_location (i_location old)] else []) @
     (if i_flag new \<noteq> i_flag old then [Changed_flag (i_flag old)] else [])"

definition Move :: "item_server \<Rightarrow> item_ref \<Rightarrow> int32 \<Rightarrow> int32 \<Rightarrow> bool \<Rightarrow> store \<Rightarrow> store result" where
  "Move env p new_location new_flag notify st =
     ebind (deref p st) (\<lambda>old.
       let moves = (new_location \<noteq> i_location old \<or> new_flag \<noteq> i_flag old) in
       if \<not> moves \<and> \<not> notify then Inr st
       else
         ebind (replace env p moves (\<lambda>it. it\<lparr>i_flag := new_flag, i_location := new_location\<rparr>) st) (\<lambda>st.
         ebind (deref p st) (\<lambda>it.
           if IsTempItem (m_itemID it) \<or> IsNPC (m_itemID it) then Inr st
           else
             let st = (if (i_location it = locRAMItems \<or> IsValidLocationID (i_location it)) \<and> \<not> m_delete it
                       then UpdateLocation (m_itemID it) (i_location it) (i_flag it) st else st)
             in Inr (if notify then SendItemChange env (i_owner it) (m_itemID it) (moved_changes old it) st else st))))"

definition Relocate :: "item_server \<Rightarrow> item_ref \<Rightarrow> int32 \<Rightarrow> int32 \<Rightarrow> store \<Rightarrow> store result" where
  "Relocate env p locID flag st =
     ebind (deref p st) (\<lambda>old.
       if locID = i_location old \<and> flag = i_flag old then Inr st
       else
         ebind (replace env p True (\<lambda>it. it\<lparr>i_flag := flag, i_location := locID\<rparr>) st) (\<lambda>st.
         ebind (deref p st) (\<lambda>it.
           let st = (if IsValidLocationID (i_location it)
                     then UpdateLocation (m_itemID it) (i_location it) (i_flag it) st else st)
           in Inr (SendItemChange env (i_owner it) (m_itemID it) (moved_changes old it) st))))"

text \<open>A new owner and a new place at once. The location was checked, so only the owner's part differs.\<close>

definition Donate ::
    "item_server \<Rightarrow> item_ref \<Rightarrow> int32 \<Rightarrow> int32 \<Rightarrow> int32 \<Rightarrow> bool \<Rightarrow> store \<Rightarrow> store result" where
  "Donate env p new_owner new_location new_flag notify st =
     ebind (deref p st) (\<lambda>old.
       if \<not> IsValidOwner new_owner \<or> \<not> IsValidLocationID new_location then Inr st
       else
         let moves = (new_location \<noteq> i_location old \<or> new_flag \<noteq> i_flag old) in
         if \<not> moves \<and> new_owner = i_owner old \<and> \<not> notify then Inr st
         else
           ebind (replace env p moves
                    (\<lambda>it. it\<lparr>i_flag := new_flag, i_owner := new_owner, i_location := new_location\<rparr>) st) (\<lambda>st.
           ebind (deref p st) (\<lambda>it.
             let st = SaveItem it st;
                 changes = (if new_owner \<noteq> i_owner old then [Changed_owner (i_owner old)] else []) @
                   (if new_location \<noteq> i_location old then [Changed_location (i_location old)] else []) @
                   (if new_flag \<noteq> i_flag old then [Changed_flag (i_flag old)] else [])
             in Inr (if \<not> notify then st
                     else let st = SendItemChange env (i_owner it) (m_itemID it) changes st
                          in if new_owner \<noteq> i_owner old then SendItemChange env (i_owner old) (m_itemID it) changes st
                             else st))))"

definition ChangeOwner :: "item_server \<Rightarrow> item_ref \<Rightarrow> int32 \<Rightarrow> bool \<Rightarrow> store \<Rightarrow> store result" where
  "ChangeOwner env p new_owner notify st =
     ebind (deref p st) (\<lambda>old.
       if new_owner = i_owner old then Inr st
       else
         let it = old\<lparr>i_owner := new_owner\<rparr>;
             st = put_item p it st;
             st = (if saveOnUpdate env then SaveItem it st else st);
             changes = [Changed_owner (i_owner old)]
         in Inr (if notify
                 then SendItemChange env (i_owner old) (m_itemID it) changes
                        (SendItemChange env new_owner (m_itemID it) changes st)
                 else st))"

section \<open>Quantities\<close>

text \<open>
  Deleting moves an item to the junkyard, which is no location that holds items, unless nobody owns it.
  Drones are only taken out of where they are, and there a container without an inventory is not
  expected.
\<close>

definition take_out :: "item_ref \<Rightarrow> item_ref \<Rightarrow> store \<Rightarrow> store result" where
  "take_out c p st =
     ebind (deref c st) (\<lambda>self. if pInventory self = None then Inl Null_deref else RemoveItem c p st)"

definition Delete :: "item_server \<Rightarrow> item_ref \<Rightarrow> store \<Rightarrow> store result" where
  "Delete env p st =
     ebind (modify p (\<lambda>it. it\<lparr>m_delete := True\<rparr>) st) (\<lambda>st.
     ebind (deref p st) (\<lambda>it.
     ebind (if type_category (m_type it) \<noteq> category_Drone \<and> \<not> IsNPCCorp (i_owner it) \<and> 1 < i_owner it
            then Move env p locJunkyard flagNone True st
            else at_location env take_out p st) (\<lambda>st.
       Inr (Factory_RemoveItem (m_itemID it) (DeleteItem (m_itemID it) st)))))"

definition SetQuantity :: "item_server \<Rightarrow> item_ref \<Rightarrow> int32 \<Rightarrow> bool \<Rightarrow> bool \<Rightarrow> store \<Rightarrow> (bool \<times> store) result" where
  "SetQuantity env p qty notify deleteOnZero st =
     ebind (deref p st) (\<lambda>it.
       if i_singleton it then Inr (False, st)
       else
         let st = put_item p (it\<lparr>i_quantity := qty\<rparr>) st;
             st = (if notify \<or> IsCargoHoldFlag (i_flag it) \<and> type_category (m_type it) = category_Charge
                   then SendItemChange env (i_owner it) (m_itemID it) [Changed_stack (i_quantity it)] st else st)
         in if sint qty < 1
            then ebind (if deleteOnZero then Delete env p st else Inr st) (\<lambda>st. Inr (True, st))
            else Inr (True, if saveOnUpdate env then SaveItem (it\<lparr>i_quantity := qty\<rparr>) st else st))"

text \<open>The sum of two \<open>int32\<close>, which must not overflow.\<close>

definition int_sum :: "int32 \<Rightarrow> int32 \<Rightarrow> int32 result" where
  "int_sum a b =
     (let s = sint a + sint b in if - (2 ^ 31) \<le> s \<and> s < 2 ^ 31 then Inr (word_of_int s) else Inl Undefined_behaviour)"

definition AlterQuantity :: "item_server \<Rightarrow> item_ref \<Rightarrow> int32 \<Rightarrow> bool \<Rightarrow> store \<Rightarrow> (bool \<times> store) result" where
  "AlterQuantity env p qty notify st =
     (if qty = 0 then Inr (False, st)
      else
        ebind (deref p st) (\<lambda>it.
        ebind (int_sum (i_quantity it) qty) (\<lambda>new_qty.
          if sint new_qty < 0 then ebind (Delete env p st) (\<lambda>st. Inr (False, st))
          else SetQuantity env p new_qty notify True st)))"

definition ChangeSingleton :: "item_server \<Rightarrow> item_ref \<Rightarrow> bool \<Rightarrow> bool \<Rightarrow> store \<Rightarrow> store result" where
  "ChangeSingleton env p singleton notify st =
     ebind (deref p st) (\<lambda>old.
       if singleton = i_singleton old then Inr st
       else
         let it = old\<lparr>i_singleton := singleton, i_quantity := (if singleton \<and> 1 < sint (i_quantity old) then - 1 else i_quantity old)\<rparr>;
             st = put_item p it st;
             st = (if saveOnUpdate env then SaveItem it st else st)
         in Inr (if notify then SendItemChange env (i_owner it) (m_itemID it) [Changed_singleton (i_singleton old)] st else st))"

text \<open>A new item, in the database, in memory and in the cache.\<close>

definition SpawnItem :: "item_server \<Rightarrow> item \<Rightarrow> store \<Rightarrow> (item_ref option \<times> store) result" where
  "SpawnItem env it st =
     (if \<not> spawnable env (m_type it) then Inr (None, st)
      else
        let (i, st) = NewItem it st in
        if i_quantity it = 0 then Inr (None, st)
        else
          let p = made st;
              st = st\<lparr>heap := (heap st)(p \<mapsto> it\<lparr>m_itemID := i\<rparr>), made := Suc p\<rparr>
          in ebind (Factory_AddItem p st) (\<lambda>st. Inr (Some p, st)))"

definition Split :: "item_server \<Rightarrow> item_ref \<Rightarrow> int32 \<Rightarrow> bool \<Rightarrow> bool \<Rightarrow> store \<Rightarrow> (item_ref option \<times> store) result" where
  "Split env p qty notify silent st =
     (if sint qty < 1 then Inr (None, st)
      else
        ebind (AlterQuantity env p (- qty) notify st) (\<lambda>(ok, st).
          if \<not> ok then Inr (None, st)
          else
            ebind (deref p st) (\<lambda>it.
            ebind (SpawnItem env \<lparr>m_itemID = 0, m_type = m_type it, i_owner = i_owner it, i_location = locTemp,
                     i_flag = i_flag it, i_singleton = False, i_quantity = qty, m_delete = False, pInventory = None\<rparr> st)
              (\<lambda>(q, st).
                case q of
                  None \<Rightarrow> Inr (None, st)
                | Some q \<Rightarrow>
                    if silent then Inr (Some q, st)
                    else ebind (deref p st) (\<lambda>it.
                         ebind (Move env q (i_location it) (i_flag it) notify st) (\<lambda>st. Inr (Some q, st)))))))"

text \<open>
  \<open>Merge\<close> takes from the other item first. A message to the owner when that fails is left out, and so
  is the one when the second step fails.
\<close>

definition Merge :: "item_server \<Rightarrow> env \<Rightarrow> item_ref \<Rightarrow> item_ref option \<Rightarrow> int32 \<Rightarrow> bool \<Rightarrow> (store, bool) comp" where
  "Merge env py p to_merge qty notify st =
     (case to_merge of
        None \<Rightarrow> cret False st
      | Some q \<Rightarrow>
          ebind (deref p st) (\<lambda>it. ebind (deref q st) (\<lambda>other.
            if i_singleton it \<or> i_singleton other then throw_CustomError py (str ''You cannot stack assembled items.'') st
            else if type_id (m_type it) \<noteq> type_id (m_type other) then cret False st
            else
              let qty = (if sint qty < 1 then i_quantity other else qty)
              in ebind (AlterQuantity env q (- qty) notify st) (\<lambda>(ok, st).
                   if \<not> ok then cret False st
                   else ebind (AlterQuantity env p qty notify st) (\<lambda>(ok, st). cret ok st)))))"

text \<open>
  \<open>StackAll\<close>: the first stack of a type takes the quantities of the later ones, which are deleted
  after the walk.
\<close>

fun stack_loop ::
    "item_server \<Rightarrow> int32 \<Rightarrow> (int8 \<times> item_ref) list \<Rightarrow> (int16 \<times> item_ref) list \<Rightarrow> store \<Rightarrow>
       (item_ref list \<times> store) result" where
  "stack_loop env owner [] types st = Inr ([], st)"
| "stack_loop env owner ((_, p) # xs) types st =
     ebind (deref p st) (\<lambda>it.
       if IsModuleSlot (i_flag it) \<or> i_singleton it \<or> \<not> (owner = 0 \<or> owner = i_owner it)
       then stack_loop env owner xs types st
       else
         (case map_of types (type_id (m_type it)) of
            None \<Rightarrow> stack_loop env owner xs ((type_id (m_type it), p) # types) st
          | Some q \<Rightarrow>
              ebind (deref q st) (\<lambda>first.
              ebind (int_sum (i_quantity first) (i_quantity it)) (\<lambda>qty.
              ebind (SetQuantity env q qty True False st) (\<lambda>(_, st).
              ebind (stack_loop env owner xs types st) (\<lambda>(dels, st). Inr (p # dels, st)))))))"

fun delete_all :: "item_server \<Rightarrow> item_ref list \<Rightarrow> store \<Rightarrow> store result" where
  "delete_all env [] st = Inr st"
| "delete_all env (p # ps) st = ebind (Delete env p st) (delete_all env ps)"

definition range_of :: "int32 \<Rightarrow> inventory \<Rightarrow> (int8 \<times> item_ref) list" where
  "range_of flag box = filter (\<lambda>(k, _). k = ucast flag) (m_contentsByFlag box)"

definition StackAll :: "item_server \<Rightarrow> item_ref \<Rightarrow> int32 \<Rightarrow> int32 \<Rightarrow> store \<Rightarrow> store result" where
  "StackAll env c locFlag owner st =
     ebind (deref c st) (\<lambda>self.
       case pInventory self of
         None \<Rightarrow> Inl Null_deref
       | Some box \<Rightarrow>
           ebind (stack_loop env owner (range_of locFlag box) [] st) (\<lambda>(dels, st). delete_all env dels st))"

end
