(* ===== verification/Accounts.thy ===== *)
theory Accounts
  imports Floats Items Login
begin

text \<open>
  Money: \<open>eve-server/account/AccountService.cpp\<close> and \<open>AccountDB.cpp\<close>, \<open>Character::balance\<close> and \<open>AlterBalance\<close> of
  \<open>eve-server/character/Character.cpp\<close>: the wallets of the characters that are online, which are \<open>float\<close>s, the
  rows of the others, the divisions of corporations, the journal, and transfers with corporation taxes.
  An exception carries its name and its numbers, and what was done before it stays done.
\<close>

section \<open>The bank\<close>

text \<open>The macros of \<open>eve-common/EVE_Defines.h\<close> and the numbers of \<open>eve-common/EVE_Wallet.h\<close>.\<close>

definition IsCorp :: "int32 \<Rightarrow> bool" where
  "IsCorp i \<longleftrightarrow> 1000000 \<le> i \<and> i \<le> 1100000 \<or> 98000000 \<le> i \<and> i < 99000000"

definition IsAUR :: "int16 \<Rightarrow> bool" where
  "IsAUR k \<longleftrightarrow> 1200 \<le> k \<and> k \<le> 1206"

definition IsDustKey :: "int16 \<Rightarrow> bool" where
  "IsDustKey k \<longleftrightarrow> 10000 \<le> k"

datatype credit = ISK | AURUM | MPLEX

abbreviation "Cash \<equiv> 1000 :: int16"
abbreviation "BountyPrize \<equiv> 17 :: int8"
abbreviation "AgentMissionReward \<equiv> 33 :: int8"
abbreviation "AgentMissionTimeBonusReward \<equiv> 34 :: int8"
abbreviation "BountyPrizes \<equiv> 85 :: int8"
abbreviation "CorporationTaxNpcBounties \<equiv> 92 :: int8"
abbreviation "CorporationTaxAgentRewards \<equiv> 93 :: int8"
abbreviation "CorporationTaxAgentBonusRewards \<equiv> 94 :: int8"
abbreviation "PlayerDonation \<equiv> 10 :: int8"
abbreviation "CorporationAccountWithdrawal \<equiv> 37 :: int8"
abbreviation "SkipLog \<equiv> 255 :: int8"

definition credit_of :: "int16 \<Rightarrow> credit" where
  "credit_of k = (if IsAUR k then AURUM else if IsDustKey k then MPLEX else ISK)"

record wallet =
  w_isk :: fval
  w_aur :: fval

record journal_entry =
  j_owner :: int32
  j_type :: int8
  j_from :: int32
  j_to :: int32
  j_credit :: credit
  j_key :: int16
  j_amount :: fval
  j_balance :: fval
  j_reference :: int32

text \<open>
  \<open>online\<close> are the characters with a client, \<open>chr\<close> the table of characters and \<open>divisions\<close> the one of wallet
  divisions; \<open>notices\<close> are the notifications \<open>OnAccountChange\<close>, with the owner and the new balance.
\<close>

record bank =
  online :: "int32 \<Rightarrow> wallet option"
  chr :: "int32 \<Rightarrow> wallet option"
  divisions :: "int32 \<Rightarrow> (int16 \<Rightarrow> fval) option"
  journal :: "journal_entry list"
  notices :: "(int32 \<times> fval) list"

text \<open>
  The rest of the server. \<open>in_column\<close> is what a column holds after a number was written with \<open>%f\<close>, and \<open>in_cents\<close>
  with \<open>%.2f\<close>; \<open>None\<close>, when the query fails, as for \<open>nan\<close>. The tax rates are those of the client and of the
  database.
\<close>

record accounts =
  in_column :: "fval \<Rightarrow> fval option"
  in_cents :: "fval \<Rightarrow> fval option"
  tax_online :: "int32 \<Rightarrow> fval"
  corp_online :: "int32 \<Rightarrow> int32"
  in_creation :: "int32 \<Rightarrow> bool"
  tax_row :: "int32 \<Rightarrow> fval"
  corp_row :: "int32 \<Rightarrow> int32"
  BountyPayoutDelayed :: bool
  TaxAmount :: int32
  TaxedAmount :: int32

datatype money_error = NotEnoughMoney fval fval | NotEnoughMoneyCorp int32 fval fval | Invalid_characters

type_synonym 'a pay = "bank \<Rightarrow> (money_error + 'a) \<times> bank"

definition pret :: "'a \<Rightarrow> 'a pay" where
  "pret x b = (Inr x, b)"

definition pbind :: "'a pay \<Rightarrow> ('a \<Rightarrow> 'b pay) \<Rightarrow> 'b pay" where
  "pbind m f b = (case m b of (Inl e, b) \<Rightarrow> (Inl e, b) | (Inr x, b) \<Rightarrow> f x b)"

definition praise :: "money_error \<Rightarrow> 'a pay" where
  "praise e b = (Inl e, b)"

lemma pay_simps [simp]:
  "pret x b = (Inr x, b)" "praise e b = (Inl e, b)"
  "pbind (pret x) f = f x" "pbind (praise e) f = praise e"
  by (auto simp: pret_def praise_def pbind_def)

section \<open>Characters\<close>

fun purse :: "credit \<Rightarrow> wallet \<Rightarrow> fval" where
  "purse ISK w = w_isk w"
| "purse AURUM w = w_aur w"
| "purse MPLEX w = Fin 0"

text \<open>The cap, as the \<open>float\<close> next to a trillion.\<close>

definition cap :: fval where
  "cap = float_of (of_whole 1000000000000)"

fun credited :: "credit \<Rightarrow> fval \<Rightarrow> wallet \<Rightarrow> wallet" where
  "credited ISK amount w = (let s = add_with to_float (w_isk w) amount in w\<lparr>w_isk := (if cap < s then cap else s)\<rparr>)"
| "credited AURUM amount w = w\<lparr>w_aur := add_with to_float (w_aur w) amount\<rparr>"
| "credited MPLEX amount w = w"

definition SaveCharacter :: "accounts \<Rightarrow> int32 \<Rightarrow> wallet \<Rightarrow> bank \<Rightarrow> bank" where
  "SaveCharacter env c w b =
     (case (in_column env (w_isk w), in_column env (w_aur w)) of
        (Some x, Some y) \<Rightarrow> b\<lparr>chr := (chr b)(c := map_option (\<lambda>_. \<lparr>w_isk = x, w_aur = y\<rparr>) (chr b c))\<rparr>
      | _ \<Rightarrow> b)"

definition AlterBalance :: "accounts \<Rightarrow> int32 \<Rightarrow> wallet \<Rightarrow> fval \<Rightarrow> credit \<Rightarrow> unit pay" where
  "AlterBalance env c w amount type =
     (if amount = Fin 0 then pret ()
      else if add_with to_float (purse type w) amount < 0 then praise (NotEnoughMoney (- amount) (purse type w))
      else
        let w' = credited type amount w
        in (\<lambda>b. (Inr (), SaveCharacter env c w' (b\<lparr>online := (online b)(c \<mapsto> w'), notices := notices b @ [(c, purse type w')]\<rparr>))))"

text \<open>\<open>AddBalance\<close> of the client takes a \<open>double\<close> and passes a \<open>float\<close> on.\<close>

definition AddBalance :: "accounts \<Rightarrow> int32 \<Rightarrow> wallet \<Rightarrow> fval \<Rightarrow> credit \<Rightarrow> unit pay" where
  "AddBalance env c w amount type = AlterBalance env c w (float_of amount) type"

definition OfflineFundXfer :: "accounts \<Rightarrow> int32 \<Rightarrow> fval \<Rightarrow> credit \<Rightarrow> fval pay" where
  "OfflineFundXfer env c amount type b =
     (if type = MPLEX then (Inr (Fin 0), b)
      else
        let new = (case chr b c of None \<Rightarrow> Fin 0 | Some w \<Rightarrow> purse type w) + amount
        in (Inr new,
            case (chr b c, in_column env new) of
              (Some w, Some v) \<Rightarrow>
                b\<lparr>chr := (chr b)(c \<mapsto> (if type = ISK then w\<lparr>w_isk := v\<rparr> else w\<lparr>w_aur := v\<rparr>))\<rparr>
            | _ \<Rightarrow> b))"

section \<open>The journal and the corporations\<close>

definition AddJournalEntry :: "accounts \<Rightarrow> journal_entry \<Rightarrow> unit pay" where
  "AddJournalEntry env e b =
     (Inr (),
      if j_type e = SkipLog then b
      else
        (case (in_cents env (j_amount e), in_cents env (j_balance e)) of
           (Some x, Some y) \<Rightarrow>
             b\<lparr>journal := journal b @ [e\<lparr>j_key := (if j_key e = 0 then Cash else j_key e), j_amount := x, j_balance := y\<rparr>]\<rparr>
         | _ \<Rightarrow> b))"

definition division_key :: "int16 \<Rightarrow> bool" where
  "division_key k \<longleftrightarrow> 1000 \<le> k \<and> k \<le> 1006"

definition GetCorpBalance :: "int32 \<Rightarrow> int16 \<Rightarrow> bank \<Rightarrow> fval" where
  "GetCorpBalance corp key b =
     (case divisions b corp of Some d \<Rightarrow> if division_key key then d key else Fin 0 | None \<Rightarrow> Fin 0)"

definition UpdateCorpBalance :: "accounts \<Rightarrow> int32 \<Rightarrow> int16 \<Rightarrow> fval \<Rightarrow> bank \<Rightarrow> bank" where
  "UpdateCorpBalance env corp key amount b =
     (case (divisions b corp, in_cents env amount) of
        (Some d, Some v) \<Rightarrow> if division_key key then b\<lparr>divisions := (divisions b)(corp \<mapsto> d(key := v))\<rparr> else b
      | _ \<Rightarrow> b)"

definition HandleCorpTransaction ::
    "accounts \<Rightarrow> int32 \<Rightarrow> int8 \<Rightarrow> int32 \<Rightarrow> int32 \<Rightarrow> credit \<Rightarrow> int16 \<Rightarrow> fval \<Rightarrow> int32 \<Rightarrow> unit pay" where
  "HandleCorpTransaction env corp type from to currency key amount ref b =
     (let balance = GetCorpBalance corp key b in
      if amount < 0 \<and> balance < - amount then (Inl (NotEnoughMoneyCorp corp (- amount) balance), b)
      else
        let new = balance + amount;
            b = UpdateCorpBalance env corp key new b;
            b = b\<lparr>notices := notices b @ [(corp, new)]\<rparr>
        in AddJournalEntry env \<lparr>j_owner = corp, j_type = type, j_from = from, j_to = to, j_credit = currency,
             j_key = key, j_amount = amount, j_balance = new, j_reference = ref\<rparr> b)"

section \<open>Transfers\<close>

text \<open>One side of a transfer with a character: the wallet if it is online, else its row.\<close>

definition side :: "accounts \<Rightarrow> int32 \<Rightarrow> fval \<Rightarrow> credit \<Rightarrow> fval pay" where
  "side env c amount currency b =
     (case online b c of
        None \<Rightarrow> OfflineFundXfer env c amount currency b
      | Some w \<Rightarrow>
          pbind (AddBalance env c w amount currency)
            (\<lambda>_ b. (Inr (case online b c of None \<Rightarrow> Fin 0 | Some w \<Rightarrow> purse currency w), b)) b)"

definition from_side ::
    "accounts \<Rightarrow> int32 \<Rightarrow> int32 \<Rightarrow> fval \<Rightarrow> int8 \<Rightarrow> int32 \<Rightarrow> int16 \<Rightarrow> int32 \<Rightarrow> unit pay" where
  "from_side env fromID toID amount type ref key agent =
     (if IsCharacterID fromID then
        pbind (side env fromID (- amount) (credit_of key)) (\<lambda>new.
          AddJournalEntry env \<lparr>j_owner = fromID, j_type = type, j_from = fromID, j_to = toID, j_credit = credit_of key,
            j_key = key, j_amount = - amount, j_balance = new, j_reference = ref\<rparr>)
      else if IsPlayerCorp fromID then
        HandleCorpTransaction env fromID type (if agent \<noteq> 0 then agent else fromID) toID (credit_of key) key (- amount) ref
      else pret ())"

text \<open>The other side says whether the transfer may be taxed: only one to a character may.\<close>

definition to_side ::
    "accounts \<Rightarrow> int32 \<Rightarrow> int32 \<Rightarrow> fval \<Rightarrow> int8 \<Rightarrow> int32 \<Rightarrow> int16 \<Rightarrow> int32 \<Rightarrow> bool pay" where
  "to_side env fromID toID amount type ref key agent =
     (let e = (\<lambda>new. \<lparr>j_owner = toID, j_type = type, j_from = fromID, j_to = toID, j_credit = credit_of key,
                 j_key = key, j_amount = amount, j_balance = new, j_reference = ref\<rparr>)
      in if IsCharacterID toID then
           pbind (side env toID amount (credit_of key)) (\<lambda>new. pbind (AddJournalEntry env (e new)) (\<lambda>_. pret True))
         else if IsPlayerCorp toID then
           pbind (HandleCorpTransaction env toID type fromID (if agent \<noteq> 0 then agent else toID) (credit_of key) key amount ref)
             (\<lambda>_. pret False)
         else pbind (AddJournalEntry env (e (Fin 0))) (\<lambda>_. pret False))"

text \<open>The tax of a payment, as a \<open>float\<close>, with the corporation that gets it.\<close>

definition corp_tax :: "accounts \<Rightarrow> int32 \<Rightarrow> fval \<Rightarrow> bank \<Rightarrow> fval \<times> int32" where
  "corp_tax env toID amount b =
     (if online b toID \<noteq> None then (float_of (mult (tax_online env toID) amount), corp_online env toID)
      else if IsCorp toID then (Fin 0, toID)
      else (float_of (mult (tax_row env toID) amount), corp_row env toID))"

definition tax_type :: "int8 \<Rightarrow> int8 option" where
  "tax_type type =
     (if type = BountyPrize \<or> type = BountyPrizes then Some CorporationTaxNpcBounties
      else if type = AgentMissionReward then Some CorporationTaxAgentRewards
      else if type = AgentMissionTimeBonusReward then Some CorporationTaxAgentBonusRewards
      else None)"

definition untaxed :: "accounts \<Rightarrow> int32 \<Rightarrow> fval \<Rightarrow> int8 \<Rightarrow> bank \<Rightarrow> bool" where
  "untaxed env toID amount type b \<longleftrightarrow>
     online b toID \<noteq> None \<and> in_creation env toID \<or>
     (type = BountyPrize \<or> type = BountyPrizes) \<and> BountyPayoutDelayed env \<and> amount < of_whole (uint (TaxedAmount env))"

lemma corp_no_character: "IsCorp i \<Longrightarrow> \<not> IsCharacterID i"
  by (auto simp: IsCorp_def IsCharacterID_def word_le_nat_alt word_less_nat_alt)

function TransferFunds ::
    "accounts \<Rightarrow> int32 \<Rightarrow> int32 \<Rightarrow> fval \<Rightarrow> int8 \<Rightarrow> int32 \<Rightarrow> int16 \<Rightarrow> int16 \<Rightarrow> int32 \<Rightarrow> unit pay" where
  "TransferFunds env fromID toID amount type ref fromKey toKey agent =
     pbind (from_side env fromID toID amount type ref fromKey agent) (\<lambda>_.
     pbind (to_side env fromID toID amount type ref toKey agent) (\<lambda>taxable b.
       if \<not> taxable \<or> untaxed env toID amount type b then (Inr (), b)
       else
         let (tax, corp) = corp_tax env toID amount b in
         if \<not> IsCorp corp \<or> \<not> IsCharacterID toID \<or> tax < float_of (of_whole (uint (TaxAmount env))) then (Inr (), b)
         else
           (case tax_type type of
              None \<Rightarrow> (Inr (), b)
            | Some t \<Rightarrow> TransferFunds env toID corp tax t ref Cash Cash 0 b)))"
  by pat_completeness auto

termination
  by (relation "measure (\<lambda>(env, fromID, toID, _). if IsCharacterID toID then 1 else 0)") (auto dest: corp_no_character)

declare TransferFunds.simps [simp del]

section \<open>The calls\<close>

definition bad_reason :: "bytes \<Rightarrow> bool" where
  "bad_reason reason \<longleftrightarrow> reason \<noteq> [] \<and> list_ex (icontains reason) badChars"

text \<open>The amount is a \<open>double\<close> as the client sent it, or an \<open>int\<close> that becomes one.\<close>

definition GiveCash :: "accounts \<Rightarrow> int32 \<Rightarrow> int32 \<Rightarrow> 64 word \<Rightarrow> bytes \<Rightarrow> unit pay" where
  "GiveCash env charID toID amount reason =
     (if bad_reason reason then praise Invalid_characters
      else TransferFunds env charID toID (value_of amount) PlayerDonation charID Cash Cash 0)"

definition GiveCash_int :: "accounts \<Rightarrow> int32 \<Rightarrow> int32 \<Rightarrow> int32 \<Rightarrow> bytes \<Rightarrow> unit pay" where
  "GiveCash_int env charID toID amount reason = GiveCash env charID toID (dbl_of_int (sint amount)) reason"

definition GiveCashFromCorpAccount ::
    "accounts \<Rightarrow> int32 \<Rightarrow> int32 \<Rightarrow> int32 \<Rightarrow> 64 word \<Rightarrow> int32 \<Rightarrow> int16 option \<Rightarrow> bytes option \<Rightarrow> unit pay" where
  "GiveCashFromCorpAccount env corpID charID toID amount fromAcctKey toAccountKey reason =
     (if (case reason of None \<Rightarrow> False | Some r \<Rightarrow> bad_reason r) then praise Invalid_characters
      else TransferFunds env corpID toID (value_of amount) CorporationAccountWithdrawal charID (ucast fromAcctKey)
        (case toAccountKey of None \<Rightarrow> Cash | Some k \<Rightarrow> k) charID)"

definition GetCashBalance :: "int32 \<Rightarrow> int32 \<Rightarrow> bool \<Rightarrow> int16 \<Rightarrow> bank \<Rightarrow> fval" where
  "GetCashBalance corpID charID isCorpWallet key b =
     (if isCorpWallet then GetCorpBalance corpID key b
      else (case online b charID of None \<Rightarrow> Fin 0
            | Some w \<Rightarrow> purse (if key = 1200 then AURUM else if key = 10000 then MPLEX else ISK) w))"

section \<open>Wallets stay in bounds\<close>

definition isk_ok :: "fval \<Rightarrow> bool" where
  "isk_ok v \<longleftrightarrow> (\<exists>x. v = Fin x \<and> float_value x \<and> 0 \<le> x \<and> \<not> cap < v)"

definition wallets_ok :: "bank \<Rightarrow> bool" where
  "wallets_ok b \<longleftrightarrow> (\<forall>c w. online b c = Some w \<longrightarrow> isk_ok (w_isk w))"

lemma less_fval_simps [simp]:
  "Fin x < Fin y \<longleftrightarrow> x < y" "Fin x < Inf t \<longleftrightarrow> \<not> t" "Inf s < Fin y \<longleftrightarrow> s" "\<not> NaN < v" "\<not> v < NaN"
  "Fin x < 0 \<longleftrightarrow> x < 0" "Inf s < 0 \<longleftrightarrow> s" "\<not> v < Inf True"
  by (cases v; simp add: less_fval_def zero_fval_def)+

lemma uminus_fval_simps [simp]: "- Fin x = Fin (- x)" "- Inf s = Inf (\<not> s)" "- NaN = NaN"
  by (simp_all add: uminus_fval_def)

lemma cap_value: "\<exists>c. cap = Fin c \<and> float_value c \<and> 0 < c \<and> whole_units (2 ^ 24) \<le> c"
proof -
  let ?x = "whole_units 1000000000000"
  have d: "2 ^ 925 dvd ?x"
    unfolding whole_units_def by (rule dvd_mult, rule le_imp_power_dvd) simp
  have pos: "0 < ?x"
    by (simp add: whole_units_def)
  then have r: "0 < round_to 24 925 ?x"
    using round_to_sign(2) [OF _ d] by simp
  have "?x \<le> 2 ^ 40 * 2 ^ 1074"
    unfolding whole_units_def by (rule mult_right_mono) simp_all
  also have "(2 :: int) ^ 40 * 2 ^ 1074 = 2 ^ 1114"
    by (simp only: power_add [symmetric]) simp
  finally have le: "?x \<le> 2 ^ 1114" .
  then have "nat \<bar>?x\<bar> < 2 ^ 1115"
    using pos by (simp add: nat_less_iff)
  then have k: "max 925 (bit_length (nat \<bar>?x\<bar>) - 24) \<le> 1098"
    using bit_length_le [of "nat \<bar>?x\<bar>" 1115] by simp
  have "(2 :: int) ^ 24 * 2 ^ 1074 = 2 ^ 1098"
    by (simp only: power_add [symmetric]) simp
  then have w: "whole_units (2 ^ 24) = 2 ^ 1098"
    by (simp only: whole_units_def)
  have "whole_units (2 ^ 24) \<le> ?x"
    unfolding whole_units_def by (rule mult_right_mono) simp_all
  then have ge: "whole_units (2 ^ 24) \<le> round_to 24 925 ?x"
    unfolding round_to_def w by (intro round_at_ge le_imp_power_dvd k)
  have "round_to 24 925 ?x \<le> 2 ^ 1114"
    unfolding round_to_def by (intro round_at_le le le_imp_power_dvd order_trans [OF k]) simp
  also have "(2 :: int) ^ 1114 < 2 ^ 1202"
    by (rule power_strict_increasing) simp_all
  finally have "to_float ?x = Fin (round_to 24 925 ?x)"
    using r unfolding to_float_def finite_below_def by (simp del: power_numeral)
  then show ?thesis
    using r ge to_float_cases [of ?x] by (auto simp: cap_def)
qed

lemma float_of_cases: "v \<noteq> NaN \<Longrightarrow> (\<exists>y. float_of v = Fin y \<and> float_value y) \<or> (\<exists>s. float_of v = Inf s)"
  using to_float_cases by (cases v) fastforce+

lemma sum_dvd: "float_value x \<Longrightarrow> float_value y \<Longrightarrow> 2 ^ 925 dvd x + y"
  by (intro dvd_add float_value_dvd)

lemma credited_ok:
  assumes "isk_ok (w_isk w)" "\<not> add_with to_float (purse type w) a < 0" "(\<exists>y. a = Fin y \<and> float_value y) \<or> (\<exists>s. a = Inf s)"
  shows "isk_ok (w_isk (credited type a w))"
proof (cases type)
  case ISK
  obtain x where x: "w_isk w = Fin x" "float_value x"
    using assms(1) by (auto simp: isk_ok_def)
  obtain c where c: "cap = Fin c" "float_value c" "0 < c"
    using cap_value by blast
  have "isk_ok cap"
    unfolding isk_ok_def c(1) using c(2,3) by auto
  moreover have "isk_ok s" if "s = add_with to_float (w_isk w) a" "\<not> cap < s" for s
    using assms(3)
  proof
    assume "\<exists>y. a = Fin y \<and> float_value y"
    then obtain y where y: "a = Fin y" "float_value y"
      by blast
    have "\<not> to_float (x + y) < 0"
      using assms(2) ISK x y by simp
    then have "0 \<le> x + y"
      using to_float_sign [OF sum_dvd [OF x(2) y(2)]] by simp
    then have "\<not> round_to 24 925 (x + y) < 0"
      using round_to_sign(1) [OF _ sum_dvd [OF x(2) y(2)], of 24] by simp
    then show ?thesis
      using that x(1) y(1) to_float_cases [of "x + y"] unfolding c(1) isk_ok_def by auto
  next
    assume "\<exists>s. a = Inf s"
    then show ?thesis
      using that assms(2) ISK x(1) unfolding c(1) by auto
  qed
  ultimately show ?thesis
    using ISK by (simp add: Let_def)
qed (use assms(1) in simp_all)

lemma AlterBalance_ok:
  assumes "wallets_ok b" "online b c = Some w" "(\<exists>y. a = Fin y \<and> float_value y) \<or> (\<exists>s. a = Inf s)"
  shows "wallets_ok (snd (AlterBalance env c w a type b))"
  using assms credited_ok [of w type a]
  by (auto simp: AlterBalance_def wallets_ok_def SaveCharacter_def Let_def split: option.splits)

lemma side_ok:
  assumes "wallets_ok b" "a \<noteq> NaN"
  shows "wallets_ok (snd (side env c a cur b))"
proof (cases "online b c")
  case None
  then show ?thesis
    using assms(1) by (auto simp: side_def OfflineFundXfer_def Let_def wallets_ok_def split: option.splits)
next
  case (Some w)
  then show ?thesis
    using AlterBalance_ok [OF assms(1) Some float_of_cases [OF assms(2)], of env cur]
    by (auto simp: side_def AddBalance_def pbind_def split: prod.splits sum.splits)
qed

lemma other_accounts_ok:
  "wallets_ok (snd (AddJournalEntry env e b)) = wallets_ok b"
  "wallets_ok (snd (HandleCorpTransaction env corp type f t cur key a ref b)) = wallets_ok b"
  by (auto simp: AddJournalEntry_def HandleCorpTransaction_def UpdateCorpBalance_def wallets_ok_def Let_def split: option.splits)

lemma pbind_snd: "(\<And>x b. Q b \<Longrightarrow> Q (snd (f x b))) \<Longrightarrow> Q (snd (m b)) \<Longrightarrow> Q (snd (pbind m f b))"
  by (auto simp: pbind_def split: prod.splits sum.splits)

lemma from_side_ok: "wallets_ok b \<Longrightarrow> a \<noteq> NaN \<Longrightarrow> wallets_ok (snd (from_side env f t a type ref key agent b))"
  by (cases a) (auto simp: from_side_def other_accounts_ok intro!: pbind_snd [where Q = wallets_ok] side_ok)

lemma to_side_ok: "wallets_ok b \<Longrightarrow> a \<noteq> NaN \<Longrightarrow> wallets_ok (snd (to_side env f t a type ref key agent b))"
  by (auto simp: to_side_def Let_def other_accounts_ok intro!: pbind_snd [where Q = wallets_ok] side_ok)

text \<open>Rates are finite, and so is a payment that is taxed.\<close>

definition taxable_amount :: "accounts \<Rightarrow> int8 \<Rightarrow> fval \<Rightarrow> bool" where
  "taxable_amount env type a \<longleftrightarrow> a \<noteq> NaN \<and>
     (tax_type type = None \<or> (\<exists>x. a = Fin x) \<and> (\<forall>c. (\<exists>r. tax_online env c = Fin r) \<and> (\<exists>r. tax_row env c = Fin r)))"

lemma corp_tax_number: "taxable_amount env type a \<Longrightarrow> tax_type type \<noteq> None \<Longrightarrow> fst (corp_tax env t a b) \<noteq> NaN"
proof -
  assume t: "taxable_amount env type a" "tax_type type \<noteq> None"
  have n: "mult (Fin r) (Fin x) \<noteq> NaN" for r x
    by (simp add: mult_units_def finite_below_def)
  have "float_of v \<noteq> NaN" if "v \<noteq> NaN" for v
    using float_of_cases [OF that] by auto
  then show ?thesis
    using t n unfolding taxable_amount_def corp_tax_def by (auto split: if_splits simp del: mult.simps) (metis n)+
qed

lemma tax_type_once: "tax_type type = Some t \<Longrightarrow> tax_type t = None"
  by (auto simp: tax_type_def split: if_splits)

lemma TransferFunds_ok:
  "wallets_ok b \<Longrightarrow> taxable_amount env type amount \<Longrightarrow>
     wallets_ok (snd (TransferFunds env fromID toID amount type ref fromKey toKey agent b))"
proof (induction env fromID toID amount type ref fromKey toKey agent arbitrary: b rule: TransferFunds.induct)
  case (1 env fromID toID amount type ref fromKey toKey agent)
  have number: "amount \<noteq> NaN"
    using 1(3) by (simp add: taxable_amount_def)
  show ?case
    unfolding TransferFunds.simps [of env fromID toID amount type ref fromKey toKey agent]
  proof (rule pbind_snd [where Q = wallets_ok], rule pbind_snd [where Q = wallets_ok])
    fix u taxable b
    assume b: "wallets_ok b"
    obtain tax corp where tax: "corp_tax env toID amount b = (tax, corp)"
      by fastforce
    have "wallets_ok (snd (TransferFunds env toID corp tax t ref Cash Cash 0 b))"
      if "IsCorp corp" "IsCharacterID toID" "\<not> tax < float_of (of_whole (uint (TaxAmount env)))" "tax_type type = Some t"
        "taxable" "\<not> untaxed env toID amount type b" for t
    proof (rule 1(1))
      show "taxable_amount env t tax"
        using corp_tax_number [OF 1(3), of toID b] that(4) tax tax_type_once [OF that(4)] by (simp add: taxable_amount_def)
    qed (use that tax b in auto)
    then show "wallets_ok (snd ((if \<not> taxable \<or> untaxed env toID amount type b then (Inr (), b)
       else let (tax, corp) = corp_tax env toID amount b in
         if \<not> IsCorp corp \<or> \<not> IsCharacterID toID \<or> tax < float_of (of_whole (uint (TaxAmount env))) then (Inr (), b)
         else (case tax_type type of None \<Rightarrow> (Inr (), b) | Some t \<Rightarrow> TransferFunds env toID corp tax t ref Cash Cash 0 b))))"
      using b tax by (auto split: option.splits)
  qed (use from_side_ok to_side_ok 1(2) number in auto)
qed

section \<open>Gifts\<close>

text \<open>The abstract account book: who has how much, in whole ISK, and what a gift does to it.\<close>

type_synonym book = "int32 \<Rightarrow> int option"

definition book_gift :: "int32 \<Rightarrow> int32 \<Rightarrow> int \<Rightarrow> book \<Rightarrow> book option" where
  "book_gift a z n bk =
     (if n \<le> the (bk a) then Some ((bk(a \<mapsto> the (bk a) - n))(z \<mapsto> the ((bk(a \<mapsto> the (bk a) - n)) z) + n)) else None)"

text \<open>A bank shows a book when the wallets of those online hold these whole amounts, small enough for a \<open>float\<close>.\<close>

definition displays :: "bank \<Rightarrow> book \<Rightarrow> bool" where
  "displays b bk \<longleftrightarrow> dom bk = dom (online b) \<and>
     (\<forall>c n w. bk c = Some n \<longrightarrow> online b c = Some w \<longrightarrow> w_isk w = of_whole n \<and> 0 \<le> n \<and> n < 2 ^ 24)"

lemma whole_units_simps [simp]:
  "whole_units a + whole_units b = whole_units (a + b)" "- whole_units a = whole_units (- a)"
  "whole_units a < whole_units b \<longleftrightarrow> a < b" "whole_units a < 0 \<longleftrightarrow> a < 0" "whole_units a = 0 \<longleftrightarrow> a = 0" "whole_units 0 = 0"
  by (simp_all add: whole_units_def algebra_simps)

lemma whole_float_of: "\<bar>n\<bar> < 2 ^ 24 \<Longrightarrow> to_float (whole_units n) = of_whole n"
  by (rule to_float_exact [OF whole_float])

lemma whole_below_cap: "n < 2 ^ 24 \<Longrightarrow> \<not> cap < of_whole n"
proof -
  assume "n < 2 ^ 24"
  then have "whole_units n < whole_units (2 ^ 24)"
    by (simp only: whole_units_simps)
  moreover obtain c where c: "cap = Fin c" "whole_units (2 ^ 24) \<le> c"
    using cap_value by blast
  ultimately show ?thesis
    unfolding c(1) less_fval_simps by linarith
qed

lemma add_whole: "\<bar>a + n\<bar> < 2 ^ 24 \<Longrightarrow> add_with to_float (of_whole a) (of_whole n) = of_whole (a + n)"
  using whole_float_of [of "a + n"] by simp

text \<open>A whole amount on a wallet with a whole balance.\<close>

lemma whole_side:
  assumes "online b c = Some w" "w_isk w = of_whole a" "0 \<le> a" "a < 2 ^ 24" "\<bar>n\<bar> < 2 ^ 24" "a + n < 2 ^ 24"
  shows "a + n < 0 \<Longrightarrow> side env c (of_whole n) ISK b = (Inl (NotEnoughMoney (of_whole (- n)) (of_whole a)), b)"
    and "0 \<le> a + n \<Longrightarrow> \<exists>b'. side env c (of_whole n) ISK b = (Inr (of_whole (a + n)), b') \<and>
      online b' = (online b)(c \<mapsto> w\<lparr>w_isk := of_whole (a + n)\<rparr>)"
proof -
  have n: "float_of (of_whole n) = of_whole n"
    using whole_float_of [OF assms(5)] by simp
  have sum: "add_with to_float (purse ISK w) (of_whole n) = of_whole (a + n)"
    using add_whole [of a n] assms(2-6) by simp
  show "side env c (of_whole n) ISK b = (Inl (NotEnoughMoney (of_whole (- n)) (of_whole a)), b)" if "a + n < 0"
    using that assms(1,2,3) n sum by (auto simp: side_def AddBalance_def AlterBalance_def pbind_def praise_def)
  show "\<exists>b'. side env c (of_whole n) ISK b = (Inr (of_whole (a + n)), b') \<and>
      online b' = (online b)(c \<mapsto> w\<lparr>w_isk := of_whole (a + n)\<rparr>)" if "0 \<le> a + n"
  proof (cases "n = 0")
    case True
    then have "w\<lparr>w_isk := of_whole (a + n)\<rparr> = w"
      using assms(2) by simp
    then show ?thesis
      using True assms(1,2) n by (simp add: side_def AddBalance_def AlterBalance_def pbind_def fun_upd_idem)
  next
    case False
    have "online (SaveCharacter env c v x) = online x" for v x
      by (simp add: SaveCharacter_def split: option.splits)
    then show ?thesis
      using that False assms(1) n sum whole_below_cap [OF assms(6)]
      by (simp add: side_def AddBalance_def AlterBalance_def pbind_def Let_def)
  qed
qed

lemma AddJournalEntry_online [simp]: "fst (AddJournalEntry env e b) = Inr ()" "online (snd (AddJournalEntry env e b)) = online b"
  by (simp_all add: AddJournalEntry_def split: option.splits)

text \<open>A donation is not taxed, so it is its two sides.\<close>

lemma untaxed_transfer:
  assumes "tax_type type = None"
  shows "TransferFunds env fromID toID amount type ref fromKey toKey agent =
    pbind (from_side env fromID toID amount type ref fromKey agent)
      (\<lambda>_. pbind (to_side env fromID toID amount type ref toKey agent) (\<lambda>_. pret ()))"
  unfolding TransferFunds.simps [of env fromID toID amount type] using assms
  by (auto simp: pbind_def fun_eq_iff split: prod.splits sum.splits)

lemma from_character:
  "IsCharacterID a \<Longrightarrow> side env a (- amount) ISK b = (Inr v, b') \<Longrightarrow>
     \<exists>b''. from_side env a z amount type ref Cash agent b = (Inr (), b'') \<and> online b'' = online b'"
  "IsCharacterID a \<Longrightarrow> side env a (- amount) ISK b = (Inl e, b') \<Longrightarrow> from_side env a z amount type ref Cash agent b = (Inl e, b')"
  by (auto simp: from_side_def pbind_def credit_of_def IsAUR_def IsDustKey_def AddJournalEntry_def split: option.splits)

lemma to_character:
  "IsCharacterID z \<Longrightarrow> side env z amount ISK b = (Inr v, b') \<Longrightarrow>
     \<exists>b''. to_side env a z amount type ref Cash agent b = (Inr True, b'') \<and> online b'' = online b'"
  "IsCharacterID z \<Longrightarrow> side env z amount ISK b = (Inl e, b') \<Longrightarrow> to_side env a z amount type ref Cash agent b = (Inl e, b')"
  by (auto simp: to_side_def pbind_def credit_of_def IsAUR_def IsDustKey_def AddJournalEntry_def Let_def split: option.splits)

lemma transfer_sides:
  assumes "IsCharacterID a" "IsCharacterID z" "tax_type type = None"
  shows "side env a (- amount) ISK b = (Inl e, b') \<Longrightarrow> TransferFunds env a z amount type ref Cash Cash 0 b = (Inl e, b')"
    and "side env a (- amount) ISK b = (Inr v, b') \<Longrightarrow>
      (\<And>x. online x = online b' \<Longrightarrow> \<exists>r y. side env z amount ISK x = (r, y) \<and> online y = on \<and> Q r) \<Longrightarrow>
      \<exists>r y. TransferFunds env a z amount type ref Cash Cash 0 b = ((case r of Inl e \<Rightarrow> Inl e | Inr _ \<Rightarrow> Inr ()), y) \<and>
        online y = on \<and> Q r"
proof -
  note plain = untaxed_transfer [OF assms(3), of env a z amount ref Cash Cash 0]
  show "TransferFunds env a z amount type ref Cash Cash 0 b = (Inl e, b')" if "side env a (- amount) ISK b = (Inl e, b')"
    using from_character(2) [OF assms(1) that] by (simp add: plain pbind_def)
  assume f: "side env a (- amount) ISK b = (Inr v, b')"
    and t: "\<And>x. online x = online b' \<Longrightarrow> \<exists>r y. side env z amount ISK x = (r, y) \<and> online y = on \<and> Q r"
  obtain x where x: "from_side env a z amount type ref Cash 0 b = (Inr (), x)" "online x = online b'"
    using from_character(1) [OF assms(1) f] by blast
  obtain r y where r: "side env z amount ISK x = (r, y)" "online y = on" "Q r"
    using t [OF x(2)] by blast
  show "\<exists>r y. TransferFunds env a z amount type ref Cash Cash 0 b = ((case r of Inl e \<Rightarrow> Inl e | Inr _ \<Rightarrow> Inr ()), y) \<and>
      online y = on \<and> Q r"
  proof (cases r)
    case (Inl e)
    then show ?thesis
      using x(1) r to_character(2) [OF assms(2), of env amount x e y a type ref 0]
      by (intro exI [of _ r] exI [of _ y]) (simp add: plain pbind_def)
  next
    case (Inr v)
    then obtain y' where "to_side env a z amount type ref Cash 0 x = (Inr True, y')" "online y' = online y"
      using r(1) to_character(1) [OF assms(2), of env amount x v y a type ref 0] by auto
    then show ?thesis
      using x(1) r Inr by (intro exI [of _ r] exI [of _ y']) (simp add: plain pbind_def)
  qed
qed

lemma transfer_done:
  assumes "IsCharacterID a" "IsCharacterID z" "tax_type type = None" "side env a (- amount) ISK b = (Inr v, b')"
    and "\<And>x. online x = online b' \<Longrightarrow> \<exists>r y. side env z amount ISK x = (Inr r, y) \<and> online y = on"
  shows "\<exists>y. TransferFunds env a z amount type ref Cash Cash 0 b = (Inr (), y) \<and> online y = on"
proof -
  have step: "\<exists>r y. side env z amount ISK x = (r, y) \<and> online y = on \<and> \<not> isl r" if "online x = online b'" for x
    using assms(5) [OF that] by auto
  have "\<exists>(r :: money_error + fval) y. TransferFunds env a z amount type ref Cash Cash 0 b = (case r of Inl e \<Rightarrow> Inl e | Inr _ \<Rightarrow> Inr (), y) \<and>
      online y = on \<and> \<not> isl r"
    by (rule transfer_sides(2) [where Q = "\<lambda>r. \<not> isl r", OF assms(1-4) step])
  then obtain r :: "money_error + fval" and y where
      "TransferFunds env a z amount type ref Cash Cash 0 b = (case r of Inl e \<Rightarrow> Inl e | Inr _ \<Rightarrow> Inr (), y)" "online y = on" "\<not> isl r"
    by blast
  then show ?thesis
    by (cases r) auto
qed

lemma GiveCash_transfer:
  "\<not> bad_reason reason \<Longrightarrow>
     GiveCash env a z amount reason = TransferFunds env a z (value_of amount) PlayerDonation a Cash Cash 0"
  by (simp add: GiveCash_def)

lemma donation_untaxed: "tax_type PlayerDonation = None"
  by (simp add: tax_type_def)

lemma displays_upd:
  assumes "displays b bk" "online b c = Some w" "0 \<le> n" "n < 2 ^ 24" "online b' = (online b)(c \<mapsto> w\<lparr>w_isk := of_whole n\<rparr>)"
  shows "displays b' (bk(c \<mapsto> n))"
proof -
  have "dom (bk(c \<mapsto> n)) = dom (online b')"
    using assms(1,2,5) by (auto simp: displays_def)
  moreover have "w_isk u = of_whole k \<and> 0 \<le> k \<and> k < 2 ^ 24" if "(bk(c \<mapsto> n)) d = Some k" "online b' d = Some u" for d k u
    using assms that unfolding displays_def by (cases "d = c") auto
  ultimately show ?thesis
    unfolding displays_def by blast
qed

text \<open>A transfer of a whole amount that is not taxed, and one that the first side cannot pay.\<close>

lemma whole_transfer:
  assumes "displays b bk" "IsCharacterID a" "IsCharacterID z" "bk a = Some x" "bk z = Some y" "tax_type type = None"
    and "0 \<le> n" "n < 2 ^ 24" "y + n < 2 ^ 24"
  shows "x < n \<Longrightarrow> TransferFunds env a z (of_whole n) type ref Cash Cash 0 b = (Inl (NotEnoughMoney (of_whole n) (of_whole x)), b)"
    and "n \<le> x \<Longrightarrow> \<exists>b'. TransferFunds env a z (of_whole n) type ref Cash Cash 0 b = (Inr (), b') \<and>
      displays b' ((bk(a \<mapsto> x - n))(z \<mapsto> the ((bk(a \<mapsto> x - n)) z) + n))"
proof -
  obtain w where w: "online b a = Some w" "w_isk w = of_whole x" "0 \<le> x" "x < 2 ^ 24"
    using assms(1,4) by (fastforce simp: displays_def)
  note from_a = whole_side [OF w, of "- n" env]
  show "TransferFunds env a z (of_whole n) type ref Cash Cash 0 b = (Inl (NotEnoughMoney (of_whole n) (of_whole x)), b)" if "x < n"
    using from_a(1) transfer_sides(1) [OF assms(2,3,6), of env "of_whole n" b] that assms(7,8) by simp
  assume le: "n \<le> x"
  obtain b1 where b1: "side env a (- of_whole n) ISK b = (Inr (of_whole (x - n)), b1)"
      "online b1 = (online b)(a \<mapsto> w\<lparr>w_isk := of_whole (x - n)\<rparr>)"
    using from_a(2) le w(3,4) assms(7,8) by auto
  define bk1 where "bk1 = bk(a \<mapsto> x - n)"
  have shown: "displays b1 bk1"
    using displays_upd [OF assms(1) w(1) _ _ b1(2)] le w(4) assms(7) by (simp add: bk1_def)
  obtain y1 where y1: "bk1 z = Some y1" "y1 + n < 2 ^ 24"
    using assms(4,5,7,9) w(4) by (cases "z = a") (auto simp: bk1_def)
  obtain v where v: "online b1 z = Some v" "w_isk v = of_whole y1" "0 \<le> y1" "y1 < 2 ^ 24"
    using shown y1(1) by (fastforce simp: displays_def)
  define on where "on = (online b1)(z \<mapsto> v\<lparr>w_isk := of_whole (y1 + n)\<rparr>)"
  have "\<exists>r y. side env z (of_whole n) ISK c = (Inr r, y) \<and> online y = on" if "online c = online b1" for c
    using whole_side(2) [of c z v y1 n env] v y1(2) assms(7,8) that by (auto simp: on_def)
  then obtain b' where b': "TransferFunds env a z (of_whole n) type ref Cash Cash 0 b = (Inr (), b')" "online b' = on"
    using transfer_done [OF assms(2,3,6) b1(1), of on] by blast
  have "displays b' (bk1(z \<mapsto> y1 + n))"
    using displays_upd [OF shown v(1) _ _ b'(2) [unfolded on_def]] v(3) y1(2) assms(7) by simp
  then show "\<exists>b'. TransferFunds env a z (of_whole n) type ref Cash Cash 0 b = (Inr (), b') \<and>
      displays b' ((bk(a \<mapsto> x - n))(z \<mapsto> the ((bk(a \<mapsto> x - n)) z) + n))"
    using b'(1) y1(1) unfolding bk1_def by auto
qed

lemma add_NaN [simp]: "add_with rnd v NaN = NaN" "add_with rnd NaN v = NaN"
  by (cases v; simp)+

lemma SaveCharacter_online [simp]: "online (SaveCharacter env c u b) = online b"
  by (simp add: SaveCharacter_def split: option.splits)

lemma NaN_side:
  assumes "online b c = Some w" "v = NaN"
  shows "\<exists>r b'. side env c v ISK b = (Inr r, b') \<and> online b' = (online b)(c \<mapsto> w\<lparr>w_isk := NaN\<rparr>)"
  using assms by (auto simp: side_def AddBalance_def AlterBalance_def pbind_def Let_def)

lemma NaN_wallet:
  assumes "online b c = Some w" "w_isk w = NaN"
  shows "\<exists>r b'. side env c v ISK b = (Inr r, b') \<and> online b' = online b"
proof -
  have "w\<lparr>w_isk := NaN\<rparr> = w"
    using assms(2) by simp
  then show ?thesis
    using assms by (auto simp: side_def AddBalance_def AlterBalance_def pbind_def Let_def fun_upd_idem)
qed

text \<open>One ISK on top of \<open>2\<^sup>2\<^sup>4\<close> is rounded away.\<close>

lemma float_step: "to_float (whole_units (2 ^ 24 + 1)) = of_whole (2 ^ 24)"
proof -
  let ?x = "whole_units (2 ^ 24 + 1)"
  have parts: "?x = 2 ^ 23 * 2 ^ 1075 + 2 ^ 1074"
    by (simp add: whole_units_def)
  have "bit_length (nat \<bar>?x\<bar>) \<le> 1099"
    by (rule bit_length_le) (simp add: whole_units_def)
  moreover have "\<not> bit_length (nat \<bar>?x\<bar>) \<le> 1098"
  proof
    assume "bit_length (nat \<bar>?x\<bar>) \<le> 1098"
    then have "(2 :: nat) ^ bit_length (nat \<bar>?x\<bar>) \<le> 2 ^ 1098"
      by (intro power_increasing) simp_all
    then have "nat \<bar>?x\<bar> < 2 ^ 1098"
      using bit_length_less [of "nat \<bar>?x\<bar>"] by linarith
    then show False
      by (simp add: whole_units_def)
  qed
  ultimately have "max 925 (bit_length (nat \<bar>?x\<bar>) - 24) = 1075"
    by simp
  then have "round_to 24 925 ?x = round_at 1075 ?x"
    by (simp only: round_to_def)
  also have "\<dots> = whole_units (2 ^ 24)"
    by (simp add: round_at_def whole_units_def)
  finally have "round_to 24 925 ?x = whole_units (2 ^ 24)" .
  moreover have "\<bar>whole_units (2 ^ 24)\<bar> < 2 ^ 1202"
    by (simp add: whole_units_def)
  ultimately show ?thesis
    by (simp only: to_float_def finite_below_def if_True)
qed

lemma full_side:
  assumes "online b c = Some w" "w_isk w = of_whole (2 ^ 24)"
  shows "\<exists>r b'. side env c (of_whole 1) ISK b = (Inr r, b') \<and> online b' = online b"
proof -
  have "add_with to_float (w_isk w) (of_whole 1) = of_whole (2 ^ 24)"
    using float_step assms(2) by (simp only: add_with.simps whole_units_simps)
  moreover obtain c where c: "cap = Fin c" "whole_units (2 ^ 24) \<le> c"
    using cap_value by blast
  moreover have "\<not> cap < of_whole (2 ^ 24)"
    unfolding c(1) less_fval_simps using c(2) by (simp only: not_less)
  moreover have "\<not> of_whole (2 ^ 24) < 0" "of_whole 1 \<noteq> Fin 0" "w\<lparr>w_isk := of_whole (2 ^ 24)\<rparr> = w"
    using assms(2) by (simp_all only: less_fval_simps whole_units_simps fval.inject) simp_all
  moreover have "float_of (of_whole 1) = of_whole 1"
    using whole_float_of [of 1] by simp
  ultimately show ?thesis
    using assms(1)
    by (simp only: side_def AddBalance_def AlterBalance_def pbind_def Let_def purse.simps credited.simps if_False option.case)
      (simp add: fun_upd_idem)
qed

section \<open>Main results\<close>

text \<open>A bank with three characters: a rich one, a poor one and one in between.\<close>

definition sample_accounts :: accounts where
  "sample_accounts = \<lparr>in_column = Some, in_cents = Some, tax_online = (\<lambda>_. Fin 0), corp_online = (\<lambda>_. 1000001),
     in_creation = (\<lambda>_. False), tax_row = (\<lambda>_. Fin 0), corp_row = (\<lambda>_. 1000001), BountyPayoutDelayed = True,
     TaxAmount = 5000, TaxedAmount = 75000\<rparr>"

definition isk :: "int \<Rightarrow> wallet" where
  "isk n = \<lparr>w_isk = of_whole n, w_aur = Fin 0\<rparr>"

definition sample_bank :: bank where
  "sample_bank = \<lparr>online = [90000001 \<mapsto> isk 100, 90000002 \<mapsto> isk 5, 90000003 \<mapsto> isk 16777216],
     chr = Map.empty, divisions = Map.empty, journal = [], notices = []\<rparr>"

lemma sample_characters: "IsCharacterID 90000001" "IsCharacterID 90000002" "IsCharacterID 90000003" "\<not> bad_reason []"
  by (simp_all add: IsCharacterID_def bad_reason_def)

text \<open>C18. Whatever is paid, to whom and for which reason, the wallets of the characters online keep a finite amount
  of ISK that is not negative and not above the cap: for any sequence of transfers, with their taxes, that fail or not,
  whose amounts are numbers (and finite, where they may be taxed).\<close>

theorem wallets_stay_in_bounds:
  "wallets_ok b \<Longrightarrow> \<forall>(f, t, a, type, ref, fk, tk, agent) \<in> set ps. taxable_amount env type a \<Longrightarrow>
     wallets_ok (fold (\<lambda>(f, t, a, type, ref, fk, tk, agent) b. snd (TransferFunds env f t a type ref fk tk agent b)) ps b)"
proof (induction ps arbitrary: b)
  case (Cons p ps)
  obtain f t a type ref fk tk agent where p: "p = (f, t, a, type, ref, fk, tk, agent)"
    by (metis surj_pair)
  have "wallets_ok (snd (TransferFunds env f t a type ref fk tk agent b))"
    using Cons(2,3) p by (intro TransferFunds_ok) auto
  then show ?case
    using Cons(1,3) p by auto
qed simp

theorem wallets_stay_in_bounds_witness:
  "wallets_ok (snd (TransferFunds sample_accounts 90000001 90000002 (Inf False) PlayerDonation 0 Cash Cash 0
     (sample_bank\<lparr>online := [90000001 \<mapsto> isk 0]\<rparr>)))"
proof -
  have "isk_ok (of_whole 0)"
    using whole_float [of 0] whole_below_cap [of 0] unfolding isk_ok_def by auto
  then have "isk_ok (w_isk (isk 0))"
    by (simp add: isk_def)
  then have b: "wallets_ok (sample_bank\<lparr>online := [90000001 \<mapsto> isk 0]\<rparr>)"
    by (simp add: wallets_ok_def sample_bank_def)
  show ?thesis
    using wallets_stay_in_bounds [OF b, of "[(90000001, 90000002, Inf False, PlayerDonation, 0, Cash, Cash, 0)]" sample_accounts]
    by (simp add: taxable_amount_def tax_type_def)
qed

text \<open>C19. A gift of a whole number of ISK between two characters that are online, or from one to itself, does what an
  account book does: the amount moves from the one to the other, and when the giver has less, an error with both
  numbers is raised and nothing is changed. For amounts below \<open>2\<^sup>2\<^sup>4\<close>, which a \<open>float\<close> holds.\<close>

theorem gift_refines_book:
  assumes "displays b bk" "IsCharacterID a" "IsCharacterID z" "bk a = Some x" "bk z = Some y" "sint amount = n"
    and "0 \<le> n" "n < 2 ^ 24" "y + n < 2 ^ 24" "\<not> bad_reason reason"
  shows "(case book_gift a z n bk of
       Some bk' \<Rightarrow> \<exists>b'. GiveCash_int env a z amount reason b = (Inr (), b') \<and> displays b' bk'
     | None \<Rightarrow> GiveCash_int env a z amount reason b = (Inl (NotEnoughMoney (of_whole n) (of_whole x)), b))"
proof -
  have "value_of (dbl_of_int n) = of_whole n"
    using assms(7,8) by (intro value_of_int) simp
  then have give: "GiveCash_int env a z amount reason b = TransferFunds env a z (of_whole n) PlayerDonation a Cash Cash 0 b"
    using assms(6,10) by (simp add: GiveCash_int_def GiveCash_transfer)
  note pays = whole_transfer [OF assms(1-5) donation_untaxed assms(7-9), of env a]
  show ?thesis
    using pays assms(4) unfolding give by (cases "n \<le> x") (simp_all add: book_gift_def)
qed

theorem gift_refines_book_witness:
  "\<exists>b'. GiveCash_int sample_accounts 90000001 90000002 30 [] (sample_bank\<lparr>online := [90000001 \<mapsto> isk 100, 90000002 \<mapsto> isk 5]\<rparr>)
     = (Inr (), b') \<and> displays b' [90000001 \<mapsto> 70, 90000002 \<mapsto> 35]"
proof -
  have "displays (sample_bank\<lparr>online := [90000001 \<mapsto> isk 100, 90000002 \<mapsto> isk 5]\<rparr>) [90000001 \<mapsto> 100, 90000002 \<mapsto> 5]"
    by (auto simp: displays_def isk_def sample_bank_def split: if_splits)
  then show ?thesis
    using gift_refines_book [OF _ sample_characters(1,2) _ _ _ _ _ _ sample_characters(4),
      of _ "[90000001 \<mapsto> 100, 90000002 \<mapsto> 5]" 100 5 30 30 sample_accounts]
    by (simp add: book_gift_def fun_upd_twist)
qed

text \<open>C20. A gift of a negative amount, which nothing refuses, takes from the other character instead; and when that
  one has too little, the error is raised after the wallet of the giver was credited: money is made.\<close>

theorem negative_gift_takes:
  assumes "displays b bk" "IsCharacterID a" "IsCharacterID z" "a \<noteq> z" "bk a = Some x" "bk z = Some y" "sint amount = - m"
    and "0 < m" "m < 2 ^ 24" "x + m < 2 ^ 24" "\<not> bad_reason reason"
  shows "\<exists>b'. GiveCash_int env a z amount reason b =
       ((if m \<le> y then Inr () else Inl (NotEnoughMoney (of_whole m) (of_whole y))), b') \<and>
     displays b' (bk(a \<mapsto> x + m, z \<mapsto> if m \<le> y then y - m else y))"
proof -
  let ?d = "dbl_of_int (- m)"
  have d: "value_of ?d = of_whole (- m)"
    using assms(8,9) by (intro value_of_int) simp
  obtain w v where w: "online b a = Some w" "w_isk w = of_whole x" "0 \<le> x" "x < 2 ^ 24"
      and v: "online b z = Some v" "w_isk v = of_whole y" "0 \<le> y" "y < 2 ^ 24"
    using assms(1,5,6) by (fastforce simp: displays_def)
  obtain b1 where b1: "side env a (- value_of ?d) ISK b = (Inr (of_whole (x + m)), b1)"
      "online b1 = (online b)(a \<mapsto> w\<lparr>w_isk := of_whole (x + m)\<rparr>)"
    using whole_side(2) [OF w, of m env] d w(3) assms(8-10) by auto
  define on where "on = (online b1)(z \<mapsto> v\<lparr>w_isk := of_whole (if m \<le> y then y - m else y)\<rparr>)"
  define out where "out = (if m \<le> y then Inr (of_whole (y - m)) else Inl (NotEnoughMoney (of_whole m) (of_whole y)))"
  have z: "online b1 z = Some v"
    using b1(2) v(1) assms(4) by simp
  have same: "v\<lparr>w_isk := of_whole y\<rparr> = v"
    using v(2) by simp
  have "\<exists>r c'. side env z (value_of ?d) ISK c = (r, c') \<and> online c' = on \<and> r = out" if "online c = online b1" for c
    using whole_side [of c z v y "- m" env] z v(2-4) d that assms(8,9) same
    by (cases "m \<le> y") (auto simp: on_def out_def fun_upd_idem)
  then obtain r b' where b': "GiveCash env a z ?d reason b = (case r of Inl e \<Rightarrow> Inl e | Inr _ \<Rightarrow> Inr (), b')"
      "online b' = on" "r = out"
    using transfer_sides(2) [OF assms(2,3) donation_untaxed b1(1), of on "\<lambda>r. r = out"]
    unfolding GiveCash_transfer [OF assms(11)] by blast
  have "displays b1 (bk(a \<mapsto> x + m))"
    using displays_upd [OF assms(1) w(1) _ _ b1(2)] w(3) assms(8,10) by simp
  then have "displays b' (bk(a \<mapsto> x + m, z \<mapsto> if m \<le> y then y - m else y))"
    using displays_upd [OF _ z _ _ b'(2) [unfolded on_def]] v(3,4) assms(8) by simp
  then show ?thesis
    using b' assms(7) by (auto simp: GiveCash_int_def out_def)
qed

theorem negative_gift_takes_witness:
  "\<exists>b'. GiveCash_int sample_accounts 90000001 90000002 (- 50) [] (sample_bank\<lparr>online := [90000001 \<mapsto> isk 100, 90000002 \<mapsto> isk 5]\<rparr>)
     = (Inl (NotEnoughMoney (of_whole 50) (of_whole 5)), b') \<and> displays b' [90000001 \<mapsto> 150, 90000002 \<mapsto> 5]"
proof -
  have "displays (sample_bank\<lparr>online := [90000001 \<mapsto> isk 100, 90000002 \<mapsto> isk 5]\<rparr>) [90000001 \<mapsto> 100, 90000002 \<mapsto> 5]"
    by (auto simp: displays_def isk_def sample_bank_def split: if_splits)
  then show ?thesis
    using negative_gift_takes [OF _ sample_characters(1,2) _ _ _ _ _ _ _ sample_characters(4),
      of _ "[90000001 \<mapsto> 100, 90000002 \<mapsto> 5]" 100 5 "- 50" 50 sample_accounts]
    by (simp add: fun_upd_twist)
qed

text \<open>C21. A gift of a \<open>double\<close> that is no number is accepted and leaves both wallets without a number, and from such a
  wallet any amount can be given away: the one who gets it is richer, and nobody has less.\<close>

theorem nan_gift_makes_money:
  assumes "displays b bk" "IsCharacterID a" "IsCharacterID z" "IsCharacterID c" "distinct [a, z, c]"
    and "a \<in> dom bk" "z \<in> dom bk" "bk c = Some k" "value_of amount = NaN" "sint more_isk = n" "0 \<le> n" "k + n < 2 ^ 24"
    and "\<not> bad_reason reason"
  shows "\<exists>b1 b2. GiveCash env a z amount reason b = (Inr (), b1) \<and> GiveCash_int env z c more_isk reason b1 = (Inr (), b2) \<and>
     map_option w_isk (online b2 c) = Some (of_whole (k + n)) \<and> map_option w_isk (online b2 z) = Some NaN"
proof -
  obtain w v u where w: "online b a = Some w" and v: "online b z = Some v"
      and u: "online b c = Some u" "w_isk u = of_whole k" "0 \<le> k" "k < 2 ^ 24"
    using assms(1,6,7,8) by (fastforce simp: displays_def)
  obtain r b1 where b1: "side env a (- value_of amount) ISK b = (Inr r, b1)" "online b1 = (online b)(a \<mapsto> w\<lparr>w_isk := NaN\<rparr>)"
    using NaN_side [of b a w "- value_of amount" env] w assms(9) by auto
  define on where "on = (online b1)(z \<mapsto> v\<lparr>w_isk := NaN\<rparr>)"
  have "\<exists>r y. side env z (value_of amount) ISK x = (Inr r, y) \<and> online y = on" if "online x = online b1" for x
    using NaN_side [of x z v "value_of amount" env] v assms(5,9) b1(2) that by (auto simp: on_def)
  then obtain b2 where b2: "GiveCash env a z amount reason b = (Inr (), b2)" "online b2 = on"
    using transfer_done [OF assms(2,3) donation_untaxed b1(1), of on]
    unfolding GiveCash_transfer [OF assms(13)] by blast
  have z: "online b2 z = Some (v\<lparr>w_isk := NaN\<rparr>)" "online b2 c = Some u"
    using b2(2) b1(2) u(1) assms(5) by (auto simp: on_def)
  let ?d = "dbl_of_int n"
  have d: "value_of ?d = of_whole n"
    using assms(11,12) u(3) by (intro value_of_int) simp
  obtain r3 b3 where b3: "side env z (- value_of ?d) ISK b2 = (Inr r3, b3)" "map_option w_isk (online b3 z) = Some NaN"
      "online b3 c = Some u"
    using NaN_wallet [OF z(1), of env "- value_of ?d"] z assms(5) by auto
  define on3 where "on3 = (online b3)(c \<mapsto> u\<lparr>w_isk := of_whole (k + n)\<rparr>)"
  have "\<exists>r y. side env c (value_of ?d) ISK x = (Inr r, y) \<and> online y = on3" if "online x = online b3" for x
    using whole_side(2) [of x c u k n env] u b3(3) d that assms(11,12) by (auto simp: on3_def)
  then obtain b4 where "GiveCash env z c ?d reason b2 = (Inr (), b4)" "online b4 = on3"
    using transfer_done [OF assms(3,4) donation_untaxed b3(1), of on3]
    unfolding GiveCash_transfer [OF assms(13)] by blast
  then show ?thesis
    using b2(1) b3(2) assms(5,10) by (auto simp: GiveCash_int_def on3_def)
qed

theorem nan_gift_makes_money_witness:
  "\<exists>b1 b2. GiveCash sample_accounts 90000001 90000002 0x7FF8000000000000 [] (sample_bank\<lparr>online := (online sample_bank)(90000003 \<mapsto> isk 7)\<rparr>)
       = (Inr (), b1) \<and> GiveCash_int sample_accounts 90000002 90000003 1000000 [] b1 = (Inr (), b2) \<and>
     map_option w_isk (online b2 90000003) = Some (of_whole 1000007) \<and> map_option w_isk (online b2 90000002) = Some NaN"
proof -
  have "displays (sample_bank\<lparr>online := (online sample_bank)(90000003 \<mapsto> isk 7)\<rparr>) [90000001 \<mapsto> 100, 90000002 \<mapsto> 5, 90000003 \<mapsto> 7]"
    by (auto simp: displays_def isk_def sample_bank_def split: if_splits)
  moreover have "value_of 0x7FF8000000000000 = NaN"
    by (simp add: value_of_def dbl_nan_def dbl_field_def dbl_fraction_def drop_bit_eq_div take_bit_eq_mod)
  ultimately show ?thesis
    using nan_gift_makes_money [OF _ sample_characters(1-3) _ _ _ _ _ _ _ _ sample_characters(4),
      of _ "[90000001 \<mapsto> 100, 90000002 \<mapsto> 5, 90000003 \<mapsto> 7]" 7 "0x7FF8000000000000" 1000000 1000000 sample_accounts]
    by simp
qed

text \<open>A wallet is a \<open>float\<close>, so one ISK given to a character that has \<open>2\<^sup>2\<^sup>4\<close> is lost: the giver pays, and the wallet
  of the other stays as it was.\<close>

theorem small_gift_is_lost:
  assumes "IsCharacterID a" "IsCharacterID z" "a \<noteq> z" "\<not> bad_reason reason" "online b a = Some w" "w_isk w = of_whole x" "0 < x"
    and "x < 2 ^ 24" "online b z = Some v" "w_isk v = of_whole (2 ^ 24)"
  shows "\<exists>b'. GiveCash_int env a z 1 reason b = (Inr (), b') \<and> online b' = (online b)(a \<mapsto> w\<lparr>w_isk := of_whole (x - 1)\<rparr>)"
proof -
  let ?d = "dbl_of_int 1"
  have d: "value_of ?d = of_whole 1"
    by (rule value_of_int) simp
  obtain b1 where b1: "side env a (- value_of ?d) ISK b = (Inr (of_whole (x - 1)), b1)"
      "online b1 = (online b)(a \<mapsto> w\<lparr>w_isk := of_whole (x - 1)\<rparr>)"
    using whole_side(2) [OF assms(5,6), of "- 1" env] d assms(7,8) by auto
  have "\<exists>r y. side env z (value_of ?d) ISK c = (Inr r, y) \<and> online y = online b1" if "online c = online b1" for c
    using full_side [of c z v env] assms(3,9,10) b1(2) d that by simp
  then obtain b2 where "GiveCash env a z ?d reason b = (Inr (), b2)" "online b2 = online b1"
    using transfer_done [OF assms(1,2) donation_untaxed b1(1), of "online b1"]
    unfolding GiveCash_transfer [OF assms(4)] by blast
  then show ?thesis
    using b1(2) by (simp add: GiveCash_int_def)
qed

theorem small_gift_is_lost_witness:
  "\<exists>b'. GiveCash_int sample_accounts 90000001 90000003 1 [] sample_bank = (Inr (), b') \<and>
     online b' = (online sample_bank)(90000001 \<mapsto> isk 99)"
proof -
  have "isk 100 = \<lparr>w_isk = of_whole 100, w_aur = Fin 0\<rparr>" "(isk 100)\<lparr>w_isk := of_whole 99\<rparr> = isk 99"
    by (simp_all add: isk_def)
  then show ?thesis
    using small_gift_is_lost [OF sample_characters(1,3) _ sample_characters(4), of sample_bank "isk 100" 100 "isk 16777216" sample_accounts]
    by (simp add: sample_bank_def isk_def)
qed

end
