(* ===== verification/Sorting.thy ===== *)
theory Sorting
  imports Items "HOL-Library.Multiset"
begin

text \<open>
  The two hand-written sorts of items: \<open>Inventory::SortVector\<close>, which puts the fitted modules of a ship
  before its cargo, and \<open>InventoryBound::CatSortItems\<close>, which orders modules that are fitted together.
  Both walk over the vector, swap neighbours that are in the wrong order, and start again until a walk
  swaps nothing.
\<close>

section \<open>One walk over the vector\<close>

fun sort_pass :: "('a \<Rightarrow> 'a \<Rightarrow> bool) \<Rightarrow> 'a list \<Rightarrow> 'a list \<times> bool" where
  "sort_pass wrong (x # y # zs) =
     (if wrong x y then let (r, _) = sort_pass wrong (x # zs) in (y # r, False)
      else let (r, done) = sort_pass wrong (y # zs) in (x # r, done))"
| "sort_pass wrong xs = (xs, True)"

text \<open>What is left to swap: the pairs in the wrong order.\<close>

fun inversions :: "('a \<Rightarrow> 'a \<Rightarrow> bool) \<Rightarrow> 'a list \<Rightarrow> nat" where
  "inversions wrong [] = 0"
| "inversions wrong (x # xs) = length (filter (wrong x) xs) + inversions wrong xs"

lemma mset_sort_pass: "mset (fst (sort_pass wrong xs)) = mset xs"
  by (induction wrong xs rule: sort_pass.induct) (auto split: prod.splits)

lemma length_filter_sort_pass: "length (filter P (fst (sort_pass wrong xs))) = length (filter P xs)"
proof -
  have "length (filter P xs) = size (filter_mset P (mset xs))" for xs
    by (metis mset_filter size_mset)
  then show ?thesis
    using mset_sort_pass by metis
qed

lemma sort_pass_done:
  "snd (sort_pass wrong xs) \<Longrightarrow>
     fst (sort_pass wrong xs) = xs \<and> (\<forall>i. Suc i < length xs \<longrightarrow> \<not> wrong (xs ! i) (xs ! Suc i))"
proof (induction wrong xs rule: sort_pass.induct)
  case (1 wrong x y zs)
  then have w: "\<not> wrong x y" "snd (sort_pass wrong (y # zs))"
    by (auto split: if_splits prod.splits)
  then show ?case
    using 1(2) [OF w] by (auto split: prod.splits simp: nth_Cons split: nat.splits)
qed auto

text \<open>
  The interface of the sorts: being in the wrong order is a strict order. Then every walk that swaps
  lowers the number of inversions.
\<close>

locale exchange_sort =
  fixes wrong :: "'a \<Rightarrow> 'a \<Rightarrow> bool"
  assumes asym: "wrong x y \<Longrightarrow> \<not> wrong y x"
    and trans: "wrong x y \<Longrightarrow> wrong y z \<Longrightarrow> wrong x z"
begin

lemma inversions_pass_le: "inversions wrong (fst (sort_pass wrong xs)) \<le> inversions wrong xs"
proof (induction "length xs" arbitrary: xs)
  case 0
  then show ?case by simp
next
  case (Suc n)
  show ?case
  proof (cases xs rule: list.exhaust)
    case (Cons x ys)
    show ?thesis
    proof (cases ys)
      case (Cons y zs)
      then show ?thesis
        using Suc(1) [of "x # zs"] Suc(1) [of "y # zs"] Suc(2) \<open>xs = x # ys\<close> asym [of x y]
          length_filter_sort_pass [of "wrong y" wrong "x # zs"] length_filter_sort_pass [of "wrong x" wrong "y # zs"]
        by (auto split: prod.splits)
    qed (use Cons in simp)
  qed simp
qed

lemma inversions_pass_less:
  "\<not> snd (sort_pass wrong xs) \<Longrightarrow> inversions wrong (fst (sort_pass wrong xs)) < inversions wrong xs"
proof (induction "length xs" arbitrary: xs)
  case 0
  then show ?case by simp
next
  case (Suc n)
  then obtain x y zs where xs: "xs = x # y # zs"
    by (cases xs rule: remdups_adj.cases) auto
  show ?case
  proof (cases "wrong x y")
    case True
    then show ?thesis
      using inversions_pass_le [of "x # zs"] asym [OF True] xs length_filter_sort_pass [of "wrong y" wrong "x # zs"]
      by (auto split: prod.splits)
  next
    case False
    then have "\<not> snd (sort_pass wrong (y # zs))"
      using Suc(3) xs by (auto split: prod.splits)
    then show ?thesis
      using Suc(1) [of "y # zs"] Suc(2) xs False length_filter_sort_pass [of "wrong x" wrong "y # zs"]
      by (auto split: prod.splits)
  qed
qed

lemma pass_keeps_equals:
  assumes "\<And>x y. x \<in> set xs \<Longrightarrow> y \<in> set xs \<Longrightarrow> P x \<Longrightarrow> P y \<Longrightarrow> \<not> wrong x y"
  shows "filter P (fst (sort_pass wrong xs)) = filter P xs"
  using assms
proof (induction "length xs" arbitrary: xs)
  case 0
  then show ?case by simp
next
  case (Suc n)
  show ?case
  proof (cases xs rule: remdups_adj.cases)
    case (3 x y zs)
    have "filter P (fst (sort_pass wrong (x # zs))) = filter P (x # zs)"
      by (rule Suc(1)) (use Suc(2,3) 3 in auto)
    moreover have "filter P (fst (sort_pass wrong (y # zs))) = filter P (y # zs)"
      by (rule Suc(1)) (use Suc(2,3) 3 in auto)
    moreover have "\<not> (wrong x y \<and> P x \<and> P y)"
      using Suc(3) [of x y] 3 by auto
    ultimately show ?thesis
      using 3 by (auto split: prod.splits)
  qed auto
qed

end

section \<open>The two orders\<close>

text \<open>A slot of a fitted module is ordered by category; what lies in a cargo hold comes after it.\<close>

definition sort_wrong :: "item \<Rightarrow> item \<Rightarrow> bool" where
  "sort_wrong x y \<longleftrightarrow>
     (if IsModuleSlot (i_flag x) \<and> IsModuleSlot (i_flag y)
      then type_category (m_type x) > type_category (m_type y)
      else IsCargoHoldFlag (i_flag x) \<and> IsModuleSlot (i_flag y))"

definition cat_wrong :: "item \<Rightarrow> item \<Rightarrow> bool" where
  "cat_wrong x y \<longleftrightarrow> type_category (m_type x) < type_category (m_type y)"

lemma cargo_no_module: "IsCargoHoldFlag f \<Longrightarrow> \<not> IsModuleSlot f"
  unfolding IsCargoHoldFlag_def IsModuleSlot_def word_le_nat_alt word_unat_eq_iff by auto

interpretation vector: exchange_sort sort_wrong
  by unfold_locales (auto simp: sort_wrong_def dest: cargo_no_module split: if_splits)

interpretation category: exchange_sort cat_wrong
  by unfold_locales (auto simp: cat_wrong_def)

function sort_loop :: "item list \<Rightarrow> item list" where
  "sort_loop xs = (let (ys, done) = sort_pass sort_wrong xs in if done then ys else sort_loop ys)"
  by pat_completeness auto

termination
proof (relation "measure (inversions sort_wrong)")
  fix xs p ys ok
  assume "p = sort_pass sort_wrong xs" "(ys, ok) = p" "\<not> ok"
  then show "(ys, xs) \<in> measure (inversions sort_wrong)"
    using vector.inversions_pass_less [of xs] by (cases "sort_pass sort_wrong xs") auto
qed simp

declare sort_loop.simps [simp del]

definition SortVector :: "item list \<Rightarrow> item list" where
  "SortVector xs = (if length xs < 2 then xs else sort_loop xs)"

function cat_loop :: "item list \<Rightarrow> item list" where
  "cat_loop xs = (let (ys, done) = sort_pass cat_wrong xs in if done then ys else cat_loop ys)"
  by pat_completeness auto

termination
proof (relation "measure (inversions cat_wrong)")
  fix xs p ys ok
  assume "p = sort_pass cat_wrong xs" "(ys, ok) = p" "\<not> ok"
  then show "(ys, xs) \<in> measure (inversions cat_wrong)"
    using category.inversions_pass_less [of xs] by (cases "sort_pass cat_wrong xs") auto
qed simp

declare cat_loop.simps [simp del]

definition CatSortItems :: "item list \<Rightarrow> int32 list result" where
  "CatSortItems xs =
     (if length xs < 2 then ebind (vec_at xs 0) (\<lambda>it. Inr [m_itemID it]) else Inr (map m_itemID (cat_loop xs)))"

section \<open>As stable sorts\<close>

text \<open>
  A loop of walks ends where nothing is in the wrong order, with the same items, and items that are
  not ordered against each other stay in place. When the order is the one of a rank, it is the stable
  sort by that rank.
\<close>

locale exchange_loop = exchange_sort +
  fixes loop :: "'a list \<Rightarrow> 'a list"
  assumes loop: "loop xs = (if snd (sort_pass wrong xs) then xs else loop (fst (sort_pass wrong xs)))"
begin

lemma pass_induct [case_names pass]:
  assumes "\<And>xs. (\<not> snd (sort_pass wrong xs) \<Longrightarrow> Q (fst (sort_pass wrong xs))) \<Longrightarrow> Q xs"
  shows "Q xs"
proof (induction "inversions wrong xs" arbitrary: xs rule: less_induct)
  case less
  then show ?case
    using assms inversions_pass_less by blast
qed

lemma mset_loop: "mset (loop xs) = mset xs"
proof (induction xs rule: pass_induct)
  case (pass xs)
  then show ?case
    using mset_sort_pass [of wrong xs] by (subst loop) auto
qed

lemma set_loop: "set (loop xs) = set xs"
  using mset_loop by (metis set_mset_mset)

lemma loop_stops: "snd (sort_pass wrong (loop xs))"
proof (induction xs rule: pass_induct)
  case (pass xs)
  then show ?case
    by (subst loop) auto
qed

lemma loop_ordered: "Suc i < length (loop xs) \<Longrightarrow> \<not> wrong (loop xs ! i) (loop xs ! Suc i)"
  using sort_pass_done [OF loop_stops [of xs]] by blast

lemma loop_keeps_equals:
  assumes "\<And>x y. x \<in> set xs \<Longrightarrow> y \<in> set xs \<Longrightarrow> P x \<Longrightarrow> P y \<Longrightarrow> \<not> wrong x y"
  shows "filter P (loop xs) = filter P xs"
  using assms
proof (induction xs rule: pass_induct)
  case (pass xs)
  have "set (fst (sort_pass wrong xs)) = set xs"
    using mset_sort_pass by (metis set_mset_mset)
  then show ?case
    using pass pass_keeps_equals [of xs P] by (subst loop) auto
qed

lemma loop_sort_key:
  assumes rank: "\<And>x y. x \<in> set xs \<Longrightarrow> wrong x y \<longleftrightarrow> rank y < rank x"
  shows "loop xs = sort_key rank xs"
proof (rule properties_for_sort_key [symmetric])
  show "mset (loop xs) = mset xs"
    by (rule mset_loop)
  show "filter (\<lambda>x. rank k = rank x) (loop xs) = filter (\<lambda>x. rank k = rank x) xs" for k
    by (rule loop_keeps_equals) (use rank in auto)
  show "sorted (map rank (loop xs))"
    unfolding sorted_iff_nth_Suc
  proof (intro allI impI)
    fix i
    assume i: "Suc i < length (map rank (loop xs))"
    then have "loop xs ! i \<in> set xs"
      using set_loop by (metis Suc_lessD length_map nth_mem)
    then show "map rank (loop xs) ! i \<le> map rank (loop xs) ! Suc i"
      using i loop_ordered [of i xs] rank by (simp add: not_less)
  qed
qed

end

lemma loop_unfold: "(let (ys, ok) = sort_pass wrong xs in if ok then ys else f ys) =
    (if snd (sort_pass wrong xs) then xs else f (fst (sort_pass wrong xs)))"
  using sort_pass_done [of wrong xs] by (cases "sort_pass wrong xs") auto

interpretation vector: exchange_loop sort_wrong sort_loop
  by unfold_locales (subst sort_loop.simps, rule loop_unfold)

interpretation category: exchange_loop cat_wrong cat_loop
  by unfold_locales (subst cat_loop.simps, rule loop_unfold)

definition slot_rank :: "item \<Rightarrow> nat" where
  "slot_rank x = (if IsModuleSlot (i_flag x) then unat (type_category (m_type x)) else 256)"

definition cat_rank :: "item \<Rightarrow> nat" where
  "cat_rank x = 255 - unat (type_category (m_type x))"

lemma byte_le: "unat (b :: 8 word) \<le> 255"
  using unsigned_less [where ?'a = nat, of b] by simp

lemma sort_wrong_rank:
  assumes "IsModuleSlot (i_flag x) \<or> IsCargoHoldFlag (i_flag x)"
  shows "sort_wrong x y \<longleftrightarrow> slot_rank y < slot_rank x"
  using assms cargo_no_module [of "i_flag x"] byte_le [of "type_category (m_type x)"] byte_le [of "type_category (m_type y)"]
  by (auto simp: sort_wrong_def slot_rank_def word_less_nat_alt)

lemma cat_wrong_rank: "cat_wrong x y \<longleftrightarrow> cat_rank y < cat_rank x"
  using byte_le [of "type_category (m_type x)"] byte_le [of "type_category (m_type y)"]
  by (auto simp: cat_wrong_def cat_rank_def word_less_nat_alt)

lemma short_sort_key: "length xs < 2 \<Longrightarrow> sort_key f xs = xs"
  by (cases xs rule: remdups_adj.cases) simp_all

section \<open>Main results\<close>

text \<open>C25. What the two sorts compute. \<open>SortVector\<close> ends for any items and neither loses nor doubles one; when
  every item is in a module slot or in a hold, it is the stable sort that puts what is in slots first, by
  ascending category, then the cargo. It never compares slots, so the slot order that its comment
  promises is the order of the input. \<open>CatSortItems\<close> is the stable sort of two or more items by
  descending category. That is not what its comments ask for, modules before charges before the rest: it
  puts charges before modules and subsystems before both (\<open>fitting_sorts_backwards\<close>).\<close>

theorem sorts_are_stable:
  "mset (SortVector xs) = mset xs \<and>
   ((\<forall>x \<in> set xs. IsModuleSlot (i_flag x) \<or> IsCargoHoldFlag (i_flag x)) \<longrightarrow> SortVector xs = sort_key slot_rank xs) \<and>
   (2 \<le> length xs \<longrightarrow> CatSortItems xs = Inr (map m_itemID (sort_key cat_rank xs)))"
proof (intro conjI impI)
  show "mset (SortVector xs) = mset xs"
    by (simp add: SortVector_def vector.mset_loop)
  show "SortVector xs = sort_key slot_rank xs"
    if "\<forall>x \<in> set xs. IsModuleSlot (i_flag x) \<or> IsCargoHoldFlag (i_flag x)"
    using that vector.loop_sort_key [of xs slot_rank] sort_wrong_rank short_sort_key [of xs slot_rank]
    by (auto simp: SortVector_def)
  show "CatSortItems xs = Inr (map m_itemID (sort_key cat_rank xs))" if "2 \<le> length xs"
    using that category.loop_sort_key [of xs cat_rank] cat_wrong_rank by (simp add: CatSortItems_def)
qed

text \<open>An item of a category at a place.\<close>

definition sample_item :: "int32 \<Rightarrow> int8 \<Rightarrow> int32 \<Rightarrow> item" where
  "sample_item i cat flag = \<lparr>m_itemID = i, m_type = \<lparr>type_id = 34, type_group = 18, type_category = cat\<rparr>,
     i_owner = 90000001, i_location = 60000004, i_flag = flag, i_singleton = False, i_quantity = 10,
     m_delete = False, pInventory = None\<rparr>"

theorem sorts_are_stable_witness:
  "SortVector [sample_item 1 8 5, sample_item 2 7 27] = [sample_item 2 7 27, sample_item 1 8 5] \<and>
   CatSortItems [sample_item 1 7 5, sample_item 2 8 5] = Inr [2, 1]"
  using sorts_are_stable [of "[sample_item 1 8 5, sample_item 2 7 27]"]
    sorts_are_stable [of "[sample_item 1 7 5, sample_item 2 8 5]"]
  by (simp add: sample_item_def IsModuleSlot_def IsCargoHoldFlag_def slot_rank_def cat_rank_def)

text \<open>Modules are of category 7, charges 8 and subsystems 32: a fit that is in the order of the comments of
  \<open>CatSortItems\<close> comes out in the opposite order.\<close>

theorem fitting_sorts_backwards:
  assumes "type_category (m_type m) = 7" "type_category (m_type c) = 8" "type_category (m_type s) = 32"
  shows "CatSortItems [m, c, s] = Inr (map m_itemID [s, c, m])"
  using assms by (simp add: CatSortItems_def cat_wrong_def cat_loop.simps)

text \<open>A drone in its bay is a barrier: it is neither in a slot nor in a hold, so cargo that comes before it is
  not moved behind the modules that come after it, and \<open>SortVector\<close> leaves the cargo first.\<close>

theorem drones_block_sorting:
  assumes "IsCargoHoldFlag (i_flag x)" "i_flag d = 87" "IsModuleSlot (i_flag y)"
  shows "SortVector [x, d, y] = [x, d, y]"
proof -
  have "\<not> IsModuleSlot (i_flag d)" "\<not> IsCargoHoldFlag (i_flag d)"
    using assms(2) by (simp_all add: IsModuleSlot_def IsCargoHoldFlag_def)
  then show ?thesis
    using assms(1) by (simp add: SortVector_def sort_wrong_def cargo_no_module sort_loop.simps)
qed

theorem drones_block_sorting_witness:
  "SortVector [sample_item 1 8 5, sample_item 2 18 87, sample_item 3 7 27] =
     [sample_item 1 8 5, sample_item 2 18 87, sample_item 3 7 27]"
  by (rule drones_block_sorting) (simp_all add: sample_item_def IsCargoHoldFlag_def IsModuleSlot_def)

end
