(* ===== verification/Contents.thy ===== *)
theory Contents
  imports Sorting
begin

text \<open>
  What containers hold: the queries of \<open>eve-server/inventory/Inventory.cpp\<close>, and the invariant that ties
  the contents of a container, their index by flag, the places of the items and the cache of the factory
  together. \<open>item_step\<close> are the operations on items as the game uses them; every run of them keeps the
  invariant.
\<close>

section \<open>Queries\<close>

text \<open>The items of a container in the order of their ids, and those of one flag in the order of the index.\<close>

definition all_items :: "inventory \<Rightarrow> store \<Rightarrow> item list result" where
  "all_items box st = emap (\<lambda>(_, p). deref p st) (mContents box)"

definition GetItemsByFlag :: "int32 \<Rightarrow> inventory \<Rightarrow> item_ref list" where
  "GetItemsByFlag flag box = map snd (range_of flag box)"

definition flag_items :: "int32 \<Rightarrow> inventory \<Rightarrow> store \<Rightarrow> item list result" where
  "flag_items flag box st = emap (\<lambda>p. deref p st) (GetItemsByFlag flag box)"

definition GetByID :: "int32 \<Rightarrow> inventory \<Rightarrow> item_ref option" where
  "GetByID i box = map_of (mContents box) i"

definition ContainsItem :: "int32 \<Rightarrow> inventory \<Rightarrow> bool" where
  "ContainsItem i box \<longleftrightarrow> map_of (mContents box) i \<noteq> None"

definition IsEmptyByFlag :: "int32 \<Rightarrow> inventory \<Rightarrow> bool" where
  "IsEmptyByFlag flag box \<longleftrightarrow> range_of flag box = []"

definition GetSingleItemByFlag :: "int32 \<Rightarrow> inventory \<Rightarrow> item_ref option" where
  "GetSingleItemByFlag flag box = (case range_of flag box of [] \<Rightarrow> None | (_, p) # _ \<Rightarrow> Some p)"

fun find_ref :: "(item \<Rightarrow> bool) \<Rightarrow> item_ref list \<Rightarrow> store \<Rightarrow> item_ref option result" where
  "find_ref P [] st = Inr None"
| "find_ref P (p # ps) st = ebind (deref p st) (\<lambda>it. if P it then Inr (Some p) else find_ref P ps st)"

definition FindFirstByFlag :: "int32 \<Rightarrow> inventory \<Rightarrow> store \<Rightarrow> item_ref option result" where
  "FindFirstByFlag flag box st = find_ref (\<lambda>it. i_flag it = flag) (map snd (mContents box)) st"

definition GetByTypeFlag :: "int16 \<Rightarrow> int32 \<Rightarrow> inventory \<Rightarrow> store \<Rightarrow> item_ref option result" where
  "GetByTypeFlag ty flag box st = find_ref (\<lambda>it. type_id (m_type it) = ty) (GetItemsByFlag flag box) st"

definition GetInvForOwner :: "int32 \<Rightarrow> inventory \<Rightarrow> store \<Rightarrow> item list result" where
  "GetInvForOwner owner box st = ebind (all_items box st) (\<lambda>xs. Inr (filter (\<lambda>it. i_owner it = owner) xs))"

definition GetItemsByFlagRange :: "int32 \<Rightarrow> int32 \<Rightarrow> inventory \<Rightarrow> store \<Rightarrow> item list result" where
  "GetItemsByFlagRange low high box st =
     ebind (all_items box st) (\<lambda>xs. Inr (filter (\<lambda>it. low \<le> i_flag it \<and> i_flag it \<le> high) xs))"

definition GetInventoryVec :: "inventory \<Rightarrow> store \<Rightarrow> item list result" where
  "GetInventoryVec box st = ebind (all_items box st) (\<lambda>xs. Inr (SortVector xs))"

text \<open>
  Whether there is enough of a type. One stack of that size is enough; otherwise the quantities are
  added. A quantity is signed, the number asked for is not, and they are compared as unsigned numbers.
\<close>

fun enough_loop :: "int16 \<Rightarrow> int32 \<Rightarrow> int32 \<Rightarrow> item list \<Rightarrow> bool" where
  "enough_loop ty qty sofar [] \<longleftrightarrow> qty \<le> sofar"
| "enough_loop ty qty sofar (it # xs) \<longleftrightarrow>
     (if type_id (m_type it) = ty then
        (if qty \<le> i_quantity it then True else enough_loop ty qty (sofar + i_quantity it) xs)
      else enough_loop ty qty sofar xs)"

definition ContainsTypeQty :: "int16 \<Rightarrow> int32 \<Rightarrow> inventory \<Rightarrow> store \<Rightarrow> bool result" where
  "ContainsTypeQty ty qty box st = ebind (all_items box st) (\<lambda>xs. Inr (enough_loop ty qty 0 xs))"

definition ContainsTypeQtyByFlag :: "int16 \<Rightarrow> int32 \<Rightarrow> int32 \<Rightarrow> inventory \<Rightarrow> store \<Rightarrow> bool result" where
  "ContainsTypeQtyByFlag ty flag qty box st =
     ebind (flag_items flag box st) (\<lambda>xs. Inr (if xs = [] then False else enough_loop ty qty 0 xs))"

definition ContainsTypeStackQtyByFlag :: "int16 \<Rightarrow> int32 \<Rightarrow> int32 \<Rightarrow> inventory \<Rightarrow> store \<Rightarrow> int32 result" where
  "ContainsTypeStackQtyByFlag ty flag qty box st =
     ebind (flag_items flag box st) (\<lambda>xs.
       Inr (case find (\<lambda>it. type_id (m_type it) = ty \<and> qty \<le> i_quantity it) xs of
              None \<Rightarrow> 0 | Some it \<Rightarrow> m_itemID it))"

definition ContainsTypeByFlag :: "int16 \<Rightarrow> int32 \<Rightarrow> inventory \<Rightarrow> store \<Rightarrow> bool result" where
  "ContainsTypeByFlag ty flag box st =
     ebind (flag_items flag box st) (\<lambda>xs. Inr (\<exists>it \<in> set xs. type_id (m_type it) = ty))"

text \<open>How much there is of a type, for items whose quantity is not negative.\<close>

definition total_of :: "int16 \<Rightarrow> item list \<Rightarrow> nat" where
  "total_of ty xs = sum_list (map (unat \<circ> i_quantity) (filter (\<lambda>it. type_id (m_type it) = ty) xs))"

lemma enough_loop_total:
  assumes "unat sofar + total_of ty xs < 2 ^ 32"
  shows "enough_loop ty qty sofar xs \<longleftrightarrow> unat qty \<le> unat sofar + total_of ty xs"
  using assms
proof (induction ty qty sofar xs rule: enough_loop.induct)
  case (1 ty qty sofar)
  then show ?case
    by (simp add: total_of_def word_le_nat_alt)
next
  case (2 ty qty sofar it xs)
  have sum: "unat (sofar + i_quantity it) = unat sofar + unat (i_quantity it)" if "type_id (m_type it) = ty"
    using 2(3) that by (simp add: total_of_def unat_word_ariths(1))
  show ?case
    using 2 sum by (auto simp: total_of_def word_le_nat_alt)
qed

lemma enough_loop_assembled:
  "it \<in> set xs \<Longrightarrow> type_id (m_type it) = ty \<Longrightarrow> i_quantity it = - 1 \<Longrightarrow> enough_loop ty qty sofar xs"
  by (induction ty qty sofar xs rule: enough_loop.induct) auto

section \<open>The invariant\<close>

text \<open>
  An item without what it contains, and what it contains. A container with contents is in the cache under
  an id that is a location; what it contains is in the cache, knows that it is there, and is in the index once,
  under its flag.
\<close>

definition bare :: "store \<Rightarrow> item_ref \<Rightarrow> item option" where
  "bare st p = map_option (\<lambda>it. it\<lparr>pInventory := None\<rparr>) (heap st p)"

definition box_of :: "store \<Rightarrow> item_ref \<Rightarrow> inventory option" where
  "box_of st c = Option.bind (heap st c) pInventory"

definition filed :: "item \<Rightarrow> item \<Rightarrow> bool" where
  "filed self it \<longleftrightarrow>
     \<not> (IsCharacterID (m_itemID self) \<and> type_category (m_type it) = category_Skill) \<or> i_flag it = flagSkill"

definition member_ok :: "(item_ref \<Rightarrow> item option) \<Rightarrow> (int32 \<Rightarrow> item_ref option) \<Rightarrow> item \<Rightarrow> int32 \<times> item_ref \<Rightarrow> bool" where
  "member_ok D M self e \<longleftrightarrow>
     M (fst e) = Some (snd e) \<and>
     (\<exists>it. D (snd e) = Some it \<and> m_itemID it = fst e \<and> i_location it = m_itemID self \<and> filed self it)"

definition index_entry :: "(item_ref \<Rightarrow> item option) \<Rightarrow> int32 \<times> item_ref \<Rightarrow> int8 \<times> item_ref" where
  "index_entry D e = (ucast (i_flag (the (D (snd e)))), snd e)"

definition box_ok :: "(item_ref \<Rightarrow> item option) \<Rightarrow> (int32 \<Rightarrow> item_ref option) \<Rightarrow> item_ref \<Rightarrow> inventory \<Rightarrow> bool" where
  "box_ok D M c box \<longleftrightarrow>
     (\<exists>self. D c = Some self \<and>
       (mContents box \<noteq> [] \<longrightarrow> IsValidLocationID (m_itemID self) \<and> M (m_itemID self) = Some c) \<and>
       distinct (map fst (mContents box)) \<and>
       (\<forall>e \<in> set (mContents box). member_ok D M self e) \<and>
       mset (m_contentsByFlag box) = image_mset (index_entry D) (mset (mContents box)))"

definition contents_ok :: "store \<Rightarrow> bool" where
  "contents_ok st \<longleftrightarrow>
     (\<forall>c box. box_of st c = Some box \<longrightarrow> box_ok (bare st) (m_items st) c box) \<and>
     (\<forall>i c. m_items st i = Some c \<longrightarrow> (\<exists>it. heap st c = Some it \<and> m_itemID it = i)) \<and>
     (\<forall>p. heap st p \<noteq> None \<longrightarrow> p < made st)"

definition holds_item :: "store \<Rightarrow> item_ref \<Rightarrow> item_ref \<Rightarrow> bool" where
  "holds_item st c p \<longleftrightarrow> (\<exists>box. box_of st c = Some box \<and> p \<in> snd ` set (mContents box))"

lemma mset_multimap_emplace: "mset (multimap_emplace k p xs) = add_mset (k, p) (mset xs)"
  by (induction k p xs rule: multimap_emplace.induct) auto

lemma mset_map_insert: "i \<notin> fst ` set xs \<Longrightarrow> mset (map_insert i p xs) = add_mset (i, p) (mset xs)"
  by (induction i p xs rule: map_insert.induct) auto

lemma set_map_insert: "i \<notin> fst ` set xs \<Longrightarrow> set (map_insert i p xs) = insert (i, p) (set xs)"
  by (metis mset_map_insert set_mset_add_mset_insert set_mset_mset)

lemma distinct_map_insert: "distinct (map fst xs) \<Longrightarrow> i \<notin> fst ` set xs \<Longrightarrow> distinct (map fst (map_insert i p xs))"
  by (induction i p xs rule: map_insert.induct) (auto simp: set_map_insert)

definition box_without :: "int32 \<Rightarrow> int8 \<Rightarrow> item_ref \<Rightarrow> inventory \<Rightarrow> inventory" where
  "box_without i k p box =
     box\<lparr>mContents := filter (\<lambda>(j, _). j \<noteq> i) (mContents box), m_contentsByFlag := remove1 (k, p) (m_contentsByFlag box)\<rparr>"

definition box_with :: "int32 \<Rightarrow> int8 \<Rightarrow> item_ref \<Rightarrow> inventory \<Rightarrow> inventory" where
  "box_with i k p box =
     box\<lparr>mContents := map_insert i p (mContents box), m_contentsByFlag := multimap_emplace k p (m_contentsByFlag box)\<rparr>"

lemma box_ok_member:
  assumes "box_ok D M c box" "(i, p) \<in> set (mContents box)"
  shows "\<exists>self it. D c = Some self \<and> D p = Some it \<and> m_itemID it = i \<and> i_location it = m_itemID self \<and>
    M (m_itemID self) = Some c \<and> M i = Some p \<and> IsValidLocationID (m_itemID self)"
  using assms by (auto simp: box_ok_def member_ok_def)

lemma box_ok_without:
  assumes "box_ok D M c box" "D p = Some it" "M (m_itemID it) = Some p"
  shows "box_ok D M c (box_without (m_itemID it) (ucast (i_flag it)) p box)"
    "p \<notin> snd ` set (mContents (box_without (m_itemID it) (ucast (i_flag it)) p box))"
proof -
  let ?i = "m_itemID it" and ?k = "ucast (i_flag it) :: int8"
  have own: "q = p" if "(?i, q) \<in> set (mContents box)" for q
    using box_ok_member [OF assms(1) that] assms(3) by auto
  have here: "j = ?i" if "(j, p) \<in> set (mContents box)" for j
    using box_ok_member [OF assms(1) that] assms(2) by auto
  show "p \<notin> snd ` set (mContents (box_without ?i ?k p box))"
    using here by (auto simp: box_without_def)
  obtain self where self: "D c = Some self" "mContents box \<noteq> [] \<longrightarrow> IsValidLocationID (m_itemID self) \<and> M (m_itemID self) = Some c"
      "distinct (map fst (mContents box))" "\<forall>e \<in> set (mContents box). member_ok D M self e"
      "mset (m_contentsByFlag box) = image_mset (index_entry D) (mset (mContents box))"
    using assms(1) by (auto simp: box_ok_def)
  have "mset (remove1 (?k, p) (m_contentsByFlag box)) =
      image_mset (index_entry D) (mset (filter (\<lambda>(j, _). j \<noteq> ?i) (mContents box)))"
  proof (cases "(?i, p) \<in> set (mContents box)")
    case True
    then obtain xs ys where split: "mContents box = xs @ (?i, p) # ys"
      by (meson split_list)
    then have "?i \<notin> fst ` set xs" "?i \<notin> fst ` set ys"
      using self(3) by auto
    then have "filter (\<lambda>(j, _). j \<noteq> ?i) xs = xs" "filter (\<lambda>(j, _). j \<noteq> ?i) ys = ys"
      by (force simp: filter_id_conv)+
    then show ?thesis
      using self(5) split assms(2) by (simp add: index_entry_def mset_remove1)
  next
    case False
    then have "filter (\<lambda>(j, _). j \<noteq> ?i) (mContents box) = mContents box"
      using own by (auto simp: filter_id_conv)
    moreover have "(?k, p) \<notin># mset (m_contentsByFlag box)"
      unfolding self(5) using False here by (auto simp: index_entry_def)
    ultimately show ?thesis
      using self(5) by (simp add: remove1_idem)
  qed
  then show "box_ok D M c (box_without ?i ?k p box)"
    using self by (auto simp: box_ok_def box_without_def distinct_map_filter)
qed

lemma box_ok_with:
  assumes "box_ok D M c box" "D c = Some self" "D p = Some it" "M (m_itemID it) = Some p"
    and "p \<notin> snd ` set (mContents box)" "IsValidLocationID (m_itemID self)" "M (m_itemID self) = Some c"
    and "i_location it = m_itemID self" "filed self it"
  shows "box_ok D M c (box_with (m_itemID it) (flag_key self it) p box)"
proof -
  have new: "m_itemID it \<notin> fst ` set (mContents box)"
  proof
    assume "m_itemID it \<in> fst ` set (mContents box)"
    then obtain q where q: "(m_itemID it, q) \<in> set (mContents box)"
      by auto
    then have "q = p"
      using box_ok_member [OF assms(1) q] assms(4) by auto
    then show False
      using q assms(5) by force
  qed
  have key: "flag_key self it = ucast (i_flag it)"
    using assms(9) by (auto simp: filed_def flag_key_def)
  have m: "member_ok D M self (m_itemID it, p)"
    using assms(3,4,8,9) by (simp add: member_ok_def)
  have e: "index_entry D (m_itemID it, p) = (flag_key self it, p)"
    using assms(3) key by (simp add: index_entry_def)
  have s: "set (map_insert (m_itemID it) p (mContents box)) = insert (m_itemID it, p) (set (mContents box))"
    by (rule set_map_insert [OF new])
  show ?thesis
    using assms(1,2,6,7) m e s distinct_map_insert [OF _ new]
    by (auto simp: box_ok_def box_with_def mset_map_insert [OF new] mset_multimap_emplace)
qed

text \<open>An item that is in no container may change, if it keeps its id, and so may containers, in what \<open>bare\<close> does not show.\<close>

lemma box_ok_frame:
  assumes "box_ok D M c box" "p \<notin> snd ` set (mContents box)" "D p = Some it" "m_itemID it' = m_itemID it"
  shows "box_ok (D(p \<mapsto> it')) M c box"
proof -
  obtain self where self: "D c = Some self" "mContents box \<noteq> [] \<longrightarrow> IsValidLocationID (m_itemID self) \<and> M (m_itemID self) = Some c"
      "distinct (map fst (mContents box))" "\<forall>e \<in> set (mContents box). member_ok D M self e"
      "mset (m_contentsByFlag box) = image_mset (index_entry D) (mset (mContents box))"
    using assms(1) by (auto simp: box_ok_def)
  let ?self = "if c = p then it' else self"
  have "m_itemID ?self = m_itemID self"
    using self(1) assms(3,4) by auto
  moreover have filed_id: "filed ?self x = filed self x" for x
    using self(1) assms(3,4) by (auto simp: filed_def)
  ultimately have "\<forall>e \<in> set (mContents box). member_ok (D(p \<mapsto> it')) M ?self e"
    using self(4) assms(2) filed_id by (force simp: member_ok_def)
  moreover have "image_mset (index_entry (D(p \<mapsto> it'))) (mset (mContents box)) = image_mset (index_entry D) (mset (mContents box))"
    using assms(2) by (intro image_mset_cong) (auto simp: index_entry_def)
  ultimately show ?thesis
    using self \<open>m_itemID ?self = m_itemID self\<close> by (auto simp: box_ok_def)
qed


section \<open>The operations keep it\<close>

text \<open>Most of what an operation does touches only the database and the log.\<close>

definition same_memory :: "store \<Rightarrow> store \<Rightarrow> bool" where
  "same_memory st st' \<longleftrightarrow> heap st' = heap st \<and> m_items st' = m_items st \<and> made st' = made st \<and> next_entity st' = next_entity st"

lemma same_memory_simps [simp]:
  "same_memory st st" "same_memory st (UpdateLocation i l f st') = same_memory st st'"
  "same_memory st (SaveItem it st') = same_memory st st'"
  "same_memory st (SendItemChange env o' i cs st') = same_memory st st'"
  "same_memory st (DeleteItem i st') = same_memory st st'"
  by (simp_all add: same_memory_def UpdateLocation_def SaveItem_def SendItemChange_def DeleteItem_def)

lemma same_memory_trans [trans]: "same_memory a b \<Longrightarrow> same_memory b c \<Longrightarrow> same_memory a c"
  by (simp add: same_memory_def)

lemma same_memory_holds: "same_memory st st' \<Longrightarrow> contents_ok st' = contents_ok st \<and> holds_item st' = holds_item st"
  by (simp add: same_memory_def contents_ok_def holds_item_def [abs_def] box_of_def bare_def [abs_def])

lemma contents_okI:
  assumes "\<And>c box. box_of st c = Some box \<Longrightarrow> box_ok (bare st) (m_items st) c box"
    and "\<And>i c. m_items st i = Some c \<Longrightarrow> \<exists>it. heap st c = Some it \<and> m_itemID it = i"
    and "\<And>p. heap st p \<noteq> None \<Longrightarrow> p < made st"
  shows "contents_ok st"
  using assms by (auto simp: contents_ok_def)

lemma contents_ok_box: "contents_ok st \<Longrightarrow> box_of st c = Some box \<Longrightarrow> box_ok (bare st) (m_items st) c box"
  by (simp add: contents_ok_def)

lemma contents_ok_cached: "contents_ok st \<Longrightarrow> m_items st i = Some c \<Longrightarrow> \<exists>it. heap st c = Some it \<and> m_itemID it = i"
  by (simp add: contents_ok_def)

text \<open>A held item is at the location that holds it.\<close>

lemma held_at:
  assumes "contents_ok st" "holds_item st c p" "heap st p = Some it"
  shows "IsValidLocationID (i_location it)" "m_items st (i_location it) = Some c" "m_items st (m_itemID it) = Some p"
proof -
  obtain box i where b: "box_of st c = Some box" "(i, p) \<in> set (mContents box)"
    using assms(2) by (auto simp: holds_item_def)
  have "bare st p = Some (it\<lparr>pInventory := None\<rparr>)"
    using assms(3) by (simp add: bare_def)
  then show "IsValidLocationID (i_location it)" "m_items st (i_location it) = Some c" "m_items st (m_itemID it) = Some p"
    using box_ok_member [OF contents_ok_box [OF assms(1) b(1)] b(2)] by auto
qed

definition set_box :: "item_ref \<Rightarrow> inventory \<Rightarrow> store \<Rightarrow> store" where
  "set_box c box st = st\<lparr>heap := (heap st)(c := map_option (\<lambda>it. it\<lparr>pInventory := Some box\<rparr>) (heap st c))\<rparr>"

lemma set_box_simps [simp]:
  "bare (set_box c box st) = bare st" "m_items (set_box c box st) = m_items st" "made (set_box c box st) = made st" "next_entity (set_box c box st) = next_entity st"
  "entity (set_box c box st) = entity st"
  "heap (set_box c box st) p = None \<longleftrightarrow> heap st p = None"
  by (auto simp: set_box_def bare_def fun_eq_iff map_option.compositionality comp_def)

lemma box_of_set_box:
  "heap st c \<noteq> None \<Longrightarrow> box_of (set_box c box st) d = (if d = c then Some box else box_of st d)"
  by (auto simp: box_of_def set_box_def)

lemma set_box_ok:
  assumes "contents_ok st" "heap st c \<noteq> None" "box_ok (bare st) (m_items st) c box"
  shows "contents_ok (set_box c box st)"
proof (rule contents_okI)
  show "box_ok (bare (set_box c box st)) (m_items (set_box c box st)) d b" if "box_of (set_box c box st) d = Some b" for d b
    using that assms by (auto simp: box_of_set_box contents_ok_box split: if_splits)
  show "\<exists>it. heap (set_box c box st) d = Some it \<and> m_itemID it = i" if "m_items (set_box c box st) i = Some d" for i d
    using that contents_ok_cached [OF assms(1), of i d] by (auto simp: set_box_def)
  show "p < made (set_box c box st)" if "heap (set_box c box st) p \<noteq> None" for p
    using that assms(1) by (simp add: contents_ok_def)
qed

text \<open>The two operations on a container, as changes of its contents.\<close>

lemma RemoveItem_eq:
  assumes "heap st p = Some it" "heap st c = Some self"
  shows "RemoveItem c p st = Inr (case pInventory self of None \<Rightarrow> st
    | Some box \<Rightarrow> set_box c (box_without (m_itemID it) (ucast (i_flag it)) p box) st)"
  using assms by (auto simp: RemoveItem_def deref_def modify_def put_item_def set_box_def box_without_def split: option.splits)

definition hub :: "item \<Rightarrow> bool" where
  "hub self \<longleftrightarrow> type_id (m_type self) = type_InfrastructureHub"

lemma AddItem_eq:
  assumes "heap st p = Some it" "heap st c = Some self" "\<not> hub self"
  shows "AddItem env c p st = Inr (case pInventory self of None \<Rightarrow> st
    | Some box \<Rightarrow> set_box c (box_with (m_itemID it) (flag_key self it) p box) st)"
  using assms
  by (auto simp: AddItem_def deref_def modify_def put_item_def set_box_def box_with_def hub_def split: option.splits)

definition resident :: "store \<Rightarrow> int32 \<Rightarrow> bool" where
  "resident st loc \<longleftrightarrow> (IsValidLocationID loc \<longrightarrow> m_items st loc \<noteq> None)"

text \<open>Only contents of containers changed, and of these only where \<open>p\<close> is.\<close>

definition only_boxes :: "item_ref \<Rightarrow> store \<Rightarrow> store \<Rightarrow> bool" where
  "only_boxes p st st' \<longleftrightarrow>
     bare st' = bare st \<and> entity st' = entity st \<and> m_items st' = m_items st \<and> made st' = made st \<and> next_entity st' = next_entity st \<and>
     (\<forall>c. box_of st' c = None \<longleftrightarrow> box_of st c = None) \<and>
     (\<forall>c q. q \<noteq> p \<longrightarrow> holds_item st' c q = holds_item st c q)"

lemma only_boxes_refl [simp]: "only_boxes p st st"
  by (simp add: only_boxes_def)

lemma only_boxes_trans: "only_boxes p a b \<Longrightarrow> only_boxes p b c \<Longrightarrow> only_boxes p a c"
  by (simp add: only_boxes_def)

lemma bareD_at:
  assumes "bare st' p = bare st p" "heap st p = Some it"
  shows "\<exists>box. heap st' p = Some (it\<lparr>pInventory := box\<rparr>)"
proof -
  have "map_option (\<lambda>it. it\<lparr>pInventory := None\<rparr>) (heap st' p) = Some (it\<lparr>pInventory := None\<rparr>)"
    using assms by (simp add: bare_def)
  then obtain it' where "heap st' p = Some it'" "it'\<lparr>pInventory := None\<rparr> = it\<lparr>pInventory := None\<rparr>"
    unfolding map_option_eq_Some by blast
  then show ?thesis
    by (cases it; cases it') auto
qed

lemma bareD: "bare st' = bare st \<Longrightarrow> heap st p = Some it \<Longrightarrow> \<exists>box. heap st' p = Some (it\<lparr>pInventory := box\<rparr>)"
  by (rule bareD_at) simp_all

lemma holds_set_box:
  assumes "heap st c \<noteq> None"
  shows "holds_item (set_box c box st) d q \<longleftrightarrow> (if d = c then q \<in> snd ` set (mContents box) else holds_item st d q)"
  using assms by (simp add: holds_item_def box_of_set_box)

lemma remove_in_box:
  assumes "contents_ok st" "heap st p = Some it" "m_items st (m_itemID it) = Some p" "heap st c = Some self"
  shows "\<exists>st'. RemoveItem c p st = Inr st' \<and> contents_ok st' \<and> only_boxes p st st' \<and> \<not> holds_item st' c p \<and>
    (\<forall>d. d \<noteq> c \<longrightarrow> holds_item st' d p = holds_item st d p)"
proof (cases "pInventory self")
  case None
  then have "\<not> holds_item st c p"
    using assms(4) by (simp add: holds_item_def box_of_def)
  then show ?thesis
    using assms None by (simp add: RemoveItem_eq)
next
  case (Some box)
  let ?box = "box_without (m_itemID it) (ucast (i_flag it)) p box"
  have box: "box_of st c = Some box"
    using Some assms(4) by (simp add: box_of_def)
  have bare: "bare st p = Some (it\<lparr>pInventory := None\<rparr>)"
    using assms(2) by (simp add: bare_def)
  have ok: "box_ok (bare st) (m_items st) c ?box" and gone: "p \<notin> snd ` set (mContents ?box)"
    using box_ok_without [OF contents_ok_box [OF assms(1) box] bare] assms(3) by simp_all
  have other: "q \<in> snd ` set (mContents ?box) \<longleftrightarrow> holds_item st c q" if "q \<noteq> p" for q
  proof -
    have "j \<noteq> m_itemID it" if m: "(j, q) \<in> set (mContents box)" for j
      using box_ok_member [OF contents_ok_box [OF assms(1) box] m] assms(3) \<open>q \<noteq> p\<close> by auto
    then show ?thesis
      using box by (force simp: holds_item_def box_without_def)
  qed
  have "only_boxes p st (set_box c ?box st)"
    using other box assms(4) by (auto simp: only_boxes_def box_of_set_box holds_set_box)
  then show ?thesis
    using assms Some ok gone set_box_ok [OF assms(1) _ ok] by (simp add: RemoveItem_eq holds_set_box)
qed

lemma add_to_box:
  assumes "contents_ok st" "heap st p = Some it" "m_items st (m_itemID it) = Some p" "heap st c = Some self"
    and "\<forall>d. \<not> holds_item st d p" "\<not> hub self" "filed self it" "m_itemID self = i_location it"
    and "IsValidLocationID (i_location it)" "m_items st (i_location it) = Some c"
  shows "\<exists>st'. AddItem env c p st = Inr st' \<and> contents_ok st' \<and> only_boxes p st st' \<and>
    (\<forall>d. holds_item st' d p \<longleftrightarrow> d = c \<and> box_of st c \<noteq> None)"
proof (cases "pInventory self")
  case None
  then show ?thesis
    using assms by (simp add: AddItem_eq box_of_def)
next
  case (Some box)
  let ?box = "box_with (m_itemID it) (flag_key self it) p box"
  have box: "box_of st c = Some box"
    using Some assms(4) by (simp add: box_of_def)
  have bare: "bare st p = Some (it\<lparr>pInventory := None\<rparr>)" "bare st c = Some (self\<lparr>pInventory := None\<rparr>)"
    using assms(2,4) by (simp_all add: bare_def)
  have out: "p \<notin> snd ` set (mContents box)"
    using assms(5) box by (auto simp: holds_item_def)
  have key: "flag_key (self\<lparr>pInventory := None\<rparr>) (it\<lparr>pInventory := None\<rparr>) = flag_key self it"
    by (simp add: flag_key_def)
  have ok: "box_ok (bare st) (m_items st) c ?box"
    using box_ok_with [OF contents_ok_box [OF assms(1) box] bare(2,1), unfolded key] assms out
    by (simp add: filed_def)
  have new: "m_itemID it \<notin> fst ` set (mContents box)"
  proof
    assume "m_itemID it \<in> fst ` set (mContents box)"
    then obtain q where q: "(m_itemID it, q) \<in> set (mContents box)"
      by auto
    then have "q = p"
      using box_ok_member [OF contents_ok_box [OF assms(1) box] q] assms(3) by auto
    then show False
      using q out by force
  qed
  have "snd ` set (mContents ?box) = insert p (snd ` set (mContents box))"
    using set_map_insert [OF new] by (simp add: box_with_def)
  then have "only_boxes p st (set_box c ?box st)" "\<forall>d. holds_item (set_box c ?box st) d p \<longleftrightarrow> d = c"
    using assms(4,5) box by (auto simp: only_boxes_def box_of_set_box holds_set_box) (force simp: holds_item_def)+
  then show ?thesis
    using assms Some box set_box_ok [OF assms(1) _ ok] by (simp add: AddItem_eq)
qed

text \<open>Taking an item out of its location leaves it nowhere, and putting it there, in just that place.\<close>

lemma at_location_remove:
  assumes "contents_ok st" "heap st p = Some it" "m_items st (m_itemID it) = Some p" "resident st (i_location it)"
  shows "\<exists>st'. at_location env RemoveItem p st = Inr st' \<and> contents_ok st' \<and> only_boxes p st st' \<and> (\<forall>d. \<not> holds_item st' d p)"
proof (cases "IsValidLocationID (i_location it)")
  case False
  then show ?thesis
    using assms held_at(1) [OF assms(1) _ assms(2)] by (auto simp: at_location_def deref_def)
next
  case True
  then obtain c self where c: "m_items st (i_location it) = Some c" "heap st c = Some self"
    using assms(1,4) contents_ok_cached [OF assms(1)] by (force simp: resident_def)
  have "\<not> holds_item st d p" if "d \<noteq> c" for d
    using held_at(2) [OF assms(1) _ assms(2)] c(1) that by auto
  then show ?thesis
    using remove_in_box [OF assms(1-3) c(2)] True c assms(2) by (auto simp: at_location_def deref_def GetItemRef_def) metis
qed

definition receives :: "store \<Rightarrow> int32 \<Rightarrow> item_ref \<Rightarrow> bool" where
  "receives st loc c \<longleftrightarrow> IsValidLocationID loc \<and> m_items st loc = Some c \<and> box_of st c \<noteq> None"

definition welcomes :: "store \<Rightarrow> int32 \<Rightarrow> item \<Rightarrow> bool" where
  "welcomes st loc it \<longleftrightarrow>
     (IsValidLocationID loc \<longrightarrow>
       (\<exists>c self. m_items st loc = Some c \<and> heap st c = Some self \<and> \<not> hub self \<and> filed self it))"

lemma at_location_add:
  assumes "contents_ok st" "heap st p = Some it" "m_items st (m_itemID it) = Some p" "welcomes st (i_location it) it"
    and "\<forall>d. \<not> holds_item st d p"
  shows "\<exists>st'. at_location env (AddItem env) p st = Inr st' \<and> contents_ok st' \<and> only_boxes p st st' \<and>
    (\<forall>d. holds_item st' d p \<longleftrightarrow> receives st (i_location it) d)"
proof (cases "IsValidLocationID (i_location it)")
  case False
  then show ?thesis
    using assms by (auto simp: at_location_def deref_def receives_def)
next
  case True
  then obtain c self where c: "m_items st (i_location it) = Some c" "heap st c = Some self" "\<not> hub self" "filed self it"
    using assms(4) by (auto simp: welcomes_def)
  then have "m_itemID self = i_location it"
    using contents_ok_cached [OF assms(1) c(1)] by simp
  then show ?thesis
    using add_to_box [OF assms(1-3) c(2) assms(5) c(3,4)] True c assms(2)
    by (auto simp: at_location_def deref_def GetItemRef_def receives_def) metis
qed

text \<open>An item that is nowhere may change, if its id and its own contents stay.\<close>

lemma put_item_ok:
  assumes "contents_ok st" "heap st p = Some it" "\<forall>d. \<not> holds_item st d p"
    and "m_itemID it' = m_itemID it" "pInventory it' = pInventory it"
  shows "contents_ok (put_item p it' st)"
proof (rule contents_okI)
  let ?st = "put_item p it' st"
  have bare: "bare ?st = (bare st)(p \<mapsto> it'\<lparr>pInventory := None\<rparr>)"
    by (auto simp: bare_def put_item_def)
  show "box_ok (bare ?st) (m_items ?st) c box" if b: "box_of ?st c = Some box" for c box
  proof -
    have old: "box_of st c = Some box"
      using b assms(2,5) by (auto simp: box_of_def put_item_def split: if_splits)
    show ?thesis
      unfolding bare
    proof (simp add: put_item_def, rule box_ok_frame)
      show "box_ok (bare st) (m_items st) c box"
        by (rule contents_ok_box [OF assms(1) old])
      show "p \<notin> snd ` set (mContents box)"
        using assms(3) old by (auto simp: holds_item_def)
      show "bare st p = Some (it\<lparr>pInventory := None\<rparr>)"
        using assms(2) by (simp add: bare_def)
    qed (use assms(4) in simp)
  qed
  show "\<exists>x. heap ?st c = Some x \<and> m_itemID x = i" if "m_items ?st i = Some c" for i c
    using that contents_ok_cached [OF assms(1), of i c] assms(2,4) by (auto simp: put_item_def)
  show "q < made ?st" if "heap ?st q \<noteq> None" for q
    using that assms(1,2) by (auto simp: put_item_def contents_ok_def split: if_splits)
qed

lemma holds_put_item: "heap st p = Some it \<Longrightarrow> pInventory it' = pInventory it \<Longrightarrow> holds_item (put_item p it' st) d q = holds_item st d q"
  by (simp add: holds_item_def box_of_def put_item_def)

lemma box_of_put_item: "heap st p = Some it \<Longrightarrow> pInventory it' = pInventory it \<Longrightarrow> box_of (put_item p it' st) d = box_of st d"
  by (simp add: box_of_def put_item_def)

text \<open>Taken out, changed and put back.\<close>

lemma welcomes_same:
  assumes "welcomes st loc it" "bare st' = bare st" "m_items st' = m_items st"
  shows "welcomes st' loc it"
proof -
  have "\<exists>self'. heap st' c = Some self' \<and> \<not> hub self' \<and> filed self' it"
    if "heap st c = Some self" "\<not> hub self" "filed self it" for c self
    using bareD [OF assms(2) that(1)] that(2,3) by (auto simp: hub_def filed_def)
  then show ?thesis
    using assms(1,3) by (fastforce simp: welcomes_def)
qed

lemma welcomes_put_item:
  assumes "welcomes st loc it" "heap st p = Some old" "m_itemID new = m_itemID old" "m_type new = m_type old"
  shows "welcomes (put_item p new st) loc it"
proof -
  have "\<exists>self'. heap (put_item p new st) c = Some self' \<and> \<not> hub self' \<and> filed self' it"
    if "heap st c = Some self" "\<not> hub self" "filed self it" for c self
    using that assms(2,3,4) by (cases "c = p") (auto simp: put_item_def hub_def filed_def)
  then show ?thesis
    using assms(1) by (fastforce simp: welcomes_def put_item_def)
qed

text \<open>The state after an item was put in its place anew.\<close>

definition placed :: "item_ref \<Rightarrow> item \<Rightarrow> store \<Rightarrow> store \<Rightarrow> bool" where
  "placed p new st st' \<longleftrightarrow>
     contents_ok st' \<and> (\<exists>box. heap st' p = Some (new\<lparr>pInventory := box\<rparr>)) \<and> m_items st' = m_items st \<and> made st' = made st \<and> next_entity st' = next_entity st \<and>
     (\<forall>q. q \<noteq> p \<longrightarrow> bare st' q = bare st q) \<and>
     (\<forall>d. holds_item st' d p \<longleftrightarrow> receives st (i_location new) d) \<and>
     (\<forall>d q. q \<noteq> p \<longrightarrow> holds_item st' d q = holds_item st d q)"

lemma placed_memory: "placed p new st a \<Longrightarrow> same_memory a b \<Longrightarrow> placed p new st b"
  using same_memory_holds [of a b] by (simp add: placed_def same_memory_def bare_def)

lemma replace_places:
  assumes "contents_ok st" "heap st p = Some it" "m_items st (m_itemID it) = Some p" "resident st (i_location it)"
    and f: "\<And>x. m_itemID (f x) = m_itemID x" "\<And>x. m_type (f x) = m_type x" "\<And>x b. f (x\<lparr>pInventory := b\<rparr>) = (f x)\<lparr>pInventory := b\<rparr>"
    and "welcomes st (i_location (f it)) (f it)"
  shows "\<exists>st'. replace env p True f st = Inr st' \<and> placed p (f it) st st' \<and> entity st' = entity st"
proof -
  obtain a where a: "at_location env RemoveItem p st = Inr a" "contents_ok a" "only_boxes p st a" "\<forall>d. \<not> holds_item a d p"
    using at_location_remove [OF assms(1-4)] by blast
  have same: "bare a = bare st" "m_items a = m_items st" "made a = made st" "next_entity a = next_entity st" "box_of a c = None \<longleftrightarrow> box_of st c = None" for c
    using a(3) by (auto simp: only_boxes_def)
  obtain x where x: "heap a p = Some (it\<lparr>pInventory := x\<rparr>)" (is "_ = Some ?it")
    using bareD [OF same(1) assms(2)] by blast
  let ?b = "put_item p (f ?it) a"
  have "pInventory (f ?it) = x"
    using f(3) [of x it] by simp
  then have keep: "pInventory (f ?it) = pInventory ?it"
    by simp
  have b: "contents_ok ?b" "\<forall>d. \<not> holds_item ?b d p" "heap ?b p = Some (f ?it)"
    using put_item_ok [OF a(2) x a(4) _ keep] a(4) holds_put_item [OF x keep] f(1) by (auto simp: put_item_def)
  have loc: "i_location (f ?it) = i_location (f it)"
    using f(3) [of x it] by simp
  have "welcomes a (i_location (f ?it)) (f ?it)"
    using welcomes_same [OF assms(8) same(1,2)] f(3) [of x it] by (simp add: welcomes_def filed_def)
  then have acc: "welcomes ?b (i_location (f ?it)) (f ?it)"
    using welcomes_put_item [OF _ x] f(1,2) by simp
  have cached: "m_items ?b (m_itemID (f ?it)) = Some p"
    using assms(3) same(2) f(1) by (simp add: put_item_def)
  obtain c where c: "at_location env (AddItem env) p ?b = Inr c" "contents_ok c" "only_boxes p ?b c"
      "\<forall>d. holds_item c d p \<longleftrightarrow> receives ?b (i_location (f ?it)) d"
    using at_location_add [OF b(1,3) cached acc b(2)] by blast
  have recv: "receives ?b l d \<longleftrightarrow> receives st l d" for l d
    using box_of_put_item [OF x keep] same(2,5) by (simp add: receives_def put_item_def)
  obtain y where y: "heap c p = Some (f ?it\<lparr>pInventory := y\<rparr>)"
    using bareD [of c ?b, OF _ b(3)] c(3) by (auto simp: only_boxes_def)
  have "bare c q = bare st q" if "q \<noteq> p" for q
  proof -
    have "bare c q = bare ?b q"
      using c(3) by (simp add: only_boxes_def)
    also have "\<dots> = bare a q"
      using that by (simp add: bare_def put_item_def)
    finally show ?thesis
      using same(1) by simp
  qed
  moreover have "holds_item c d q = holds_item st d q" if "q \<noteq> p" for d q
    using that a(3) c(3) holds_put_item [OF x keep] by (simp add: only_boxes_def)
  ultimately have "placed p (f it) st c"
    using c(2,3,4) y recv same(2,3,4) loc f(3) [of x it] by (auto simp: placed_def only_boxes_def put_item_def)
  moreover have "entity c = entity st"
    using a(3) c(3) by (simp add: only_boxes_def put_item_def)
  ultimately show ?thesis
    using a(1) c(1) x by (auto simp: replace_def modify_def deref_def)
qed

section \<open>Main results\<close>

text \<open>\<open>ContainsTypeQty\<close> adds up the stacks of a type: when the quantities are taken as unsigned and their sum fits into 32 bits, it
  says whether there is as much as asked for. An assembled item has the quantity -1, which as an unsigned
  number is more than anything: one assembled item passes for any quantity of its type.\<close>

theorem contains_type_qty:
  assumes "all_items box st = Inr xs"
  shows "(total_of ty xs < 2 ^ 32 \<longrightarrow> ContainsTypeQty ty qty box st = Inr (unat qty \<le> total_of ty xs)) \<and>
    ((\<exists>it \<in> set xs. type_id (m_type it) = ty \<and> i_quantity it = - 1) \<longrightarrow> ContainsTypeQty ty qty box st = Inr True)"
  using assms enough_loop_total [of 0 ty xs qty] enough_loop_assembled [of _ xs ty qty 0] by (auto simp: ContainsTypeQty_def)

theorem contains_type_qty_witness:
  "\<forall>qty. \<exists>st box. all_items box st = Inr [sample_item 1 8 5, sample_item 2 8 5, (sample_item 3 6 5)\<lparr>i_quantity := - 1, m_type := \<lparr>type_id = 587, type_group = 25, type_category = 6\<rparr>\<rparr>] \<and>
     ContainsTypeQty 587 qty box st = Inr True"
proof
  fix qty :: int32
  let ?ship = "(sample_item 3 6 5)\<lparr>i_quantity := - 1, m_type := \<lparr>type_id = 587, type_group = 25, type_category = 6\<rparr>\<rparr>"
  let ?box = "\<lparr>mContents = [(1, 0), (2, 1), (3, 2)], m_contentsByFlag = [], mContentsLoaded = True\<rparr>"
  let ?st = "\<lparr>heap = [0 \<mapsto> sample_item 1 8 5, 1 \<mapsto> sample_item 2 8 5, 2 \<mapsto> ?ship], made = 3, m_items = (\<lambda>_. None),
    entity = (\<lambda>_. None), next_entity = 0, item_log = []\<rparr>"
  have "all_items ?box ?st = Inr [sample_item 1 8 5, sample_item 2 8 5, ?ship]"
    by (simp add: all_items_def deref_def)
  moreover from contains_type_qty [OF this, of 587 qty] have "ContainsTypeQty 587 qty ?box ?st = Inr True"
    by simp
  ultimately show "\<exists>st box. all_items box st = Inr [sample_item 1 8 5, sample_item 2 8 5, ?ship] \<and> ContainsTypeQty 587 qty box st = Inr True"
    by blast
qed

end
