(* ===== verification/Moves.thy ===== *)
theory Moves
  imports Contents
begin

text \<open>
  The operations on items with respect to the invariant of \<open>Contents\<close>: where an item is after a move, that what
  does not move it leaves it where it is, and that a deleted item is gone.
\<close>

section \<open>The moves\<close>

text \<open>An item in memory, known to the factory, as is the location it is in.\<close>

definition present :: "store \<Rightarrow> item_ref \<Rightarrow> item \<Rightarrow> bool" where
  "present st p it \<longleftrightarrow>
     contents_ok st \<and> heap st p = Some it \<and> m_items st (m_itemID it) = Some p \<and> resident st (i_location it)"

lemma presentD:
  assumes "present st p it"
  shows "contents_ok st" "heap st p = Some it" "m_items st (m_itemID it) = Some p" "resident st (i_location it)"
  using assms by (simp_all add: present_def)

lemma deref_placed: "placed p new st st' \<Longrightarrow> \<exists>box. deref p st' = Inr (new\<lparr>pInventory := box\<rparr>)"
  by (auto simp: placed_def deref_def)

definition same_place :: "item \<Rightarrow> int32 \<Rightarrow> int32 \<Rightarrow> bool" where
  "same_place it loc flag \<longleftrightarrow> loc = i_location it \<and> flag = i_flag it"

lemma Move_same_place:
  assumes "heap st p = Some it" "same_place it loc flag"
  shows "\<exists>st'. Move env p loc flag notify st = Inr st' \<and> same_memory st st'"
proof -
  have it: "it\<lparr>i_flag := i_flag it, i_location := i_location it\<rparr> = it" "(heap st)(p \<mapsto> it) = heap st"
    using assms(1) by auto
  have "modify p (\<lambda>it. it\<lparr>i_flag := flag, i_location := loc\<rparr>) st = Inr st"
    using assms it by (simp add: modify_def deref_def put_item_def same_place_def)
  then show ?thesis
    using assms by (simp add: Move_def deref_def same_place_def replace_def Let_def)
qed

lemma Move_places:
  assumes "present st p it" "\<not> same_place it loc flag" "welcomes st loc (it\<lparr>i_flag := flag, i_location := loc\<rparr>)"
  shows "\<exists>st'. Move env p loc flag notify st = Inr st' \<and> placed p (it\<lparr>i_flag := flag, i_location := loc\<rparr>) st st' \<and>
    entity st' = (if \<not> IsTempItem (m_itemID it) \<and> \<not> IsNPC (m_itemID it) \<and> \<not> m_delete it \<and> (loc = locRAMItems \<or> IsValidLocationID loc)
      then entity (UpdateLocation (m_itemID it) loc flag st) else entity st)"
proof -
  let ?f = "\<lambda>it. it\<lparr>i_flag := flag, i_location := loc\<rparr>"
  obtain a where a: "replace env p True ?f st = Inr a" "placed p (?f it) st a" "entity a = entity st"
    using replace_places [OF presentD [OF assms(1)], of ?f env] assms(3) by auto
  then obtain box where "deref p a = Inr ((?f it)\<lparr>pInventory := box\<rparr>)"
    using deref_placed by blast
  moreover have "entity (SendItemChange env o' i cs st) = entity st" for o' i cs st
    by (simp add: SendItemChange_def)
  moreover have "entity (UpdateLocation i loc flag a) = entity (UpdateLocation i loc flag st)" for i
    using a(3) by (simp add: UpdateLocation_def)
  ultimately show ?thesis
    using assms(1,2) a placed_memory [OF a(2)]
    by (auto simp: Move_def presentD(2) deref_def [of p st] same_place_def Let_def)
qed

lemma Relocate_same_place: "heap st p = Some it \<Longrightarrow> same_place it loc flag \<Longrightarrow> Relocate env p loc flag st = Inr st"
  by (simp add: Relocate_def deref_def same_place_def)

lemma Relocate_places:
  assumes "present st p it" "\<not> same_place it loc flag" "welcomes st loc (it\<lparr>i_flag := flag, i_location := loc\<rparr>)"
  shows "\<exists>st'. Relocate env p loc flag st = Inr st' \<and> placed p (it\<lparr>i_flag := flag, i_location := loc\<rparr>) st st'"
proof -
  let ?f = "\<lambda>it. it\<lparr>i_flag := flag, i_location := loc\<rparr>"
  obtain a where a: "replace env p True ?f st = Inr a" "placed p (?f it) st a" "entity a = entity st"
    using replace_places [OF presentD [OF assms(1)], of ?f env] assms(3) by auto
  then obtain box where "deref p a = Inr ((?f it)\<lparr>pInventory := box\<rparr>)"
    using deref_placed by blast
  then show ?thesis
    using assms(1,2) a placed_memory [OF a(2)]
    by (auto simp: Relocate_def presentD(2) deref_def [of p st] same_place_def Let_def)
qed

lemma Donate_places:
  assumes "present st p it" "IsValidOwner owner" "IsValidLocationID loc" "\<not> same_place it loc flag"
    and "welcomes st loc (it\<lparr>i_flag := flag, i_owner := owner, i_location := loc\<rparr>)"
  shows "\<exists>st'. Donate env p owner loc flag notify st = Inr st' \<and>
    placed p (it\<lparr>i_flag := flag, i_owner := owner, i_location := loc\<rparr>) st st'"
proof -
  let ?f = "\<lambda>it. it\<lparr>i_flag := flag, i_owner := owner, i_location := loc\<rparr>"
  obtain a where a: "replace env p True ?f st = Inr a" "placed p (?f it) st a" "entity a = entity st"
    using replace_places [OF presentD [OF assms(1)], of ?f env] assms(5) by auto
  then obtain box where "deref p a = Inr ((?f it)\<lparr>pInventory := box\<rparr>)"
    using deref_placed by blast
  then show ?thesis
    using assms(1,2,3,4) a placed_memory [OF a(2)]
    by (auto simp: Donate_def presentD(2) deref_def [of p st] same_place_def Let_def)
qed

section \<open>What does not move\<close>

text \<open>Owner, quantity and the like may change wherever the item is.\<close>

definition same_filing :: "item \<Rightarrow> item \<Rightarrow> bool" where
  "same_filing it it' \<longleftrightarrow> m_itemID it' = m_itemID it \<and> m_type it' = m_type it \<and> i_location it' = i_location it \<and>
     i_flag it' = i_flag it \<and> pInventory it' = pInventory it"

lemma box_ok_same_filing:
  assumes "box_ok D M c box" "D p = Some it" "same_filing it it'"
  shows "box_ok (D(p \<mapsto> it')) M c box"
proof -
  obtain self where self: "D c = Some self" "mContents box \<noteq> [] \<longrightarrow> IsValidLocationID (m_itemID self) \<and> M (m_itemID self) = Some c"
      "distinct (map fst (mContents box))" "\<forall>e \<in> set (mContents box). member_ok D M self e"
      "mset (m_contentsByFlag box) = image_mset (index_entry D) (mset (mContents box))"
    using assms(1) by (auto simp: box_ok_def)
  let ?self = "if c = p then it' else self"
  have id: "m_itemID ?self = m_itemID self"
    using self(1) assms(2,3) by (auto simp: same_filing_def)
  have "member_ok (D(p \<mapsto> it')) M ?self e" if e: "member_ok D M self e" for e
  proof -
    obtain x where x: "M (fst e) = Some (snd e)" "D (snd e) = Some x" "m_itemID x = fst e" "i_location x = m_itemID self" "filed self x"
      using e by (auto simp: member_ok_def)
    have "filed ?self (if snd e = p then it' else x)"
      using x assms(2,3) unfolding filed_def id by (cases "snd e = p") (simp_all add: same_filing_def)
    then show ?thesis
      using x assms(2,3) unfolding member_ok_def id by (cases "snd e = p") (simp_all add: same_filing_def)
  qed
  moreover have "index_entry (D(p \<mapsto> it')) = index_entry D"
    using assms(2,3) by (intro ext) (simp add: index_entry_def same_filing_def)
  ultimately show ?thesis
    using self id by (auto simp: box_ok_def)
qed

lemma put_same_filing:
  assumes "contents_ok st" "heap st p = Some it" "same_filing it it'"
  shows "contents_ok (put_item p it' st)" "holds_item (put_item p it' st) = holds_item st"
proof -
  let ?st = "put_item p it' st"
  have keep: "pInventory it' = pInventory it"
    using assms(3) by (simp add: same_filing_def)
  have bare: "bare ?st = (bare st)(p \<mapsto> it'\<lparr>pInventory := None\<rparr>)"
    by (auto simp: bare_def put_item_def)
  show "holds_item ?st = holds_item st"
    using holds_put_item [OF assms(2) keep] by blast
  show "contents_ok ?st"
  proof (rule contents_okI)
    show "box_ok (bare ?st) (m_items ?st) c box" if b: "box_of ?st c = Some box" for c box
    proof -
      have "box_ok (bare st) (m_items st) c box"
        using b box_of_put_item [OF assms(2) keep] contents_ok_box [OF assms(1)] by simp
      moreover have "bare st p = Some (it\<lparr>pInventory := None\<rparr>)"
        using assms(2) by (simp add: bare_def)
      moreover have "same_filing (it\<lparr>pInventory := None\<rparr>) (it'\<lparr>pInventory := None\<rparr>)"
        using assms(3) by (simp add: same_filing_def)
      ultimately show ?thesis
        unfolding bare using box_ok_same_filing by (simp add: put_item_def)
    qed
    show "\<exists>x. heap ?st c = Some x \<and> m_itemID x = i" if "m_items ?st i = Some c" for i c
      using that contents_ok_cached [OF assms(1), of i c] assms(2,3) by (auto simp: put_item_def same_filing_def)
    show "q < made ?st" if "heap ?st q \<noteq> None" for q
      using that assms(1,2) by (auto simp: put_item_def contents_ok_def split: if_splits)
  qed
qed

section \<open>Deleting\<close>

definition empty_box :: "store \<Rightarrow> item_ref \<Rightarrow> bool" where
  "empty_box st p \<longleftrightarrow> (\<forall>box. box_of st p = Some box \<longrightarrow> mContents box = [])"

lemma forget_ok:
  assumes "contents_ok st" "heap st p = Some it" "m_items st (m_itemID it) = Some p" "\<forall>d. \<not> holds_item st d p" "empty_box st p"
  shows "contents_ok (Factory_RemoveItem (m_itemID it) st)"
    "holds_item (Factory_RemoveItem (m_itemID it) st) = holds_item st"
proof -
  let ?i = "m_itemID it" and ?st = "Factory_RemoveItem (m_itemID it) st"
  have same: "heap ?st = heap st" "made ?st = made st" "bare ?st = bare st" "box_of ?st = box_of st"
    by (auto simp: Factory_RemoveItem_def bare_def box_of_def)
  then show "holds_item ?st = holds_item st"
    by (intro ext) (simp add: holds_item_def)
  show "contents_ok ?st"
  proof (rule contents_okI)
    show "box_ok (bare ?st) (m_items ?st) c box" if b: "box_of ?st c = Some box" for c box
    proof -
      have ok: "box_ok (bare st) (m_items st) c box"
        using b same contents_ok_box [OF assms(1)] by simp
      obtain self where self: "bare st c = Some self" "mContents box \<noteq> [] \<longrightarrow> IsValidLocationID (m_itemID self) \<and> m_items st (m_itemID self) = Some c"
        "distinct (map fst (mContents box))" "\<forall>e \<in> set (mContents box). member_ok (bare st) (m_items st) self e"
        "mset (m_contentsByFlag box) = image_mset (index_entry (bare st)) (mset (mContents box))"
        using ok by (auto simp: box_ok_def)
      have "m_itemID self \<noteq> ?i" if "mContents box \<noteq> []"
        using that self(2) assms(3,5) b same(4) by (auto simp: empty_box_def)
      moreover have "fst e \<noteq> ?i" if "e \<in> set (mContents box)" for e
        using that self(4) assms(3,4) b same(4) by (fastforce simp: member_ok_def holds_item_def)
      ultimately have "box_ok (bare st) ((m_items st)(?i := None)) c box"
        using self by (auto simp: box_ok_def member_ok_def)
      then show ?thesis
        by (simp add: same(3)) (simp add: Factory_RemoveItem_def)
    qed
    show "\<exists>x. heap ?st c = Some x \<and> m_itemID x = i" if "m_items ?st i = Some c" for i c
      using that contents_ok_cached [OF assms(1), of i c] by (auto simp: Factory_RemoveItem_def split: if_splits)
    show "q < made ?st" if "heap ?st q \<noteq> None" for q
      using that assms(1) by (auto simp: same contents_ok_def)
  qed
qed

text \<open>How an item leaves: what is no player's, and drones, need a container that has an inventory.\<close>

definition to_junkyard :: "item \<Rightarrow> bool" where
  "to_junkyard it \<longleftrightarrow> type_category (m_type it) \<noteq> category_Drone \<and> \<not> IsNPCCorp (i_owner it) \<and> 1 < i_owner it"

definition deletable :: "store \<Rightarrow> item_ref \<Rightarrow> item \<Rightarrow> bool" where
  "deletable st p it \<longleftrightarrow> present st p it \<and> empty_box st p \<and>
     (\<not> to_junkyard it \<longrightarrow> (\<forall>c. IsValidLocationID (i_location it) \<longrightarrow> m_items st (i_location it) = Some c \<longrightarrow> box_of st c \<noteq> None))"

text \<open>The state after an item is gone.\<close>

definition removed :: "item_ref \<Rightarrow> item \<Rightarrow> store \<Rightarrow> store \<Rightarrow> bool" where
  "removed p it st st' \<longleftrightarrow>
     contents_ok st' \<and> m_items st' = (m_items st)(m_itemID it := None) \<and> made st' = made st \<and> next_entity st' = next_entity st \<and>
     (\<exists>box loc flag. heap st' p = Some (it\<lparr>m_delete := True, i_flag := flag, i_location := loc, pInventory := box\<rparr>)) \<and>
     (\<forall>q. q \<noteq> p \<longrightarrow> bare st' q = bare st q) \<and>
     (\<forall>d. \<not> holds_item st' d p) \<and> (\<forall>d q. q \<noteq> p \<longrightarrow> holds_item st' d q = holds_item st d q)"

lemma not_junkyard [simp]: "\<not> IsValidLocationID 10"
  by (simp add: IsValidLocationID_def IsSolarSystemID_def IsRegionID_def IsStationID_def IsPlayerItem_def IsCharacterID_def)

lemma box_of_bare: "bare a q = bare b q \<Longrightarrow> heap a q = None \<longleftrightarrow> heap b q = None"
  by (simp add: bare_def) (metis map_option_is_None)

lemma empty_box_holds: "empty_box st p \<longleftrightarrow> (\<forall>q. \<not> holds_item st p q)"
  by (fastforce simp: empty_box_def holds_item_def)

lemma present_same_filing:
  assumes "present st p it" "same_filing it it'"
  shows "present (put_item p it' st) p it'"
  using put_same_filing(1) [OF presentD(1,2) [OF assms(1)] assms(2)] presentD [OF assms(1)] assms(2)
  by (simp add: present_def put_item_def resident_def same_filing_def)

lemma bare_put_item: "q \<noteq> p \<Longrightarrow> bare (put_item p it st) q = bare st q"
  by (simp add: bare_def put_item_def)

lemma forget_removed:
  assumes "contents_ok a" "m_items a = m_items st" "made a = made st" "next_entity a = next_entity st" "\<forall>q. q \<noteq> p \<longrightarrow> bare a q = bare st q"
    and "heap a p = Some (it\<lparr>m_delete := True, i_flag := flag, i_location := loc, pInventory := box\<rparr>)"
    and "m_items st (m_itemID it) = Some p" "empty_box st p"
    and "\<forall>d. \<not> holds_item a d p" "\<forall>d q. q \<noteq> p \<longrightarrow> holds_item a d q = holds_item st d q"
  shows "removed p it st (Factory_RemoveItem (m_itemID it) (DeleteItem (m_itemID it) a))"
proof -
  let ?a = "DeleteItem (m_itemID it) a"
  have same: "same_memory a ?a"
    by simp
  have "empty_box ?a p"
    using assms(8,9,10) same_memory_holds [OF same] unfolding empty_box_holds by metis
  then show ?thesis
    using forget_ok [of ?a p "it\<lparr>m_delete := True, i_flag := flag, i_location := loc, pInventory := box\<rparr>"] assms
      same_memory_holds [OF same] same
    by (auto simp: removed_def same_memory_def Factory_RemoveItem_def bare_def)
qed

lemma Delete_removes:
  assumes "deletable st p it"
  shows "\<exists>st'. Delete env p st = Inr st' \<and> removed p it st st'"
proof -
  let ?it = "it\<lparr>m_delete := True\<rparr>"
  let ?st = "put_item p ?it st"
  have old: "present st p it" "empty_box st p"
    using assms by (simp_all add: deletable_def)
  have sf: "same_filing it ?it"
    by (simp add: same_filing_def)
  have new: "present ?st p ?it" and holds: "holds_item ?st = holds_item st"
    using present_same_filing [OF old(1) sf] put_same_filing(2) [OF presentD(1,2) [OF old(1)] sf] by simp_all
  have start: "modify p (\<lambda>it. it\<lparr>m_delete := True\<rparr>) st = Inr ?st" "deref p ?st = Inr ?it"
    using presentD(2) [OF old(1)] by (simp_all add: modify_def deref_def put_item_def)
  have same: "m_items ?st = m_items st" "made ?st = made st" "m_itemID ?it = m_itemID it" "next_entity ?st = next_entity st"
    by (simp_all add: put_item_def)
  show ?thesis
  proof (cases "to_junkyard it")
    case True
    have way: "type_category (m_type ?it) \<noteq> category_Drone \<and> \<not> IsNPCCorp (i_owner ?it) \<and> 1 < i_owner ?it"
      using True by (simp add: to_junkyard_def)
    obtain a box loc flag where a: "Move env p locJunkyard flagNone True ?st = Inr a" "contents_ok a"
        "m_items a = m_items st" "made a = made st" "next_entity a = next_entity st" "\<forall>q. q \<noteq> p \<longrightarrow> bare a q = bare st q" "\<forall>d. \<not> holds_item a d p"
        "heap a p = Some (it\<lparr>m_delete := True, i_flag := flag, i_location := loc, pInventory := box\<rparr>)"
        "\<forall>d q. q \<noteq> p \<longrightarrow> holds_item a d q = holds_item st d q"
    proof (cases "same_place ?it locJunkyard flagNone")
      case True
      obtain a where a: "Move env p locJunkyard flagNone True ?st = Inr a" "same_memory ?st a"
        using Move_same_place [OF presentD(2) [OF new] True] by blast
      have "\<not> holds_item ?st d p" for d
        using held_at(1) [OF presentD(1) [OF new] _ presentD(2) [OF new]] True by (auto simp: same_place_def)
      have facts: "contents_ok a" "m_items a = m_items st" "made a = made st" "next_entity a = next_entity st" "\<forall>d. \<not> holds_item a d p"
          "\<forall>d q. q \<noteq> p \<longrightarrow> holds_item a d q = holds_item st d q"
        using a(2) same_memory_holds [OF a(2)] presentD(1) [OF new] holds same \<open>\<And>d. \<not> holds_item ?st d p\<close>
        by (simp_all add: same_memory_def)
      have "\<forall>q. q \<noteq> p \<longrightarrow> bare a q = bare st q"
        using a(2) by (simp add: same_memory_def bare_def put_item_def)
      moreover have "heap a p = Some (it\<lparr>m_delete := True, i_flag := i_flag it, i_location := i_location it, pInventory := pInventory it\<rparr>)"
        using a(2) presentD(2) [OF new] by (simp add: same_memory_def)
      ultimately show ?thesis
        using that [OF a(1)] facts by metis
    next
      case False
      have "welcomes ?st locJunkyard (?it\<lparr>i_flag := flagNone, i_location := locJunkyard\<rparr>)"
        by (simp add: welcomes_def)
      then obtain a where a: "Move env p locJunkyard flagNone True ?st = Inr a"
          "placed p (?it\<lparr>i_flag := flagNone, i_location := locJunkyard\<rparr>) ?st a"
        using Move_places [OF new False] by blast
      then obtain box where box: "heap a p = Some (it\<lparr>m_delete := True, i_flag := flagNone, i_location := locJunkyard, pInventory := box\<rparr>)"
        unfolding placed_def by auto
      have "\<not> receives ?st locJunkyard d" for d
        by (simp add: receives_def)
      then show ?thesis
        using that [OF a(1) _ _ _ _ _ _ box] a(2) holds same bare_put_item [of _ p ?it st] unfolding placed_def by simp
    qed
    show ?thesis
      unfolding Delete_def start(1) ebind_simps start(2) if_P [OF way] a(1) same(3)
      using forget_removed [OF a(2-6,8) presentD(3) [OF old(1)] old(2) a(7,9)] by simp
  next
    case False
    have way: "\<not> (type_category (m_type ?it) \<noteq> category_Drone \<and> \<not> IsNPCCorp (i_owner ?it) \<and> 1 < i_owner ?it)"
      using False by (simp add: to_junkyard_def)
    have "at_location env take_out p ?st = at_location env RemoveItem p ?st"
    proof (cases "IsValidLocationID (i_location it)")
      case True
      then obtain c where c: "m_items st (i_location it) = Some c"
        using presentD(4) [OF old(1)] by (auto simp: resident_def)
      then have "box_of ?st c \<noteq> None"
        using assms False True box_of_put_item [OF presentD(2) [OF old(1)], of ?it] by (simp add: deletable_def)
      then obtain self box where "deref c ?st = Inr self" "pInventory self = Some box"
        by (auto simp: box_of_def bind_eq_Some_conv deref_def)
      then have "take_out c p ?st = RemoveItem c p ?st"
        by (simp add: take_out_def)
      then show ?thesis
        using c True same(1) by (simp add: at_location_def GetItemRef_def start(2))
    qed (use start(2) in \<open>simp add: at_location_def\<close>)
    then obtain a where a: "at_location env take_out p ?st = Inr a" "contents_ok a" "only_boxes p ?st a" "\<forall>d. \<not> holds_item a d p"
      using at_location_remove [OF presentD [OF new], of env] by auto
    then obtain box where box: "heap a p = Some (?it\<lparr>pInventory := box\<rparr>)"
      using bareD [of a ?st, OF _ presentD(2) [OF new]] by (auto simp: only_boxes_def)
    have rest: "m_items a = m_items st" "made a = made st" "next_entity a = next_entity st" "\<forall>q. q \<noteq> p \<longrightarrow> bare a q = bare st q"
        "\<forall>d q. q \<noteq> p \<longrightarrow> holds_item a d q = holds_item st d q"
      using a(3) same holds bare_put_item [of _ p ?it st] by (simp_all add: only_boxes_def)
    have "it\<lparr>m_delete := True, pInventory := box\<rparr> =
        it\<lparr>m_delete := True, i_flag := i_flag it, i_location := i_location it, pInventory := box\<rparr>"
      by simp
    then show ?thesis
      unfolding Delete_def start(1) ebind_simps start(2) if_not_P [OF way] a(1) same(3)
      using forget_removed [OF a(2) rest(1-4) _ presentD(3) [OF old(1)] old(2) a(4) rest(5)] box by metis
  qed
qed

end
