(* ===== verification/Stacks.thy ===== *)
theory Stacks
  imports Moves
begin

text \<open>
  Owners, quantities and new items: what \<open>SetQuantity\<close>, \<open>AlterQuantity\<close>, \<open>ChangeOwner\<close>, \<open>SpawnItem\<close>, \<open>Split\<close> and
  \<open>Merge\<close> do to the items in memory, and the runs of all operations on items.
\<close>

section \<open>Changes in place\<close>

text \<open>Only the item itself differs, and it stays where it is.\<close>

definition updated :: "item_ref \<Rightarrow> item \<Rightarrow> store \<Rightarrow> store \<Rightarrow> bool" where
  "updated p it st st' \<longleftrightarrow> present st' p it \<and> heap st' = (heap st)(p \<mapsto> it) \<and> m_items st' = m_items st \<and>
     made st' = made st \<and> next_entity st' = next_entity st \<and> holds_item st' = holds_item st"

lemma updated:
  assumes "present st p it" "same_filing it it'" "same_memory (put_item p it' st) st'"
  shows "updated p it' st st'"
  using present_same_filing [OF assms(1,2)] put_same_filing(2) [OF presentD(1,2) [OF assms(1)] assms(2)]
    same_memory_holds [OF assms(3)] assms(3)
  by (auto simp: updated_def present_def same_memory_def put_item_def resident_def)

lemma updated_empty: "updated p it st st' \<Longrightarrow> empty_box st' q = empty_box st q"
  by (simp add: updated_def empty_box_holds)

lemma updated_deletable:
  assumes "updated p it' st st'" "deletable st p it" "same_filing it it'" "i_owner it' = i_owner it"
  shows "deletable st' p it'"
proof -
  have "box_of st' c = box_of st c" for c
    using assms(1,2,3) by (auto simp: updated_def deletable_def present_def same_filing_def box_of_def)
  then show ?thesis
    using assms updated_empty [OF assms(1)]
    by (auto simp: deletable_def updated_def same_filing_def to_junkyard_def)
qed

lemma updated_removed:
  assumes "updated p it' st a" "removed p it' a b" "m_itemID it' = m_itemID it"
    and "\<And>box loc flag. \<exists>box'. it'\<lparr>m_delete := True, i_flag := flag, i_location := loc, pInventory := box\<rparr> =
       x\<lparr>m_delete := True, i_flag := flag, i_location := loc, pInventory := box'\<rparr>"
    and "m_itemID x = m_itemID it"
  shows "removed p x st b"
proof -
  have "bare a q = bare st q" if "q \<noteq> p" for q
    using assms(1) that by (simp add: updated_def bare_def)
  moreover have "\<exists>box loc flag. heap b p = Some (x\<lparr>m_delete := True, i_flag := flag, i_location := loc, pInventory := box\<rparr>)"
    using assms(2,4) unfolding removed_def by metis
  ultimately show ?thesis
    using assms(1,2,3,5) by (simp add: removed_def updated_def)
qed

lemma ChangeOwner_updates:
  assumes "present st p it"
  shows "\<exists>st'. ChangeOwner env p owner notify st = Inr st' \<and> updated p (it\<lparr>i_owner := owner\<rparr>) st st'"
proof -
  have "same_filing it (it\<lparr>i_owner := owner\<rparr>)"
    by (simp add: same_filing_def)
  note up = updated [OF assms this]
  have "owner = i_owner it \<Longrightarrow> put_item p (it\<lparr>i_owner := owner\<rparr>) st = st"
    using presentD(2) [OF assms] by (cases st) (auto simp: put_item_def)
  then show ?thesis
    using presentD(2) [OF assms] up by (auto simp: ChangeOwner_def deref_def Let_def)
qed

lemma ChangeSingleton_updates:
  assumes "present st p it"
  shows "\<exists>st' qty. ChangeSingleton env p single notify st = Inr st' \<and> updated p (it\<lparr>i_singleton := single, i_quantity := qty\<rparr>) st st'"
proof (cases "single = i_singleton it")
  case True
  have "updated p (it\<lparr>i_singleton := single, i_quantity := i_quantity it\<rparr>) st st"
    using updated [OF assms, of "it\<lparr>i_singleton := single, i_quantity := i_quantity it\<rparr>" st] presentD(2) [OF assms] True
    by (simp add: same_filing_def same_memory_def put_item_def fun_upd_idem)
  then show ?thesis
    using True presentD(2) [OF assms]
    by (intro exI [of _ st] exI [of _ "i_quantity it"]) (simp add: ChangeSingleton_def deref_def)
next
  case False
  let ?it = "it\<lparr>i_singleton := single, i_quantity := (if single \<and> 1 < sint (i_quantity it) then - 1 else i_quantity it)\<rparr>"
  have "same_filing it ?it"
    by (simp add: same_filing_def)
  note up = updated [OF assms this]
  define a where "a = (if saveOnUpdate env then SaveItem ?it (put_item p ?it st) else put_item p ?it st)"
  define b where "b = (if notify then SendItemChange env (i_owner it) (m_itemID it) [Changed_singleton (i_singleton it)] a else a)"
  have "ChangeSingleton env p single notify st = Inr b"
    using False presentD(2) [OF assms] by (simp add: ChangeSingleton_def deref_def Let_def a_def b_def)
  moreover have "updated p ?it st b"
    by (rule up) (simp add: a_def b_def)
  ultimately show ?thesis
    by blast
qed

lemma SetQuantity_singleton:
  "heap st p = Some it \<Longrightarrow> i_singleton it \<Longrightarrow> SetQuantity env p qty notify del st = Inr (False, st)"
  by (simp add: SetQuantity_def deref_def)

lemma SetQuantity_updates:
  assumes "present st p it" "\<not> i_singleton it" "1 \<le> sint qty \<or> \<not> del"
  shows "\<exists>st'. SetQuantity env p qty notify del st = Inr (True, st') \<and> updated p (it\<lparr>i_quantity := qty\<rparr>) st st'"
proof -
  have "same_filing it (it\<lparr>i_quantity := qty\<rparr>)"
    by (simp add: same_filing_def)
  note up = updated [OF assms(1) this]
  show ?thesis
    using presentD(2) [OF assms(1)] assms(2,3) up by (auto simp: SetQuantity_def deref_def Let_def)
qed

lemma SetQuantity_removes:
  assumes "deletable st p it" "\<not> i_singleton it" "sint qty < 1"
  shows "\<exists>st'. SetQuantity env p qty notify True st = Inr (True, st') \<and> removed p (it\<lparr>i_quantity := qty\<rparr>) st st'"
proof -
  let ?it = "it\<lparr>i_quantity := qty\<rparr>"
  let ?st = "put_item p ?it st"
  have sf: "same_filing it ?it"
    by (simp add: same_filing_def)
  have old: "present st p it"
    using assms(1) by (simp add: deletable_def)
  define a where "a = (if notify \<or> IsCargoHoldFlag (i_flag it) \<and> type_category (m_type it) = category_Charge
      then SendItemChange env (i_owner it) (m_itemID it) [Changed_stack (i_quantity it)] ?st else ?st)"
  have a: "updated p ?it st a"
    using updated [OF old sf] by (simp add: a_def)
  have "deletable a p ?it"
    by (rule updated_deletable [OF a assms(1) sf]) simp
  then obtain b where b: "Delete env p a = Inr b" "removed p ?it a b"
    using Delete_removes by blast
  have "removed p ?it st b"
    by (rule updated_removed [OF a b(2), of it ?it]) auto
  moreover have "SetQuantity env p qty notify True st = Inr (True, b)"
    using presentD(2) [OF old] assms(2,3) b(1) by (simp add: SetQuantity_def deref_def Let_def a_def)
  ultimately show ?thesis
    by blast
qed

text \<open>The amount of a stack, which is signed.\<close>

definition amount :: "item \<Rightarrow> int" where
  "amount it = sint (i_quantity it)"

definition fits_int :: "int \<Rightarrow> bool" where
  "fits_int n \<longleftrightarrow> - (2 ^ 31) \<le> n \<and> n < 2 ^ 31"

lemma sint_of_int: "fits_int n \<Longrightarrow> sint (word_of_int n :: int32) = n"
  by (simp add: fits_int_def signed_of_int signed_take_bit_int_eq_self)

lemma sint_range: "- (2 ^ 31) \<le> sint (w :: int32) \<and> sint w < 2 ^ 31"
  using sint_range_size [of w] by (simp add: word_size)

lemma int_sum_fits: "fits_int (sint a + sint b) \<Longrightarrow> int_sum a b = Inr (word_of_int (sint a + sint b))"
  by (simp add: int_sum_def fits_int_def Let_def)

lemma amount_box: "amount (it\<lparr>pInventory := box\<rparr>) = amount it"
  by (simp add: amount_def)

lemma AlterQuantity_step:
  assumes "heap st p = Some it" "qty \<noteq> 0" "fits_int (amount it + sint qty)"
  shows "AlterQuantity env p qty notify st =
      (if amount it + sint qty < 0 then ebind (Delete env p st) (\<lambda>st. Inr (False, st))
       else SetQuantity env p (word_of_int (amount it + sint qty)) notify True st)"
  using assms int_sum_fits [of "i_quantity it" qty] sint_of_int [of "amount it + sint qty"]
  by (simp add: AlterQuantity_def deref_def amount_def)

lemma AlterQuantity_updates:
  assumes "present st p it" "\<not> i_singleton it" "qty \<noteq> 0" "fits_int (amount it + sint qty)" "1 \<le> amount it + sint qty"
  shows "\<exists>st'. AlterQuantity env p qty notify st = Inr (True, st') \<and>
    updated p (it\<lparr>i_quantity := word_of_int (amount it + sint qty)\<rparr>) st st'"
  using AlterQuantity_step [OF presentD(2) [OF assms(1)] assms(3,4), of env notify] assms(5) sint_of_int [OF assms(4)]
    SetQuantity_updates [OF assms(1,2), of "word_of_int (amount it + sint qty)" True env notify]
  by simp

lemma AlterQuantity_cases:
  assumes "deletable st p it" "\<not> i_singleton it" "qty \<noteq> 0" "fits_int (amount it + sint qty)"
  shows "1 \<le> amount it + sint qty \<Longrightarrow>
      \<exists>st'. AlterQuantity env p qty notify st = Inr (True, st') \<and>
        updated p (it\<lparr>i_quantity := word_of_int (amount it + sint qty)\<rparr>) st st'"
    and "amount it + sint qty = 0 \<Longrightarrow>
      \<exists>st'. AlterQuantity env p qty notify st = Inr (True, st') \<and> removed p (it\<lparr>i_quantity := 0\<rparr>) st st'"
    and "amount it + sint qty < 0 \<Longrightarrow>
      \<exists>st'. AlterQuantity env p qty notify st = Inr (False, st') \<and> removed p it st st'"
proof -
  have old: "present st p it"
    using assms(1) by (simp add: deletable_def)
  note step = AlterQuantity_step [OF presentD(2) [OF old] assms(3,4), of env notify]
  show "\<exists>st'. AlterQuantity env p qty notify st = Inr (True, st') \<and>
      updated p (it\<lparr>i_quantity := word_of_int (amount it + sint qty)\<rparr>) st st'" if "1 \<le> amount it + sint qty"
    using AlterQuantity_updates [OF old assms(2-4) that] .
  show "\<exists>st'. AlterQuantity env p qty notify st = Inr (True, st') \<and> removed p (it\<lparr>i_quantity := 0\<rparr>) st st'"
    if "amount it + sint qty = 0"
    using that step SetQuantity_removes [OF assms(1,2), of 0 env notify] by simp
  show "\<exists>st'. AlterQuantity env p qty notify st = Inr (False, st') \<and> removed p it st st'" if "amount it + sint qty < 0"
    using that step Delete_removes [OF assms(1), of env] by auto
qed

section \<open>New items\<close>

text \<open>The ids that the database gives out are those of player items, and no item has the next one.\<close>

definition ids_left :: "store \<Rightarrow> bool" where
  "ids_left st \<longleftrightarrow> IsPlayerItem (next_entity st) \<and> (\<forall>i. next_entity st \<le> i \<and> IsPlayerItem i \<longrightarrow> m_items st i = None)"

lemma player_item_id: "IsPlayerItem i \<Longrightarrow> \<not> IsTempItem i \<and> \<not> i < minAgent \<and> \<not> IsStaticMapItem i \<and> \<not> IsNPC i \<and> i + 1 \<noteq> 0 \<and> i < i + 1"
  by (auto simp: IsPlayerItem_def IsTempItem_def IsStaticMapItem_def IsNPC_def word_less_nat_alt word_le_nat_alt unat_word_ariths(1)
      word_unat_eq_iff)

text \<open>The state after an item was made.\<close>

definition spawned :: "item \<Rightarrow> store \<Rightarrow> store \<Rightarrow> bool" where
  "spawned it st st' \<longleftrightarrow>
     contents_ok st' \<and> heap st' = (heap st)(made st \<mapsto> it\<lparr>m_itemID := next_entity st\<rparr>) \<and>
     m_items st' = (m_items st)(next_entity st \<mapsto> made st) \<and> made st' = Suc (made st) \<and>
     next_entity st' = next_entity st + 1 \<and> holds_item st' = holds_item st"

lemma fresh_object: "contents_ok st \<Longrightarrow> heap st (made st) = None"
  unfolding contents_ok_def by (metis less_irrefl)

lemma box_ok_more:
  assumes "box_ok D M c box" "D p = None" "M i = None"
  shows "box_ok (D(p \<mapsto> it)) (M(i \<mapsto> p)) c box"
proof -
  obtain self where self: "D c = Some self" "mContents box \<noteq> [] \<longrightarrow> IsValidLocationID (m_itemID self) \<and> M (m_itemID self) = Some c"
      "distinct (map fst (mContents box))" "\<forall>e \<in> set (mContents box). member_ok D M self e"
      "mset (m_contentsByFlag box) = image_mset (index_entry D) (mset (mContents box))"
    using assms(1) by (auto simp: box_ok_def)
  have "snd e \<noteq> p \<and> fst e \<noteq> i" if "e \<in> set (mContents box)" for e
    using self(4) that assms(2,3) by (auto simp: member_ok_def)
  moreover from this have "image_mset (index_entry (D(p \<mapsto> it))) (mset (mContents box)) = image_mset (index_entry D) (mset (mContents box))"
    by (intro image_mset_cong) (simp add: index_entry_def)
  ultimately show ?thesis
    using self assms(2,3) by (auto simp: box_ok_def member_ok_def)
qed

lemma SpawnItem_spawns:
  assumes "contents_ok st" "ids_left st" "spawnable env (m_type it)" "i_quantity it \<noteq> 0" "pInventory it = None"
  shows "\<exists>st'. SpawnItem env it st = Inr (Some (made st), st') \<and> spawned it st st'"
proof -
  let ?i = "next_entity st" and ?it = "it\<lparr>m_itemID := next_entity st\<rparr>"
  define a where "a = snd (NewItem it st)"
  define b where "b = a\<lparr>heap := (heap a)(made st \<mapsto> ?it), made := Suc (made st), m_items := (m_items st)(?i \<mapsto> made st)\<rparr>"
  have a: "NewItem it st = (?i, a)" "heap a = heap st" "m_items a = m_items st" "made a = made st" "next_entity a = next_entity st + 1"
    by (simp_all add: a_def NewItem_def)
  have fresh: "heap st (made st) = None" "m_items st ?i = None"
    using fresh_object [OF assms(1)] assms(2) by (simp_all add: ids_left_def)
  have "SpawnItem env it st = Inr (Some (made st), b)"
    using assms(3,4) a fresh(2) player_item_id [of ?i] assms(2)
    by (simp add: SpawnItem_def Factory_AddItem_def deref_def b_def ids_left_def Let_def)
  moreover have bare: "bare b = (bare st)(made st \<mapsto> ?it\<lparr>pInventory := None\<rparr>)"
    by (auto simp: bare_def b_def a)
  moreover have box: "box_of b = box_of st"
    using fresh(1) assms(5) by (auto simp: box_of_def b_def a)
  moreover have "contents_ok b"
  proof (rule contents_okI)
    show "box_ok (bare b) (m_items b) c box" if "box_of b c = Some box" for c box
      using box_ok_more [OF contents_ok_box [OF assms(1)], of c box "made st" ?i] that fresh
      by (simp add: box bare) (simp add: b_def bare_def)
    show "\<exists>x. heap b c = Some x \<and> m_itemID x = i" if "m_items b i = Some c" for i c
      using that contents_ok_cached [OF assms(1), of i c] fresh(1) by (auto simp: b_def a split: if_splits)
    show "q < made b" if "heap b q \<noteq> None" for q
      using that assms(1) by (auto simp: b_def a contents_ok_def less_Suc_eq split: if_splits)
  qed
  ultimately show ?thesis
    by (auto simp: spawned_def b_def a holds_item_def fun_eq_iff)
qed

section \<open>Splitting and merging\<close>

definition sound_split :: "item_server \<Rightarrow> store \<Rightarrow> item_ref \<Rightarrow> item \<Rightarrow> bool" where
  "sound_split env st p it \<longleftrightarrow>
     deletable st p it \<and> \<not> i_singleton it \<and> 0 \<le> amount it \<and> ids_left st \<and> spawnable env (m_type it)"

lemma sint_minus: "1 \<le> sint q \<Longrightarrow> sint (- q :: int32) = - sint q"
  using sint_range [of q] by (simp add: sint_word_ariths(4) signed_take_bit_int_eq_self)

definition half :: "item \<Rightarrow> int32 \<Rightarrow> int32 \<Rightarrow> item" where
  "half it i qty = \<lparr>m_itemID = i, m_type = m_type it, i_owner = i_owner it, i_location = locTemp,
     i_flag = i_flag it, i_singleton = False, i_quantity = qty, m_delete = False, pInventory = None\<rparr>"

text \<open>The state after a stack was split in two: the new one is where the old one is.\<close>

definition in_two :: "item_ref \<Rightarrow> item \<Rightarrow> int32 \<Rightarrow> store \<Rightarrow> store \<Rightarrow> bool" where
  "in_two p it qty st st' \<longleftrightarrow>
     contents_ok st' \<and> made st' = Suc (made st) \<and> m_items st' = (m_items st)(next_entity st \<mapsto> made st) \<and>
     next_entity st' = next_entity st + 1 \<and>
     (\<exists>box. heap st' p = Some (it\<lparr>i_quantity := word_of_int (amount it - sint qty), pInventory := box\<rparr>)) \<and>
     (\<exists>box. heap st' (made st) = Some ((half it (next_entity st) qty)\<lparr>i_location := i_location it, pInventory := box\<rparr>)) \<and>
     (\<forall>d. holds_item st' d (made st) \<longleftrightarrow> receives st (i_location it) d) \<and>
     (\<forall>d q. q \<noteq> made st \<longrightarrow> holds_item st' d q = holds_item st d q)"

lemma half_type [simp]: "m_type (half it i q) = m_type it" "pInventory (half it i q) = None" "i_quantity (half it i q) = q"
  "m_itemID (half it i q) = i" "i_location (half it i q) = locTemp"
  by (simp_all add: half_def)

lemma receives_other:
  "m_items st' = (m_items st)(i \<mapsto> p) \<Longrightarrow> (\<And>c. box_of st' c = box_of st c) \<Longrightarrow> loc \<noteq> i \<Longrightarrow> receives st' loc d = receives st loc d"
  by (simp add: receives_def)

lemma spawned_box: "spawned it st st' \<Longrightarrow> contents_ok st \<Longrightarrow> pInventory it = None \<Longrightarrow> box_of st' c = box_of st c"
  using fresh_object [of st] by (auto simp: spawned_def box_of_def)

lemma not_locTemp [simp]: "\<not> IsValidLocationID 5"
  by (simp add: IsValidLocationID_def IsSolarSystemID_def IsRegionID_def IsStationID_def IsPlayerItem_def IsCharacterID_def)

lemma spawned_present: "spawned it st st' \<Longrightarrow> i_location it = locTemp \<Longrightarrow> present st' (made st) (it\<lparr>m_itemID := next_entity st\<rparr>)"
  by (simp add: spawned_def present_def resident_def)

lemma Split_in_two:
  assumes "sound_split env st p it" "1 \<le> sint qty" "sint qty < amount it" "welcomes st (i_location it) it"
    and "i_location it \<noteq> next_entity st" "i_location it \<noteq> locTemp"
  shows "\<exists>st'. Split env p qty notify False st = Inr (Some (made st), st') \<and> in_two p it qty st st'"
proof -
  let ?it = "it\<lparr>i_quantity := word_of_int (amount it - sint qty)\<rparr>" and ?new = "half it (next_entity st) qty"
  have ok: "deletable st p it" "\<not> i_singleton it" "ids_left st" "spawnable env (m_type it)" "qty \<noteq> 0"
    using assms(1,2) by (auto simp: sound_split_def)
  have old: "present st p it"
    using ok(1) by (simp add: deletable_def)
  have fits: "fits_int (amount it + sint (- qty))"
    using assms(2,3) sint_range [of "i_quantity it"] by (simp add: sint_minus amount_def fits_int_def)
  obtain a where a: "AlterQuantity env p (- qty) notify st = Inr (True, a)" "updated p ?it st a"
    using AlterQuantity_cases(1) [OF ok(1,2) _ fits] assms(2,3) ok(5) by (auto simp: sint_minus)
  have da: "deref p a = Inr ?it"
    using a(2) by (simp add: updated_def deref_def)
  have ea: "next_entity a = next_entity st" "made a = made st" "contents_ok a"
    using a(2) by (simp_all add: updated_def present_def)
  have ids: "ids_left a"
    using ok(3) a(2) by (simp add: ids_left_def updated_def)
  obtain b where b: "SpawnItem env (half it 0 qty) a = Inr (Some (made st), b)" "spawned (half it 0 qty) a b"
    using SpawnItem_spawns [OF ea(3) ids, of env "half it 0 qty"] ok(4,5) ea(2) by auto
  have new: "present b (made st) ?new"
    using spawned_present [OF b(2)] ea by (simp add: half_def)
  have neq: "p \<noteq> made st"
    using presentD(1,2) [OF old] by (auto simp: contents_ok_def)
  have db: "deref p b = Inr ?it"
    using b(2) a(2) neq ea(2) by (simp add: spawned_def updated_def deref_def)
  have boxa: "box_of a c = box_of st c" for c
    using a(2) presentD(2) [OF old] by (simp add: updated_def box_of_def)
  have boxb: "box_of b c = box_of st c" for c
    using spawned_box [OF b(2) ea(3)] boxa by simp
  have acc: "welcomes b (i_location it) (?new\<lparr>i_flag := i_flag it, i_location := i_location it\<rparr>)"
  proof -
    have "\<exists>self'. heap b c = Some self' \<and> \<not> hub self' \<and> filed self' (?new\<lparr>i_flag := i_flag it, i_location := i_location it\<rparr>)"
      if c: "heap st c = Some self" "\<not> hub self" "filed self it" for c self
    proof -
      have "c \<noteq> made st"
        using presentD(1) [OF old] c(1) by (auto simp: contents_ok_def)
      moreover have "hub ?it = hub it" "filed ?it = filed it"
        by (auto simp: hub_def filed_def fun_eq_iff)
      ultimately show ?thesis
        using b(2) a(2) c ea(2) presentD(2) [OF old] by (cases "c = p") (auto simp: spawned_def updated_def filed_def half_def)
    qed
    moreover have "m_items b (i_location it) = m_items st (i_location it)"
      using b(2) a(2) ea assms(5) by (simp add: spawned_def updated_def)
    ultimately show ?thesis
      using assms(4) unfolding welcomes_def by metis
  qed
  obtain c where c: "Move env (made st) (i_location it) (i_flag it) notify b = Inr c"
      "placed (made st) (?new\<lparr>i_flag := i_flag it, i_location := i_location it\<rparr>) b c"
    using Move_places [OF new _ acc] assms(6) by (auto simp: same_place_def half_def)
  have "Split env p qty notify False st = Inr (Some (made st), c)"
    using assms(2) a(1) b(1) c(1) da db by (simp add: Split_def half_def)
  moreover have "receives b (i_location it) d = receives st (i_location it) d" for d
    using receives_other [of b st "next_entity st" "made st" "i_location it" d] b(2) a(2) boxb ea assms(5)
    by (simp add: spawned_def updated_def)
  moreover have "\<exists>box. heap c p = Some (?it\<lparr>pInventory := box\<rparr>)"
    using bareD_at [of c p b ?it] c(2) neq db unfolding placed_def deref_def by (auto split: option.splits)
  moreover have "holds_item b = holds_item st"
    using b(2) a(2) by (simp add: spawned_def updated_def)
  moreover have "\<exists>box. heap c (made st) = Some (?new\<lparr>i_location := i_location it, pInventory := box\<rparr>)"
    using c(2) by (auto simp: placed_def half_def)
  ultimately show ?thesis
    using c(2) b(2) a(2) ea by (auto simp: in_two_def placed_def spawned_def updated_def)
qed

text \<open>Asked for more than there is, \<open>Split\<close> deletes the stack and makes no other.\<close>

lemma Split_of_too_much:
  assumes "deletable st p it" "\<not> i_singleton it" "0 \<le> amount it" "amount it < sint qty"
  shows "\<exists>st'. Split env p qty notify silent st = Inr (None, st') \<and> removed p it st st'"
proof -
  have m: "1 \<le> sint qty" "sint (- qty) = - sint qty" "- qty \<noteq> 0"
    using assms(3,4) sint_minus [of qty] by auto
  have fits: "fits_int (amount it + sint (- qty))"
    using m assms(3,4) sint_range [of "i_quantity it"] sint_range [of qty] by (simp add: fits_int_def amount_def)
  obtain a where "AlterQuantity env p (- qty) notify st = Inr (False, a)" "removed p it st a"
    using AlterQuantity_cases(3) [OF assms(1,2) m(3) fits, of env notify] assms(4) m(2) by auto
  then show ?thesis
    using m(1) by (simp add: Split_def)
qed

text \<open>When an item is gone, the others are as they were, if they were not in it.\<close>

lemma removed_others:
  assumes "removed q other st st'" "present st p it" "p \<noteq> q" "m_items st (m_itemID other) = Some q" "i_location it \<noteq> m_itemID other"
  shows "\<exists>box. present st' p (it\<lparr>pInventory := box\<rparr>)"
proof -
  have "m_itemID it \<noteq> m_itemID other"
    using presentD(3) [OF assms(2)] assms(3,4) by auto
  moreover obtain box where "heap st' p = Some (it\<lparr>pInventory := box\<rparr>)"
    using bareD_at [of st' p st it] presentD(2) [OF assms(2)] assms(1,3) unfolding removed_def by blast
  ultimately show ?thesis
    using assms presentD [OF assms(2)] by (auto simp: present_def removed_def resident_def)
qed

lemma updated_others: "updated q other st st' \<Longrightarrow> present st p it \<Longrightarrow> p \<noteq> q \<Longrightarrow> present st' p it"
  by (simp add: updated_def present_def resident_def)

definition mergeable :: "store \<Rightarrow> item_ref \<Rightarrow> item \<Rightarrow> item_ref \<Rightarrow> item \<Rightarrow> bool" where
  "mergeable st p it q other \<longleftrightarrow>
     present st p it \<and> deletable st q other \<and> p \<noteq> q \<and> i_location it \<noteq> m_itemID other \<and>
     \<not> i_singleton it \<and> \<not> i_singleton other \<and> type_id (m_type it) = type_id (m_type other)"

text \<open>What \<open>Merge\<close> is asked to take.\<close>

definition share :: "item \<Rightarrow> int32 \<Rightarrow> int" where
  "share other qty = (if sint qty < 1 then amount other else sint qty)"

lemma share_word: "sint (if sint qty < 1 then i_quantity other else qty) = share other qty"
  by (simp add: share_def amount_def)

lemma Merge_step:
  assumes "heap st p = Some it" "heap st q = Some other" "\<not> i_singleton it" "\<not> i_singleton other"
    and "type_id (m_type it) = type_id (m_type other)"
  shows "Merge env py p (Some q) qty notify st =
    (let n = (if sint qty < 1 then i_quantity other else qty)
     in ebind (AlterQuantity env q (- n) notify st) (\<lambda>(ok, st).
          if \<not> ok then cret False st else ebind (AlterQuantity env p n notify st) (\<lambda>(ok, st). cret ok st)))"
  using assms by (simp add: Merge_def deref_def Let_def)

text \<open>The state after a part of one stack was put on another.\<close>

definition merged :: "item_ref \<Rightarrow> item \<Rightarrow> item_ref \<Rightarrow> item \<Rightarrow> int \<Rightarrow> store \<Rightarrow> store \<Rightarrow> bool" where
  "merged p it q other n st st' \<longleftrightarrow>
     contents_ok st' \<and> made st' = made st \<and>
     (\<exists>box. heap st' p = Some (it\<lparr>i_quantity := word_of_int (amount it + n), pInventory := box\<rparr>)) \<and>
     (if n < amount other
      then (\<exists>box. heap st' q = Some (other\<lparr>i_quantity := word_of_int (amount other - n), pInventory := box\<rparr>)) \<and>
        m_items st' = m_items st \<and> holds_item st' = holds_item st
      else m_items st' = (m_items st)(m_itemID other := None) \<and> (\<forall>d. \<not> holds_item st' d q)) \<and>
     (\<forall>d r. r \<noteq> q \<longrightarrow> holds_item st' d r = holds_item st d r)"

lemma Merge_merges:
  assumes "mergeable st p it q other" "1 \<le> share other qty" "share other qty \<le> amount other"
    and "0 \<le> amount it" "fits_int (amount it + share other qty)"
  shows "\<exists>st'. Merge env py p (Some q) qty notify st = cret True st' \<and> merged p it q other (share other qty) st st'"
proof -
  let ?n = "if sint qty < 1 then i_quantity other else qty"
  have n: "sint ?n = share other qty" "?n \<noteq> 0" "- ?n \<noteq> 0"
    using share_word [of qty other] assms(2) by auto
  have m: "sint (- ?n) = - share other qty"
    using sint_minus [of ?n] n(1) assms(2) by simp
  have ok: "present st p it" "deletable st q other" "present st q other" "p \<noteq> q" "\<not> i_singleton it" "\<not> i_singleton other"
    using assms(1) by (auto simp: mergeable_def deletable_def)
  have fits: "fits_int (amount other + sint (- ?n))"
    using m assms(2,3) sint_range [of "i_quantity other"] by (simp add: fits_int_def amount_def)
  note step = Merge_step [OF presentD(2) [OF ok(1)] presentD(2) [OF ok(3)] ok(5,6)]
  show ?thesis
  proof (cases "share other qty < amount other")
    case True
    obtain a where a: "AlterQuantity env q (- ?n) notify st = Inr (True, a)"
        "updated q (other\<lparr>i_quantity := word_of_int (amount other - share other qty)\<rparr>) st a"
      using AlterQuantity_cases(1) [OF ok(2,6) n(3) fits, of env notify] True m by auto
    obtain b where b: "AlterQuantity env p ?n notify a = Inr (True, b)"
        "updated p (it\<lparr>i_quantity := word_of_int (amount it + share other qty)\<rparr>) a b"
      using AlterQuantity_updates [OF updated_others [OF a(2) ok(1,4)] ok(5) n(2)] n(1) assms(2,4,5) by auto
    have "\<exists>box. heap b q = Some (other\<lparr>i_quantity := word_of_int (amount other - share other qty), pInventory := box\<rparr>)"
      using a(2) b(2) ok(4) by (intro exI [of _ "pInventory other"]) (simp add: updated_def)
    moreover have "\<exists>box. heap b p = Some (it\<lparr>i_quantity := word_of_int (amount it + share other qty), pInventory := box\<rparr>)"
      using b(2) by (intro exI [of _ "pInventory it"]) (simp add: updated_def)
    ultimately have "merged p it q other (share other qty) st b"
      using a(2) b(2) True by (simp add: merged_def updated_def present_def)
    then show ?thesis
      using step a(1) b(1) assms(1) by (auto simp: Let_def mergeable_def)
  next
    case False
    then have eq: "amount other + sint (- ?n) = 0"
      using m assms(3) by simp
    obtain a where a: "AlterQuantity env q (- ?n) notify st = Inr (True, a)" "removed q (other\<lparr>i_quantity := 0\<rparr>) st a"
      using AlterQuantity_cases(2) [OF ok(2,6) n(3) fits eq, of env notify] by auto
    obtain box where p: "present a p (it\<lparr>pInventory := box\<rparr>)"
      using removed_others [OF a(2) ok(1,4)] presentD(3) [OF ok(3)] assms(1) by (auto simp: mergeable_def)
    obtain b where b: "AlterQuantity env p ?n notify a = Inr (True, b)"
        "updated p (it\<lparr>pInventory := box, i_quantity := word_of_int (amount it + share other qty)\<rparr>) a b"
      using AlterQuantity_updates [OF p _ n(2), unfolded n(1) amount_box, of env notify] assms(2,4,5) ok(5) by auto
    have "heap b p = Some (it\<lparr>i_quantity := word_of_int (amount it + share other qty), pInventory := box\<rparr>)"
      using b(2) by (simp add: updated_def)
    moreover have "contents_ok b" "made b = made st" "m_items b = (m_items st)(m_itemID other := None)" "\<forall>d. \<not> holds_item b d q"
        "\<forall>d r. r \<noteq> q \<longrightarrow> holds_item b d r = holds_item st d r"
      using a(2) b(2) by (simp_all add: updated_def present_def removed_def)
    ultimately have "merged p it q other (share other qty) st b"
      unfolding merged_def if_not_P [OF False] by blast
    then show ?thesis
      using step a(1) b(1) assms(1) by (auto simp: Let_def mergeable_def)
  qed
qed

text \<open>Asked for more than there is, \<open>Merge\<close> deletes the other stack and gives nothing for it.\<close>

lemma Merge_of_too_much:
  assumes "mergeable st p it q other" "amount other < sint qty" "0 \<le> amount other"
  shows "\<exists>st'. Merge env py p (Some q) qty notify st = cret False st' \<and> removed q other st st'"
proof -
  have ok: "present st p it" "deletable st q other" "present st q other" "\<not> i_singleton it" "\<not> i_singleton other"
    using assms(1) by (auto simp: mergeable_def deletable_def)
  have m: "1 \<le> sint qty" "sint (- qty) = - sint qty" "- qty \<noteq> 0"
    using assms(2,3) sint_minus [of qty] by auto
  have fits: "fits_int (amount other + sint (- qty))"
    using m assms(2,3) sint_range [of "i_quantity other"] sint_range [of qty] by (simp add: fits_int_def amount_def)
  obtain a where a: "AlterQuantity env q (- qty) notify st = Inr (False, a)" "removed q other st a"
    using AlterQuantity_cases(3) [OF ok(2,5) m(3) fits, of env notify] assms(2) m(2) by auto
  have "Merge env py p (Some q) qty notify st = cret False a"
    using Merge_step [OF presentD(2) [OF ok(1)] presentD(2) [OF ok(3)] ok(4,5), of env py qty notify] assms(1) a(1) m(1)
    by (simp add: mergeable_def Let_def)
  then show ?thesis
    using a(2) by blast
qed

text \<open>The row of a deleted item is gone, and a later change of the object does not bring it back.\<close>

lemma Delete_row:
  "Delete env p st = Inr st' \<Longrightarrow> heap st p = Some it \<Longrightarrow> \<not> IsStaticMapItem (m_itemID it) \<Longrightarrow> entity st' (m_itemID it) = None"
  by (auto simp: Delete_def modify_def deref_def put_item_def ebind_Inr_conv Factory_RemoveItem_def DeleteItem_def
      split: if_splits)

lemma AlterQuantity_row:
  assumes "AlterQuantity env p qty notify st = Inr (True, st')" "heap st p = Some it" "\<not> IsStaticMapItem (m_itemID it)"
    and "\<not> i_singleton it" "sint qty = - amount it"
  shows "entity st' (m_itemID it) = None"
proof -
  define a where "a = (if notify \<or> IsCargoHoldFlag (i_flag it) \<and> type_category (m_type it) = category_Charge
      then SendItemChange env (i_owner it) (m_itemID it) [Changed_stack (i_quantity it)] (put_item p (it\<lparr>i_quantity := 0\<rparr>) st)
      else put_item p (it\<lparr>i_quantity := 0\<rparr>) st)"
  have gone: "heap a p = Some (it\<lparr>i_quantity := 0\<rparr>)"
    by (simp add: a_def SendItemChange_def put_item_def)
  have "qty \<noteq> 0"
    using assms(1) by (auto simp: AlterQuantity_def)
  then have "AlterQuantity env p qty notify st = SetQuantity env p 0 notify True st"
    using AlterQuantity_step [OF assms(2), of qty env notify] assms(5) by (simp add: fits_int_def)
  moreover have "SetQuantity env p 0 notify True st = ebind (Delete env p a) (\<lambda>st. Inr (True, st))"
    using assms(2,4) by (simp add: SetQuantity_def deref_def Let_def a_def)
  ultimately have "Delete env p a = Inr st'"
    using assms(1) by (cases "Delete env p a") simp_all
  then show ?thesis
    using Delete_row [of env p a st' "it\<lparr>i_quantity := 0\<rparr>"] gone assms(3) by simp
qed

lemma AlterQuantity_anywhere:
  assumes "heap st p = Some it" "\<not> i_singleton it" "qty \<noteq> 0" "fits_int (amount it + sint qty)" "1 \<le> amount it + sint qty"
  shows "\<exists>st'. AlterQuantity env p qty notify st = Inr (True, st') \<and> m_items st' = m_items st \<and>
    (entity st (m_itemID it) = None \<longrightarrow> entity st' (m_itemID it) = None) \<and> holds_item st' = holds_item st"
proof -
  let ?it = "it\<lparr>i_quantity := word_of_int (amount it + sint qty)\<rparr>"
  define a where "a = (if notify \<or> IsCargoHoldFlag (i_flag it) \<and> type_category (m_type it) = category_Charge
      then SendItemChange env (i_owner it) (m_itemID it) [Changed_stack (i_quantity it)] (put_item p ?it st) else put_item p ?it st)"
  define b where "b = (if saveOnUpdate env then SaveItem ?it a else a)"
  have "AlterQuantity env p qty notify st = Inr (True, b)"
    using AlterQuantity_step [OF assms(1,3,4), of env notify] assms(1,2,5) sint_of_int [OF assms(4)]
    by (simp add: SetQuantity_def deref_def Let_def a_def b_def)
  moreover have "same_memory (put_item p ?it st) b"
    by (simp add: a_def b_def)
  then have "m_items b = m_items st" "holds_item b = holds_item (put_item p ?it st)"
    using same_memory_holds [of "put_item p ?it st" b] by (simp_all add: same_memory_def put_item_def)
  moreover have "holds_item (put_item p ?it st) = holds_item st"
    using holds_put_item [OF assms(1), of ?it] by (intro ext) simp
  moreover have "entity st (m_itemID it) = None \<longrightarrow> entity b (m_itemID it) = None"
    by (simp add: a_def b_def SaveItem_def SendItemChange_def put_item_def)
  ultimately show ?thesis
    by simp
qed

section \<open>What the invariant says\<close>

lemma held_once: "contents_ok st \<Longrightarrow> holds_item st c p \<Longrightarrow> holds_item st d p \<Longrightarrow> c = d"
proof -
  assume ok: "contents_ok st" and c: "holds_item st c p" and d: "holds_item st d p"
  obtain box i where b: "box_of st c = Some box" "(i, p) \<in> set (mContents box)"
    using c by (auto simp: holds_item_def)
  obtain it where "bare st p = Some it"
    using box_ok_member [OF contents_ok_box [OF ok b(1)] b(2)] by auto
  then obtain it where "heap st p = Some it"
    by (auto simp: bare_def)
  then show "c = d"
    using held_at(2) [OF ok c] held_at(2) [OF ok d] by simp
qed

lemma held_there:
  assumes "contents_ok st" "holds_item st c p"
  shows "\<exists>self it. heap st c = Some self \<and> heap st p = Some it \<and> i_location it = m_itemID self"
proof -
  obtain box i where b: "box_of st c = Some box" "(i, p) \<in> set (mContents box)"
    using assms(2) by (auto simp: holds_item_def)
  show ?thesis
    using box_ok_member [OF contents_ok_box [OF assms(1) b(1)] b(2)] by (auto simp: bare_def)
qed

lemma index_exact:
  assumes "contents_ok st" "box_of st c = Some box"
  shows "distinct (GetItemsByFlag flag box) \<and> set (GetItemsByFlag flag box) =
    {p. holds_item st c p \<and> (\<exists>it. heap st p = Some it \<and> (ucast (i_flag it) :: int8) = ucast flag)}"
proof -
  obtain self where self: "\<forall>e \<in> set (mContents box). member_ok (bare st) (m_items st) self e"
      "mset (m_contentsByFlag box) = image_mset (index_entry (bare st)) (mset (mContents box))"
      "distinct (map fst (mContents box))"
    using contents_ok_box [OF assms] by (auto simp: box_ok_def)
  have "image_mset snd (mset (m_contentsByFlag box)) = image_mset snd (mset (mContents box))"
    unfolding self(2) by (simp add: multiset.map_comp comp_def index_entry_def)
  then have same: "mset (map snd (m_contentsByFlag box)) = mset (map snd (mContents box))"
    by simp
  have "e = e'" if "e \<in> set (mContents box)" "e' \<in> set (mContents box)" "snd e = snd e'" for e e'
  proof -
    have "member_ok (bare st) (m_items st) self e" "member_ok (bare st) (m_items st) self e'"
      using self(1) that by auto
    then have "fst e = fst e'"
      using that(3) by (auto simp: member_ok_def)
    then show ?thesis
      using that(3) by (simp add: prod_eq_iff)
  qed
  then have "distinct (map snd (mContents box))"
    using self(3) by (simp add: distinct_map inj_on_def)
  then have "distinct (map snd (m_contentsByFlag box))"
    using mset_eq_imp_distinct_iff [OF same] by simp
  then have "distinct (GetItemsByFlag flag box)"
    unfolding GetItemsByFlag_def range_of_def by (simp add: distinct_map_filter)
  moreover have "set (m_contentsByFlag box) = index_entry (bare st) ` set (mContents box)"
    using arg_cong [OF self(2), of set_mset] by simp
  then have "p \<in> set (GetItemsByFlag flag box) \<longleftrightarrow>
      (\<exists>e \<in> set (mContents box). snd e = p \<and> ucast (i_flag (the (bare st p))) = (ucast flag :: int8))" for p
    by (force simp: GetItemsByFlag_def range_of_def index_entry_def)
  then have "p \<in> set (GetItemsByFlag flag box) \<longleftrightarrow>
      holds_item st c p \<and> (\<exists>it. heap st p = Some it \<and> (ucast (i_flag it) :: int8) = ucast flag)" for p
    using self(1) assms(2) by (fastforce simp: holds_item_def member_ok_def bare_def)
  ultimately show ?thesis
    by blast
qed

section \<open>Runs of operations\<close>

text \<open>
  The operations and when they are steps: on items that are in memory; moves and gifts to places that are
  in memory if they hold items, and are not infrastructure hubs, which file under another flag; deletions
  and changes of the quantity of items that hold nothing themselves; splits that leave something of the
  stack, or ask for more than there is; merges of two different stacks of a type whose sum is an
  \<open>int32\<close>. \<open>SetFlag\<close> is not among them.
\<close>

inductive item_step :: "item_server \<Rightarrow> store \<Rightarrow> store \<Rightarrow> bool" for env where
  Moved: "present st p it \<Longrightarrow> same_place it loc flag \<or> welcomes st loc (it\<lparr>i_flag := flag, i_location := loc\<rparr>) \<Longrightarrow>
    Move env p loc flag notify st = Inr st' \<Longrightarrow> item_step env st st'"
| Relocated: "present st p it \<Longrightarrow> same_place it loc flag \<or> welcomes st loc (it\<lparr>i_flag := flag, i_location := loc\<rparr>) \<Longrightarrow>
    Relocate env p loc flag st = Inr st' \<Longrightarrow> item_step env st st'"
| Donated: "present st p it \<Longrightarrow>
    same_place it loc flag \<or> welcomes st loc (it\<lparr>i_flag := flag, i_owner := owner, i_location := loc\<rparr>) \<Longrightarrow>
    Donate env p owner loc flag notify st = Inr st' \<Longrightarrow> item_step env st st'"
| Given: "present st p it \<Longrightarrow> ChangeOwner env p owner notify st = Inr st' \<Longrightarrow> item_step env st st'"
| Assembled: "present st p it \<Longrightarrow> ChangeSingleton env p single notify st = Inr st' \<Longrightarrow> item_step env st st'"
| Deleted: "deletable st p it \<Longrightarrow> Delete env p st = Inr st' \<Longrightarrow> item_step env st st'"
| Altered: "deletable st p it \<Longrightarrow> \<not> i_singleton it \<Longrightarrow> AlterQuantity env p qty notify st = Inr (ok, st') \<Longrightarrow> item_step env st st'"
| Divided: "sound_split env st p it \<Longrightarrow> welcomes st (i_location it) it \<Longrightarrow> sint qty < amount it \<Longrightarrow>
    i_location it \<noteq> next_entity st \<Longrightarrow> i_location it \<noteq> locTemp \<Longrightarrow>
    Split env p qty notify False st = Inr (q, st') \<Longrightarrow> item_step env st st'"
| Overdrawn: "deletable st p it \<Longrightarrow> \<not> i_singleton it \<Longrightarrow> 0 \<le> amount it \<Longrightarrow> amount it < sint qty \<Longrightarrow>
    Split env p qty notify silent st = Inr (q, st') \<Longrightarrow> item_step env st st'"
| Merged: "mergeable st p it q other \<Longrightarrow> 1 \<le> share other qty \<Longrightarrow> 0 \<le> amount it \<Longrightarrow> 0 \<le> amount other \<Longrightarrow>
    fits_int (amount it + share other qty) \<Longrightarrow> Merge env py p (Some q) qty notify st = Inr (r, st') \<Longrightarrow> item_step env st st'"

inductive_cases item_stepE: "item_step env st st'"

lemma Donate_same_place:
  assumes "present st p it" "same_place it loc flag" "Donate env p owner loc flag notify st = Inr st'"
  shows "contents_ok st' \<and> made st' = made st"
proof -
  let ?f = "\<lambda>it. it\<lparr>i_flag := flag, i_owner := owner, i_location := loc\<rparr>" and ?it = "it\<lparr>i_owner := owner\<rparr>"
  have there: "deref p st = Inr it" "deref p (put_item p ?it st) = Inr ?it"
    using presentD(2) [OF assms(1)] by (simp_all add: deref_def put_item_def)
  have stay: "(loc \<noteq> i_location it \<or> flag \<noteq> i_flag it) = False"
    using assms(2) by (simp add: same_place_def)
  have "?f it = ?it"
    using assms(2) by (simp add: same_place_def)
  then have put: "replace env p False ?f st = Inr (put_item p ?it st)"
    using there by (simp add: replace_def modify_def)
  have "st' = st \<or> same_memory (put_item p ?it st) st'"
    using assms(3) unfolding Donate_def there ebind_simps Let_def stay if_False put
    by (auto split: if_splits)
  then show ?thesis
    using presentD(1) [OF assms(1)] updated [OF assms(1), of ?it st'] by (auto simp: updated_def present_def same_filing_def)
qed

lemma Altered_ok:
  assumes "deletable st p it" "\<not> i_singleton it" "AlterQuantity env p qty notify st = Inr (ok, st')"
  shows "contents_ok st' \<and> made st' = made st"
proof (cases "qty = 0")
  case True
  then show ?thesis
    using assms(1,3) by (simp add: AlterQuantity_def deletable_def present_def)
next
  case False
  have h: "heap st p = Some it"
    using assms(1) by (simp add: deletable_def present_def)
  have fits: "fits_int (amount it + sint qty)"
    using assms(3) False h by (auto simp: AlterQuantity_def deref_def int_sum_def amount_def fits_int_def Let_def split: if_splits)
  consider "1 \<le> amount it + sint qty" | "amount it + sint qty = 0" | "amount it + sint qty < 0"
    by linarith
  then show ?thesis
    using AlterQuantity_cases [OF assms(1,2) False fits, of env notify] assms(3)
    by cases (force simp: updated_def present_def removed_def)+
qed

lemma placed_ok: "placed p new st st' \<Longrightarrow> contents_ok st' \<and> made st' = made st"
  by (simp add: placed_def)

lemma item_step_ok:
  assumes "item_step env st st'"
  shows "contents_ok st' \<and> made st \<le> made st'"
  using assms
proof (cases rule: item_step.cases)
  case (Moved p it loc flag notify)
  show ?thesis
  proof (cases "same_place it loc flag")
    case True
    then show ?thesis
      using Move_same_place [OF presentD(2) [OF Moved(1)] True, of env notify] Moved(3) presentD(1) [OF Moved(1)]
        same_memory_holds [of st st'] by (auto simp: same_memory_def)
  next
    case False
    then show ?thesis
      using Move_places [OF Moved(1) False, of env notify] Moved(2,3) placed_ok by force
  qed
next
  case (Relocated p it loc flag)
  show ?thesis
  proof (cases "same_place it loc flag")
    case True
    then show ?thesis
      using Relocate_same_place [OF presentD(2) [OF Relocated(1)] True, of env] Relocated(3) presentD(1) [OF Relocated(1)] by simp
  next
    case False
    then show ?thesis
      using Relocate_places [OF Relocated(1) False, of env] Relocated(2,3) placed_ok by force
  qed
next
  case (Donated p it loc flag owner notify)
  show ?thesis
  proof (cases "same_place it loc flag \<or> \<not> IsValidOwner owner \<or> \<not> IsValidLocationID loc")
    case True
    then show ?thesis
      using Donate_same_place [OF Donated(1) _ Donated(3)] Donated by (auto simp: Donate_def deref_def present_def)
  next
    case False
    then show ?thesis
      using Donate_places [OF Donated(1), of owner loc flag env notify] Donated(2,3) placed_ok by fastforce
  qed
next
  case (Given p it owner notify)
  then show ?thesis
    using ChangeOwner_updates [OF Given(1), of env owner notify] by (auto simp: updated_def present_def)
next
  case (Assembled p it single notify)
  then show ?thesis
    using ChangeSingleton_updates [OF Assembled(1), of env single notify] by (auto simp: updated_def present_def)
next
  case (Deleted p it)
  then show ?thesis
    using Delete_removes [OF Deleted(1), of env] by (auto simp: removed_def)
next
  case (Altered p it qty notify ok)
  then show ?thesis
    using Altered_ok by fastforce
next
  case (Divided p it qty notify q)
  show ?thesis
  proof (cases "sint qty < 1")
    case True
    then show ?thesis
      using Divided by (auto simp: Split_def sound_split_def deletable_def present_def)
  next
    case False
    then show ?thesis
      using Split_in_two [OF Divided(1) _ Divided(3,2,4,5), of notify] Divided by (auto simp: in_two_def)
  qed
next
  case (Overdrawn p it qty notify silent q)
  then show ?thesis
    using Split_of_too_much [OF Overdrawn(1-4), of env notify silent] by (auto simp: removed_def)
next
  case (Merged p it q other qty py notify r)
  show ?thesis
  proof (cases "share other qty \<le> amount other")
    case True
    then show ?thesis
      using Merge_merges [OF Merged(1,2) True Merged(3,5), of env py notify] Merged(6) by (auto simp: merged_def)
  next
    case False
    then show ?thesis
      using Merge_of_too_much [OF Merged(1), of qty env py notify] Merged(4,6) by (auto simp: removed_def share_def split: if_splits)
  qed
qed

interpretation items: bounded_system "item_step env" made limit contents_ok for env limit
  by unfold_locales (auto dest: item_step_ok)

section \<open>Main results\<close>

text \<open>Some items: a station with two stacks and a ship in it.\<close>

definition sample_server :: item_server where
  "sample_server = \<lparr>load_item = \<lambda>i st. (None, st), spawnable = \<lambda>_. True, saveOnUpdate = True, IsShutdown = False\<rparr>"

definition stack_of :: "int32 \<Rightarrow> int32 \<Rightarrow> item" where
  "stack_of i qty = \<lparr>m_itemID = i, m_type = \<lparr>type_id = 34, type_group = 18, type_category = 4\<rparr>,
     i_owner = 90000001, i_location = 60000004, i_flag = flagHangar, i_singleton = False, i_quantity = qty,
     m_delete = False, pInventory = None\<rparr>"

definition holder :: "int32 \<Rightarrow> int16 \<Rightarrow> int32 \<Rightarrow> inventory \<Rightarrow> item" where
  "holder i ty loc box = \<lparr>m_itemID = i, m_type = \<lparr>type_id = ty, type_group = 15, type_category = 3\<rparr>,
     i_owner = 90000001, i_location = loc, i_flag = flagHangar, i_singleton = True, i_quantity = - 1,
     m_delete = False, pInventory = Some box\<rparr>"

definition station_box :: inventory where
  "station_box = \<lparr>mContents = [(140000001, 1), (140000002, 2), (140000003, 3)],
     m_contentsByFlag = [(4, 1), (4, 2), (4, 3)], mContentsLoaded = True\<rparr>"

definition sample_store :: store where
  "sample_store = \<lparr>
     heap = [0 \<mapsto> holder 60000004 1529 30000142 station_box, 1 \<mapsto> stack_of 140000001 100, 2 \<mapsto> stack_of 140000002 50,
       3 \<mapsto> holder 140000003 587 60000004 \<lparr>mContents = [], m_contentsByFlag = [], mContentsLoaded = True\<rparr>],
     made = 4, m_items = [60000004 \<mapsto> 0, 140000001 \<mapsto> 1, 140000002 \<mapsto> 2, 140000003 \<mapsto> 3],
     entity = [140000001 \<mapsto> \<lparr>r_type = 34, r_owner = 90000001, r_location = 60000004, r_flag = 4, r_singleton = False, r_quantity = 100\<rparr>],
     next_entity = 140000004, item_log = []\<rparr>"

lemmas sample_defs = sample_store_def sample_server_def stack_of_def holder_def station_box_def

lemma sample_place: "IsValidLocationID 60000004" "IsValidLocationID 140000003" "\<not> IsCharacterID 60000004" "\<not> IsCharacterID 140000003"
  by (simp_all add: IsValidLocationID_def IsStationID_def IsPlayerItem_def IsCharacterID_def)

lemma sample_ok: "contents_ok sample_store"
proof (rule contents_okI)
  show "box_ok (bare sample_store) (m_items sample_store) c box" if "box_of sample_store c = Some box" for c box
    using that sample_place
    by (auto simp: box_of_def sample_defs box_ok_def bare_def member_ok_def filed_def index_entry_def split: if_splits)
qed (auto simp: sample_defs split: if_splits)

lemma sample_present:
  "present sample_store 1 (stack_of 140000001 100)" "present sample_store 2 (stack_of 140000002 50)"
  "empty_box sample_store 1" "empty_box sample_store 2" "to_junkyard (stack_of 140000001 100)" "to_junkyard (stack_of 140000002 50)"
  using sample_ok
  by (simp_all add: present_def resident_def empty_box_def box_of_def to_junkyard_def sample_defs IsNPCCorp_def)

lemma sample_moves: "welcomes sample_store 140000003 it" "welcomes sample_store 60000004 it"
  using sample_place by (simp_all add: welcomes_def filed_def hub_def sample_defs)

lemma sample_split: "sound_split sample_server sample_store 1 (stack_of 140000001 100)"
proof -
  have "ids_left sample_store"
    by (auto simp: ids_left_def IsPlayerItem_def sample_defs)
  then show ?thesis
    using sample_present by (simp add: sound_split_def deletable_def sample_defs amount_def)
qed

lemma sample_merge: "mergeable sample_store 1 (stack_of 140000001 100) 2 (stack_of 140000002 50)"
  using sample_present by (simp add: mergeable_def deletable_def stack_of_def)







text \<open>Asked for more than there is, a split destroys the stack and makes no other: \<open>AlterQuantity\<close> deletes it. When
  an item is divided, the quantity is the one of the stack less a number that the client sends, which may
  be negative.\<close>

theorem split_of_too_much_destroys:
  assumes "deletable st p it" "\<not> i_singleton it" "0 \<le> amount it" "amount it < sint qty"
  shows "\<exists>st'. Split env p qty notify silent st = Inr (None, st') \<and> m_items st' (m_itemID it) = None \<and>
    made st' = made st \<and> (\<forall>d. \<not> holds_item st' d p)"
  using Split_of_too_much [OF assms(1-4), of env notify silent] by (auto simp: removed_def)

text \<open>C11. A merge keeps what there is: when the part asked for (everything, if the number is not positive) is no more
  than the other stack has and the sum is an \<open>int32\<close>, it goes from the one stack to the other; a stack that
  gave all it had is deleted.\<close>

theorem merge_conserves:
  assumes "mergeable st p it q other" "1 \<le> share other qty" "share other qty \<le> amount other"
    and "0 \<le> amount it" "fits_int (amount it + share other qty)"
  shows "\<exists>st' it'. Merge env py p (Some q) qty notify st = cret True st' \<and> contents_ok st' \<and>
    heap st' p = Some it' \<and> amount it' = amount it + share other qty \<and>
    (if share other qty = amount other then m_items st' (m_itemID other) = None \<and> (\<forall>d. \<not> holds_item st' d q)
     else \<exists>rest. heap st' q = Some rest \<and> amount rest + share other qty = amount other \<and> holds_item st' = holds_item st)"
proof -
  have fits: "fits_int (amount other - share other qty)"
    using assms(2,3) sint_range [of "i_quantity other"] by (simp add: fits_int_def amount_def)
  have "amount (it\<lparr>i_quantity := word_of_int (amount it + share other qty), pInventory := box\<rparr>) = amount it + share other qty" for box
    using sint_of_int [OF assms(5)] by (simp add: amount_def)
  moreover have "amount (other\<lparr>i_quantity := word_of_int (amount other - share other qty), pInventory := box\<rparr>) = amount other - share other qty" for box
    using sint_of_int [OF fits] by (simp add: amount_def)
  moreover obtain st' where "Merge env py p (Some q) qty notify st = cret True st'" "merged p it q other (share other qty) st st'"
    using Merge_merges [OF assms, of env py notify] by blast
  ultimately show ?thesis
    using assms(3) unfolding merged_def by (cases "share other qty = amount other") (simp, metis, simp, metis diff_add_cancel)
qed

theorem merge_conserves_witness:
  "\<forall>py. \<exists>st' it'. Merge sample_server py 1 (Some 2) 0 True sample_store = cret True st' \<and> heap st' 1 = Some it' \<and>
     amount it' = 150 \<and> m_items st' 140000002 = None"
proof
  fix py
  have am: "amount (stack_of 140000001 100) = 100" "amount (stack_of 140000002 50) = 50" "m_itemID (stack_of 140000002 50) = 140000002"
    by (simp_all add: amount_def stack_of_def)
  then have "share (stack_of 140000002 50) 0 = 50"
    by (simp add: share_def)
  then show "\<exists>st' it'. Merge sample_server py 1 (Some 2) 0 True sample_store = cret True st' \<and> heap st' 1 = Some it' \<and>
     amount it' = 150 \<and> m_items st' 140000002 = None"
    using merge_conserves [OF sample_merge, of 0 sample_server py True] am by (auto simp: fits_int_def)
qed

text \<open>Merging more than there is loses it: the quantity that \<open>MultiMerge\<close> passes on comes from the client, and when it
  is larger than the other stack, \<open>AlterQuantity\<close> deletes that stack and fails, so nothing is added to
  the first one.\<close>

theorem merge_of_too_much_destroys:
  assumes "mergeable st p it q other" "amount other < sint qty" "0 \<le> amount other"
  shows "\<exists>st' box. Merge env py p (Some q) qty notify st = cret False st' \<and> m_items st' (m_itemID other) = None \<and>
    (\<forall>d. \<not> holds_item st' d q) \<and> heap st' p = Some (it\<lparr>pInventory := box\<rparr>)"
proof -
  obtain st' where st': "Merge env py p (Some q) qty notify st = cret False st'" "removed q other st st'"
    using Merge_of_too_much [OF assms, of env py notify] by blast
  have "\<exists>box. present st' p (it\<lparr>pInventory := box\<rparr>)"
    using removed_others [OF st'(2)] assms(1) by (auto simp: mergeable_def deletable_def present_def)
  then show ?thesis
    using st' by (auto simp: removed_def present_def)
qed

theorem merge_of_too_much_destroys_witness:
  "\<forall>py. \<exists>st' left. Merge sample_server py 1 (Some 2) 51 True sample_store = cret False st' \<and> m_items st' 140000002 = None \<and>
     heap st' 1 = Some left \<and> amount left = 100"
proof
  fix py
  have am: "amount (stack_of 140000002 50) = 50" "m_itemID (stack_of 140000002 50) = 140000002" "sint (51 :: int32) = 51"
    "amount (stack_of 140000001 100\<lparr>pInventory := box\<rparr>) = 100" for box
    by (simp_all add: amount_def stack_of_def)
  show "\<exists>st' left. Merge sample_server py 1 (Some 2) 51 True sample_store = cret False st' \<and> m_items st' 140000002 = None \<and>
     heap st' 1 = Some left \<and> amount left = 100"
    using merge_of_too_much_destroys [OF sample_merge, of 51 sample_server py True] am by fastforce
qed

text \<open>C24. Merging a stack with itself destroys it: \<open>MultiMerge\<close> does not compare the two ids that the client sends, so the
  whole stack is taken from itself, which deletes it, and put back on the deleted object. The merge reports
  success, and the item is in no container, no longer known to the factory and has no row.\<close>

theorem merge_with_itself_destroys:
  assumes "deletable st p it" "\<not> i_singleton it" "1 \<le> share it qty" "share it qty = amount it" "\<not> IsStaticMapItem (m_itemID it)"
  shows "\<exists>st'. Merge env py p (Some p) qty notify st = cret True st' \<and> m_items st' (m_itemID it) = None \<and>
    entity st' (m_itemID it) = None \<and> (\<forall>d. \<not> holds_item st' d p)"
proof -
  let ?n = "if sint qty < 1 then i_quantity it else qty"
  have n: "sint ?n = amount it" "?n \<noteq> 0" "- ?n \<noteq> 0" "1 \<le> sint ?n"
    using share_word [of qty it] assms(3,4) by auto
  have m: "sint (- ?n) = - amount it"
    using sint_minus [of ?n] n(1,4) by simp
  have old: "present st p it"
    using assms(1) by (simp add: deletable_def)
  obtain a where a: "AlterQuantity env p (- ?n) notify st = Inr (True, a)" "removed p (it\<lparr>i_quantity := 0\<rparr>) st a"
    using AlterQuantity_cases(2) [OF assms(1,2) n(3), of env notify] m by (auto simp: fits_int_def)
  then obtain gone where gone: "heap a p = Some gone" "m_itemID gone = m_itemID it" "amount gone = 0" "\<not> i_singleton gone"
    using assms(2) by (auto simp: removed_def amount_def)
  have row: "entity a (m_itemID it) = None"
    by (rule AlterQuantity_row [OF a(1) presentD(2) [OF old] assms(5,2)]) (use m in simp)
  obtain b where b: "AlterQuantity env p ?n notify a = Inr (True, b)" "m_items b = m_items a"
      "entity a (m_itemID it) = None \<longrightarrow> entity b (m_itemID it) = None" "holds_item b = holds_item a"
    using AlterQuantity_anywhere [OF gone(1,4) n(2), of env notify] n(1,4) gone(2,3) sint_range [of ?n]
    by (auto simp: fits_int_def)
  then show ?thesis
    using a row Merge_step [OF presentD(2) [OF old] presentD(2) [OF old] assms(2,2), of env py qty notify]
    by (simp add: Let_def removed_def)
qed

theorem merge_with_itself_destroys_witness:
  "\<forall>py. \<exists>st'. Merge sample_server py 1 (Some 1) 0 True sample_store = cret True st' \<and> entity st' 140000001 = None"
proof
  fix py
  have d: "deletable sample_store 1 (stack_of 140000001 100)"
    using sample_split by (simp add: sound_split_def)
  have am: "amount (stack_of 140000001 100) = 100" "m_itemID (stack_of 140000001 100) = 140000001"
      "\<not> i_singleton (stack_of 140000001 100)" "\<not> IsStaticMapItem 140000001"
    by (simp_all add: amount_def stack_of_def IsStaticMapItem_def)
  then have "share (stack_of 140000001 100) 0 = 100"
    by (simp add: share_def)
  then show "\<exists>st'. Merge sample_server py 1 (Some 1) 0 True sample_store = cret True st' \<and> entity st' 140000001 = None"
    using merge_with_itself_destroys [OF d am(3), of 0 sample_server py True] am by auto
qed

text \<open>\<open>SetFlag\<close> leaves the index behind: it changes the flag of an item but not the index of the container the item is
  in (a module that is flagged into the cargo hold, a skill that starts training). \<open>RemoveItem\<close> then looks
  for it under the new flag, and the container keeps listing under the old flag an item that left.\<close>

theorem set_flag_leaves_index_stale:
  assumes "present st p it" "holds_item st c p" "(ucast flag :: int8) \<noteq> ucast (i_flag it)" "SetFlag env p flag notify st = Inr a"
  shows "\<exists>b box. RemoveItem c p a = Inr b \<and> \<not> holds_item b c p \<and> box_of b c = Some box \<and> p \<in> set (GetItemsByFlag (i_flag it) box)"
proof -
  let ?it = "it\<lparr>i_flag := flag\<rparr>"
  obtain box where box: "box_of st c = Some box"
    using assms(2) by (auto simp: holds_item_def)
  have "same_memory (put_item p ?it st) a"
    using assms(3,4) presentD(2) [OF assms(1)] by (auto simp: SetFlag_def deref_def Let_def split: if_splits)
  then have heap: "heap a = (heap st)(p \<mapsto> ?it)"
    by (simp add: same_memory_def put_item_def)
  have "box_of a c = Some box"
    using box presentD(2) [OF assms(1)] heap by (auto simp: box_of_def)
  then obtain self where self: "heap a c = Some self" "pInventory self = Some box"
    by (auto simp: box_of_def bind_eq_Some_conv)
  let ?b = "set_box c (box_without (m_itemID it) (ucast flag) p box) a"
  have r: "RemoveItem c p a = Inr ?b"
    using RemoveItem_eq [of a p ?it c self] heap self by simp
  have D: "bare st p = Some (it\<lparr>pInventory := None\<rparr>)"
    using presentD(2) [OF assms(1)] by (simp add: bare_def)
  have "p \<notin> snd ` set (mContents (box_without (m_itemID it) (ucast flag) p box))"
    using box_ok_without(2) [OF contents_ok_box [OF presentD(1) [OF assms(1)] box] D] presentD(3) [OF assms(1)]
    by (simp add: box_without_def)
  then have "\<not> holds_item ?b c p"
    using self(1) by (simp add: holds_set_box)
  moreover have "p \<in> set (GetItemsByFlag (i_flag it) box)"
    using index_exact [OF presentD(1) [OF assms(1)] box, of "i_flag it"] assms(2) presentD(2) [OF assms(1)] by auto
  then have "p \<in> set (GetItemsByFlag (i_flag it) (box_without (m_itemID it) (ucast flag) p box))"
    using assms(3) by (force simp: GetItemsByFlag_def range_of_def box_without_def in_set_remove1)
  ultimately show ?thesis
    using r box_of_set_box [of a c] self(1) by force
qed

theorem set_flag_leaves_index_stale_witness:
  "\<exists>a b box. SetFlag sample_server 1 flagCargoHold True sample_store = Inr a \<and> RemoveItem 0 1 a = Inr b \<and>
     \<not> holds_item b 0 1 \<and> box_of b 0 = Some box \<and> 1 \<in> set (GetItemsByFlag flagHangar box)"
proof -
  have h: "holds_item sample_store 0 1" "i_flag (stack_of 140000001 100) = flagHangar"
    by (simp_all add: holds_item_def box_of_def sample_defs)
  moreover obtain a where "SetFlag sample_server 1 flagCargoHold True sample_store = Inr a"
    by (simp add: SetFlag_def deref_def sample_defs Let_def)
  ultimately show ?thesis
    using set_flag_leaves_index_stale [OF sample_present(1) h(1), of flagCargoHold sample_server True] by simp
qed

text \<open>What is moved into an office is in no container: \<open>IsValidLocationID\<close> does not know the ids of offices, so \<open>Move\<close>
  (which delivers items to corporation hangars) neither adds the item to the contents of the office nor
  writes its new place to the database, and after a restart it is back where it was.\<close>

theorem move_into_office_is_not_stored:
  assumes "present st p it" "IsOfficeID office" "office \<noteq> i_location it"
  shows "\<exists>st' box. Move env p office flag notify st = Inr st' \<and> (\<forall>d. \<not> holds_item st' d p) \<and> entity st' = entity st \<and>
    heap st' p = Some (it\<lparr>i_flag := flag, i_location := office, pInventory := box\<rparr>)"
proof -
  have no: "\<not> IsValidLocationID office" "office \<noteq> locRAMItems"
    using assms(2)
    by (auto simp: IsOfficeID_def IsValidLocationID_def IsSolarSystemID_def IsRegionID_def IsStationID_def IsPlayerItem_def
        IsCharacterID_def word_less_nat_alt word_le_nat_alt)
  then show ?thesis
    using Move_places [OF assms(1), of office flag env notify] assms(3)
    by (auto simp: same_place_def welcomes_def placed_def receives_def)
qed

theorem move_into_office_is_not_stored_witness:
  "\<exists>st'. Move sample_server 1 100000001 flagHangar True sample_store = Inr st' \<and> (\<forall>d. \<not> holds_item st' d 1) \<and>
     map_option r_location (entity st' 140000001) = Some 60000004"
proof -
  have o: "IsOfficeID 100000001" "100000001 \<noteq> i_location (stack_of 140000001 100)"
    by (simp_all add: IsOfficeID_def stack_of_def)
  have "map_option r_location (entity sample_store 140000001) = Some 60000004"
    by (simp add: sample_store_def)
  then show ?thesis
    using move_into_office_is_not_stored [OF sample_present(1) o, of sample_server flagHangar True] by auto
qed

end
