(* ===== verification/Trade.thy ===== *)
theory Trade
  imports Accounts Stacks
begin

text \<open>
  Trades between two players, \<open>eve-server/station/TradeService.cpp\<close>: the sessions, which the clients and the table of
  active sessions point to, the calls of the bound object that both sides share, and what happens to a session when
  one of them leaves. Items and money are those of \<open>Items\<close> and \<open>Accounts\<close>.
\<close>

section \<open>Sessions\<close>

record trade_item =
  t_itemID :: int32
  t_type :: item_type
  t_ownerID :: int32
  t_locationID :: int32
  t_flagID :: int32
  t_quantity :: int32
  t_singleton :: bool

record trade_session =
  containerID :: int32
  stationID :: int32
  myID :: int32
  herID :: int32
  myState :: bool
  herState :: bool
  myMoney :: fval
  herMoney :: fval
  fileTime :: int64
  m_tradelist :: "trade_item list"

record active_session =
  as_myID :: int32
  as_herID :: int32
  as_contID :: int32
  ourTS :: nat

datatype trade_news = Initiate int32 | MoneyOffer int32 fval fval | StateToggle bool bool | Item_added trade_item
  | Trade_cancel int32 | TradeComplete int32 | Is_trading int32

text \<open>
  The sessions are objects that are numbered as they are made; \<open>None\<close> is one that was deleted. \<open>m_TS\<close> is the pointer
  that each client has. The clients are those with a wallet in memory.
\<close>

record floor =
  goods :: store
  money :: bank
  sessions :: "nat \<Rightarrow> trade_session option"
  opened :: nat
  m_activeSessions :: "int32 \<Rightarrow> active_session option"
  m_SessionID :: int32
  m_TS :: "int32 \<Rightarrow> nat option"
  told :: "(int32 \<times> trade_news) list"

record trade_server =
  item_env :: item_server
  money_env :: accounts
  GetStationID :: "int32 \<Rightarrow> int32"

type_synonym 'a deal = "floor \<Rightarrow> ((money_error + 'a) \<times> floor) result"

definition dret :: "'a \<Rightarrow> 'a deal" where
  "dret x s = Inr (Inr x, s)"

definition dfault :: "fault \<Rightarrow> 'a deal" where
  "dfault f s = Inl f"

definition dbind :: "'a deal \<Rightarrow> ('a \<Rightarrow> 'b deal) \<Rightarrow> 'b deal" where
  "dbind m f s = ebind (m s) (\<lambda>(r, s). case r of Inl e \<Rightarrow> Inr (Inl e, s) | Inr x \<Rightarrow> f x s)"

definition alter :: "(floor \<Rightarrow> floor) \<Rightarrow> unit deal" where
  "alter f s = Inr (Inr (), f s)"

definition with_goods :: "(store \<Rightarrow> store result) \<Rightarrow> unit deal" where
  "with_goods f s = ebind (f (goods s)) (\<lambda>st. Inr (Inr (), s\<lparr>goods := st\<rparr>))"

definition with_money :: "unit pay \<Rightarrow> unit deal" where
  "with_money f s = (case f (money s) of (r, b) \<Rightarrow> Inr (r, s\<lparr>money := b\<rparr>))"

lemma dbind_simps [simp]:
  "m s = Inl f \<Longrightarrow> dbind m k s = Inl f"
  "m s = Inr (Inl e, s') \<Longrightarrow> dbind m k s = Inr (Inl e, s')"
  "m s = Inr (Inr x, s') \<Longrightarrow> dbind m k s = k x s'"
  by (simp_all add: dbind_def)

lemma deal_simps [simp]: "dret x s = Inr (Inr x, s)" "alter f s = Inr (Inr (), f s)" "dfault e s = Inl e"
  by (simp_all add: dret_def alter_def dfault_def)

definition is_client :: "int32 \<Rightarrow> floor \<Rightarrow> bool" where
  "is_client c s \<longleftrightarrow> online (money s) c \<noteq> None"

text \<open>A null pointer, and one to a session that was deleted.\<close>

definition session_of :: "int32 \<Rightarrow> (nat \<times> trade_session) deal" where
  "session_of c s =
     (case m_TS s c of
        None \<Rightarrow> Inl Null_deref
      | Some p \<Rightarrow> (case sessions s p of None \<Rightarrow> Inl Undefined_behaviour | Some t \<Rightarrow> Inr (Inr (p, t), s)))"

definition put_session :: "nat \<Rightarrow> trade_session \<Rightarrow> floor \<Rightarrow> floor" where
  "put_session p t s = s\<lparr>sessions := (sessions s)(p \<mapsto> t)\<rparr>"

definition delete_session :: "nat \<Rightarrow> unit deal" where
  "delete_session p s =
     (case sessions s p of None \<Rightarrow> Inl Undefined_behaviour | Some t \<Rightarrow> Inr (Inr (), s\<lparr>sessions := (sessions s)(p := None)\<rparr>))"

definition tell :: "int32 \<Rightarrow> trade_news \<Rightarrow> unit deal" where
  "tell c news s = (if is_client c s then Inr (Inr (), s\<lparr>told := told s @ [(c, news)]\<rparr>) else Inl Null_deref)"

definition tell_both :: "int32 \<Rightarrow> int32 \<Rightarrow> trade_news \<Rightarrow> unit deal" where
  "tell_both a b news = dbind (tell a news) (\<lambda>_. tell b news)"

definition ClearTradeSession :: "int32 \<Rightarrow> unit deal" where
  "ClearTradeSession c s = (if is_client c s then Inr (Inr (), s\<lparr>m_TS := (m_TS s)(c := None)\<rparr>) else Inl Null_deref)"

definition RemoveActiveSession :: "int32 \<Rightarrow> floor \<Rightarrow> floor" where
  "RemoveActiveSession c s = s\<lparr>m_activeSessions := (m_activeSessions s)(c := None)\<rparr>"

definition GetTradeSessionID :: "floor \<Rightarrow> int32 \<times> floor" where
  "GetTradeSessionID s =
     (let i = (if m_SessionID s < 65999999 then m_SessionID s + 1 else 64000000) in (i, s\<lparr>m_SessionID := i\<rparr>))"

section \<open>The service\<close>

text \<open>The arguments of a bind request, decoded by a generated class: station, both players, both sums, and a time.\<close>

record bind_args =
  b_stationID :: int32
  b_myID :: int32
  b_herID :: int32
  b_myMoney :: fval
  b_herMoney :: fval
  b_fileTime :: int64

definition map_insert_new :: "int32 \<Rightarrow> 'a \<Rightarrow> (int32 \<Rightarrow> 'a option) \<Rightarrow> int32 \<Rightarrow> 'a option" where
  "map_insert_new k v m = (if m k = None then m(k \<mapsto> v) else m)"

definition trade_bind :: "int32 \<Rightarrow> bind_args option \<Rightarrow> bool deal" where
  "trade_bind c decoded =
     (case decoded of
        None \<Rightarrow> dret False
      | Some a \<Rightarrow> (\<lambda>s.
          (case m_activeSessions s (b_myID a) of
             Some as \<Rightarrow> Inr (Inr True, s\<lparr>m_TS := (m_TS s)(c \<mapsto> ourTS as)\<rparr>)
           | None \<Rightarrow>
               (let (cont, s) = GetTradeSessionID s; p = opened s;
                    t = \<lparr>containerID = cont, stationID = b_stationID a, myID = b_myID a, herID = b_herID a,
                          myState = False, herState = False, myMoney = b_myMoney a, herMoney = b_herMoney a,
                          fileTime = b_fileTime a, m_tradelist = []\<rparr>;
                    as = \<lparr>as_myID = b_myID a, as_herID = b_herID a, as_contID = cont, ourTS = p\<rparr>
                in Inr (Inr True,
                     put_session p t s\<lparr>m_TS := (m_TS s)(c \<mapsto> p), opened := Suc p,
                       m_activeSessions := map_insert_new (b_herID a) as (map_insert_new (b_myID a) as (m_activeSessions s))\<rparr>)))))"

definition InitiateTrade :: "int32 \<Rightarrow> int32 \<Rightarrow> unit deal" where
  "InitiateTrade c characterID s =
     (if m_TS s c \<noteq> None then
        dbind (session_of c) (\<lambda>(p, t) s. if is_client (herID t) s then tell c (Is_trading (herID t)) s else Inl Null_deref) s
      else if \<not> is_client characterID s then Inl Null_deref
      else if m_TS s characterID \<noteq> None then
        dbind (session_of c) (\<lambda>(p, t) s. if is_client (herID t) s then tell c (Is_trading (herID t)) s else Inl Null_deref) s
      else tell c (Initiate c) s)"

section \<open>Offers\<close>

definition party :: "int32 \<Rightarrow> trade_session \<Rightarrow> bool" where
  "party c t \<longleftrightarrow> c = myID t \<or> c = herID t"

abbreviation no_states :: "trade_session \<Rightarrow> trade_session" where
  "no_states t \<equiv> t\<lparr>myState := False, herState := False\<rparr>"

definition OfferMoney :: "int32 \<Rightarrow> fval \<Rightarrow> unit deal" where
  "OfferMoney c offered =
     dbind (session_of c) (\<lambda>(p, t).
       if \<not> party c t then dret ()
       else
         let t = no_states (if c = myID t then t\<lparr>myMoney := offered\<rparr> else t\<lparr>herMoney := offered\<rparr>)
         in dbind (alter (put_session p t)) (\<lambda>_.
            tell_both (myID t) (herID t) (MoneyOffer (containerID t) (myMoney t) (herMoney t))))"

definition listed :: "int32 \<Rightarrow> int32 \<Rightarrow> int32 \<Rightarrow> int32 \<Rightarrow> item \<Rightarrow> trade_session \<Rightarrow> trade_item" where
  "listed c itemID flag qty it t =
     \<lparr>t_itemID = itemID, t_type = m_type it, t_ownerID = c, t_locationID = containerID t, t_flagID = flag,
      t_quantity = qty, t_singleton = i_singleton it\<rparr>"

text \<open>The item is put on the list and moved; the states are reset at the end.\<close>

definition put_up :: "trade_server \<Rightarrow> nat \<Rightarrow> trade_session \<Rightarrow> trade_item \<Rightarrow> item_ref \<Rightarrow> int32 \<Rightarrow> unit deal" where
  "put_up env p t x ref flag =
     dbind (\<lambda>s. case sessions s p of None \<Rightarrow> Inl Undefined_behaviour
                | Some u \<Rightarrow> Inr (Inr (), put_session p (u\<lparr>m_tradelist := m_tradelist u @ [x]\<rparr>) s)) (\<lambda>_.
     dbind (with_goods (Move (item_env env) ref (containerID t) flag True)) (\<lambda>_.
     tell_both (myID t) (herID t) (Item_added x)))"

definition reset_states :: "nat \<Rightarrow> unit deal" where
  "reset_states p s = (case sessions s p of None \<Rightarrow> Inl Undefined_behaviour | Some t \<Rightarrow> Inr (Inr (), put_session p (no_states t) s))"

definition find_item :: "trade_server \<Rightarrow> int32 \<Rightarrow> (item_ref \<times> item) option deal" where
  "find_item env i s =
     (case GetItemRef (item_env env) i (goods s) of
        (None, st) \<Rightarrow> Inr (Inr None, s\<lparr>goods := st\<rparr>)
      | (Some ref, st) \<Rightarrow> ebind (deref ref st) (\<lambda>it. Inr (Inr (Some (ref, it)), s\<lparr>goods := st\<rparr>)))"

definition Trade_Add :: "trade_server \<Rightarrow> int32 \<Rightarrow> int32 \<Rightarrow> int32 \<Rightarrow> int32 \<Rightarrow> unit deal" where
  "Trade_Add env c itemID flag qty =
     dbind (find_item env itemID) (\<lambda>found.
       case found of
         None \<Rightarrow> dret ()
       | Some (ref, it) \<Rightarrow>
           dbind (session_of c) (\<lambda>(p, t).
             if \<not> party c t then dret ()
             else dbind (put_up env p t (listed c itemID (i_flag it) qty it t) ref flag) (\<lambda>_. reset_states p)))"

fun add_loop :: "trade_server \<Rightarrow> int32 \<Rightarrow> nat \<Rightarrow> trade_session \<Rightarrow> int32 \<Rightarrow> int32 list \<Rightarrow> unit deal" where
  "add_loop env c p t flag [] = dret ()"
| "add_loop env c p t flag (i # is) =
     dbind (find_item env i) (\<lambda>found.
       case found of
         None \<Rightarrow> add_loop env c p t flag is
       | Some (ref, it) \<Rightarrow>
           dbind (put_up env p t (listed c i flag (i_quantity it) it t) ref flag) (\<lambda>_. add_loop env c p t flag is))"

definition Trade_MultiAdd :: "trade_server \<Rightarrow> int32 \<Rightarrow> int32 list \<Rightarrow> int32 \<Rightarrow> unit deal" where
  "Trade_MultiAdd env c itemIDs flag =
     dbind (session_of c) (\<lambda>(p, t).
       if \<not> party c t then dret ()
       else dbind (add_loop env c p t flag itemIDs) (\<lambda>_. reset_states p))"

section \<open>The end of a trade\<close>

text \<open>What is done with each item of the list that is found.\<close>

fun each_item :: "item_server \<Rightarrow> (trade_item \<Rightarrow> item_ref \<Rightarrow> store \<Rightarrow> store result) \<Rightarrow> trade_item list \<Rightarrow> store \<Rightarrow> store result" where
  "each_item env f [] st = Inr st"
| "each_item env f (x # xs) st =
     (case GetItemRef env (t_itemID x) st of
        (None, st) \<Rightarrow> each_item env f xs st
      | (Some ref, st) \<Rightarrow> ebind (f x ref st) (each_item env f xs))"

definition CancelTrade_items :: "item_server \<Rightarrow> trade_session \<Rightarrow> store \<Rightarrow> store result" where
  "CancelTrade_items env t = each_item env (\<lambda>x ref. Move env ref (stationID t) flagHangar True) (m_tradelist t)"

definition close_sessions :: "trade_session \<Rightarrow> unit deal" where
  "close_sessions t = alter (RemoveActiveSession (herID t) \<circ> RemoveActiveSession (myID t))"

definition Abort :: "trade_server \<Rightarrow> int32 \<Rightarrow> unit deal" where
  "Abort env c =
     dbind (session_of c) (\<lambda>(p, t).
     dbind (with_goods (CancelTrade_items (item_env env) t)) (\<lambda>_.
     dbind (tell_both (myID t) (herID t) (Trade_cancel (containerID t))) (\<lambda>_.
     dbind (close_sessions t) (\<lambda>_.
     dbind (delete_session p) (\<lambda>_.
     dbind (ClearTradeSession (myID t)) (\<lambda>_. ClearTradeSession (herID t)))))))"

text \<open>\<open>CancelTrade\<close> of the service takes the one who leaves for the first of the two, and \<open>herID\<close> for the other.\<close>

definition CancelTrade :: "trade_server \<Rightarrow> int32 \<Rightarrow> unit deal" where
  "CancelTrade env c =
     dbind (session_of c) (\<lambda>(p, t).
     dbind (with_goods (CancelTrade_items (item_env env) t)) (\<lambda>_.
     dbind (tell_both c (herID t) (Trade_cancel (containerID t))) (\<lambda>_.
     dbind (close_sessions t) (\<lambda>_.
     dbind (delete_session p) (\<lambda>_.
     dbind (ClearTradeSession c) (\<lambda>_. ClearTradeSession (herID t)))))))"

text \<open>The part of the end of a client, and of an undocking, that deals with trades.\<close>

definition trade_logout :: "trade_server \<Rightarrow> bool \<Rightarrow> int32 \<Rightarrow> unit deal" where
  "trade_logout env docked c s =
     dbind (if \<not> IsShutdown (item_env env) \<and> docked \<and> m_TS s c \<noteq> None then CancelTrade env c else dret ()) (\<lambda>_ s.
       dbind (case m_TS s c of None \<Rightarrow> dret () | Some p \<Rightarrow> delete_session p)
         (\<lambda>_. alter (\<lambda>s. s\<lparr>m_TS := (m_TS s)(c := None), money := (money s)\<lparr>online := (online (money s))(c := None)\<rparr>\<rparr>)) s) s"

definition trade_undock :: "trade_server \<Rightarrow> int32 \<Rightarrow> unit deal" where
  "trade_undock env c s = (if m_TS s c \<noteq> None then CancelTrade env c s else Inr (Inr (), s))"

fun change_owners :: "item_server \<Rightarrow> int32 \<Rightarrow> item_ref list \<Rightarrow> store \<Rightarrow> store result" where
  "change_owners env owner [] st = Inr st"
| "change_owners env owner (p # ps) st = ebind (ChangeOwner env p owner True st) (change_owners env owner ps)"

text \<open>A ship or container is looked up among those in space first, which are in the cache too.\<close>

definition TransferContainerContents :: "item_server \<Rightarrow> int32 \<Rightarrow> int32 \<Rightarrow> store \<Rightarrow> store result" where
  "TransferContainerContents env i owner st =
     (case GetItemRef env i st of
        (None, st) \<Rightarrow> Inl Null_deref
      | (Some p, st) \<Rightarrow>
          ebind (deref p st) (\<lambda>it.
            case pInventory it of
              None \<Rightarrow> Inl Null_deref
            | Some box \<Rightarrow> change_owners env owner (map snd (mContents box)) st))"

definition has_contents :: "item \<Rightarrow> bool" where
  "has_contents it \<longleftrightarrow> type_category (m_type it) = 6 \<or> type_group (m_type it) \<in> {448, 12, 649, 340}"

definition hand_over :: "item_server \<Rightarrow> trade_session \<Rightarrow> trade_item \<Rightarrow> item_ref \<Rightarrow> store \<Rightarrow> store result" where
  "hand_over env t x p st =
     (let owner = (if t_ownerID x = myID t then herID t else myID t)
      in ebind (ChangeOwner env p owner True st) (\<lambda>st.
         ebind (Move env p (stationID t) flagHangar True st) (\<lambda>st.
         ebind (deref p st) (\<lambda>it.
           if has_contents it then TransferContainerContents env (m_itemID it) owner st else Inr st))))"

abbreviation "PlayerTrading \<equiv> 1 :: int8"

definition ExchangeItems :: "trade_server \<Rightarrow> trade_session \<Rightarrow> unit deal" where
  "ExchangeItems env t =
     (let pay = (\<lambda>a b offered. with_money (TransferFunds (money_env env) a b offered PlayerTrading (GetStationID env (myID t)) Cash Cash 0))
      in dbind (pay (myID t) (herID t) (myMoney t)) (\<lambda>_.
         dbind (pay (herID t) (myID t) (herMoney t)) (\<lambda>_.
         dbind (with_goods (each_item (item_env env) (hand_over (item_env env) t) (m_tradelist t))) (\<lambda>_.
         tell_both (myID t) (herID t) (TradeComplete (containerID t))))))"

text \<open>The argument \<open>forceTrade\<close>, when it is given and not \<open>None\<close>.\<close>

definition forced :: "pyrep option \<Rightarrow> bool result" where
  "forced force =
     (case force of
        None \<Rightarrow> Inr False
      | Some PyNone \<Rightarrow> Inr False
      | Some (PyBool b) \<Rightarrow> Inr b
      | Some PyNull \<Rightarrow> Inl Null_deref
      | Some r \<Rightarrow> Inl Assert_fail)"

definition ToggleAccept :: "trade_server \<Rightarrow> int32 \<Rightarrow> bool \<Rightarrow> pyrep option \<Rightarrow> unit deal" where
  "ToggleAccept env c accept force =
     dbind (session_of c) (\<lambda>(p, t) s.
       if \<not> party c t then dret () s
       else
         let mine = (c = myID t);
             my = (if mine then accept else myState t); her = (if mine then herState t else accept);
             other = (if mine then herID t else myID t)
         in ebind (forced force) (\<lambda>f.
            let t = t\<lparr>myState := f \<or> my, herState := f \<or> her\<rparr>
            in dbind (alter (put_session p t)) (\<lambda>_.
               dbind (tell_both c other (StateToggle my her)) (\<lambda>_.
               if my \<and> her then
                 dbind (ExchangeItems env t) (\<lambda>_.
                 dbind (close_sessions t) (\<lambda>_.
                 dbind (ClearTradeSession c) (\<lambda>_. ClearTradeSession other)))
               else dret ())) s))"

section \<open>Runs\<close>

text \<open>The calls of the two sides; a call that raises an exception is answered with it, and the server goes on.\<close>

datatype trade_call = Offers int32 fval | Toggles int32 bool | Adds int32 int32 int32 int32 | Adds_all int32 "int32 list" int32

fun perform :: "trade_server \<Rightarrow> trade_call \<Rightarrow> unit deal" where
  "perform env (Offers c offered) = OfferMoney c offered"
| "perform env (Toggles c accept) = ToggleAccept env c accept None"
| "perform env (Adds c i flag qty) = Trade_Add env c i flag qty"
| "perform env (Adds_all c is flag) = Trade_MultiAdd env c is flag"

fun trade_run :: "trade_server \<Rightarrow> trade_call list \<Rightarrow> floor \<Rightarrow> floor result" where
  "trade_run env [] s = Inr s"
| "trade_run env (e # es) s = ebind (perform env e s) (\<lambda>(r, s). trade_run env es s)"

section \<open>Nothing changes hands before both accept\<close>

text \<open>Who owns the items in memory; loading others is assumed not to change that.\<close>

definition owners_kept :: "store \<Rightarrow> store \<Rightarrow> bool" where
  "owners_kept st st' \<longleftrightarrow> (\<forall>q it. heap st q = Some it \<longrightarrow> (\<exists>it'. heap st' q = Some it' \<and> i_owner it' = i_owner it))"

definition loads_quietly :: "item_server \<Rightarrow> bool" where
  "loads_quietly env \<longleftrightarrow> (\<forall>i st. owners_kept st (snd (load_item env i st)))"

lemma owners_kept_refl [simp]: "owners_kept st st"
  by (simp add: owners_kept_def)

lemma owners_kept_trans [trans]: "owners_kept a b \<Longrightarrow> owners_kept b c \<Longrightarrow> owners_kept a c"
  unfolding owners_kept_def by metis

lemma owners_heap: "heap st' = heap st \<Longrightarrow> owners_kept st st'"
  by (simp add: owners_kept_def)

lemma owners_modify: "(\<And>it. i_owner (f it) = i_owner it) \<Longrightarrow> modify p f st = Inr st' \<Longrightarrow> owners_kept st st'"
  by (auto simp: owners_kept_def modify_def deref_def put_item_def ebind_Inr_conv split: option.splits)

lemma owners_GetItemRef: "loads_quietly env \<Longrightarrow> GetItemRef env i st = (r, st') \<Longrightarrow> owners_kept st st'"
  by (auto simp: GetItemRef_def loads_quietly_def owners_kept_def split: option.splits if_splits prod.splits)
    (metis snd_conv)+

lemma heap_SendItemChange [simp]: "heap (SendItemChange env i o' cs st) = heap st"
  by (simp add: SendItemChange_def)

lemma heap_UpdateLocation [simp]: "heap (UpdateLocation i l f st) = heap st"
  by (simp add: UpdateLocation_def)

lemma owners_SetFlag: "SetFlag env p flag notify st = Inr st' \<Longrightarrow> owners_kept st st'"
  by (auto simp: SetFlag_def owners_kept_def deref_def put_item_def ebind_Inr_conv Let_def split: option.splits if_splits)

lemma owners_box: "modify c (\<lambda>self. self\<lparr>pInventory := b\<rparr>) st = Inr st' \<Longrightarrow> owners_kept st st'"
  by (rule owners_modify) simp_all

lemma owners_AddItem:
  assumes "AddItem env c p st = Inr st'"
  shows "owners_kept st st'"
proof -
  have "st' = st \<or> (\<exists>b a. modify c (\<lambda>self. self\<lparr>pInventory := b\<rparr>) st = Inr a \<and>
      (SetFlag env p flagStructureActive True a = Inr st' \<or> st' = a))"
    using assms by (auto simp: AddItem_def ebind_Inr_conv Let_def split: option.splits if_splits)
  then show ?thesis
    using owners_box owners_SetFlag owners_kept_trans by (metis owners_kept_refl)
qed

lemma owners_RemoveItem: "RemoveItem c p st = Inr st' \<Longrightarrow> owners_kept st st'"
  by (auto simp: RemoveItem_def ebind_Inr_conv Let_def split: option.splits dest: owners_box)

lemma owners_at_location:
  assumes "loads_quietly env" "\<And>c a b. f c p a = Inr b \<Longrightarrow> owners_kept a b" "at_location env f p st = Inr st'"
  shows "owners_kept st st'"
proof -
  have "st' = st \<or> (\<exists>i r a. GetItemRef env i st = (r, a) \<and> (st' = a \<or> (\<exists>c. f c p a = Inr st')))"
    using assms(3) by (auto simp: at_location_def ebind_Inr_conv split: if_splits prod.splits option.splits)
  then show ?thesis
    using assms(2) owners_GetItemRef [OF assms(1)] owners_kept_trans by (metis owners_kept_refl)
qed

lemma owners_replace:
  assumes "loads_quietly env" "\<And>it. i_owner (f it) = i_owner it" "replace env p moves f st = Inr st'"
  shows "owners_kept st st'"
proof -
  obtain a b where ab: "(if moves then at_location env RemoveItem p st else Inr st) = Inr a" "modify p f a = Inr b"
      "(if moves then at_location env (AddItem env) p b else Inr b) = Inr st'"
    using assms(3) unfolding replace_def ebind_Inr_conv by blast
  have "owners_kept st a" "owners_kept b st'"
    using ab(1,3) owners_at_location [OF assms(1) owners_RemoveItem] owners_at_location [OF assms(1) owners_AddItem]
    by (simp_all split: if_splits)
  moreover have "owners_kept a b"
    using owners_modify [OF assms(2) ab(2)] .
  ultimately show ?thesis
    using owners_kept_trans by blast
qed

lemma owners_Move:
  assumes "loads_quietly env" "Move env p loc flag notify st = Inr st'"
  shows "owners_kept st st'"
proof -
  define f :: "item \<Rightarrow> item" where "f = (\<lambda>it. it\<lparr>i_flag := flag, i_location := loc\<rparr>)"
  have f: "i_owner (f it) = i_owner it" for it
    by (simp add: f_def)
  consider "st' = st" | moves a where "replace env p moves f st = Inr a" "heap st' = heap a"
    using assms(2) unfolding Move_def f_def [symmetric] by (auto simp: ebind_Inr_conv Let_def split: if_splits)
  then show ?thesis
  proof cases
    case 2
    then show ?thesis
      using owners_kept_trans [OF owners_replace [OF assms(1) f] owners_heap] by blast
  qed simp
qed

text \<open>What a call leaves as it is, until something is exchanged.\<close>

definition kept :: "nat \<Rightarrow> floor \<Rightarrow> floor \<Rightarrow> bool" where
  "kept p s s' \<longleftrightarrow> money s' = money s \<and> m_TS s' = m_TS s \<and> owners_kept (goods s) (goods s') \<and>
     (\<forall>t. sessions s p = Some t \<longrightarrow> (\<exists>t'. sessions s' p = Some t' \<and> myID t' = myID t \<and> herID t' = herID t))"

lemma kept_refl [simp]: "kept p s s"
  by (simp add: kept_def)

lemma kept_trans [trans]: "kept p a b \<Longrightarrow> kept p b c \<Longrightarrow> kept p a c"
  unfolding kept_def using owners_kept_trans by metis

lemma kept_put: "sessions s p = Some t \<Longrightarrow> myID t' = myID t \<Longrightarrow> herID t' = herID t \<Longrightarrow> kept p s (put_session p t' s)"
  by (simp add: kept_def put_session_def)

lemma kept_tell: "tell c news s = Inr (r, s') \<Longrightarrow> kept p s s'" "tell c news s = Inr (r, s') \<Longrightarrow> sessions s' = sessions s"
  by (auto simp: tell_def kept_def split: if_splits)

lemma dbind_Inr_conv:
  "dbind m k s = Inr (r, s') \<longleftrightarrow>
     (\<exists>e. m s = Inr (Inl e, s') \<and> r = Inl e) \<or> (\<exists>x a. m s = Inr (Inr x, a) \<and> k x a = Inr (r, s'))"
  by (cases "m s") (auto simp: dbind_def split: sum.splits prod.splits)

lemma kept_tell_both:
  assumes "tell_both a b news s = Inr (r, s')"
  shows "kept p s s'" "sessions s' = sessions s"
proof -
  obtain x where x: "tell a news s = Inr (Inr (), x)" "tell b news x = Inr (r, s')"
    using assms by (auto simp: tell_both_def dbind_Inr_conv tell_def [of a] split: if_splits)
  show "kept p s s'"
    using kept_trans kept_tell(1) [OF x(1)] kept_tell(1) [OF x(2)] by blast
  show "sessions s' = sessions s"
    using kept_tell(2) [OF x(1)] kept_tell(2) [OF x(2)] by simp
qed

text \<open>The two sides with the session they share.\<close>

definition at_table :: "int32 \<Rightarrow> int32 \<Rightarrow> nat \<Rightarrow> floor \<Rightarrow> trade_session \<Rightarrow> bool" where
  "at_table my her p s t \<longleftrightarrow>
     sessions s p = Some t \<and> myID t = my \<and> herID t = her \<and> m_TS s my = Some p \<and> m_TS s her = Some p"

definition terms :: "trade_session \<Rightarrow> fval \<times> fval \<times> trade_item list" where
  "terms t = (myMoney t, herMoney t, m_tradelist t)"

definition accepted :: "int32 \<Rightarrow> trade_session \<Rightarrow> bool" where
  "accepted c t \<longleftrightarrow> (if c = myID t then myState t else herState t)"

fun caller :: "trade_call \<Rightarrow> int32" where
  "caller (Offers c _) = c"
| "caller (Toggles c _) = c"
| "caller (Adds c _ _ _) = c"
| "caller (Adds_all c _ _) = c"

text \<open>A call that exchanges nothing: who has accepted afterwards had accepted before, or does so now, on the same terms.\<close>

definition settled :: "trade_call \<Rightarrow> trade_session \<Rightarrow> trade_session \<Rightarrow> bool" where
  "settled e t t' \<longleftrightarrow> (\<forall>c. party c t' \<longrightarrow> accepted c t' \<longrightarrow> terms t' = terms t \<and> (accepted c t \<or> e = Toggles c True))"

lemma settled_same [simp]: "settled e t t"
  by (simp add: settled_def)

lemma settled_reset: "\<not> myState t' \<Longrightarrow> \<not> herState t' \<Longrightarrow> settled e t t'"
  by (simp add: settled_def accepted_def)

lemma at_table_session: "at_table my her p s t \<Longrightarrow> c = my \<or> c = her \<Longrightarrow> session_of c s = Inr (Inr (p, t), s) \<and> party c t"
  by (auto simp: at_table_def session_of_def party_def)

lemma kept_at_table: "at_table my her p s t \<Longrightarrow> kept p s s' \<Longrightarrow> \<exists>t'. at_table my her p s' t'"
  by (fastforce simp: at_table_def kept_def)

lemma OfferMoney_settles:
  assumes "at_table my her p s t" "c = my \<or> c = her" "OfferMoney c x s = Inr (r, s')"
  shows "kept p s s' \<and> (\<exists>t'. at_table my her p s' t' \<and> settled e t t')"
proof -
  define t1 where "t1 = no_states (if c = myID t then t\<lparr>myMoney := x\<rparr> else t\<lparr>herMoney := x\<rparr>)"
  have s: "sessions s p = Some t" "myID t1 = myID t" "herID t1 = herID t"
    using assms(1) by (auto simp: at_table_def t1_def)
  have run: "tell_both (myID t1) (herID t1) (MoneyOffer (containerID t1) (myMoney t1) (herMoney t1)) (put_session p t1 s) = Inr (r, s')"
    using assms(3) at_table_session [OF assms(1,2)] by (simp add: OfferMoney_def t1_def Let_def)
  have "kept p s s'"
    using kept_trans [OF kept_put [OF s] kept_tell_both(1) [OF run]] .
  moreover have "sessions s' p = Some t1"
    using kept_tell_both(2) [OF run] by (simp add: put_session_def)
  moreover have "settled e t t1"
    by (rule settled_reset) (simp_all add: t1_def)
  ultimately show ?thesis
    using assms(1) s by (auto simp: at_table_def kept_def)
qed

lemma put_up_keeps:
  assumes "loads_quietly (item_env env)" "put_up env p t x ref flag s = Inr (r, s')" "sessions s p = Some u"
  shows "kept p s s' \<and> (\<exists>y. r = Inr y)"
proof -
  define u1 where "u1 = u\<lparr>m_tradelist := m_tradelist u @ [x]\<rparr>"
  have s: "myID u1 = myID u" "herID u1 = herID u"
    by (simp_all add: u1_def)
  obtain st where st: "Move (item_env env) ref (containerID t) flag True (goods s) = Inr st"
      "tell_both (myID t) (herID t) (Item_added x) ((put_session p u1 s)\<lparr>goods := st\<rparr>) = Inr (r, s')"
    using assms(2,3) by (auto simp: put_up_def dbind_Inr_conv with_goods_def ebind_Inr_conv u1_def put_session_def)
  have "kept p (put_session p u1 s) ((put_session p u1 s)\<lparr>goods := st\<rparr>)"
    using owners_Move [OF assms(1) st(1)] by (simp add: kept_def put_session_def)
  then have "kept p s s'"
    using kept_trans [OF kept_put [OF assms(3) s]] kept_trans kept_tell_both(1) [OF st(2)] by blast
  moreover have "\<exists>y. r = Inr y"
    using st(2) by (auto simp: tell_both_def tell_def dbind_Inr_conv split: if_splits)
  ultimately show ?thesis
    by blast
qed

lemma find_item_keeps: "loads_quietly (item_env env) \<Longrightarrow> find_item env i s = Inr (r, s') \<Longrightarrow>
    kept p s s' \<and> sessions s' = sessions s \<and> (\<exists>y. r = Inr y)"
  using owners_GetItemRef by (auto simp: find_item_def kept_def ebind_Inr_conv split: prod.splits option.splits)

lemma add_loop_keeps:
  "loads_quietly (item_env env) \<Longrightarrow> add_loop env c p t flag is s = Inr (r, s') \<Longrightarrow> sessions s p = Some u \<Longrightarrow>
     kept p s s' \<and> (\<exists>y. r = Inr y)"
proof (induction "is" arbitrary: s u)
  case (Cons i "is")
  obtain found a where a: "find_item env i s = Inr (Inr found, a)"
      "(case found of None \<Rightarrow> add_loop env c p t flag is
        | Some (ref, it) \<Rightarrow> dbind (put_up env p t (listed c i flag (i_quantity it) it t) ref flag) (\<lambda>_. add_loop env c p t flag is)) a = Inr (r, s')"
    using Cons(3) find_item_keeps [OF Cons(2)] by (fastforce simp: dbind_Inr_conv)
  note f = find_item_keeps [OF Cons(2) a(1), of p]
  show ?case
  proof (cases found)
    case None
    then show ?thesis
      using Cons(1) [OF Cons(2), of a u] a(2) f Cons(4) kept_trans by auto
  next
    case (Some q)
    obtain ref it where q: "q = (ref, it)"
      by fastforce
    define x where "x = listed c i flag (i_quantity it) it t"
    have d: "dbind (put_up env p t x ref flag) (\<lambda>_. add_loop env c p t flag is) a = Inr (r, s')"
      using a(2) Some q by (simp add: x_def)
    have "\<exists>y. e = Inr y" if "put_up env p t x ref flag a = Inr (e, v)" for e v
      using put_up_keeps [OF Cons(2) that, of u] f Cons(4) by auto
    then obtain b where b: "put_up env p t x ref flag a = Inr (Inr (), b)" "add_loop env c p t flag is b = Inr (r, s')"
      using d unfolding dbind_Inr_conv by fastforce
    have k: "kept p a b"
      using put_up_keeps [OF Cons(2) b(1)] f Cons(4) by auto
    then obtain v where v: "sessions b p = Some v"
      using f Cons(4) unfolding kept_def by auto
    have "kept p s b"
      using kept_trans [OF _ k] f by simp
    then show ?thesis
      using Cons(1) [OF Cons(2) b(2) v] kept_trans by blast
  qed
qed simp

lemma reset_settles:
  assumes "at_table my her p s t" "kept p s a" "reset_states p a = Inr (r, s')"
  shows "kept p s s' \<and> (\<exists>t'. at_table my her p s' t' \<and> settled e t t')"
proof -
  obtain u where u: "sessions a p = Some u"
    using kept_at_table [OF assms(1,2)] by (auto simp: at_table_def)
  then have s': "s' = put_session p (no_states u) a"
    using assms(3) by (simp add: reset_states_def)
  have k: "kept p s s'"
    unfolding s' by (rule kept_trans [OF assms(2) kept_put [OF u]]) simp_all
  moreover obtain t' where t': "at_table my her p s' t'"
    using kept_at_table [OF assms(1) k] by blast
  moreover have "settled e t t'"
    by (rule settled_reset) (use t' s' in \<open>auto simp: at_table_def put_session_def\<close>)
  ultimately show ?thesis
    by blast
qed

lemma Trade_Add_settles:
  assumes "loads_quietly (item_env env)" "at_table my her p s t" "c = my \<or> c = her" "Trade_Add env c i flag qty s = Inr (r, s')"
  shows "kept p s s' \<and> (\<exists>t'. at_table my her p s' t' \<and> settled e t t')"
proof -
  obtain found a where a: "find_item env i s = Inr (Inr found, a)"
      "(case found of None \<Rightarrow> dret ()
        | Some (ref, it) \<Rightarrow> dbind (session_of c) (\<lambda>(p, t). if \<not> party c t then dret ()
            else dbind (put_up env p t (listed c i (i_flag it) qty it t) ref flag) (\<lambda>_. reset_states p))) a = Inr (r, s')"
    using assms(4) find_item_keeps [OF assms(1)] unfolding Trade_Add_def dbind_Inr_conv [of "find_item env i"] by fastforce
  have f: "kept p s a" "sessions a = sessions s"
    using find_item_keeps [OF assms(1) a(1), of p] by simp_all
  then have table: "at_table my her p a t"
    using assms(2) by (simp add: at_table_def kept_def)
  show ?thesis
  proof (cases found)
    case None
    then show ?thesis
      using a(2) f table by auto
  next
    case (Some q)
    obtain ref it where q: "q = (ref, it)"
      by fastforce
    define x where "x = listed c i (i_flag it) qty it t"
    have d: "dbind (put_up env p t x ref flag) (\<lambda>_. reset_states p) a = Inr (r, s')"
      using a(2) Some q at_table_session [OF table assms(3)] by (simp add: x_def)
    have t: "sessions a p = Some t"
      using table by (simp add: at_table_def)
    have "\<exists>y. e = Inr y" if "put_up env p t x ref flag a = Inr (e, v)" for e v
      using put_up_keeps [OF assms(1) that t] by blast
    then obtain b where b: "put_up env p t x ref flag a = Inr (Inr (), b)" "reset_states p b = Inr (r, s')"
      using d unfolding dbind_Inr_conv by fastforce
    have "kept p s b"
      using kept_trans [OF f(1)] put_up_keeps [OF assms(1) b(1) t] by blast
    then show ?thesis
      by (rule reset_settles [OF assms(2) _ b(2)])
  qed
qed

lemma Trade_MultiAdd_settles:
  assumes "loads_quietly (item_env env)" "at_table my her p s t" "c = my \<or> c = her" "Trade_MultiAdd env c is flag s = Inr (r, s')"
  shows "kept p s s' \<and> (\<exists>t'. at_table my her p s' t' \<and> settled e t t')"
proof -
  have d: "dbind (add_loop env c p t flag is) (\<lambda>_. reset_states p) s = Inr (r, s')"
    using assms(4) at_table_session [OF assms(2,3)] by (simp add: Trade_MultiAdd_def)
  have t: "sessions s p = Some t"
    using assms(2) by (simp add: at_table_def)
  have "\<exists>y. e = Inr y" if "add_loop env c p t flag is s = Inr (e, v)" for e v
    using add_loop_keeps [OF assms(1) that t] by blast
  then obtain b where b: "add_loop env c p t flag is s = Inr (Inr (), b)" "reset_states p b = Inr (r, s')"
    using d unfolding dbind_Inr_conv by fastforce
  show ?thesis
    using reset_settles [OF assms(2) _ b(2)] add_loop_keeps [OF assms(1) b(1) t] by blast
qed

text \<open>A toggle that does not make both accept.\<close>

lemma ToggleAccept_settles:
  assumes "at_table my her p s t" "my \<noteq> her" "c = my \<or> c = her" "ToggleAccept env c acc None s = Inr (r, s')"
    and "\<not> (acc \<and> accepted (if c = my then her else my) t)"
  shows "kept p s s' \<and> (\<exists>t'. at_table my her p s' t' \<and> settled (Toggles c acc) t t')"
proof -
  define t1 where "t1 = (if c = my then t\<lparr>myState := acc\<rparr> else t\<lparr>herState := acc\<rparr>)"
  have ids: "myID t = my" "herID t = her" "sessions s p = Some t"
    using assms(1) by (auto simp: at_table_def)
  have s: "sessions s p = Some t" "myID t1 = myID t" "herID t1 = herID t"
    using ids by (auto simp: t1_def)
  have "tell_both c (if c = my then her else my) (StateToggle (myState t1) (herState t1)) (put_session p t1 s) = Inr (r, s')"
    using assms(2,3,4,5) at_table_session [OF assms(1,3)] ids
    by (auto simp: ToggleAccept_def forced_def Let_def t1_def accepted_def dbind_Inr_conv tell_both_def tell_def split: if_splits)
  then have run: "kept p (put_session p t1 s) s'" "sessions s' = sessions (put_session p t1 s)"
    using kept_tell_both by blast+
  have "kept p s s'"
    using kept_trans [OF kept_put [OF s] run(1)] .
  moreover have "sessions s' p = Some t1"
    using run(2) by (simp add: put_session_def)
  moreover have "settled (Toggles c acc) t t1"
    using assms(2,3) ids by (auto simp: settled_def t1_def terms_def party_def accepted_def)
  ultimately show ?thesis
    using assms(1) s by (auto simp: at_table_def kept_def)
qed

lemma perform_settles:
  assumes "loads_quietly (item_env env)" "at_table my her p s t" "my \<noteq> her" "caller e = my \<or> caller e = her" "perform env e s = Inr (r, s')"
    and "\<not> (e = Toggles (caller e) True \<and> accepted (if caller e = my then her else my) t)"
  shows "kept p s s' \<and> (\<exists>t'. at_table my her p s' t' \<and> settled e t t')"
proof (cases e)
  case (Toggles c acc)
  then show ?thesis
    using ToggleAccept_settles [OF assms(2,3), of c env acc r s'] assms(4,5,6) by auto
qed (use assms OfferMoney_settles [OF assms(2)] Trade_Add_settles [OF assms(1,2)] Trade_MultiAdd_settles [OF assms(1,2)] in auto)

lemma trade_run_append: "trade_run env (xs @ ys) s = ebind (trade_run env xs s) (trade_run env ys)"
  by (induction xs arbitrary: s) (auto simp: ebind_def split: sum.splits prod.splits)

text \<open>Somebody accepted, and then it is still the same session on the same terms.\<close>

definition accepted_at :: "trade_server \<Rightarrow> int32 \<Rightarrow> int32 \<Rightarrow> nat \<Rightarrow> floor \<Rightarrow> trade_call list \<Rightarrow> int32 \<Rightarrow> trade_session \<Rightarrow> bool" where
  "accepted_at env my her p s es c t \<longleftrightarrow>
     (\<exists>us vs a ta. es = us @ Toggles c True # vs \<and> trade_run env us s = Inr a \<and> at_table my her p a ta \<and> terms ta = terms t)"

definition struck :: "trade_server \<Rightarrow> int32 \<Rightarrow> int32 \<Rightarrow> nat \<Rightarrow> floor \<Rightarrow> trade_call list \<Rightarrow> bool" where
  "struck env my her p s es \<longleftrightarrow>
     (\<exists>us vs c b t. es = us @ Toggles c True # vs \<and> (c = my \<or> c = her) \<and> trade_run env us s = Inr b \<and> at_table my her p b t \<and>
        accepted_at env my her p s us (if c = my then her else my) t)"

lemma accepted_at_later: "accepted_at env my her p s es c t \<Longrightarrow> terms t' = terms t \<Longrightarrow> accepted_at env my her p s (es @ fs) c t'"
  unfolding accepted_at_def by (metis append.assoc append_Cons)

lemma struck_later: "struck env my her p s es \<Longrightarrow> struck env my her p s (es @ fs)"
  unfolding struck_def by (metis append.assoc append_Cons)

lemma run_until_struck:
  assumes "loads_quietly (item_env env)" "at_table my her p s t" "\<not> myState t" "\<not> herState t" "my \<noteq> her"
  shows "\<forall>e \<in> set es. caller e = my \<or> caller e = her \<Longrightarrow> trade_run env es s = Inr s' \<Longrightarrow>
    struck env my her p s es \<or>
    kept p s s' \<and> (\<exists>t'. at_table my her p s' t' \<and> (\<forall>c. party c t' \<longrightarrow> accepted c t' \<longrightarrow> accepted_at env my her p s es c t'))"
proof (induction es arbitrary: s' rule: rev_induct)
  case Nil
  then show ?case
    using assms(2,3,4) by (auto simp: accepted_def)
next
  case (snoc e es)
  obtain b where b: "trade_run env es s = Inr b" "ebind (perform env e b) (\<lambda>(r, s). Inr s) = Inr s'"
    using snoc(3) by (auto simp: trade_run_append ebind_Inr_conv)
  show ?case
  proof (cases "struck env my her p s es")
    case True
    then show ?thesis
      using struck_later by blast
  next
    case False
    then obtain tb where tb: "kept p s b" "at_table my her p b tb" "\<forall>c. party c tb \<longrightarrow> accepted c tb \<longrightarrow> accepted_at env my her p s es c tb"
      using snoc(1) [OF _ b(1)] snoc(2) by auto
    have e: "caller e = my \<or> caller e = her"
      using snoc(2) by simp
    obtain r where r: "perform env e b = Inr (r, s')"
      using b(2) by (auto simp: ebind_Inr_conv)
    show ?thesis
    proof (cases "e = Toggles (caller e) True \<and> accepted (if caller e = my then her else my) tb")
      case True
      then have "accepted_at env my her p s es (if caller e = my then her else my) tb"
        using tb(2,3) by (auto simp: at_table_def party_def)
      then have "struck env my her p s (es @ [e])"
        unfolding struck_def using True e b(1) tb(2) by metis
      then show ?thesis
        by blast
    next
      case False
      obtain t' where t': "kept p b s'" "at_table my her p s' t'" "settled e tb t'"
        using perform_settles [OF assms(1) tb(2) assms(5) e r False] by blast
      have "accepted_at env my her p s (es @ [e]) c t'" if c: "party c t'" "accepted c t'" for c
      proof -
        have same: "terms t' = terms tb" "accepted c tb \<or> e = Toggles c True" "party c tb"
          using t'(2,3) tb(2) c by (auto simp: settled_def party_def at_table_def)
        show ?thesis
          using same(2)
        proof
          assume "accepted c tb"
          then show ?thesis
            using accepted_at_later [OF _ same(1)] tb(3) same(3) by blast
        next
          assume "e = Toggles c True"
          then show ?thesis
            unfolding accepted_at_def using b(1) tb(2) same(1) by metis
        qed
      qed
      then show ?thesis
        using kept_trans [OF tb(1) t'(1)] t'(2) by blast
    qed
  qed
qed

section \<open>Items come back\<close>

text \<open>A station in memory with its hangar, and an item that is on the table.\<close>

definition hangar :: "store \<Rightarrow> int32 \<Rightarrow> item_ref \<Rightarrow> bool" where
  "hangar st station c \<longleftrightarrow> IsStationID station \<and> m_items st station = Some c \<and> box_of st c \<noteq> None \<and>
     (\<exists>self. heap st c = Some self \<and> \<not> hub self)"

definition on_table :: "store \<Rightarrow> int32 \<Rightarrow> item_ref \<Rightarrow> item \<Rightarrow> bool" where
  "on_table st i p it \<longleftrightarrow> m_items st i = Some p \<and> heap st p = Some it \<and> IsTrading (i_location it) \<and> \<not> has_contents it"

definition delivered :: "item_ref \<Rightarrow> int32 \<Rightarrow> int32 \<Rightarrow> item_ref \<Rightarrow> item \<Rightarrow> store \<Rightarrow> bool" where
  "delivered c station owner p it st \<longleftrightarrow> holds_item st c p \<and>
     (\<exists>box. heap st p = Some (it\<lparr>i_owner := owner, i_flag := flagHangar, i_location := station, pInventory := box\<rparr>))"

text \<open>One item after the other.\<close>

definition one_delivered :: "item_ref \<Rightarrow> int32 \<Rightarrow> int32 \<Rightarrow> item_ref \<Rightarrow> item \<Rightarrow> store \<Rightarrow> store \<Rightarrow> bool" where
  "one_delivered c station owner p it st st' \<longleftrightarrow> contents_ok st' \<and> m_items st' = m_items st \<and> hangar st' station c \<and>
     delivered c station owner p it st' \<and> (\<forall>q. q \<noteq> p \<longrightarrow> bare st' q = bare st q) \<and>
     (\<forall>d q. q \<noteq> p \<longrightarrow> holds_item st' d q = holds_item st d q)"

lemma trading_place: "IsTrading loc \<Longrightarrow> \<not> IsValidLocationID loc"
  by (auto simp: IsTrading_def IsValidLocationID_def IsStationID_def IsSolarSystemID_def IsRegionID_def IsPlayerItem_def
      IsCharacterID_def word_le_nat_alt word_less_nat_alt)

lemma station_place: "IsStationID loc \<Longrightarrow> IsValidLocationID loc \<and> \<not> IsTrading loc \<and> \<not> IsCharacterID loc"
  by (auto simp: IsTrading_def IsValidLocationID_def IsStationID_def IsCharacterID_def word_le_nat_alt word_less_nat_alt)

lemma on_table_present: "contents_ok st \<Longrightarrow> on_table st i p it \<Longrightarrow> present st p it"
  using contents_ok_cached [of st i p] trading_place by (auto simp: on_table_def present_def resident_def)

lemma hangar_welcomes: "contents_ok st \<Longrightarrow> hangar st station c \<Longrightarrow> welcomes st station it"
  using contents_ok_cached [of st station c] station_place [of station]
  by (auto simp: hangar_def welcomes_def filed_def)

lemma on_table_bare: "on_table st i p it \<Longrightarrow> bare st' p = bare st p \<Longrightarrow> m_items st' = m_items st \<Longrightarrow>
    \<exists>box. on_table st' i p (it\<lparr>pInventory := box\<rparr>)"
  using bareD_at [of st' p st it] by (auto simp: on_table_def has_contents_def)

lemma Move_delivers:
  assumes "contents_ok st" "hangar st station c" "on_table st i p it"
  shows "\<exists>st'. Move env p station flagHangar True st = Inr st' \<and> one_delivered c station (i_owner it) p it st st'"
proof -
  let ?it = "it\<lparr>i_flag := flagHangar, i_location := station\<rparr>"
  have place: "\<not> same_place it station flagHangar"
    using assms(2,3) station_place [of station] by (auto simp: same_place_def on_table_def hangar_def)
  obtain st' where st': "Move env p station flagHangar True st = Inr st'" "placed p ?it st st'"
    using Move_places [OF on_table_present [OF assms(1,3)] place hangar_welcomes [OF assms(1,2)]] by blast
  then have new: "contents_ok st'" "m_items st' = m_items st" "\<forall>q. q \<noteq> p \<longrightarrow> bare st' q = bare st q" "holds_item st' c p"
      "\<forall>d q. q \<noteq> p \<longrightarrow> holds_item st' d q = holds_item st d q"
    using assms(2) station_place [of station] by (auto simp: placed_def receives_def hangar_def)
  obtain box where box: "heap st' p = Some (?it\<lparr>pInventory := box\<rparr>)"
    using st'(2) by (auto simp: placed_def)
  obtain self where self: "heap st c = Some self" "\<not> hub self"
    using assms(2) by (auto simp: hangar_def)
  have "\<exists>self. heap st' c = Some self \<and> \<not> hub self"
  proof (cases "c = p")
    case True
    then show ?thesis
      using self box assms(3) by (auto simp: on_table_def hub_def)
  next
    case False
    then show ?thesis
      using bareD_at [of st' c st self] new(3) self by (auto simp: hub_def)
  qed
  then have "hangar st' station c"
    using assms(2) new(2,4) by (auto simp: hangar_def holds_item_def)
  moreover have "?it\<lparr>pInventory := box\<rparr> = it\<lparr>i_owner := i_owner it, i_flag := flagHangar, i_location := station, pInventory := box\<rparr>"
    by simp
  ultimately show ?thesis
    using st'(1) new box unfolding one_delivered_def delivered_def by metis
qed

lemma hand_over_delivers:
  assumes "contents_ok st" "hangar st (stationID t) c" "on_table st (t_itemID x) p it"
  shows "\<exists>st'. hand_over env t x p st = Inr st' \<and>
    one_delivered c (stationID t) (if t_ownerID x = myID t then herID t else myID t) p it st st'"
proof -
  define owner where "owner = (if t_ownerID x = myID t then herID t else myID t)"
  let ?it = "it\<lparr>i_owner := owner\<rparr>"
  obtain a where a: "ChangeOwner env p owner True st = Inr a" "updated p ?it st a"
    using ChangeOwner_updates [OF on_table_present [OF assms(1,3)]] by blast
  have ok: "contents_ok a" "m_items a = m_items st" "heap a = (heap st)(p \<mapsto> ?it)" "holds_item a = holds_item st"
    using a(2) by (auto simp: updated_def present_def)
  have table: "on_table a (t_itemID x) p ?it"
    using assms(3) ok by (auto simp: on_table_def has_contents_def)
  have "box_of a c = box_of st c"
    using ok(3) assms(3) by (simp add: box_of_def on_table_def)
  moreover have "\<exists>self. heap a c = Some self \<and> \<not> hub self"
    using assms(2,3) ok(3) by (cases "c = p") (auto simp: hangar_def on_table_def hub_def)
  ultimately have hangar: "hangar a (stationID t) c"
    using assms(2) ok(2) by (simp add: hangar_def)
  obtain b where b: "Move env p (stationID t) flagHangar True a = Inr b" "one_delivered c (stationID t) owner p ?it a b"
    using Move_delivers [OF ok(1) hangar table, of env] by auto
  obtain box where box: "heap b p = Some (?it\<lparr>i_owner := owner, i_flag := flagHangar, i_location := stationID t, pInventory := box\<rparr>)"
    using b(2) by (auto simp: one_delivered_def delivered_def)
  have "hand_over env t x p st = Inr b"
    using a(1) b(1) box assms(3) by (simp add: hand_over_def owner_def [symmetric] deref_def has_contents_def on_table_def)
  moreover have "bare a q = bare st q" if "q \<noteq> p" for q
    using ok(3) that by (simp add: bare_def)
  ultimately show ?thesis
    using b(2) ok(2,4) unfolding one_delivered_def delivered_def owner_def by auto
qed

lemma each_item_delivers:
  assumes step: "\<And>x p it st. x \<in> set xs \<Longrightarrow> contents_ok st \<Longrightarrow> hangar st station c \<Longrightarrow> on_table st (t_itemID x) p it \<Longrightarrow>
      \<exists>st'. f x p st = Inr st' \<and> one_delivered c station (owner x it) p it st st'"
    and owner: "\<And>x it box. owner x (it\<lparr>pInventory := box\<rparr>) = owner x it"
  shows "contents_ok st \<Longrightarrow> hangar st station c \<Longrightarrow> distinct (map t_itemID xs) \<Longrightarrow> (\<And>x. x \<in> set xs \<Longrightarrow> \<exists>p it. on_table st (t_itemID x) p it) \<Longrightarrow>
    \<exists>st'. each_item env f xs st = Inr st' \<and> contents_ok st' \<and>
      (\<forall>x \<in> set xs. \<forall>p it. on_table st (t_itemID x) p it \<longrightarrow> delivered c station (owner x it) p it st') \<and>
      (\<forall>q. (\<forall>x \<in> set xs. m_items st (t_itemID x) \<noteq> Some q) \<longrightarrow> bare st' q = bare st q \<and> (\<forall>d. holds_item st' d q = holds_item st d q))"
  using step
proof (induction xs arbitrary: st)
  case (Cons x xs)
  obtain p it where p: "on_table st (t_itemID x) p it"
    using Cons(5) by fastforce
  obtain a where a: "f x p st = Inr a" "one_delivered c station (owner x it) p it st a"
    using Cons(6) [OF _ Cons(2,3) p] by auto
  have now: "contents_ok a" "hangar a station c" "m_items a = m_items st" "\<forall>q. q \<noteq> p \<longrightarrow> bare a q = bare st q"
      "\<forall>d q. q \<noteq> p \<longrightarrow> holds_item a d q = holds_item st d q" "delivered c station (owner x it) p it a"
    using a(2) by (auto simp: one_delivered_def)
  have other: "m_items st (t_itemID y) \<noteq> Some p" if y: "y \<in> set xs" for y
  proof
    assume "m_items st (t_itemID y) = Some p"
    then have "t_itemID y = t_itemID x"
      using p contents_ok_cached [OF Cons(2), of "t_itemID y" p] contents_ok_cached [OF Cons(2), of "t_itemID x" p]
      by (auto simp: on_table_def)
    then show False
      using y Cons(4) by (metis distinct.simps(2) image_eqI list.simps(9) set_map)
  qed
  have rest: "\<exists>box. on_table a (t_itemID y) q (i\<lparr>pInventory := box\<rparr>)" if "y \<in> set xs" "on_table st (t_itemID y) q i" for y q i
    using on_table_bare [OF that(2)] now(3,4) other [OF that(1)] that(2) by (auto simp: on_table_def)
  have there: "\<exists>q i. on_table a (t_itemID y) q i" if "y \<in> set xs" for y
    using rest [OF that] Cons(5) that by (meson list.set_intros(2))
  obtain b where b: "each_item env f xs a = Inr b" "contents_ok b"
      "\<forall>y \<in> set xs. \<forall>q i. on_table a (t_itemID y) q i \<longrightarrow> delivered c station (owner y i) q i b"
      "\<forall>q. (\<forall>y \<in> set xs. m_items a (t_itemID y) \<noteq> Some q) \<longrightarrow> bare b q = bare a q \<and> (\<forall>d. holds_item b d q = holds_item a d q)"
    using Cons(1) [OF now(1,2) _ there Cons(6)] Cons(4) by auto
  have first: "delivered c station (owner x it) p it b"
  proof -
    have keep: "bare b p = bare a p" "holds_item b c p = holds_item a c p"
      using b(4) other now(3) by auto
    obtain box where "heap a p = Some (it\<lparr>i_owner := owner x it, i_flag := flagHangar, i_location := station, pInventory := box\<rparr>)"
      using now(6) by (auto simp: delivered_def)
    then show ?thesis
      using bareD_at [OF keep(1)] keep(2) now(6) by (auto simp: delivered_def)
  qed
  have "delivered c station (owner y i) q i b" if y: "y \<in> set xs" "on_table st (t_itemID y) q i" for y q i
  proof -
    obtain box where "on_table a (t_itemID y) q (i\<lparr>pInventory := box\<rparr>)"
      using rest [OF y] by blast
    then have "delivered c station (owner y i) q (i\<lparr>pInventory := box\<rparr>) b"
      using b(3) y(1) owner by metis
    then show ?thesis
      by (simp add: delivered_def)
  qed
  moreover have "q = p \<and> i = it" if "on_table st (t_itemID x) q i" for q i
    using that p by (simp add: on_table_def)
  moreover have "each_item env f (x # xs) st = Inr b"
    using p a(1) b(1) by (simp add: GetItemRef_def on_table_def)
  moreover have "bare b q = bare st q \<and> (\<forall>d. holds_item b d q = holds_item st d q)"
    if "\<forall>y \<in> set (x # xs). m_items st (t_itemID y) \<noteq> Some q" for q
    using b(4) now(3,4,5) that p by (auto simp: on_table_def)
  ultimately show ?case
    using b(2) first by auto
qed simp

text \<open>The state of a trade whose items are all there.\<close>

definition tradable :: "floor \<Rightarrow> trade_session \<Rightarrow> item_ref \<Rightarrow> bool" where
  "tradable s t c \<longleftrightarrow> contents_ok (goods s) \<and> hangar (goods s) (stationID t) c \<and> distinct (map t_itemID (m_tradelist t)) \<and>
     (\<forall>x \<in> set (m_tradelist t). \<exists>p it. on_table (goods s) (t_itemID x) p it)"

definition new_owner :: "trade_session \<Rightarrow> trade_item \<Rightarrow> int32" where
  "new_owner t x = (if t_ownerID x = myID t then herID t else myID t)"

definition all_delivered :: "trade_session \<Rightarrow> item_ref \<Rightarrow> (trade_item \<Rightarrow> item \<Rightarrow> int32) \<Rightarrow> floor \<Rightarrow> floor \<Rightarrow> bool" where
  "all_delivered t c owner s s' \<longleftrightarrow> contents_ok (goods s') \<and>
     (\<forall>x \<in> set (m_tradelist t). \<forall>p it. on_table (goods s) (t_itemID x) p it \<longrightarrow>
        delivered c (stationID t) (owner x it) p it (goods s')) \<and>
     (\<forall>q. (\<forall>x \<in> set (m_tradelist t). m_items (goods s) (t_itemID x) \<noteq> Some q) \<longrightarrow>
        bare (goods s') q = bare (goods s) q \<and> (\<forall>d. holds_item (goods s') d q = holds_item (goods s) d q))"

lemma goods_handed_over:
  assumes "tradable s t c"
  shows "\<exists>st. each_item env (hand_over env t) (m_tradelist t) (goods s) = Inr st \<and>
    (\<forall>s'. goods s' = st \<longrightarrow> all_delivered t c (\<lambda>x _. new_owner t x) s s')"
proof -
  have step: "\<exists>st'. hand_over env t x p st = Inr st' \<and> one_delivered c (stationID t) (new_owner t x) p it st st'"
    if "contents_ok st" "hangar st (stationID t) c" "on_table st (t_itemID x) p it" for x p it st
    using hand_over_delivers [OF that] by (simp add: new_owner_def)
  show ?thesis
    using each_item_delivers [of "m_tradelist t" "stationID t" c "hand_over env t" "\<lambda>x _. new_owner t x" "goods s" env, OF step] assms
    unfolding tradable_def all_delivered_def by blast
qed

lemma goods_returned:
  assumes "tradable s t c"
  shows "\<exists>st. CancelTrade_items env t (goods s) = Inr st \<and> (\<forall>s'. goods s' = st \<longrightarrow> all_delivered t c (\<lambda>_ it. i_owner it) s s')"
proof -
  have step: "\<exists>st'. Move env p (stationID t) flagHangar True st = Inr st' \<and> one_delivered c (stationID t) (i_owner it) p it st st'"
    if "contents_ok st" "hangar st (stationID t) c" "on_table st (t_itemID x) p it" for x p it st
    using Move_delivers [OF that] by simp
  have "\<exists>st'. each_item env (\<lambda>x p. Move env p (stationID t) flagHangar True) (m_tradelist t) (goods s) = Inr st' \<and> contents_ok st' \<and>
      (\<forall>x \<in> set (m_tradelist t). \<forall>p it. on_table (goods s) (t_itemID x) p it \<longrightarrow> delivered c (stationID t) (i_owner it) p it st') \<and>
      (\<forall>q. (\<forall>x \<in> set (m_tradelist t). m_items (goods s) (t_itemID x) \<noteq> Some q) \<longrightarrow>
        bare st' q = bare (goods s) q \<and> (\<forall>d. holds_item st' d q = holds_item (goods s) d q))"
    by (rule each_item_delivers [where owner = "\<lambda>_ it. i_owner it"])
      (use assms step in \<open>auto simp: tradable_def\<close>)
  then show ?thesis
    unfolding all_delivered_def CancelTrade_items_def by blast
qed

lemma trading_untaxed: "tax_type PlayerTrading = None"
  by (simp add: tax_type_def)

lemma clients_shown: "displays (money s) bk \<Longrightarrow> is_client c s \<longleftrightarrow> c \<in> dom bk"
  by (auto simp: displays_def is_client_def)

lemma tell_both_clients: "is_client a s \<Longrightarrow> is_client b s \<Longrightarrow> tell_both a b news s = Inr (Inr (), s\<lparr>told := told s @ [(a, news), (b, news)]\<rparr>)"
  by (simp add: tell_both_def tell_def is_client_def)

text \<open>The two payments of an exchange, when both sides can pay.\<close>

definition affordable :: "trade_session \<Rightarrow> book \<Rightarrow> int \<Rightarrow> int \<Rightarrow> bool" where
  "affordable t bk a b \<longleftrightarrow>
     (\<exists>x y. bk (myID t) = Some x \<and> bk (herID t) = Some y \<and> 0 \<le> a \<and> a \<le> x \<and> y + a < 2 ^ 24 \<and> 0 \<le> b \<and> b \<le> y + a \<and> x - a + b < 2 ^ 24) \<and>
     myMoney t = of_whole a \<and> herMoney t = of_whole b \<and> myID t \<noteq> herID t \<and> IsCharacterID (myID t) \<and> IsCharacterID (herID t)"

definition traded_book :: "trade_session \<Rightarrow> book \<Rightarrow> int \<Rightarrow> int \<Rightarrow> book" where
  "traded_book t bk a b = bk(myID t \<mapsto> the (bk (myID t)) - a + b, herID t \<mapsto> the (bk (herID t)) + a - b)"

lemma ExchangeItems_exchanges:
  assumes "tradable s t c" "displays (money s) bk" "affordable t bk a b"
  shows "\<exists>s'. ExchangeItems env t s = Inr (Inr (), s') \<and> displays (money s') (traded_book t bk a b) \<and>
    all_delivered t c (\<lambda>x _. new_owner t x) s s' \<and> m_TS s' = m_TS s \<and> m_activeSessions s' = m_activeSessions s \<and> sessions s' = sessions s"
proof -
  obtain x y where xy: "bk (myID t) = Some x" "bk (herID t) = Some y" "0 \<le> a" "a \<le> x" "y + a < 2 ^ 24" "0 \<le> b" "b \<le> y + a" "x - a + b < 2 ^ 24"
    using assms(3) by (auto simp: affordable_def)
  have m: "myMoney t = of_whole a" "herMoney t = of_whole b" "myID t \<noteq> herID t" "IsCharacterID (myID t)" "IsCharacterID (herID t)"
    using assms(3) by (simp_all add: affordable_def)
  have small: "0 \<le> n \<and> n < 2 ^ 24" if "bk c = Some n" for c n
    using assms(2) that unfolding displays_def by blast
  define ref where "ref = GetStationID env (myID t)"
  define bk1 where "bk1 = (bk(myID t \<mapsto> x - a))(herID t \<mapsto> the ((bk(myID t \<mapsto> x - a)) (herID t)) + a)"
  obtain m1 where m1: "TransferFunds (money_env env) (myID t) (herID t) (of_whole a) PlayerTrading ref Cash Cash 0 (money s) = (Inr (), m1)"
      "displays m1 bk1"
    using whole_transfer(2) [OF assms(2) m(4,5) xy(1,2) trading_untaxed xy(3) _ xy(5) xy(4)] small [OF xy(1)] xy(4)
    unfolding bk1_def by fastforce
  have bk1: "bk1 (herID t) = Some (y + a)" "bk1 (myID t) = Some (x - a)"
    using xy(2) m(3) by (auto simp: bk1_def)
  define bk2 where "bk2 = (bk1(herID t \<mapsto> y + a - b))(myID t \<mapsto> the ((bk1(herID t \<mapsto> y + a - b)) (myID t)) + b)"
  obtain m2 where m2: "TransferFunds (money_env env) (herID t) (myID t) (of_whole b) PlayerTrading ref Cash Cash 0 m1 = (Inr (), m2)"
      "displays m2 bk2"
    using whole_transfer(2) [OF m1(2) m(5,4) bk1 trading_untaxed xy(6) _ _ xy(7)] xy(5,7,8) unfolding bk2_def by fastforce
  have book: "bk2 = traded_book t bk a b"
    using bk1 m(3) xy(1,2) by (auto simp: bk2_def bk1_def traded_book_def fun_eq_iff)
  define s2 where "s2 = s\<lparr>money := m2\<rparr>"
  have "tradable s2 t c"
    using assms(1) by (simp add: tradable_def s2_def)
  then obtain st where st: "each_item (item_env env) (hand_over (item_env env) t) (m_tradelist t) (goods s2) = Inr st"
      "\<forall>s'. goods s' = st \<longrightarrow> all_delivered t c (\<lambda>x _. new_owner t x) s2 s'"
    using goods_handed_over by blast
  define s3 where "s3 = s2\<lparr>goods := st\<rparr>"
  have "is_client (myID t) s3" "is_client (herID t) s3"
    using clients_shown [of s3 bk2] m2(2) book xy(1,2) by (auto simp: s3_def s2_def traded_book_def)
  then have "ExchangeItems env t s =
      Inr (Inr (), s3\<lparr>told := told s3 @ [(myID t, TradeComplete (containerID t)), (herID t, TradeComplete (containerID t))]\<rparr>)"
    using m1(1) m2(1) m(1,2) st(1)
    by (simp add: ExchangeItems_def with_money_def with_goods_def tell_both_clients ref_def [symmetric] Let_def s2_def s3_def)
  moreover have "all_delivered t c (\<lambda>x _. new_owner t x) s s'" if "goods s' = st" for s'
    using st(2) [rule_format, OF that] by (simp add: all_delivered_def s2_def)
  ultimately show ?thesis
    using m2(2) book by (simp add: s3_def s2_def)
qed

text \<open>The toggle that makes both accept.\<close>

lemma ToggleAccept_exchanges:
  assumes "at_table my her p s t" "d = my \<or> d = her" "accepted (if d = my then her else my) t"
    and "tradable s t c" "displays (money s) bk" "affordable t bk a b"
  shows "\<exists>s'. ToggleAccept env d True None s = Inr (Inr (), s') \<and> displays (money s') (traded_book t bk a b) \<and>
    all_delivered t c (\<lambda>x _. new_owner t x) s s' \<and> m_TS s' = (m_TS s)(my := None, her := None) \<and>
    m_activeSessions s' = (m_activeSessions s)(my := None, her := None)"
proof -
  let ?other = "if d = my then her else my"
  define t1 where "t1 = t\<lparr>myState := True, herState := True\<rparr>"
  have ids: "myID t = my" "herID t = her" "my \<noteq> her" "sessions s p = Some t"
    using assms(1,6) by (auto simp: at_table_def affordable_def)
  have clients: "is_client my x" "is_client her x" if "displays (money x) bk" for x
    using clients_shown [OF that] assms(6) ids(1,2) by (auto simp: affordable_def)
  define s1 where "s1 = (put_session p t1 s)\<lparr>told := told s @ [(d, StateToggle True True), (?other, StateToggle True True)]\<rparr>"
  have s1: "goods s1 = goods s" "money s1 = money s" "m_TS s1 = m_TS s" "m_activeSessions s1 = m_activeSessions s"
    by (simp_all add: s1_def put_session_def)
  have t1: "tradable s1 t1 c" "affordable t1 bk a b" "traded_book t1 bk a b = traded_book t bk a b" "new_owner t1 = new_owner t"
      "\<And>f s'. all_delivered t1 c f s1 s' = all_delivered t c f s s'"
    using assms(4,6) s1(1) by (auto simp: t1_def tradable_def affordable_def traded_book_def new_owner_def all_delivered_def fun_eq_iff)
  obtain s2 where s2: "ExchangeItems env t1 s1 = Inr (Inr (), s2)" "displays (money s2) (traded_book t bk a b)"
      "all_delivered t c (\<lambda>x _. new_owner t x) s s2" "m_TS s2 = m_TS s" "m_activeSessions s2 = m_activeSessions s"
    using ExchangeItems_exchanges [OF t1(1) _ t1(2), of env] assms(5) s1 t1(3-5) by auto
  have "dom (traded_book t bk a b) = dom bk"
    using assms(6) by (auto simp: traded_book_def affordable_def)
  then have still: "is_client my x" "is_client her x" if "money x = money s2" for x
    using clients_shown [OF s2(2)] assms(6) ids(1,2) that by (auto simp: affordable_def is_client_def)
  have flags: "(if d = my then True else myState t) \<and> (if d = my then herState t else True)" "party d t"
    using assms(2,3) ids by (auto simp: accepted_def party_def)
  have "is_client d (put_session p t1 s)" "is_client ?other (put_session p t1 s)"
    using clients assms(2,5) by (auto simp: put_session_def)
  then have told: "tell_both d ?other (StateToggle True True) (put_session p t1 s) = Inr (Inr (), s1)"
    by (simp add: tell_both_clients s1_def put_session_def)
  define s3 where "s3 = s2\<lparr>m_activeSessions := (m_activeSessions s2)(my := None, her := None)\<rparr>"
  have close: "close_sessions t1 s2 = Inr (Inr (), s3)"
    using ids by (simp add: close_sessions_def t1_def RemoveActiveSession_def s3_def)
  define s4 where "s4 = s3\<lparr>m_TS := (m_TS s3)(my := None, her := None)\<rparr>"
  have clear: "dbind (ClearTradeSession d) (\<lambda>_. ClearTradeSession ?other) s3 = Inr (Inr (), s4)"
    using still [of s3] assms(2) ids(3) by (auto simp: ClearTradeSession_def dbind_def is_client_def s3_def s4_def fun_upd_twist)
  have "ToggleAccept env d True None s = Inr (Inr (), s4)"
    using at_table_session [OF assms(1,2)] flags told s2(1) close clear ids(1,2)
    by (simp add: ToggleAccept_def forced_def Let_def t1_def [symmetric] split: if_splits)
  moreover have "all_delivered t c (\<lambda>x _. new_owner t x) s s4"
    using s2(3) by (simp add: all_delivered_def s4_def s3_def)
  ultimately show ?thesis
    using s2(2,4,5) by (simp add: s4_def s3_def)
qed

text \<open>An exchange in which the first side pays and the second cannot.\<close>

lemma exchange_fails:
  assumes "at_table my her p s t" "myState t" "my \<noteq> her" "IsCharacterID my" "IsCharacterID her" "displays (money s) bk"
    and "bk my = Some x" "bk her = Some y" "myMoney t = of_whole a" "herMoney t = of_whole b"
    and "0 \<le> a" "a \<le> x" "y + a < b" "b < 2 ^ 24" "x + b < 2 ^ 24"
  shows "\<exists>e s'. perform env (Toggles her True) s = Inr (Inl e, s') \<and> goods s' = goods s \<and>
    at_table my her p s' (t\<lparr>herState := True\<rparr>) \<and> displays (money s') (bk(my \<mapsto> x - a, her \<mapsto> y + a))"
proof -
  define t1 where "t1 = t\<lparr>herState := True\<rparr>"
  have same: "t\<lparr>myState := True, herState := True\<rparr> = t1"
    using assms(2) by (simp add: t1_def)
  have ids: "myID t1 = my" "herID t1 = her" "myMoney t1 = of_whole a" "herMoney t1 = of_whole b" "myID t = my" "herID t = her"
    using assms(1,9,10) by (auto simp: at_table_def t1_def)
  define s1 where "s1 = (put_session p t1 s)\<lparr>told := told s @ [(her, StateToggle True True), (my, StateToggle True True)]\<rparr>"
  have clients: "is_client my (put_session p t1 s)" "is_client her (put_session p t1 s)"
    using clients_shown [of "put_session p t1 s" bk] assms(6,7,8) by (auto simp: put_session_def)
  have small: "0 \<le> x" "0 \<le> y" "x < 2 ^ 24"
    using assms(6,7,8) unfolding displays_def by blast+
  have le: "a < 2 ^ 24" "y + a < 2 ^ 24"
    using assms(12-14) small by linarith+
  define ref where "ref = GetStationID env my"
  obtain m1 where m1: "TransferFunds (money_env env) my her (of_whole a) PlayerTrading ref Cash Cash 0 (money s) = (Inr (), m1)"
      "displays m1 ((bk(my \<mapsto> x - a))(her \<mapsto> the ((bk(my \<mapsto> x - a)) her) + a))"
    using whole_transfer(2) [OF assms(6,4,5,7,8) trading_untaxed assms(11) _ _ assms(12), of "money_env env" ref] le by blast
  have shown: "displays m1 (bk(my \<mapsto> x - a, her \<mapsto> y + a))"
    using m1(2) assms(3,8) by simp
  have pay: "\<exists>e. TransferFunds (money_env env) her my (of_whole b) PlayerTrading ref Cash Cash 0 m1 = (Inl e, m1)"
    using whole_transfer(1) [OF shown assms(5,4) _ _ trading_untaxed, of "y + a" "x - a" b "money_env env" ref] assms(3,11-15) small
    by (simp split: if_splits)
  then have "\<exists>e. ExchangeItems env t1 s1 = Inr (Inl e, s1\<lparr>money := m1\<rparr>)"
    using m1(1) ids by (auto simp: ExchangeItems_def with_money_def ref_def [symmetric] Let_def dbind_def s1_def put_session_def)
  then obtain e where e: "ExchangeItems env t1 s1 = Inr (Inl e, s1\<lparr>money := m1\<rparr>)"
    by blast
  have "tell_both her my (StateToggle True True) (put_session p t1 s) = Inr (Inr (), s1)"
    using clients by (simp add: tell_both_clients s1_def put_session_def)
  then have "ToggleAccept env her True None s = Inr (Inl e, s1\<lparr>money := m1\<rparr>)"
    using at_table_session [OF assms(1), of her] ids(5,6) assms(2,3) e same
    by (simp add: ToggleAccept_def forced_def Let_def)
  moreover have "at_table my her p (s1\<lparr>money := m1\<rparr>) t1"
    using assms(1) ids by (simp add: at_table_def s1_def put_session_def)
  ultimately show ?thesis
    using shown by (auto simp: s1_def put_session_def t1_def)
qed

section \<open>Main results\<close>

text \<open>Two players at a table in a station, one with a stack of items on it.\<close>

definition sample_session :: trade_session where
  "sample_session = \<lparr>containerID = 64000001, stationID = 60000004, myID = 90000001, herID = 90000002, myState = False,
     herState = True, myMoney = of_whole 0, herMoney = of_whole 5, fileTime = 0,
     m_tradelist = [\<lparr>t_itemID = 140000001, t_type = \<lparr>type_id = 34, type_group = 18, type_category = 4\<rparr>, t_ownerID = 90000001,
       t_locationID = 64000001, t_flagID = 0, t_quantity = 100, t_singleton = False\<rparr>]\<rparr>"

definition table_store :: store where
  "table_store = sample_store\<lparr>heap := (heap sample_store)(
     0 \<mapsto> holder 60000004 1529 30000142 \<lparr>mContents = [(140000002, 2), (140000003, 3)], m_contentsByFlag = [(4, 2), (4, 3)], mContentsLoaded = True\<rparr>,
     1 \<mapsto> (stack_of 140000001 100)\<lparr>i_location := 64000001, i_flag := 0\<rparr>)\<rparr>"

definition sample_floor :: "trade_session \<Rightarrow> floor" where
  "sample_floor t = \<lparr>goods = table_store, money = sample_bank\<lparr>online := [90000001 \<mapsto> isk 100, 90000002 \<mapsto> isk 5]\<rparr>,
     sessions = [0 \<mapsto> t], opened = 1, m_activeSessions = Map.empty, m_SessionID = 64000001,
     m_TS = [90000001 \<mapsto> 0, 90000002 \<mapsto> 0], told = []\<rparr>"

definition sample_traders :: trade_server where
  "sample_traders = \<lparr>item_env = sample_server, money_env = sample_accounts, GetStationID = (\<lambda>_. 60000004)\<rparr>"

lemmas table_defs = table_store_def sample_defs

lemma sample_at_table:
  "myID t = 90000001 \<Longrightarrow> herID t = 90000002 \<Longrightarrow> at_table 90000001 90000002 0 (sample_floor t) t"
  by (simp add: at_table_def sample_floor_def)

lemma sample_quiet: "loads_quietly (item_env sample_traders)"
  by (simp add: loads_quietly_def sample_traders_def sample_server_def)

lemma sample_tradable: "tradable (sample_floor sample_session) sample_session 0"
proof -
  have "contents_ok table_store"
  proof (rule contents_okI)
    show "box_ok (bare table_store) (m_items table_store) c box" if "box_of table_store c = Some box" for c box
      using that sample_place
      by (auto simp: box_of_def table_defs box_ok_def bare_def member_ok_def filed_def index_entry_def split: if_splits)
  qed (auto simp: table_defs split: if_splits)
  moreover have "hangar table_store 60000004 0"
    by (simp add: hangar_def IsStationID_def table_defs box_of_def hub_def)
  moreover have "on_table table_store 140000001 1 ((stack_of 140000001 100)\<lparr>i_location := 64000001, i_flag := 0\<rparr>)"
    by (simp add: on_table_def table_defs IsTrading_def has_contents_def)
  ultimately show ?thesis
    by (auto simp: tradable_def sample_floor_def sample_session_def)
qed

lemma sample_displays: "displays (money (sample_floor t)) [90000001 \<mapsto> 100, 90000002 \<mapsto> 5]"
  by (auto simp: displays_def isk_def sample_bank_def sample_floor_def split: if_splits)

lemma sample_affordable: "affordable sample_session [90000001 \<mapsto> 100, 90000002 \<mapsto> 5] 0 5"
  using sample_characters by (simp add: affordable_def sample_session_def)

definition table_item :: item where
  "table_item = (stack_of 140000001 100)\<lparr>i_location := 64000001, i_flag := 0\<rparr>"

lemma sample_delivered:
  assumes "all_delivered sample_session 0 owner (sample_floor sample_session) s'"
  shows "delivered 0 60000004 (owner (hd (m_tradelist sample_session)) table_item) 1 table_item (goods s')"
proof -
  have "on_table (goods (sample_floor sample_session)) 140000001 1 table_item"
    by (simp add: on_table_def sample_floor_def table_defs IsTrading_def has_contents_def table_item_def)
  moreover have "hd (m_tradelist sample_session) \<in> set (m_tradelist sample_session)"
      "t_itemID (hd (m_tradelist sample_session)) = 140000001" "stationID sample_session = 60000004"
    by (simp_all add: sample_session_def)
  ultimately show ?thesis
    using assms unfolding all_delivered_def by metis
qed

lemma sample_ids: "myID sample_session = 90000001" "herID sample_session = 90000002"
  by (simp_all add: sample_session_def)

text \<open>C12. Nothing changes hands without the consent of both: whatever the two sides of a trade offer, put up and toggle,
  in any order, all wallets and the owners of all items are as they were, until one accepts while the other has accepted
  the same session before, on the very same sums and items. Toggles that force the trade are left out.\<close>

theorem exchange_needs_consent:
  assumes "loads_quietly (item_env env)" "at_table my her p s t" "\<not> myState t" "\<not> herState t" "my \<noteq> her"
    and "\<forall>e \<in> set es. caller e = my \<or> caller e = her" "trade_run env es s = Inr s'"
  shows "money s' = money s \<and> owners_kept (goods s) (goods s') \<or>
    (\<exists>us vs ws c d a b ta tb. es = us @ Toggles d True # vs @ Toggles c True # ws \<and> {c, d} = {my, her} \<and>
       trade_run env us s = Inr a \<and> trade_run env (us @ Toggles d True # vs) s = Inr b \<and>
       at_table my her p a ta \<and> at_table my her p b tb \<and> terms ta = terms tb)"
proof (cases "struck env my her p s es")
  case True
  then obtain us ws c b tb where c: "es = us @ Toggles c True # ws" "c = my \<or> c = her" "trade_run env us s = Inr b" "at_table my her p b tb"
      "accepted_at env my her p s us (if c = my then her else my) tb"
    unfolding struck_def by blast
  then obtain us' vs a ta where "us = us' @ Toggles (if c = my then her else my) True # vs" "trade_run env us' s = Inr a"
      "at_table my her p a ta" "terms ta = terms tb"
    unfolding accepted_at_def by blast
  then show ?thesis
    using c(1-4) assms(5)
    by (intro disjI2 exI [of _ us'] exI [of _ vs] exI [of _ ws] exI [of _ c] exI [of _ "if c = my then her else my"]
        exI [of _ a] exI [of _ b] exI [of _ ta] exI [of _ tb]) auto
next
  case False
  then show ?thesis
    using run_until_struck [OF assms] by (auto simp: kept_def)
qed

theorem exchange_needs_consent_witness:
  "\<exists>s'. trade_run sample_traders [Offers 90000001 (of_whole 7), Toggles 90000001 True] (sample_floor (no_states sample_session)) = Inr s' \<and>
     money s' = money (sample_floor (no_states sample_session))"
proof -
  let ?s = "sample_floor (no_states sample_session)" and ?es = "[Offers 90000001 (of_whole 7), Toggles 90000001 True]"
  have "is_client 90000001 s" "is_client 90000002 s" if "money s = money ?s" for s
    using that by (simp_all add: is_client_def sample_floor_def)
  then have "\<exists>s'. trade_run sample_traders ?es ?s = Inr s'"
    by (simp add: OfferMoney_def ToggleAccept_def session_of_def sample_floor_def sample_session_def party_def put_session_def
        tell_both_clients forced_def Let_def)
  then obtain s' where s': "trade_run sample_traders ?es ?s = Inr s'"
    by blast
  show ?thesis
    using exchange_needs_consent [OF sample_quiet sample_at_table [of "no_states sample_session"] _ _ _ _ s'] s'
    by (auto simp: sample_session_def append_eq_Cons_conv Cons_eq_append_conv)
qed

text \<open>C13. The exchange of a trade: when both sides are online and have the session, both accept (the one by this toggle),
  the one that opened the session can pay its sum and the other then its own, every item on the table ends in the hangar
  of the station and belongs to the side that did not put it up, all other items are as they were, the wallets show the
  account book with both sums moved, and neither side has a session any more, while the pointers and entries of all
  other clients are as they were. Provided that all wallets and both sums are whole amounts that a \<open>float\<close> holds and
  not negative, before and after, the sides are two different characters, the station is in memory and has its contents
  there, no item is on the table twice (\<open>Add\<close> does not check that), every item is in memory and in a trade container,
  and none is a ship or a container, not even an empty one.\<close>

theorem trade_completes:
  assumes "at_table my her p s t" "d = my \<or> d = her" "accepted (if d = my then her else my) t" "tradable s t c"
    and "displays (money s) bk" "affordable t bk a b"
  shows "\<exists>s'. perform env (Toggles d True) s = Inr (Inr (), s') \<and> displays (money s') (traded_book t bk a b) \<and>
    all_delivered t c (\<lambda>x _. new_owner t x) s s' \<and> m_TS s' = (m_TS s)(my := None, her := None) \<and>
    m_activeSessions s' = (m_activeSessions s)(my := None, her := None)"
  using ToggleAccept_exchanges [OF assms, of env] by simp

theorem trade_completes_witness:
  "\<exists>s'. perform sample_traders (Toggles 90000001 True) (sample_floor sample_session) = Inr (Inr (), s') \<and>
     displays (money s') [90000001 \<mapsto> 105, 90000002 \<mapsto> 0] \<and> map_option i_owner (heap (goods s') 1) = Some 90000002"
proof -
  have book: "traded_book sample_session [90000001 \<mapsto> 100, 90000002 \<mapsto> 5] 0 5 = [90000001 \<mapsto> 105, 90000002 \<mapsto> 0]"
    by (auto simp: traded_book_def sample_session_def fun_eq_iff)
  have acc: "accepted (if (90000001 :: int32) = 90000001 then 90000002 else 90000001) sample_session"
    by (simp add: accepted_def sample_session_def)
  obtain s' where s': "perform sample_traders (Toggles 90000001 True) (sample_floor sample_session) = Inr (Inr (), s')"
      "displays (money s') [90000001 \<mapsto> 105, 90000002 \<mapsto> 0]"
      "all_delivered sample_session 0 (\<lambda>x _. new_owner sample_session x) (sample_floor sample_session) s'"
    using trade_completes [OF sample_at_table [OF sample_ids] _ acc sample_tradable sample_displays sample_affordable, of sample_traders]
    unfolding book by blast
  have "delivered 0 60000004 90000002 1 table_item (goods s')"
    using sample_delivered [OF s'(3)] by (simp add: sample_session_def new_owner_def)
  then show ?thesis
    using s'(1,2) by (auto simp: delivered_def)
qed

text \<open>C14. Aborting a trade gives everything back: when a side aborts and both are online and have the session, the call succeeds, every item on
  the table lies in the hangar of the station and belongs to whom it belonged, all other items and all wallets are as
  they were, the session is deleted, and neither side points to it any more. Provided that the station is in memory and
  has its contents there, no item is on the table twice (\<open>Add\<close> does not check that), every item is in memory and
  in a trade container, and none is a ship or a container, not even an empty one. The pointers of other clients stay:
  one that has bound itself to the session is left with a deleted one (\<open>third_client_left_dangling\<close>).\<close>

theorem abort_gives_back:
  assumes "at_table my her p s t" "d = my \<or> d = her" "tradable s t c" "is_client my s" "is_client her s"
  shows "\<exists>s'. Abort env d s = Inr (Inr (), s') \<and> all_delivered t c (\<lambda>_ it. i_owner it) s s' \<and> money s' = money s \<and>
    sessions s' = (sessions s)(p := None) \<and> m_TS s' = (m_TS s)(my := None, her := None) \<and>
    m_activeSessions s' = (m_activeSessions s)(my := None, her := None)"
proof -
  obtain st where st: "CancelTrade_items (item_env env) t (goods s) = Inr st"
      "\<forall>s'. goods s' = st \<longrightarrow> all_delivered t c (\<lambda>_ it. i_owner it) s s'"
    using goods_returned [OF assms(3)] by blast
  have ids: "myID t = my" "herID t = her" "sessions s p = Some t"
    using assms(1) by (auto simp: at_table_def)
  have "\<exists>s'. Abort env d s = Inr (Inr (), s') \<and> goods s' = st \<and> money s' = money s \<and> sessions s' = (sessions s)(p := None) \<and>
      m_TS s' = (m_TS s)(my := None, her := None) \<and> m_activeSessions s' = (m_activeSessions s)(my := None, her := None)"
    using st(1) ids assms(4,5) at_table_session [OF assms(1,2)]
    by (simp add: Abort_def with_goods_def tell_both_clients close_sessions_def RemoveActiveSession_def delete_session_def
        ClearTradeSession_def is_client_def)
  then show ?thesis
    using st(2) by fastforce
qed

theorem abort_gives_back_witness:
  "\<exists>s'. Abort sample_traders 90000002 (sample_floor sample_session) = Inr (Inr (), s') \<and>
     map_option i_owner (heap (goods s') 1) = Some 90000001 \<and> map_option i_location (heap (goods s') 1) = Some 60000004"
proof -
  have clients: "is_client 90000001 (sample_floor sample_session)" "is_client 90000002 (sample_floor sample_session)"
    by (simp_all add: is_client_def sample_floor_def)
  obtain s' where s': "Abort sample_traders 90000002 (sample_floor sample_session) = Inr (Inr (), s')"
      "all_delivered sample_session 0 (\<lambda>_ it. i_owner it) (sample_floor sample_session) s'"
    using abort_gives_back [OF sample_at_table [OF sample_ids] _ sample_tradable clients, of 90000002 sample_traders] by blast
  have "delivered 0 60000004 90000001 1 table_item (goods s')"
    using sample_delivered [OF s'(2)] by (simp add: table_item_def stack_of_def)
  then show ?thesis
    using s'(1) by (auto simp: delivered_def)
qed

text \<open>The service does not check who asks for a session: a third client that binds with the id of a side is given the session
  of that side, keeps it when the sides abort, and the next thing that it does with the trade uses the deleted session.\<close>

theorem third_client_left_dangling:
  assumes "at_table my her p s t" "tradable s t c" "is_client my s" "is_client her s"
    and "m_activeSessions s my = Some as" "ourTS as = p" "third \<noteq> my" "third \<noteq> her" "b_myID a = my"
  shows "\<exists>s1 s2. trade_bind third (Some a) s = Inr (Inr True, s1) \<and> Abort env my s1 = Inr (Inr (), s2) \<and>
    OfferMoney third x s2 = Inl Undefined_behaviour \<and> Abort env third s2 = Inl Undefined_behaviour"
proof -
  let ?s1 = "s\<lparr>m_TS := (m_TS s)(third \<mapsto> p)\<rparr>"
  obtain st where st: "CancelTrade_items (item_env env) t (goods s) = Inr st"
    using goods_returned [OF assms(2)] by blast
  have ids: "myID t = my" "herID t = her" "sessions s p = Some t"
    using assms(1) by (auto simp: at_table_def)
  have bound: "trade_bind third (Some a) s = Inr (Inr True, ?s1)"
    using assms(5,6,9) by (simp add: trade_bind_def)
  have "session_of my ?s1 = Inr (Inr (p, t), ?s1)"
    using assms(1,7) by (auto simp: session_of_def at_table_def)
  then have "\<exists>s2. Abort env my ?s1 = Inr (Inr (), s2) \<and> sessions s2 p = None \<and> m_TS s2 third = Some p"
    using st ids assms(3,4,7,8)
    by (simp add: Abort_def with_goods_def tell_both_clients close_sessions_def RemoveActiveSession_def delete_session_def
        ClearTradeSession_def is_client_def)
  then obtain s2 where s2: "Abort env my ?s1 = Inr (Inr (), s2)" "sessions s2 p = None" "m_TS s2 third = Some p"
    by blast
  then have "session_of third s2 = Inl Undefined_behaviour"
    by (simp add: session_of_def)
  then show ?thesis
    using bound s2(1) by (auto simp: OfferMoney_def Abort_def)
qed

text \<open>C15. One side alone can force the exchange: a toggle with \<open>forceTrade\<close> that does not even accept stores the consent of
  both, and the next toggle of the same side exchanges money and items, although the other side never accepted.\<close>

theorem forced_trade_without_consent:
  assumes "at_table my her p s t" "\<not> myState t" "\<not> herState t" "tradable s t c" "displays (money s) bk" "affordable t bk a b"
  shows "\<exists>s1 s2. ToggleAccept env my False (Some (PyBool True)) s = Inr (Inr (), s1) \<and>
    ToggleAccept env my True None s1 = Inr (Inr (), s2) \<and> displays (money s2) (traded_book t bk a b) \<and>
    all_delivered t c (\<lambda>x _. new_owner t x) s s2"
proof -
  define t1 where "t1 = t\<lparr>myState := True, herState := True\<rparr>"
  define s1 where "s1 = (put_session p t1 s)\<lparr>told := told s @ [(my, StateToggle False False), (her, StateToggle False False)]\<rparr>"
  have ids: "myID t = my" "herID t = her" "my \<noteq> her" "sessions s p = Some t"
    using assms(1,6) by (auto simp: at_table_def affordable_def)
  have "is_client my x" "is_client her x" if "money x = money s" for x
    using clients_shown [OF assms(5)] assms(6) ids(1,2) that by (auto simp: affordable_def is_client_def)
  then have "ToggleAccept env my False (Some (PyBool True)) s = Inr (Inr (), s1)"
    using at_table_session [OF assms(1)] ids assms(3)
    by (simp add: ToggleAccept_def forced_def Let_def s1_def t1_def tell_both_clients put_session_def)
  moreover have "at_table my her p s1 t1"
    using assms(1) by (simp add: at_table_def s1_def t1_def put_session_def)
  moreover have "accepted (if my = my then her else my) t1" "tradable s1 t1 c" "displays (money s1) bk" "affordable t1 bk a b"
    using assms(4,5,6) ids by (auto simp: accepted_def t1_def s1_def put_session_def tradable_def affordable_def)
  ultimately obtain s2 where s2: "ToggleAccept env my False (Some (PyBool True)) s = Inr (Inr (), s1)"
      "ToggleAccept env my True None s1 = Inr (Inr (), s2)" "displays (money s2) (traded_book t1 bk a b)"
      "all_delivered t1 c (\<lambda>x _. new_owner t1 x) s1 s2"
    using ToggleAccept_exchanges [of my her p s1 t1 my c bk a b env] by blast
  moreover have "traded_book t1 = traded_book t" "all_delivered t1 c (\<lambda>x _. new_owner t1 x) s1 s2 = all_delivered t c (\<lambda>x _. new_owner t x) s s2"
    by (simp_all add: traded_book_def all_delivered_def new_owner_def t1_def s1_def put_session_def fun_eq_iff)
  ultimately show ?thesis
    by auto
qed

theorem forced_trade_without_consent_witness:
  "\<exists>s1 s2. ToggleAccept sample_traders 90000001 False (Some (PyBool True)) (sample_floor (no_states sample_session)) = Inr (Inr (), s1) \<and>
     ToggleAccept sample_traders 90000001 True None s1 = Inr (Inr (), s2) \<and> displays (money s2) [90000001 \<mapsto> 105, 90000002 \<mapsto> 0]"
proof -
  let ?t = "no_states sample_session"
  have ids: "myID ?t = 90000001" "herID ?t = 90000002" "\<not> myState ?t" "\<not> herState ?t"
    by (simp_all add: sample_session_def)
  have "tradable (sample_floor ?t) ?t 0"
    using sample_tradable by (simp add: tradable_def sample_floor_def)
  moreover have "affordable ?t [90000001 \<mapsto> 100, 90000002 \<mapsto> 5] 0 5"
    using sample_affordable by (simp add: affordable_def)
  moreover have "traded_book ?t [90000001 \<mapsto> 100, 90000002 \<mapsto> 5] 0 5 = [90000001 \<mapsto> 105, 90000002 \<mapsto> 0]"
    by (auto simp: traded_book_def sample_session_def fun_eq_iff)
  ultimately show ?thesis
    using forced_trade_without_consent [OF sample_at_table [OF ids(1,2)] ids(3,4) _ sample_displays, of 0 0 5 sample_traders] by metis
qed

text \<open>C16. When the other side cannot pay, an exchange stops half way, keeps its session and both acceptances, and can be
  repeated: after one has accepted, the other can toggle \<open>n\<close> times and is paid the sum on the table \<open>n\<close> times, and no
  item changes hands.\<close>

theorem failed_trade_pays_again:
  assumes "at_table my her p s t" "myState t" "my \<noteq> her" "IsCharacterID my" "IsCharacterID her" "displays (money s) bk"
    and "bk my = Some x" "bk her = Some y" "myMoney t = of_whole a" "herMoney t = of_whole b" "0 \<le> a"
    and "int n * a \<le> x" "y + int n * a < b" "b < 2 ^ 24" "x + b < 2 ^ 24"
  shows "\<exists>s'. trade_run env (replicate n (Toggles her True)) s = Inr s' \<and> goods s' = goods s \<and>
    displays (money s') (bk(my \<mapsto> x - int n * a, her \<mapsto> y + int n * a))"
  using assms
proof (induction n arbitrary: s t bk x y)
  case 0
  then show ?case
    by (simp add: fun_upd_idem)
next
  case (Suc n)
  have small: "0 \<le> x" "0 \<le> y" "0 \<le> int n * a" "int (Suc n) * a = a + int n * a"
    using Suc.prems(6,7,8,11) unfolding displays_def by (blast, blast, simp, simp add: algebra_simps)
  obtain s1 e where s1: "perform env (Toggles her True) s = Inr (Inl e, s1)" "goods s1 = goods s" "at_table my her p s1 (t\<lparr>herState := True\<rparr>)"
      "displays (money s1) (bk(my \<mapsto> x - a, her \<mapsto> y + a))"
    using exchange_fails [OF Suc.prems(1-10), of env] Suc.prems(11-15) small by auto
  have "\<exists>s'. trade_run env (replicate n (Toggles her True)) s1 = Inr s' \<and> goods s' = goods s1 \<and>
      displays (money s') ((bk(my \<mapsto> x - a, her \<mapsto> y + a))(my \<mapsto> x - a - int n * a, her \<mapsto> y + a + int n * a))"
    by (rule Suc.IH [OF s1(3) _ _ _ _ s1(4)]) (use Suc.prems small in auto)
  then obtain s' where s': "trade_run env (replicate n (Toggles her True)) s1 = Inr s'" "goods s' = goods s"
      "displays (money s') ((bk(my \<mapsto> x - a, her \<mapsto> y + a))(my \<mapsto> x - a - int n * a, her \<mapsto> y + a + int n * a))"
    using s1(2) by auto
  have "(bk(my \<mapsto> x - a, her \<mapsto> y + a))(my \<mapsto> x - a - int n * a, her \<mapsto> y + a + int n * a) =
      bk(my \<mapsto> x - int (Suc n) * a, her \<mapsto> y + int (Suc n) * a)"
    using Suc.prems(3) by (auto simp: fun_eq_iff algebra_simps)
  then have "displays (money s') (bk(my \<mapsto> x - int (Suc n) * a, her \<mapsto> y + int (Suc n) * a))"
    using s'(3) by metis
  moreover have "trade_run env (replicate (Suc n) (Toggles her True)) s = Inr s'"
    using s1(1) s'(1) by simp
  ultimately show ?case
    using s'(2) by blast
qed

theorem failed_trade_pays_again_witness:
  "\<exists>s'. trade_run sample_traders (replicate 9 (Toggles 90000002 True))
       (sample_floor (sample_session\<lparr>myState := True, myMoney := of_whole 10, herMoney := of_whole 1000\<rparr>)) = Inr s' \<and>
     displays (money s') [90000001 \<mapsto> 10, 90000002 \<mapsto> 95]"
proof -
  let ?t = "sample_session\<lparr>myState := True, myMoney := of_whole 10, herMoney := of_whole 1000\<rparr>"
  have t: "myID ?t = 90000001" "herID ?t = 90000002" "myState ?t" "myMoney ?t = of_whole 10" "herMoney ?t = of_whole 1000"
    by (simp_all add: sample_session_def)
  show ?thesis
    using failed_trade_pays_again [OF sample_at_table [OF t(1,2)] t(3) _ sample_characters(1,2) sample_displays _ _ t(4,5),
      of 100 5 9 sample_traders] by (auto simp: fun_upd_twist)
qed

text \<open>C17. Who leaves second leaves a trap: when the player whom the session calls \<open>her\<close> logs out of the station, the session is
  deleted but the other client keeps its pointer, and the next thing that client does with the trade uses a deleted object.\<close>

theorem logout_leaves_dangling_session:
  assumes "at_table my her p s t" "my \<noteq> her" "tradable s t c" "is_client her s" "\<not> IsShutdown (item_env env)"
  shows "\<exists>s'. trade_logout env True her s = Inr (Inr (), s') \<and> OfferMoney my x s' = Inl Undefined_behaviour \<and>
    ToggleAccept env my y force s' = Inl Undefined_behaviour \<and> Abort env my s' = Inl Undefined_behaviour"
proof -
  obtain st where st: "CancelTrade_items (item_env env) t (goods s) = Inr st"
    using goods_returned [OF assms(3)] by blast
  have ids: "myID t = my" "herID t = her" "sessions s p = Some t" "m_TS s my = Some p" "m_TS s her = Some p"
    using assms(1) by (auto simp: at_table_def)
  have cancel: "\<exists>s'. CancelTrade env her s = Inr (Inr (), s') \<and> sessions s' p = None \<and> m_TS s' my = Some p \<and> m_TS s' her = None"
    using st ids assms(2,4) at_table_session [OF assms(1), of her]
    by (simp add: CancelTrade_def with_goods_def tell_both_clients close_sessions_def RemoveActiveSession_def delete_session_def
        ClearTradeSession_def is_client_def)
  then have "\<exists>s'. trade_logout env True her s = Inr (Inr (), s') \<and> sessions s' p = None \<and> m_TS s' my = Some p"
    using ids(5) assms(2,5) by (auto simp: trade_logout_def)
  then obtain s' where s': "trade_logout env True her s = Inr (Inr (), s')" "sessions s' p = None" "m_TS s' my = Some p"
    by blast
  then have "session_of my s' = Inl Undefined_behaviour"
    by (simp add: session_of_def)
  then show ?thesis
    using s'(1) by (auto simp: OfferMoney_def ToggleAccept_def Abort_def)
qed

theorem logout_leaves_dangling_session_witness:
  "\<exists>s'. trade_logout sample_traders True 90000002 (sample_floor sample_session) = Inr (Inr (), s') \<and>
     OfferMoney 90000001 (of_whole 1) s' = Inl Undefined_behaviour"
proof -
  have ids: "myID sample_session = 90000001" "herID sample_session = 90000002"
    by (simp_all add: sample_session_def)
  have "is_client 90000002 (sample_floor sample_session)" "\<not> IsShutdown (item_env sample_traders)"
    by (simp_all add: is_client_def sample_floor_def sample_traders_def sample_server_def)
  then show ?thesis
    using logout_leaves_dangling_session [OF sample_at_table [OF ids] _ sample_tradable] by fastforce
qed

end
