(* ===== verification/Timers.thy ===== *)
theory Timers
  imports Prelude
begin

text \<open>
  The timers of the server, \<open>eve-core/utils/timer.cpp\<close>: a clock in milliseconds that wraps after 32 bits, and timers
  that are polled against it.
\<close>

unbundle bit_operations_syntax

section \<open>The clock\<close>

text \<open>The two statics of the file: the current time and the reading of the system clock it was taken at.\<close>

record tick_clock =
  currentTime :: int32
  lastTime :: int64

text \<open>\<open>tickCount\<close> is what \<open>GetSteadyTime\<close> returns.\<close>

definition SetCurrentTime :: "int64 \<Rightarrow> tick_clock \<Rightarrow> tick_clock" where
  "SetCurrentTime tickCount c =
     \<lparr>currentTime = (if lastTime c = 0 then 0 else ucast (ucast (currentTime c) + (tickCount - lastTime c))),
      lastTime = tickCount\<rparr>"

section \<open>Timers\<close>

record timer =
  m_enabled :: bool
  m_useAcurateTiming :: bool
  m_duration :: int32
  m_startTime :: int32
  m_setAtTrigger :: int32

definition Timer_at :: "int32 \<Rightarrow> int32 \<Rightarrow> bool \<Rightarrow> timer" where
  "Timer_at startAt time accurate =
     \<lparr>m_enabled = (time \<noteq> 0), m_useAcurateTiming = accurate, m_duration = time, m_startTime = startAt, m_setAtTrigger = time\<rparr>"

definition Timer_new :: "int32 \<Rightarrow> int32 \<Rightarrow> bool \<Rightarrow> timer" where
  "Timer_new now time accurate =
     \<lparr>m_enabled = (time \<noteq> 0), m_useAcurateTiming = accurate, m_duration = time, m_startTime = now, m_setAtTrigger = time\<rparr>"

definition Timer_Check :: "int32 \<Rightarrow> bool \<Rightarrow> timer \<Rightarrow> bool \<times> timer" where
  "Timer_Check now reset t =
     (if m_enabled t \<and> now - m_startTime t > m_duration t
      then (True,
            if reset
            then t\<lparr>m_startTime := if m_useAcurateTiming t then m_startTime t + m_duration t else now,
                   m_duration := m_setAtTrigger t\<rparr>
            else t\<lparr>m_enabled := False\<rparr>)
      else (False, t))"

definition Timer_Start :: "int32 \<Rightarrow> int32 \<Rightarrow> bool \<Rightarrow> timer \<Rightarrow> timer" where
  "Timer_Start now setTimerTime changeResetTimer t =
     (if setTimerTime = 0 then t\<lparr>m_enabled := False\<rparr>
      else
        let t1 = (if m_enabled t then t\<lparr>m_duration := setTimerTime\<rparr>
                  else t\<lparr>m_startTime := now, m_duration := setTimerTime\<rparr>);
            t2 = (if changeResetTimer then t1\<lparr>m_setAtTrigger := setTimerTime\<rparr> else t1)
        in t2\<lparr>m_enabled := True\<rparr>)"

definition SetTimer :: "int32 \<Rightarrow> int32 \<Rightarrow> timer \<Rightarrow> timer" where
  "SetTimer now setTimerTime t =
     (let t1 = (if m_enabled t then t else t\<lparr>m_startTime := now, m_enabled := True\<rparr>)
      in if setTimerTime \<noteq> 0 then t1\<lparr>m_duration := setTimerTime, m_setAtTrigger := setTimerTime\<rparr> else t1)"

definition GetRemainingTime :: "int32 \<Rightarrow> timer \<Rightarrow> int32" where
  "GetRemainingTime now t =
     (if m_enabled t \<and> now - m_startTime t < m_duration t then m_startTime t + m_duration t - now else 0)"

definition SetAtTrigger :: "int32 \<Rightarrow> bool \<Rightarrow> timer \<Rightarrow> timer" where
  "SetAtTrigger time enableIfDisabled t =
     (let t1 = t\<lparr>m_setAtTrigger := time\<rparr>
      in if \<not> m_enabled t \<and> enableIfDisabled then t1\<lparr>m_enabled := True\<rparr> else t1)"

definition Trigger :: "int32 \<Rightarrow> timer \<Rightarrow> timer" where
  "Trigger now t =
     t\<lparr>m_enabled := True, m_duration := m_setAtTrigger t, m_startTime := now - m_setAtTrigger t - 1\<rparr>"

definition Disable :: "timer \<Rightarrow> timer" where
  "Disable t = t\<lparr>m_enabled := False\<rparr>"

section \<open>When timers fire\<close>

lemma elapsed_across_wrap:
  assumes "k < 2 ^ 32"
  shows "unat (t + of_nat k - t :: int32) = k"
  using assms by (simp add: unsigned_of_nat take_bit_nat_eq_self)

lemma started_timer:
  assumes "d \<noteq> 0" "\<not> m_enabled t"
  shows "m_enabled (Timer_Start now d c t)" "m_startTime (Timer_Start now d c t) = now" "m_duration (Timer_Start now d c t) = d"
  using assms by (simp_all add: Timer_Start_def Let_def)

lemma Timer_Check_iff:
  assumes "m_enabled t" "m_startTime t = s" "k < 2 ^ 32"
  shows "fst (Timer_Check (s + of_nat k) r t) \<longleftrightarrow> unat (m_duration t) < k"
  using assms elapsed_across_wrap [of k s] by (simp add: Timer_Check_def word_less_nat_alt)

lemma disabled_never_fires: "\<not> m_enabled t \<Longrightarrow> Timer_Check now r t = (False, t)"
  by (simp add: Timer_Check_def)

lemma Trigger_fires:
  assumes "unat (m_setAtTrigger t) < 2 ^ 32 - 1"
  shows "fst (Timer_Check now r (Trigger now t))"
proof -
  have "now - (now - m_setAtTrigger t - 1) = m_setAtTrigger t + 1" by simp
  moreover have "unat (m_setAtTrigger t + 1) = unat (m_setAtTrigger t) + 1"
    using assms by (subst unat_add_lem [THEN iffD1]) (simp_all add: word_less_nat_alt)
  ultimately show ?thesis by (simp add: Timer_Check_def Trigger_def word_less_nat_alt)
qed

text \<open>
  A clock that is set back, which \<open>GetSteadyTime\<close> allows because it reads the system clock: the difference wraps to a
  large number, so that timers fire at once.
\<close>

lemma clock_set_back_word:
  fixes s d :: int32
  assumes "0 < k" "k < 2 ^ 32" "unat d < 2 ^ 32 - k"
  shows "d < s - of_nat k - s"
proof -
  have "of_nat (2 ^ 32 - k) = (of_nat (2 ^ 32) - of_nat k :: int32)" using assms by (intro of_nat_diff) simp
  then have behind: "s - of_nat k - s = of_nat (2 ^ 32 - k)" by simp
  have "unat (of_nat (2 ^ 32 - k) :: int32) = 2 ^ 32 - k"
    using assms by (simp add: unsigned_of_nat take_bit_nat_eq_self del: of_nat_diff)
  then show ?thesis using assms unfolding behind word_less_nat_alt by linarith
qed

lemma ucast_ucast_plus: "ucast (ucast x + y :: int64) = (x :: int32) + ucast y"
proof -
  have "take_bit 32 (take_bit 64 (take_bit 32 a + b)) = take_bit 32 (a + take_bit 64 b)" for a b :: int
  proof -
    have "take_bit 32 (take_bit 64 (take_bit 32 a + b)) = take_bit 32 (take_bit 32 a + b)" by (simp add: take_bit_take_bit)
    also have "\<dots> = (a + b) mod 2 ^ 32" by (simp only: take_bit_eq_mod mod_add_left_eq)
    also have "\<dots> = (a + (b mod 2 ^ 64) mod 2 ^ 32) mod 2 ^ 32" by (simp add: mod_mod_cancel mod_add_right_eq)
    also have "\<dots> = take_bit 32 (a + take_bit 64 b)" by (simp only: take_bit_eq_mod mod_add_right_eq)
    finally show ?thesis .
  qed
  then show ?thesis by transfer simp
qed

lemma SetCurrentTime_moves:
  assumes "lastTime c \<noteq> 0"
  shows "currentTime (SetCurrentTime tick c) = currentTime c + ucast (tick - lastTime c)"
proof -
  have "ucast (ucast (currentTime c) + (tick - lastTime c) :: int64) = currentTime c + ucast (tick - lastTime c)"
    by (rule ucast_ucast_plus)
  then show ?thesis using assms by (simp add: SetCurrentTime_def)
qed

lemma ucast_minus_of_nat: "ucast (- of_nat k :: int64) = (- of_nat k :: int32)"
  by transfer (simp add: take_bit_take_bit)

text \<open>A timer that keeps its rate: however late it is polled, its start moves by whole periods.\<close>

primrec polls :: "int32 list \<Rightarrow> timer \<Rightarrow> nat \<times> timer" where
  "polls [] t = (0, t)"
| "polls (now # nows) t =
     (case Timer_Check now True t of (fired, t1) \<Rightarrow> (case polls nows t1 of (n, t2) \<Rightarrow> (if fired then Suc n else n, t2)))"

lemma accurate_Check:
  assumes "m_enabled t" "m_useAcurateTiming t" "m_setAtTrigger t = m_duration t"
  shows "snd (Timer_Check now True t) =
    (if fst (Timer_Check now True t) then t\<lparr>m_startTime := m_startTime t + m_duration t\<rparr> else t)"
  using assms by (cases t) (simp add: Timer_Check_def)

lemma accurate_polls:
  assumes "m_enabled t" "m_useAcurateTiming t" "m_setAtTrigger t = m_duration t"
  shows "snd (polls nows t) = t\<lparr>m_startTime := m_startTime t + of_nat (fst (polls nows t)) * m_duration t\<rparr>"
  using assms
proof (induction nows arbitrary: t)
  case Nil
  then show ?case by simp
next
  case (Cons now nows)
  obtain fired t1 where check: "Timer_Check now True t = (fired, t1)" by fastforce
  then have t1: "t1 = (if fired then t\<lparr>m_startTime := m_startTime t + m_duration t\<rparr> else t)"
    using accurate_Check [OF Cons.prems, of now] by simp
  have "snd (polls nows t1) = t1\<lparr>m_startTime := m_startTime t1 + of_nat (fst (polls nows t1)) * m_duration t1\<rparr>"
    using Cons.prems by (intro Cons.IH) (simp_all add: t1)
  then show ?case
    by (auto simp: check t1 split: prod.splits) (simp_all add: algebra_simps)
qed

lemma period_count:
  fixes d m k k0 :: nat
  assumes "0 < d" "m = (k0 - 1) div d" "k0 \<le> k" "k \<le> k0 + d"
  shows "(k - 1) div d = (if Suc m * d < k then Suc m else m)"
proof -
  have m: "m * d \<le> k0 - 1" "k0 - 1 < Suc m * d"
    using assms(1) dividend_less_div_times [of d "k0 - 1"] by (simp_all add: assms(2) algebra_simps)
  show ?thesis
  proof (cases "Suc m * d < k")
    case True
    then have "k - 1 < Suc (Suc m) * d" "Suc m * d \<le> k - 1" using m assms(3,4) by simp_all
    then have "(k - 1) div d = Suc m" by (intro div_nat_eqI) (simp_all add: algebra_simps)
    then show ?thesis using True by simp
  next
    case False
    then have "k - 1 < Suc m * d" "m * d \<le> k - 1" using m assms(1,3) by simp_all
    then have "(k - 1) div d = m" by (intro div_nat_eqI) (simp_all add: algebra_simps)
    then show ?thesis using False by simp
  qed
qed

text \<open>Polled at least once per period, it fires once for every period that has passed, also across the wrap.\<close>

lemma polls_rate:
  assumes "m_enabled t" "m_useAcurateTiming t" "m_setAtTrigger t = m_duration t" "0 < unat (m_duration t)"
    and "m_startTime t = s + of_nat (m * unat (m_duration t))" "m = (k0 - 1) div unat (m_duration t)"
    and "successively (\<lambda>x y. x \<le> y \<and> y \<le> x + unat (m_duration t)) (k0 # ks)" "\<forall>k \<in> set ks. k < 2 ^ 32"
  shows "m + fst (polls (map (\<lambda>k. s + of_nat k) ks) t) = (last (k0 # ks) - 1) div unat (m_duration t)"
  using assms
proof (induction ks arbitrary: t m k0)
  case Nil
  then show ?case by simp
next
  case (Cons k ks)
  let ?d = "unat (m_duration t)"
  have k: "k0 \<le> k" "k \<le> k0 + ?d" "k < 2 ^ 32" using Cons.prems(7,8) by simp_all
  have "m * ?d \<le> k0 - 1" unfolding Cons.prems(6) by (rule div_times_less_eq_dividend)
  then have md: "m * ?d \<le> k" using k(1) by linarith
  define fired where "fired = (Suc m * ?d < k)"
  have "of_nat (m * ?d + (k - m * ?d)) = (of_nat (m * ?d) + of_nat (k - m * ?d) :: int32)" by (rule of_nat_add)
  then have reading: "s + of_nat k = s + of_nat (m * ?d) + of_nat (k - m * ?d)" using md by (simp only: le_add_diff_inverse add.assoc)
  have "fst (Timer_Check (s + of_nat k) True t) \<longleftrightarrow> ?d < k - m * ?d"
    unfolding reading using k(3) by (intro Timer_Check_iff [OF Cons.prems(1,5)]) simp
  then have fires: "fst (Timer_Check (s + of_nat k) True t) = fired" using md by (simp add: fired_def less_diff_conv)
  let ?t = "if fired then t\<lparr>m_startTime := m_startTime t + m_duration t\<rparr> else t"
  have check: "Timer_Check (s + of_nat k) True t = (fired, ?t)"
    using accurate_Check [OF Cons.prems(1-3), of "s + of_nat k"] fires by (simp add: prod_eq_iff)
  let ?m = "if fired then Suc m else m"
  have start: "m_startTime ?t = s + of_nat (?m * ?d)"
    using Cons.prems(5) by (simp add: algebra_simps)
  have count: "?m = (k - 1) div ?d"
    using period_count [OF Cons.prems(4,6) k(1,2)] by (simp add: fired_def)
  have dur: "m_duration ?t = m_duration t" by simp
  have gaps: "successively (\<lambda>x y. x \<le> y \<and> y \<le> x + ?d) (k # ks)" using Cons.prems(7) by simp
  have "?m + fst (polls (map (\<lambda>k. s + of_nat k) ks) ?t) = (last (k # ks) - 1) div ?d"
  proof (rule Cons.IH [of ?t ?m k, unfolded dur])
    show "m_enabled ?t" "m_useAcurateTiming ?t" "m_setAtTrigger ?t = m_duration t" using Cons.prems(1-3) by simp_all
    show "\<forall>k \<in> set ks. k < 2 ^ 32" using Cons.prems(8) by simp
  qed (rule Cons.prems(4) start count gaps)+
  then show ?case using check by (auto split: prod.splits if_splits)
qed

section \<open>Main results\<close>

text \<open>C22. A timer that keeps its rate does: one with accurate timing, as those of the targets and of the stamp are, that is
  polled at least once per period fires once for every period that has passed, however unevenly it is polled and
  wherever the clock of 32 bits wraps in between. (A period has passed when it is exceeded.)\<close>

theorem accurate_timer_keeps_rate:
  assumes "m_enabled t" "m_useAcurateTiming t" "m_setAtTrigger t = m_duration t" "m_duration t \<noteq> 0"
    and "successively (\<lambda>x y. x \<le> y \<and> y \<le> x + unat (m_duration t)) (0 # ks)" "\<forall>k \<in> set ks. k < 2 ^ 32"
  shows "fst (polls (map (\<lambda>k. m_startTime t + of_nat k) ks) t) = (last (0 # ks) - 1) div unat (m_duration t)"
  using polls_rate [of t "m_startTime t" 0 0 ks] assms by (simp add: unat_gt_0)

theorem accurate_timer_keeps_rate_witness:
  "fst (polls (map (\<lambda>k. 0xFFFFFF9C + of_nat k) [84, 190, 400, 590, 800]) (Timer_at 0xFFFFFF9C 250 True)) = 3"
  using accurate_timer_keeps_rate [of "Timer_at 0xFFFFFF9C 250 True" "[84, 190, 400, 590, 800]"]
  by (simp add: Timer_at_def del: polls.simps)

text \<open>C23. A clock that is set back fires the timers: \<open>GetSteadyTime\<close> reads the system clock, and when that goes back by
  some milliseconds, a timer that was started at the last reading fires at the next one, whatever its duration, unless it
  is so long that it reaches up to the end of the range of the clock.\<close>

theorem clock_set_back_fires:
  assumes "lastTime c \<noteq> 0" "0 < k" "k < 2 ^ 32" "m_enabled t" "m_startTime t = currentTime c" "unat (m_duration t) < 2 ^ 32 - k"
  shows "fst (Timer_Check (currentTime (SetCurrentTime (lastTime c - of_nat k) c)) reset t)"
proof -
  have "currentTime (SetCurrentTime (lastTime c - of_nat k) c) = currentTime c - of_nat k"
    using SetCurrentTime_moves [OF assms(1)] by (simp add: ucast_minus_of_nat)
  then show ?thesis
    using clock_set_back_word [OF assms(2,3,6), of "currentTime c"] assms(4,5) by (simp add: Timer_Check_def)
qed

theorem clock_set_back_fires_witness:
  "fst (Timer_Check (currentTime (SetCurrentTime 1700000000000 \<lparr>currentTime = 5000, lastTime = 1700000001000\<rparr>)) False
     (Timer_Start 5000 3600000 True (Timer_new 0 0 False)))"
  using clock_set_back_fires [of "\<lparr>currentTime = 5000, lastTime = 1700000001000\<rparr>" 1000
      "Timer_Start 5000 3600000 True (Timer_new 0 0 False)" False]
  by (simp add: Timer_Start_def Timer_new_def Let_def)

end
