(* ===== verification/Spec2Isabelle.thy ===== *)
theory Spec2Isabelle
  imports Dispatch Trade Timers
begin

text \<open>
  EVEmu is a server for the client of EVE Online (release Crucible). This development models
  the path on which a client reaches the server, from the bytes of a TCP connection to the
  method of a service, the way back of its answer, the state that the server keeps on that path, and the
  items of the game, on which most services work:

    bytes from the socket --- \<open>Tcp\<close> ---> frames --- \<open>Connection\<close> ---> Python objects
    --- \<open>Marshal\<close>, \<open>Unmarshal\<close> ---> packets --- \<open>PyPacket\<close> ---> the handshake
    --- \<open>Handshake\<close>, \<open>Login\<close> ---> a client with session variables (\<open>ClientSession\<close>) whose
    packets --- \<open>Dispatch\<close> ---> are calls of services or bound objects (\<open>Binding\<close>, \<open>References\<close>)
    --- \<open>Calls\<close> ---> methods.

  It is a shallow embedding: each definition translates one function, method or loop of the
  C++ source and keeps its name where Isabelle allows that; the definitions are executable.

  \<^bold>\<open>Theories and sources\<close> (paths below \<open>src/src\<close>).

  \<^item> \<open>Prelude\<close>: bytes, little-endian words as the x86-64 build lays them out, the outcomes
    of a call (\<open>fault\<close>, \<open>result\<close>) and the monad that sequences calls. \<open>Inl Ret_null\<close> is the
    regular error path of the code; the other faults end the server.
  \<^item> \<open>Buffers\<close>: \<open>eve-core/utils/Buffer.h\<close> and \<open>npowof2\<close>. The buffer is a capacity, a size and
    the bytes; \<open>realloc\<close> leaves junk, an argument. Writing in pieces is shown to refine
    appending to a list, and the capacity policy to keep its bounds.
  \<^item> \<open>PyRep\<close>: the object model of \<open>eve-common/python/PyRep.h\<close> and \<open>PyRep.cpp\<close>: one datatype for
    the classes, the hashes, tuples and dictionaries. A dictionary is a list of entries that
    is searched by hash; the locale \<open>keyed_store\<close> states what its callers rely on and is
    interpreted on \<open>Dict_SetItem\<close>. Doubles are their 64 bits.
  \<^item> \<open>StringTable\<close>: \<open>eve-common/marshal/EVEMarshalStringTable.cpp\<close>, the whole table.
  \<^item> \<open>ZeroRLE\<close>: \<open>SaveRLE\<close> and \<open>LoadRLE\<close> of the marshaller, proved inverse and bounded.
  \<^item> \<open>DBRow\<close>: the layout of packed database rows (\<open>eve-core/database/dbtype.cpp\<close>,
    \<open>eve-common/python/classes/PyDatabase.cpp\<close>).
  \<^item> \<open>Marshal\<close>, \<open>Unmarshal\<close>: \<open>eve-common/marshal/EVEMarshal.cpp\<close> and \<open>EVEUnmarshal.cpp\<close>, every
    visit and every loader, with the depth limit and the store of shared objects.
  \<^item> \<open>RoundTrip\<close>: what is marshalled is read back (\<open>wire_ok\<close> says of which objects, \<open>wire_norm\<close>
    how they change: the two encodings of long numbers, for example, are read as one class).
  \<^item> \<open>PyPacket\<close>: \<open>eve-common/python/PyPacket.cpp\<close>: addresses, packets, call and notification
    streams.
  \<^item> \<open>Tcp\<close>: \<open>eve-core/network/TCPConnection.cpp\<close>: states, send queue with partial sends,
    receive loop, worker loop. The socket answers from a list, one answer per call; an
    execution is any sequence of the operations and of completed turns of the worker, which hold one mutex.
  \<^item> \<open>Connection\<close>: \<open>StreamPacketizer.cpp\<close>, \<open>Deflate.cpp\<close>, \<open>EVETCPConnection.cpp\<close>. zlib is a record
    of two functions; \<open>zlib_ok\<close> is what its manual promises. The locale \<open>packet_queue\<close> is the
    contract of framing and popping.
  \<^item> \<open>Handshake\<close>: \<open>eve-common/network/EVESession.cpp\<close>: the handler of the next object is the state.
    The generated decoders and the virtual functions of the subclass are a record \<open>hooks\<close>;
    \<open>session_step\<close> is the step relation, \<open>logged\<close> adds a log of the verifications to any hooks, and
    \<open>recorded\<close> one with the objects and states; the locale \<open>hooks_view\<close> says that hooks that answer alike
    on a part of the state have alike runs, and its interpretation makes the first log a view of the second.
  \<^item> \<open>Sha\<close>: \<open>eve-common/auth/ShaModule.h\<close> with the algorithm of FIPS 180-4 as its reference
    (\<open>SHA1\<close>). \<open>view\<close> is the simulation between the six registers of the unravelled rounds and
    the five chaining values, \<open>absorbed\<close> the invariant of the streaming interface.
  \<^item> \<open>Password\<close>: \<open>eve-common/auth/PasswordModule.cpp\<close>.
  \<^item> \<open>ClientSession\<close>: \<open>eve-server/ClientSession.cpp\<close>, and the copy that a client keeps of its
    session variables; \<open>in_step\<close> is the simulation between the two.
  \<^item> \<open>Login\<close>: the verifications of \<open>eve-server/Client.cpp\<close> and the account functions of
    \<open>eve-server/ServiceDB.cpp\<close>; the answers of the database are a record of functions over its
    state. \<open>client_hooks\<close> makes them hooks of the handshake; \<open>client_step\<close> are the steps of such a session
    and the changes that others make to the database.
  \<^item> \<open>Calls\<close>: \<open>eve-server/services/Callable.h\<close>, \<open>Callable.cpp\<close> and the dispatch loop of \<open>Service.h\<close>:
    signatures, validation and conversion of arguments, the choice of a handler. \<open>comp\<close> is a
    computation over a state that a fault ends or a C++ exception leaves, with \<open>ccatch\<close> for
    the handlers of the code.
  \<^item> \<open>Binding\<close>: \<open>eve-server/services/ServiceManager.cpp\<close> and \<open>BoundService.h\<close>: bound objects in a
    heap, the table of their ids, the references that clients hold, and what the 22 bindable
    services do with bind parameters. The record \<open>world\<close> is the state, \<open>game\<close> the rest of the
    server: its methods, its static data and the generated decoders are functions there.
  \<^item> \<open>References\<close>: the invariant of that layer (\<open>layer_inv\<close>) and its abstraction, the pairs of a
    client and an id that are granted; \<open>layer_step\<close> are the operations as events, \<open>layered\<close> says of a
    computation that it is a run of them.
  \<^item> \<open>Dispatch\<close>: \<open>eve-common/network/EVEPktDispatch.cpp\<close> and the packet handlers of
    \<open>eve-server/Client.cpp\<close>: every packet type, calls, answers, exceptions, session changes, pings
    and the notification that releases bound objects.
  \<^item> \<open>Items\<close>: \<open>eve-server/inventory/InventoryItem.cpp\<close>, \<open>Inventory.cpp\<close>, \<open>ItemFactory.cpp\<close>, \<open>ItemDB.cpp\<close>: the
    objects of items in a heap, the cache of the factory, the contents of containers with their index by
    flag, the rows of the database, and every operation that moves, gives, splits, merges, stacks
    or deletes items. What loads an item that is not in the cache is a function of \<open>item_server\<close>.
  \<^item> \<open>Sorting\<close>: the two exchange sorts of items; the locales \<open>exchange_sort\<close> and \<open>exchange_loop\<close> say when such
    a loop ends and that it is the stable sort by a rank, and are interpreted on both.
  \<^item> \<open>Contents\<close>: the queries of a container and the invariant \<open>contents_ok\<close> that ties contents, index, places
    and cache together, with what taking out and putting in does to it; \<open>Moves\<close>: moves and deletions;
    \<open>Stacks\<close>: quantities, new items, splits and merges, and \<open>item_step\<close>, the operations as steps, with the
    interpretation of \<open>bounded_system\<close> that carries the invariant along every run.
  \<^item> \<open>Timers\<close>: \<open>eve-core/utils/timer.cpp\<close>, the clock of 32 bits and the timers that are polled against it;
    timers with accurate timing keep their rate (\<open>accurate_timer_keeps_rate\<close>).
  \<^item> \<open>Floats\<close>: the values of \<open>float\<close> and \<open>double\<close>, exact, with rounding to nearest even, infinities and NaN;
    \<open>Accounts\<close>: \<open>eve-server/account/AccountService.cpp\<close>, \<open>AccountDB.cpp\<close> and the balance of
    \<open>eve-server/character/Character.cpp\<close>: wallets, transfers, taxes, gifts and the journal. \<open>displays\<close> is the
    refinement between wallets and an account book in whole ISK.
  \<^item> \<open>Trade\<close>: \<open>eve-server/station/TradeService.cpp\<close>: the sessions of trades between players, on top of \<open>Stacks\<close> and
    \<open>Accounts\<close>; a \<open>deal\<close> is a computation over all three that a fault ends or an exception leaves. \<open>settled\<close> is the
    step that exchanges nothing, \<open>each_item_delivers\<close> the loop over the items of a session.
  \<^item> \<open>Spec2Isabelle\<close>: the composition of the path up to the login.

  Each theory ends with its main results; the lemmas before them are the library that
  carries the proofs.

  \<^bold>\<open>What is shown.\<close> The texts before the theorems say under which conditions each holds; what
  follows is the outline. Objects that the wire format carries come out at the receiver as the sender
  queued them, whatever the pieces in which the socket hands them over, compressed or not
  (\<open>marshal_unmarshal\<close>, \<open>queued_objects_arrive\<close>, \<open>packet_survives_wire\<close>). No input makes the
  unmarshaller or the session run for ever (\<open>unmarshal_returns\<close>, \<open>pop_packet_returns\<close>). The TCP
  connection never uses a socket that is not there, and its worker comes round as soon as the socket stops
  delivering and takes what is queued or fails (\<open>tcp_never_faults\<close>). No packet is delivered before the five
  verifications of the handshake succeeded in order (\<open>no_packet_before_login\<close>), none before a challenge of
  this peer passed the login against the row of the database (\<open>no_packet_without_account\<close>,
  \<open>login_needs_credentials\<close>; plain passwords are compared as C strings, \<open>nul_password_logs_in\<close>), and a client
  that follows the protocol gets through (\<open>handshake_completes\<close>). The hash of passwords is the
  one of the standard for any way of cutting the message (\<open>sha_streaming\<close>). The copy that the
  client holds of its session agrees with the server after every change notification
  (\<open>client_copy_in_step\<close>). A call reaches the first handler that fits, with arguments of the
  classes that it asks for, and the next ones only when a method lets an \<open>invalid_argument\<close> out
  (\<open>overload_resolution\<close>). As long as every client that ends had its character loaded and the broker of
  orbitals makes no object, a bound object is reached by the clients that were granted it and by no other
  (\<open>bound_calls_follow_grants\<close>), the layer stays consistent whatever packets come
  (\<open>packets_keep_layer\<close>) and a logout leaves nothing behind (\<open>logout_releases_everything\<close>). A call is
  answered whenever the server comes back from it, as it does when its method ends (\<open>calls_are_answered\<close>). Items are in one container at a time and the
  index by flag agrees with the contents through every run of the operations of \<open>item_step\<close>
  (\<open>items_stay_filed\<close>), moves put them where they say (\<open>moves_put_items_in_place\<close>), and splits and merges
  of no more than there is conserve quantities (\<open>split_conserves\<close>, \<open>merge_conserves\<close>).
  Wallets keep a finite balance between zero and the cap (\<open>wallets_stay_in_bounds\<close>) and gifts of whole amounts
  are what an account book says (\<open>gift_refines_book\<close>).
  In a trade nothing changes hands before both sides accepted the same terms (\<open>exchange_needs_consent\<close>), and then
  everything does (\<open>trade_completes\<close>); an abort gives everything back (\<open>abort_gives_back\<close>).
  The theorems of kind error, and those beside the properties that the findings of the manifest name, show
  what goes wrong where the code does not do what it means to.

  \<^bold>\<open>Bounds and fuel.\<close> Machine integers have their width (\<open>int32\<close> is a 32-bit word). Loops are
  recursive functions that terminate by the length of what is left. Fuel is used in four
  places: \<open>load_rep\<close> gets one unit for each byte of the stream, since every opcode consumes a
  byte; \<open>pop_loop\<close> one for each packet in the queue, since every turn pops one; \<open>inflate_loop\<close>
  doubles its buffer and stops at \<open>2 ^ 47\<close>, the end of the address space, so 47 suffice;
  \<open>GetAccountInformation\<close> calls itself after creating an account and gets as many calls as its
  caller says, since its return depends on the database. That the first three are enough is
  proved: \<open>Diverge\<close>, which stands for exhausted fuel, is never the result. The indices of \<open>SaveRLE\<close> and
  \<open>LoadRLE\<close>, which are \<open>int\<close> in the code, are natural numbers: the two agree for rows of less than \<open>2 ^ 31\<close>
  bytes.

  \<^bold>\<open>Not modelled.\<close> Code that is generated at build time (packet classes from XML) and
  third-party libraries (zlib, utf8cpp, MySQL) are arguments. Logging, dumping, threads as
  such, sockets and the reading of the system clock are left out; reference counts are left out because values are
  immutable here, with the places where sharing is visible written out (the tuples of the
  session variables, the objects shared in a marshalled stream). Of the game, the
  items, inventories, accounts and trades are modelled, without attributes, positions, volumes and the subclasses of
  items (a new item is a plain one: the temporary charges of missiles are left out, and its row is always stored
  when its type can be spawned; of the contents of a container that changes hands, the lookups of items in space and
  the insurance of ships are left out); solar systems, movement, NPCs, corporations and the market are not: they are clients
  of the database with in-memory caches.
\<close>

section \<open>From the wire to the account\<close>

lemma session_status_small:
  assumes "payload p = PyNone" "named_payload p = PyNull" "contextKey p = PyNull" "msg_type p = SESSIONINITIALSTATENOTIFICATION"
    and "type_string p = str ''macho.SessionInitialStateNotification''"
    and "source p = PyAddress_new\<lparr>addr_type := Node, objectID := i, callID := 0\<rparr>"
    and "dest p = PyAddress_new\<lparr>addr_type := Client, objectID := j, callID := 0\<rparr>"
  shows "\<exists>bs. Marshal (fst (PyPacket_Encode p)) = Inr bs \<and> length bs < 0x2000"
proof -
  let ?t = "str ''macho.SessionInitialStateNotification''"
  let ?u = "if userid p = 0 then [1] else VisitInteger (userid p)"
  have t: "c_str ?t = ?t" "length (VisitString ?t) \<le> 100"
    by (simp_all add: c_str_def VisitString_def Let_def sized_def PutSizeEx_def)
  have n: "VisitString (str ''macho.MachoAddress'') = [0x11, 48]"
    unfolding VisitString_def address_index by simp
  have a: "visit d (PyAddress_Encode (PyAddress_new\<lparr>addr_type := Node, objectID := o', callID := 0\<rparr>)) =
      put ([0x17, 0x11, 48, 0x14, 4, 9] @ SaveVarInteger o' @ [1, 1])"
    "visit d (PyAddress_Encode (PyAddress_new\<lparr>addr_type := Client, objectID := o', callID := 0\<rparr>)) =
      put ([0x17, 0x11, 48, 0x14, 4, 6, 2] @ SaveVarInteger o' @ [1, 1])" if "d < 127" for o' d
    using that by (simp_all add: PyAddress_Encode_def PyAddress_new_def string_or_none_def long_or_none_def kMaxDepth_def
        tuple_header_def PutSizeEx_def VisitInteger_def addr_code_def le_bytes_4 n del: str_Cons)
  have ne: "PyAddress_Encode x \<noteq> PyNull" for x
    by (simp add: PyAddress_Encode_def)
  have "visit 0 (fst (PyPacket_Encode p)) =
      put ([0x17] @ VisitString ?t @ [0x14, 7] @ VisitInteger (msg_code SESSIONINITIALSTATENOTIFICATION)
        @ [0x17, 0x11, 48, 0x14, 4, 9] @ SaveVarInteger i @ [1, 1] @ [0x17, 0x11, 48, 0x14, 4, 6, 2] @ SaveVarInteger j @ [1, 1]
        @ ?u @ [1, 1, 1])"
    using assms ne by (simp add: PyPacket_Encode_def kMaxDepth_def a t(1) tuple_header_def PutSizeEx_def del: str_Cons)
  moreover note t(2) length_VisitInteger [of "msg_code SESSIONINITIALSTATENOTIFICATION"] length_VisitInteger [of "userid p"]
    length_SaveVarInteger [of i] length_SaveVarInteger [of j]
  ultimately show ?thesis
    using Marshal_put by (fastforce simp: stream_header_def)
qed

lemma Marshal_small:
  "\<exists>bs. Marshal (PyInt i) = Inr bs \<and> length bs < 0x2000"
  "\<exists>bs. Marshal PyNone = Inr bs \<and> length bs < 0x2000"
  "\<exists>bs. Marshal (PyString (str ''OK CC'')) = Inr bs \<and> length bs < 0x2000"
proof -
  show "\<exists>bs. Marshal (PyInt i) = Inr bs \<and> length bs < 0x2000"
    using Marshal_put [of "PyInt i" "VisitInteger i"] length_VisitInteger [of i] by (simp add: stream_header_def)
  show "\<exists>bs. Marshal PyNone = Inr bs \<and> length bs < 0x2000"
    using Marshal_put [of PyNone "[Op_PyNone]"] by (simp add: stream_header_def)
  have "length (VisitString (str ''OK CC'')) \<le> 100"
    by (simp add: VisitString_def Let_def sized_def PutSizeEx_def)
  then show "\<exists>bs. Marshal (PyString (str ''OK CC'')) = Inr bs \<and> length bs < 0x2000"
    using Marshal_put [of "PyString (str ''OK CC'')" "VisitString (str ''OK CC'')"] by (auto simp: stream_header_def)
qed

lemma VerifyFuncResult_ok:
  assumes "session_ok (python srv) (pSession cl)" "names_apart (python srv) login_names"
    and "encode_initial_state srv = (\<lambda>_ _. PyNone)" "encode_ack srv = (\<lambda>_. PyNone)"
  shows "\<exists>q cl'. VerifyFuncResult srv cl = Inr (True, q, cl') \<and> queueable z q"
proof -
  let ?e = "python srv"
  have u: "usable ?e (str ''address'')" "usable ?e (str ''languageID'')" "usable ?e (str ''userid'')" "usable ?e (str ''clientID'')"
    using assms(2) by (simp_all add: names_apart_def login_names_def del: str_Cons)
  have get: "\<exists>v. GetCurrent ?e s n = Inr v" if "session_ok ?e s" "usable ?e n" for s n
    using GetCurrent_entry [OF that] by blast
  obtain into s where i: "EncodeInitialState ?e (pSession cl) [] = Inr (s, into)" "session_ok ?e s"
    using EncodeInitialState_entry [OF assms(1)] by blast
  obtain a l i1 c1 i2 c2 where g: "GetCurrent ?e (pSession cl) (str ''address'') = Inr a"
    "GetCurrent ?e (pSession cl) (str ''languageID'') = Inr l" "GetCurrent ?e (pSession cl) (str ''userid'') = Inr i1"
    "GetCurrent ?e (pSession cl) (str ''clientID'') = Inr c1" "GetCurrent ?e s (str ''userid'') = Inr i2"
    "GetCurrent ?e s (str ''clientID'') = Inr c2"
    using get assms(1) i(2) u by meson
  define p where "p = PyPacket_new\<lparr>type_string := str ''macho.SessionInitialStateNotification'',
     msg_type := SESSIONINITIALSTATENOTIFICATION,
     source := PyAddress_new\<lparr>addr_type := Node, objectID := node_id srv, callID := 0\<rparr>,
     dest := PyAddress_new\<lparr>addr_type := Client, objectID := IntegerValue ?e c2, callID := 0\<rparr>,
     userid := ucast (IntegerValue ?e i2), payload := PyNone\<rparr>"
  have "VerifyFuncResult srv cl = Inr (True, [(PyNone, False), (fst (PyPacket_Encode p), True)], cl\<lparr>pSession := s\<rparr>)"
    using g i assms(3,4)
    by (simp add: VerifyFuncResult_def SendInitialSessionStatus_def GetCurrentString_def Client_GetUserID_def
        Client_GetClientID_def GetCurrentInt_def GetCurrentLong_def p_def Let_def del: str_Cons)
  moreover have "\<exists>bs. Marshal (fst (PyPacket_Encode p)) = Inr bs \<and> length bs < 0x2000"
    by (rule session_status_small [of _ "node_id srv" "IntegerValue ?e c2"]) (simp_all add: p_def PyPacket_new_def del: str_Cons)
  ultimately show ?thesis
    using Marshal_small(2) by (auto intro!: queueable_small)
qed

section \<open>Main results\<close>


text \<open>A server with one account, and the client of that account in a session that waits for it.\<close>

lemma bob_reachable:
  "(client_step env plain_zlib bob_server 1)\<^sup>*\<^sup>*
     (EVEClientSession_new (mNet waiting_session), bob_client, []) (waiting_session, bob_client, [Version])"
proof -
  let ?H = "recorded (client_hooks bob_server 1)" and ?s0 = "EVEClientSession_new (mNet waiting_session)"
  have conn: "mSockState (base (mNet ?s0)) = STATE_CONNECTED"
    by (simp add: EVEClientSession_new_def waiting_session_def TCPConnection_accepted_def)
  have "queueable plain_zlib [(PyInt 2, True)]"
    using Marshal_small(1) [of 2] by (auto intro!: queueable_small)
  then obtain s1 where s1: "queue_reps plain_zlib [(PyInt 2, True)] (?s0\<lparr>mPacketHandler := None\<rparr>) = Inr s1"
    by (auto simp: queueable_def)
  define s2 where "s2 = s1\<lparr>mPacketHandler := Some HandleVersion\<rparr>"
  have "Reset plain_zlib ?H ?s0 (bob_client, []) = Inr (s2, bob_client, [Version])"
    using conn s1 by (simp add: Reset_def recorded_def client_hooks_def GetVersion_def bob_server_def s2_def)
  then have "session_step env plain_zlib ?H (?s0, bob_client, []) (s2, bob_client, [Version])" by (rule session_step.reset)
  moreover have "s2\<lparr>mNet := mNet waiting_session\<rparr> = waiting_session"
    by (simp add: s2_def waiting_session_def)
  then have "session_step env plain_zlib ?H (s2, bob_client, [Version]) (waiting_session, bob_client, [Version])"
    using session_step.net [of env plain_zlib ?H s2 "(bob_client, [Version])" "mNet waiting_session"] by simp
  ultimately show ?thesis
    by (meson client_step.own converse_rtranclp_into_rtranclp r_into_rtranclp)
qed

lemma bob_accepts:
  "accepts env plain_zlib (recorded (client_hooks bob_server 1)) (bob_client, [Version])
     (exchanges (PyInt 5) (PyTuple [PyInt 5, PyInt 5, PyInt 5]) (PyInt 5) (PyInt 5) (PyInt 5))"
proof -
  obtain s where s: "setup_session bob_server (bob_challenge [] [1, 2, 3]) (account_of_row (str ''bob'') bob_row) (pSession bob_client) = Inr s"
      "session_ok (python bob_server) s"
    using setup_session_ok [OF bob_session(1) bob_names] by blast
  obtain q cl where v: "VerifyLogin bob_server 1 (bob_challenge [] [1, 2, 3]) bob_client = Inr (True, q, cl)" "pSession cl = s"
    using VerifyLogin_accepts [of bob_server 1 "bob_challenge [] [1, 2, 3]" bob_client "account_of_row (str ''bob'') bob_row" "()" s]
      bob_found bob_admitted s(1) by (auto simp: bob_client_def)
  have "q = [(PyInt 2, True), (PyNone, True)]"
  proof (rule VerifyLogin_admits [OF v(1)])
    fix a d s
    assume "q = [(PyInt 2, True), (encode_handshake bob_server (server_shake bob_server bob_client), True)]"
    then show ?thesis by (simp add: bob_server_def)
  qed
  then have q: "queueable plain_zlib q"
    using Marshal_small by (auto intro!: queueable_small)
  obtain q2 cl2 where f: "VerifyFuncResult bob_server cl = Inr (True, q2, cl2)" "queueable plain_zlib q2"
    using VerifyFuncResult_ok [of bob_server cl plain_zlib] s(2) v(2) bob_names by (auto simp: bob_server_def)
  have "queueable plain_zlib [(PyString (str ''OK CC''), True)]"
    using Marshal_small(3) by (auto intro!: queueable_small)
  moreover have "queueable plain_zlib []"
    by (simp add: queueable_def queue_reps_def)
  moreover have "decode_others bob_server = (\<lambda>_ _. True)" "decode_crypto bob_server = (\<lambda>_. Some (str ''placebo'', PyNone))"
    "decode_challenge bob_server = (\<lambda>_. Some (bob_challenge [] [1, 2, 3]))"
    by (simp_all add: bob_server_def)
  ultimately show ?thesis
    using v(1) q f
    by (simp add: exchanges_def recorded_def client_hooks_def login_decodes_def login_verify_def VerifyVersion_def
        VerifyVIPKey_def VerifyCrypto_def del: str_Cons)
qed


end
